(* ===== verification/Base.thy ===== *)
theory Base
  imports Main "HOL-Library.Word" "HOL-Library.Signed_Division" "HOL-Library.Monad_Syntax"
begin

text \<open>
  The prelude of the development: the C integer types the drivers use, the errno values
  they return, the run-time faults a C statement can have, the named collections of
  simplification rules, and the generic lemmas about words, lists and sums that the
  component theories share.
\<close>

unbundle bit_operations_syntax

section \<open>C integers and errno values\<close>

type_synonym u8 = "8 word"
type_synonym u16 = "16 word"
type_synonym u32 = "32 word"
type_synonym u64 = "64 word"

text \<open>
  A C \<open>int\<close> that holds a count, a position or a return value is an \<^typ>\<open>int\<close>; an
  \<open>int\<close> that the code shifts or masks is a \<^typ>\<open>u32\<close> read as two's complement.
  The errno values are those of the kernel's \<open>errno-base.h\<close> and \<open>errno.h\<close>.
\<close>

definition EPERM :: int where [simp]: "EPERM = 1"
definition EIO :: int where [simp]: "EIO = 5"
definition ENXIO :: int where [simp]: "ENXIO = 6"
definition ENOMEM :: int where [simp]: "ENOMEM = 12"
definition EBUSY :: int where [simp]: "EBUSY = 16"
definition ENODEV :: int where [simp]: "ENODEV = 19"
definition EINVAL :: int where [simp]: "EINVAL = 22"
definition ENODATA :: int where [simp]: "ENODATA = 61"
definition ETIMEDOUT :: int where [simp]: "ETIMEDOUT = 110"

text \<open>
  What C leaves undefined, and what crashes a kernel, is a value of its own: an access
  outside an array, a pointer outside the array it points into, a division by zero, a
  call through a null pointer.
\<close>

datatype c_fault = BadPointer | BadIndex int | DivByZero | NullCall

text \<open>A statement that may fault, followed by the rest of the function.\<close>

definition ebind :: "'e + 'a \<Rightarrow> ('a \<Rightarrow> 'e + 'b) \<Rightarrow> 'e + 'b" where
  "ebind r f = (case r of Inl e \<Rightarrow> Inl e | Inr x \<Rightarrow> f x)"

lemma ebind_simps [simp]:
  "ebind (Inl e) f = Inl e"
  "ebind (Inr x) f = f x"
  by (simp_all add: ebind_def)

lemma ebind_eq_Inr_iff: "ebind r f = Inr y \<longleftrightarrow> (\<exists>x. r = Inr x \<and> f x = Inr y)"
  by (cases r) simp_all

lemma ebind_eq_Inl_iff: "ebind r f = Inl e \<longleftrightarrow> r = Inl e \<or> (\<exists>x. r = Inr x \<and> f x = Inl e)"
  by (cases r) simp_all

section \<open>Collections\<close>

named_theorems io_simps \<open>rules that run register accesses on a world\<close>
named_theorems reg_simps \<open>constants and addresses of device registers\<close>
named_theorems inv_simps \<open>unfoldings of invariants\<close>

section \<open>Words\<close>

text \<open>
  A statement about the bits of a byte is eight statements: \<open>bit_word_eqI\<close> with this rule
  reduces a masking identity to them.
\<close>

lemma less_8_cases: "(n :: nat) < 8 \<longleftrightarrow>
    n = 0 \<or> n = 1 \<or> n = 2 \<or> n = 3 \<or> n = 4 \<or> n = 5 \<or> n = 6 \<or> n = 7"
  by auto

lemma and_ffffffff [simp]: "(x :: u32) AND 0xFFFFFFFF = x" "0xFFFFFFFF AND (x :: u32) = x"
proof -
  have "(0xFFFFFFFF :: u32) = -1"
    by simp
  then show "x AND 0xFFFFFFFF = x" "0xFFFFFFFF AND x = x"
    by (metis and.right_neutral, metis and.left_neutral)
qed

lemma ucast_u8_u32 [simp]: "(ucast (ucast (v :: u8) :: u32) :: u8) = v"
  "(ucast (drop_bit 8 (push_bit 8 (ucast v :: u32))) :: u8) = v"
  by (rule bit_word_eqI; auto simp: bit_simps less_8_cases)+

lemma push_bit_small_inj:
  fixes a b :: u32
  assumes "unat a < 8" "unat b < 8" "n \<le> 28" "push_bit n a = push_bit n b"
  shows "a = b"
proof -
  have pw: "2 ^ n \<le> (2 :: nat) ^ 28"
    using assms(3) by (rule power_increasing) simp
  have small: "unat c * 2 ^ n < 2 ^ 32" if "unat c < 8" for c :: u32
  proof -
    have "unat c * 2 ^ n \<le> 7 * 2 ^ 28"
      using that pw by (intro mult_le_mono) simp_all
    then show ?thesis by simp
  qed
  have up: "unat (push_bit n c) = unat c * 2 ^ n" if "unat c < 8" for c :: u32
  proof -
    have "unat (push_bit n c) = take_bit 32 (push_bit n (unat c))"
      by (simp add: unsigned_push_bit_eq)
    then show ?thesis
      using small [OF that] by (simp only: push_bit_nat_def take_bit_nat_eq_self)
  qed
  have "unat a * 2 ^ n = unat b * 2 ^ n"
    using assms(4) up [OF assms(1)] up [OF assms(2)] by metis
  then show ?thesis
    by (simp add: word_unat_eq_iff)
qed

text \<open>An index of type \<open>int\<close> against a length held in an unsigned word.\<close>

lemma nat_unat_less: "0 \<le> p \<Longrightarrow> nat p < unat w \<longleftrightarrow> p < uint w"
  by (simp only: unat_eq_nat_uint) linarith

lemma nat_unat_eq: "0 \<le> p \<Longrightarrow> nat p = unat w \<longleftrightarrow> p = uint w"
  by (simp only: unat_eq_nat_uint eq_nat_nat_iff uint_ge_0)

lemma nat_unat_pred: "0 \<le> p \<Longrightarrow> p < uint w \<Longrightarrow> nat p = unat w - 1 \<longleftrightarrow> p = uint w - 1"
  by (simp only: unat_eq_nat_uint) linarith

lemma sint_scast_u64: "sint (scast (a :: u32) :: u64) = sint a"
proof -
  have "- (2 ^ 63) \<le> sint a" "sint a < 2 ^ 63"
    using sint_greater_eq [of a] sint_less [of a] by simp_all
  then show ?thesis
    by (simp add: signed_scast_eq signed_take_bit_int_eq_self)
qed

lemma scast_u32_u64_inj: "scast (a :: u32) = (scast b :: u64) \<longleftrightarrow> a = b"
  by (metis sint_scast_u64 signed_word_eqI)


lemma unat_u32_less: "unat (x :: u32) < 2 ^ 32"
  using unsigned_less [where 'b = 32 and 'a = nat, of x] by simp

lemma mod_less_twice: "(a :: nat) < 2 * n \<Longrightarrow> a mod n = (if a < n then a else a - n)"
  by (simp add: mod_if)


lemma ucast_u32_u64_back: "(ucast (ucast (a :: u32) :: u64) :: u32) = a"
  by (rule bit_word_eqI) (auto simp: bit_simps dest: bit_imp_le_length)

lemma ucast_u32_u64_inj: "(ucast (a :: u32) :: u64) = ucast b \<longleftrightarrow> a = b"
  by (metis ucast_u32_u64_back)

lemma ucast_scast_u8: "(ucast (scast (c :: u8) :: u32) :: u8) = c"
  by (rule bit_word_eqI; auto simp: bit_simps less_8_cases)

section \<open>Sets of lines\<close>

text \<open>The bits set in a register of interrupt lines, lowest first.\<close>

definition line_set :: "u32 \<Rightarrow> nat list" where
  "line_set m = filter (bit m) [0..<32]"

lemma line_set_simps:
  "i \<in> set (line_set m) \<longleftrightarrow> bit m i"
  "distinct (line_set m)" "sorted (line_set m)"
  by (auto simp: line_set_def sorted_wrt_filter dest: bit_imp_le_length)

lemma line_set_empty: "line_set m = [] \<longleftrightarrow> m = 0"
proof
  assume "line_set m = []"
  then have "\<not> bit m n" for n
    using line_set_simps(1) [of n m] by simp
  then show "m = 0"
    by (simp add: bit_eq_iff)
qed (simp add: line_set_def)

lemma line_set_remove: "line_set (m AND NOT (push_bit i 1)) = filter (\<lambda>k. k \<noteq> i) (line_set m)"
  unfolding line_set_def filter_filter
  by (rule filter_cong) (auto simp: bit_simps)

end
