(* ===== verification/Kernel_Io.thy ===== *)
theory Kernel_Io
  imports Base
begin

text \<open>
  What a driver sees of the machine: the kernel's register accessors, its clock, and the
  kernel services it calls. The peripheral behind the registers is not part of the C code,
  so it is a parameter: a \<open>platform\<close> says what a read returns, what a write does, what the
  clock reads and how many ticks a millisecond is (\<open>msecs_to_jiffies\<close>), over a device state
  of any type. Every access and every kernel call is also
  recorded in the order it is made, so that a statement can speak of what the driver did.
\<close>

unbundle bit_operations_syntax

section \<open>Platform and world\<close>

type_synonym addr = u64

text \<open>
  The accessors of \<open>linux/io.h\<close> the drivers use: \<open>ioread8\<close>, \<open>ioread16\<close>, \<open>ioread32\<close>,
  \<open>ioread16be\<close>, \<open>ioread32be\<close> and their \<open>iowrite\<close> counterparts.
\<close>

datatype io_acc = IO8 | IO16 | IO32 | IO16BE | IO32BE

record 'd platform =
  p_read :: "io_acc \<Rightarrow> addr \<Rightarrow> 'd \<Rightarrow> u32 \<times> 'd"
  p_write :: "io_acc \<Rightarrow> addr \<Rightarrow> u32 \<Rightarrow> 'd \<Rightarrow> 'd"
  p_jiffies :: "'d \<Rightarrow> u64 \<times> 'd"
  p_msecs :: "nat \<Rightarrow> u64"

datatype 'k event =
    EvRead io_acc addr u32
  | EvWrite io_acc addr u32
  | EvCall 'k

record ('d, 'k) world =
  dev :: 'd
  trace :: "'k event list"

definition ioread :: "'d platform \<Rightarrow> io_acc \<Rightarrow> addr \<Rightarrow> ('d, 'k) world \<Rightarrow> u32 \<times> ('d, 'k) world" where
  "ioread P c a w = (let (v, d) = p_read P c a (dev w)
     in (v, w\<lparr>dev := d, trace := trace w @ [EvRead c a v]\<rparr>))"

definition iowrite :: "'d platform \<Rightarrow> io_acc \<Rightarrow> u32 \<Rightarrow> addr \<Rightarrow> ('d, 'k) world \<Rightarrow> ('d, 'k) world" where
  "iowrite P c v a w = w\<lparr>dev := p_write P c a v (dev w), trace := trace w @ [EvWrite c a v]\<rparr>"

definition kcall :: "'k \<Rightarrow> ('d, 'k) world \<Rightarrow> ('d, 'k) world" where
  "kcall k w = w\<lparr>trace := trace w @ [EvCall k]\<rparr>"

text \<open>The kernel's \<open>jiffies\<close> is volatile: reading it may return a later time.\<close>

definition jiffies :: "'d platform \<Rightarrow> ('d, 'k) world \<Rightarrow> u64 \<times> ('d, 'k) world" where
  "jiffies P w = (let (t, d) = p_jiffies P (dev w) in (t, w\<lparr>dev := d\<rparr>))"

text \<open>\<open>time_after(a, b)\<close> of \<open>linux/jiffies.h\<close>: the sign of the wrapped difference.\<close>

definition time_after :: "u64 \<Rightarrow> u64 \<Rightarrow> bool" where
  "time_after a b \<longleftrightarrow> sint (b - a) < 0"

lemma trace_ioread [io_simps]:
  "trace (snd (ioread P c a w)) = trace w @ [EvRead c a (fst (ioread P c a w))]"
  by (simp add: ioread_def split: prod.splits)

lemma trace_iowrite [io_simps]:
  "trace (iowrite P c v a w) = trace w @ [EvWrite c a v]"
  by (simp add: iowrite_def)

lemma trace_kcall [io_simps]:
  "trace (kcall k w) = trace w @ [EvCall k]"
  by (simp add: kcall_def)

lemma trace_jiffies [io_simps]:
  "trace (snd (jiffies P w)) = trace w"
  by (simp add: jiffies_def split: prod.splits)

lemma dev_iowrite [io_simps]:
  "dev (iowrite P c v a w) = p_write P c a v (dev w)"
  by (simp add: iowrite_def)

lemma dev_kcall [io_simps]:
  "dev (kcall k w) = dev w"
  by (simp add: kcall_def)

section \<open>Views of a trace\<close>

fun is_write :: "'k event \<Rightarrow> bool" where
  "is_write (EvWrite c a v) = True"
| "is_write e = False"

fun is_call :: "'k event \<Rightarrow> bool" where
  "is_call (EvCall k) = True"
| "is_call e = False"

definition writes_of :: "'k event list \<Rightarrow> 'k event list" where
  "writes_of es = filter is_write es"

definition calls_of :: "'k event list \<Rightarrow> 'k event list" where
  "calls_of es = filter is_call es"

text \<open>The values read at one address, oldest first.\<close>

fun reads_at :: "addr \<Rightarrow> 'k event list \<Rightarrow> u32 list" where
  "reads_at a [] = []"
| "reads_at a (EvRead c b v # es) = (if b = a then v # reads_at a es else reads_at a es)"
| "reads_at a (e # es) = reads_at a es"

text \<open>The values written at one address, oldest first.\<close>

fun written_at :: "addr \<Rightarrow> 'k event list \<Rightarrow> u32 list" where
  "written_at a [] = []"
| "written_at a (EvWrite c b v # es) = (if b = a then v # written_at a es else written_at a es)"
| "written_at a (e # es) = written_at a es"

lemma written_at_append [simp]: "written_at a (es @ fs) = written_at a es @ written_at a fs"
  by (induction es rule: written_at.induct [of _ a, simplified]) auto

lemma writes_of_simps [simp]:
  "writes_of [] = []"
  "writes_of (EvWrite c a v # es) = EvWrite c a v # writes_of es"
  "writes_of (EvRead c a v # es) = writes_of es"
  "writes_of (EvCall k # es) = writes_of es"
  "writes_of (es @ fs) = writes_of es @ writes_of fs"
  by (simp_all add: writes_of_def)

lemma calls_of_simps [simp]:
  "calls_of [] = []"
  "calls_of (EvWrite c a v # es) = calls_of es"
  "calls_of (EvRead c a v # es) = calls_of es"
  "calls_of (EvCall k # es) = EvCall k # calls_of es"
  "calls_of (es @ fs) = calls_of es @ calls_of fs"
  by (simp_all add: calls_of_def)

lemma reads_at_append [simp]: "reads_at a (es @ fs) = reads_at a es @ reads_at a fs"
  by (induction es rule: reads_at.induct [of _ a, simplified]) auto

text \<open>Acquisitions less releases, over the calls of a trace.\<close>

definition net :: "'k \<Rightarrow> 'k \<Rightarrow> 'k event list \<Rightarrow> int" where
  "net a b es = int (count_list es (EvCall a)) - int (count_list es (EvCall b))"

lemma net_append: "net a b (es @ fs) = net a b es + net a b fs"
  by (simp add: net_def)

lemma net_kcall: "net a b (trace (kcall k w)) = net a b (trace w) + (if k = a then 1 else 0) - (if k = b then 1 else 0)"
  by (simp add: net_def trace_kcall)

section \<open>Releases of the kernel\<close>

text \<open>\<open>LINUX_VERSION_CODE\<close> is compared with these numbers (\<open>linux/version.h\<close>).\<close>

definition KERNEL_VERSION :: "nat \<Rightarrow> nat \<Rightarrow> nat \<Rightarrow> nat" where
  "KERNEL_VERSION a b c = a * 65536 + b * 256 + c"

section \<open>Byte order of a bus\<close>

text \<open>A device on a bus of one byte order: the other accessors see the bytes of a register swapped.\<close>

definition byteswap32 :: "u32 \<Rightarrow> u32" where
  "byteswap32 x = push_bit 24 (x AND 0xFF) OR push_bit 8 (x AND 0xFF00)
     OR drop_bit 8 (x AND 0xFF0000) OR drop_bit 24 x"

definition on_bus :: "io_acc \<Rightarrow> io_acc \<Rightarrow> u32 \<Rightarrow> u32" where
  "on_bus bus c x = (if c = bus then x else byteswap32 x)"

section \<open>A bank of registers\<close>

text \<open>
  The law of a plain register file: a register reads back what was last written to it, and a
  write leaves the other registers alone. The drivers' accessors are shown to obey it over a
  bank of read-write registers, whatever access width, byte order or address layout they use;
  what a driver's configuration sequence leaves in the registers is then proved once, from
  the law.
\<close>

locale reg_file =
  fixes get :: "'r \<Rightarrow> 's \<Rightarrow> 'v"
    and set_reg :: "'r \<Rightarrow> 'v \<Rightarrow> 's \<Rightarrow> 's"
    and valid :: "'r \<Rightarrow> bool"
    and ok :: "'s \<Rightarrow> bool"
  assumes get_set: "ok s \<Longrightarrow> valid r \<Longrightarrow> get r (set_reg r v s) = v"
    and get_set_other: "ok s \<Longrightarrow> valid r \<Longrightarrow> valid q \<Longrightarrow> q \<noteq> r \<Longrightarrow> get q (set_reg r v s) = get q s"
    and ok_set: "ok s \<Longrightarrow> ok (set_reg r v s)"
begin

text \<open>A sequence of writes: the last write to a register is what it holds.\<close>

lemma fold_ok: "ok s \<Longrightarrow> ok (fold (\<lambda>(r, v). set_reg r v) ws s)"
  by (induction ws arbitrary: s) (auto intro: ok_set)

lemma get_fold:
  assumes "ok s" "valid q" "\<forall>(r, v) \<in> set ws. valid r"
  shows "get q (fold (\<lambda>(r, v). set_reg r v) ws s)
     = (case map_of (rev ws) q of Some v \<Rightarrow> v | None \<Rightarrow> get q s)"
  using assms
proof (induction ws rule: rev_induct)
  case Nil
  then show ?case by simp
next
  case (snoc x ws)
  obtain r v where x: "x = (r, v)" by fastforce
  let ?s = "fold (\<lambda>(r, v). set_reg r v) ws s"
  have "ok ?s" "valid r"
    using snoc.prems x by (auto intro: fold_ok)
  then show ?case
    using snoc x by (cases "q = r") (simp_all add: get_set get_set_other)
qed

end

text \<open>The bank: one value per address, as wide as the access that wrote it.\<close>

definition acc_mask :: "io_acc \<Rightarrow> u32" where
  "acc_mask c = (case c of IO8 \<Rightarrow> 0xFF | IO16 \<Rightarrow> 0xFFFF | IO16BE \<Rightarrow> 0xFFFF | _ \<Rightarrow> 0xFFFFFFFF)"

definition bank :: "(addr \<Rightarrow> u32) platform" where
  "bank = \<lparr>p_read = (\<lambda>c a d. (d a AND acc_mask c, d)),
           p_write = (\<lambda>c a v d. d(a := v AND acc_mask c)),
           p_jiffies = (\<lambda>d. (0, d)),
           p_msecs = (\<lambda>n. of_nat n)\<rparr>"

lemma bank_simps [simp]:
  "p_read bank c a d = (d a AND acc_mask c, d)"
  "p_write bank c a v d = d(a := v AND acc_mask c)"
  "p_jiffies bank d = (0, d)"
  by (simp_all add: bank_def)

end
