(* ===== verification/Clock.thy ===== *)
theory Clock
  imports Kernel_Io
begin

text \<open>
  Time. The drivers wait for a register to change by reading it in a loop until the kernel's tick
  counter has passed a deadline. The interface of such a loop is a locale: what it does in one
  round. That it ends, across a wrap-around of the counter, is proved once, for any clock that
  advances.
\<close>

text \<open>
  A clock: time passes in units of which \<open>K\<close> make a tick. Reading the jiffies takes some time,
  so that a loop that reads them sees them advance, and no single access takes as long as a
  quarter of the range of the counter.
\<close>

definition clock_ok :: "'d platform \<Rightarrow> ('d \<Rightarrow> nat) \<Rightarrow> nat \<Rightarrow> bool" where
  "clock_ok P clk K \<longleftrightarrow> 0 < K
     \<and> (\<forall>d. fst (p_jiffies P d) = of_nat (clk (snd (p_jiffies P d)) div K)
          \<and> clk d < clk (snd (p_jiffies P d)) \<and> clk (snd (p_jiffies P d)) \<le> clk d + K * 2 ^ 61)
     \<and> (\<forall>c a d. clk d \<le> clk (snd (p_read P c a d)) \<and> clk (snd (p_read P c a d)) \<le> clk d + K * 2 ^ 61)"

lemma time_after_of_nat:
  assumes "b < a" "a \<le> b + 2 ^ 63"
  shows "time_after (of_nat a) (of_nat b)"
proof -
  have g: "sint (word_of_int x :: u64) = x" if "- (2 ^ 63) \<le> x" "x < 2 ^ 63" for x
    using that by (simp add: sint_sbintrunc' signed_take_bit_int_eq_self)
  have "sint (of_nat b - of_nat a :: u64) = int b - int a"
    using g [of "int b - int a"] assms by simp
  then show ?thesis
    using assms(1) by (simp add: time_after_def)
qed

lemma dev_ioread: "dev (snd (ioread P c a w)) = snd (p_read P c a (dev w))"
  by (simp add: ioread_def split: prod.splits)

lemma dev_jiffies:
  "jiffies P w = (t, w1) \<Longrightarrow> t = fst (p_jiffies P (dev w)) \<and> dev w1 = snd (p_jiffies P (dev w))"
  by (auto simp: jiffies_def split: prod.splits)

locale poll_loop =
  fixes P :: "'d platform"
    and rd :: "('d, 'k) world \<Rightarrow> 'v \<times> ('d, 'k) world"
    and hit :: "'v \<Rightarrow> bool"
    and loop :: "u64 \<Rightarrow> ('d, 'k) world \<Rightarrow> (int \<times> ('d, 'k) world) option"
  assumes rd_dev: "\<exists>c a. dev (snd (rd w)) = snd (p_read P c a (dev w))"
    and loop_step: "loop j w =
      (let (v, w1) = rd w
       in if hit v then Some (0, w1)
          else let (now, w2) = jiffies P w1
               in if time_after now j then Some (- ETIMEDOUT, w2) else loop j w2)"
begin

text \<open>
  One round: the clock has moved on, by less than the counter can tell apart. \<open>Q\<close> is whatever
  reads of the register and of the clock preserve.
\<close>

lemma round:
  assumes "clock_ok P clk K" "rd w = (v, w1)" "jiffies P w1 = (now, w2)"
  shows "now = of_nat (clk (dev w2) div K)" "clk (dev w) < clk (dev w2)"
    "clk (dev w2) div K \<le> clk (dev w) div K + 2 ^ 62"
proof -
  note d = dev_jiffies [OF assms(3)]
  have K: "0 < K"
    using assms(1) by (simp add: clock_ok_def)
  obtain c a where "dev w1 = snd (p_read P c a (dev w))"
    using rd_dev [of w] assms(2) by auto
  then have c1: "clk (dev w) \<le> clk (dev w1)" "clk (dev w1) \<le> clk (dev w) + K * 2 ^ 61"
    using assms(1) by (simp_all add: clock_ok_def)
  have c2: "now = of_nat (clk (dev w2) div K)" "clk (dev w1) < clk (dev w2)" "clk (dev w2) \<le> clk (dev w1) + K * 2 ^ 61"
    using assms(1) d by (simp_all add: clock_ok_def)
  have "clk (dev w2) \<le> clk (dev w) + K * 2 ^ 62"
    using c1 c2 by simp
  then have "clk (dev w2) div K \<le> (clk (dev w) + K * 2 ^ 62) div K"
    by (rule div_le_mono)
  also have "\<dots> = clk (dev w) div K + 2 ^ 62"
    using K by (simp add: add.commute)
  finally show "clk (dev w2) div K \<le> clk (dev w) div K + 2 ^ 62" .
  show "now = of_nat (clk (dev w2) div K)" "clk (dev w) < clk (dev w2)"
    using c1 c2 by simp_all
qed

lemma returns:
  assumes "clock_ok P clk K" "clk (dev w) div K \<le> T" "Q w"
    "\<And>w. Q w \<Longrightarrow> Q (snd (rd w))" "\<And>w. Q w \<Longrightarrow> Q (snd (jiffies P w))"
  shows "\<exists>err w'. loop (of_nat T) w = Some (err, w') \<and> Q w'
    \<and> (err = 0 \<and> (\<exists>w0. Q w0 \<and> w' = snd (rd w0) \<and> hit (fst (rd w0))) 
      \<or> err = - ETIMEDOUT \<and> (\<exists>w0. Q w0 \<and> w' = snd (jiffies P (snd (rd w0))) \<and> \<not> hit (fst (rd w0))))"
  using assms(2,3)
proof (induction "K * (T + 1) - clk (dev w)" arbitrary: w rule: less_induct)
  case less
  obtain v w1 where g: "rd w = (v, w1)"
    by fastforce
  obtain now w2 where j: "jiffies P w1 = (now, w2)"
    by fastforce
  note r = round [OF assms(1) g j]
  have Q: "Q w1" "Q w2"
    using less.prems(2) assms(4) [of w] assms(5) [of w1] g j by auto
  have K: "0 < K"
    using assms(1) by (simp add: clock_ok_def)
  consider "hit v" | "\<not> hit v" "\<not> clk (dev w2) div K \<le> T" | "\<not> hit v" "clk (dev w2) div K \<le> T"
    by blast
  then show ?case
  proof cases
    case 1
    then have "loop (of_nat T) w = Some (0, w1)"
      using g by (subst loop_step) simp
    then show ?thesis
      using 1 less.prems(2) Q g by (intro exI [of _ 0] exI [of _ w1]) (auto intro!: exI [of _ w])
  next
    case 2
    then have "time_after now (of_nat T)"
      using r less.prems(1) by (simp add: time_after_of_nat)
    then have "loop (of_nat T) w = Some (- ETIMEDOUT, w2)"
      using 2 g j by (subst loop_step) simp
    then show ?thesis
      using 2 Q g j less.prems(2) by (intro exI [of _ "- ETIMEDOUT"] exI [of _ w2]) (auto intro!: exI [of _ w])
  next
    case 3
    have "clk (dev w) < K * (T + 1)"
      using less.prems K by (metis less_Suc_eq_le Suc_eq_plus1 div_less_iff_less_mult mult.commute)
    then have m: "K * (T + 1) - clk (dev w2) < K * (T + 1) - clk (dev w)"
      using r(2) by linarith
    have "loop (of_nat T) w = loop (of_nat T) w2 \<or> loop (of_nat T) w = Some (- ETIMEDOUT, w2)"
      using 3 g j loop_step [of "of_nat T" w] by (auto split: if_splits)
    then show ?thesis
    proof
      assume "loop (of_nat T) w = Some (- ETIMEDOUT, w2)"
      then show ?thesis
        using 3 Q g j less.prems(2) by (intro exI [of _ "- ETIMEDOUT"] exI [of _ w2]) (auto intro!: exI [of _ w])
    next
      assume "loop (of_nat T) w = loop (of_nat T) w2"
      then show ?thesis
        using less.hyps [OF m 3(2) Q(2)] by simp
    qed
  qed
qed

text \<open>A wait reads the clock once, to compute the deadline.\<close>

lemma deadline_returns:
  assumes "clock_ok P clk K" "jiffies P w = (now, w1)" "Q w1"
    "\<And>w. Q w \<Longrightarrow> Q (snd (rd w))" "\<And>w. Q w \<Longrightarrow> Q (snd (jiffies P w))"
  shows "\<exists>err w'. loop (now + tmo) w1 = Some (err, w') \<and> Q w'
    \<and> (err = 0 \<and> (\<exists>w0. Q w0 \<and> w' = snd (rd w0) \<and> hit (fst (rd w0))) 
      \<or> err = - ETIMEDOUT \<and> (\<exists>w0. Q w0 \<and> w' = snd (jiffies P (snd (rd w0))) \<and> \<not> hit (fst (rd w0))))"
proof -
  have "now + tmo = of_nat (clk (dev w1) div K + unat tmo)"
    using assms(1) dev_jiffies [OF assms(2)] by (simp add: clock_ok_def)
  then show ?thesis
    using returns [OF assms(1) _ assms(3-5), of "clk (dev w1) div K + unat tmo"] by simp
qed

end

text \<open>A device with a clock: every read of the jiffies takes one tick; a register reads as 0.\<close>

definition ticking :: "nat platform" where
  "ticking = \<lparr>p_read = (\<lambda>c a d. (0, d)), p_write = (\<lambda>c a v d. d),
     p_jiffies = (\<lambda>d. (of_nat (Suc d), Suc d)), p_msecs = of_nat\<rparr>"

lemma ticking_clock: "clock_ok ticking id 1"
  by (simp add: clock_ok_def ticking_def)

end
