(* ===== verification/Buffers.thy ===== *)
theory Buffers
  imports Base
begin

text \<open>
  The buffers a driver is handed by its caller: blocks of bytes and pointers into them, loads and
  stores that fault outside a block, and the byte order of the processor.
\<close>

unbundle bit_operations_syntax

section \<open>Pointers into blocks\<close>

text \<open>
  A pointer is null or an offset in a block; two pointers may point into the same block, so that
  aliasing of buffers is a matter of the state.
\<close>

datatype ptr = Null | Ptr nat nat

type_synonym heap = "nat \<Rightarrow> u8 list"

definition ptr_add :: "ptr \<Rightarrow> nat \<Rightarrow> ptr" where
  "ptr_add p n = (case p of Null \<Rightarrow> Null | Ptr b off \<Rightarrow> Ptr b (off + n))"

definition load_bytes :: "heap \<Rightarrow> ptr \<Rightarrow> nat \<Rightarrow> c_fault + u8 list" where
  "load_bytes h p n = (case p of
     Null \<Rightarrow> Inl BadPointer
   | Ptr b off \<Rightarrow> if off + n \<le> length (h b) then Inr (take n (drop off (h b)))
       else Inl (BadIndex (int (off + n))))"

definition splice :: "nat \<Rightarrow> 'a list \<Rightarrow> 'a list \<Rightarrow> 'a list" where
  "splice off new old = take off old @ new @ drop (off + length new) old"

definition store_bytes :: "heap \<Rightarrow> ptr \<Rightarrow> u8 list \<Rightarrow> c_fault + heap" where
  "store_bytes h p bs = (case p of
     Null \<Rightarrow> Inl BadPointer
   | Ptr b off \<Rightarrow> if off + length bs \<le> length (h b) then Inr (h(b := splice off bs (h b)))
       else Inl (BadIndex (int (off + length bs))))"

text \<open>\<open>room h p n\<close>: \<open>n\<close> bytes can be accessed at \<open>p\<close>.\<close>

definition room :: "heap \<Rightarrow> ptr \<Rightarrow> nat \<Rightarrow> bool" where
  "room h p n \<longleftrightarrow> (\<exists>b off. p = Ptr b off \<and> off + n \<le> length (h b))"

lemma length_splice [simp]: "off + length new \<le> length old \<Longrightarrow> length (splice off new old) = length old"
  by (simp add: splice_def)

lemma splice_splice:
  assumes "off + length a + length b \<le> length old"
  shows "splice (off + length a) b (splice off a old) = splice off (a @ b) old"
  using assms by (simp add: splice_def min_absorb1 min_absorb2 ac_simps)

lemma splice_nil [simp]: "splice off [] old = old"
  by (simp add: splice_def)

lemma drop_splice: "off + length new \<le> length old \<Longrightarrow> drop (off + length new + k) (splice off new old) = drop (off + length new + k) old"
  by (simp add: splice_def add.commute add.left_commute)

lemma take_splice: "off + length new \<le> length old \<Longrightarrow> take (length new) (drop off (splice off new old)) = new"
  by (simp add: splice_def)

lemma ptr_add_0 [simp]: "ptr_add p 0 = p"
  by (cases p) (simp_all add: ptr_add_def)

lemma ptr_add_add [simp]: "ptr_add (ptr_add p m) n = ptr_add p (m + n)"
  by (cases p) (simp_all add: ptr_add_def)

lemma ptr_add_Null [simp]: "ptr_add p n = Null \<longleftrightarrow> p = Null" "ptr_add Null n = Null" "ptr_add (Ptr b off) n = Ptr b (off + n)"
  by (cases p; simp add: ptr_add_def)+

lemma room_mono: "room h p n \<Longrightarrow> m \<le> n \<Longrightarrow> room h p m"
  by (auto simp: room_def)

section \<open>Byte order\<close>

datatype endian = LittleEndian | BigEndian

text \<open>The value of bytes, least significant first, and the bytes of a value.\<close>

definition le_word :: "u8 list \<Rightarrow> 'a::len word" where
  "le_word bs = foldr (\<lambda>b v. push_bit 8 v OR ucast b) bs 0"

definition le_bytes :: "nat \<Rightarrow> 'a::len word \<Rightarrow> u8 list" where
  "le_bytes n v = map (\<lambda>k. ucast (drop_bit (8 * k) v)) [0..<n]"

definition be_word :: "u8 list \<Rightarrow> 'a::len word" where
  "be_word bs = le_word (rev bs)"

definition be_bytes :: "nat \<Rightarrow> 'a::len word \<Rightarrow> u8 list" where
  "be_bytes n v = rev (le_bytes n v)"

text \<open>
  A typed access of the processor to \<open>n\<close> bytes, and \<open>__cpu_to_be16/32/64\<close> with their inverses
  \<open>__be16/32/64_to_cpu\<close>: both directions swap the bytes on a little-endian processor.
\<close>

definition cpu_word :: "endian \<Rightarrow> u8 list \<Rightarrow> 'a::len word" where
  "cpu_word e bs = (if e = BigEndian then be_word bs else le_word bs)"

definition cpu_bytes :: "endian \<Rightarrow> nat \<Rightarrow> 'a::len word \<Rightarrow> u8 list" where
  "cpu_bytes e n v = (if e = BigEndian then be_bytes n v else le_bytes n v)"

definition cpu_to_be :: "endian \<Rightarrow> 'a::len word \<Rightarrow> 'a word" where
  "cpu_to_be e v = (if e = BigEndian then v else be_word (le_bytes (LENGTH('a) div 8) v))"

lemma length_le_bytes [simp]: "length (le_bytes n v) = n" "length (be_bytes n v) = n" "length (cpu_bytes e n v) = n"
  by (simp_all add: le_bytes_def be_bytes_def cpu_bytes_def)

lemma le_word_simps: "le_word [] = 0" "le_word (b # bs) = push_bit 8 (le_word bs) OR ucast b"
  by (simp_all add: le_word_def)

lemma bit_le_word:
  "bit (le_word bs :: 'a::len word) k \<longleftrightarrow> k < LENGTH('a) \<and> k div 8 < length bs \<and> bit (bs ! (k div 8)) (k mod 8)"
proof (induction bs arbitrary: k)
  case Nil
  then show ?case by (simp add: le_word_simps)
next
  case (Cons b bs)
  show ?case
  proof (cases "k < 8")
    case True
    then show ?thesis
      by (auto simp: le_word_simps bit_simps not_le)
  next
    case False
    then obtain m where k: "k = m + 8"
      by (metis add.commute le_Suc_ex not_less)
    have "(m + 8) div 8 = Suc (m div 8)"
      by simp
    moreover have "\<not> bit b k"
      using False bit_imp_le_length [of b k] by auto
    ultimately show ?thesis
      using Cons.IH [of m] by (auto simp: k le_word_simps bit_simps)
  qed
qed

lemma nth_le_bytes: "k < n \<Longrightarrow> le_bytes n v ! k = ucast (drop_bit (8 * k) v)"
  by (simp add: le_bytes_def)

lemma le_bytes_le_word:
  assumes "8 * length bs \<le> LENGTH('a)"
  shows "le_bytes (length bs) (le_word bs :: 'a::len word) = bs"
proof (rule nth_equalityI)
  fix k assume "k < length (le_bytes (length bs) (le_word bs :: 'a word))"
  then have k: "k < length bs"
    by simp
  show "le_bytes (length bs) (le_word bs :: 'a word) ! k = bs ! k"
  proof (rule bit_word_eqI)
    fix j assume "j < LENGTH(8)"
    then have "j < 8" "(8 * k + j) div 8 = k" "(8 * k + j) mod 8 = j"
      by simp_all
    then show "bit (le_bytes (length bs) (le_word bs :: 'a word) ! k) j = bit (bs ! k) j"
      using k assms by (simp add: nth_le_bytes bit_simps bit_le_word)
  qed
qed simp

lemma le_word_le_bytes:
  assumes "LENGTH('a) = 8 * n"
  shows "le_word (le_bytes n v) = (v :: 'a::len word)"
proof (rule bit_word_eqI)
  fix k assume k: "k < LENGTH('a)"
  then have "k div 8 < n"
    using assms by linarith
  moreover have "8 * (k div 8) + k mod 8 = k" "k mod 8 < 8"
    by simp_all
  ultimately show "bit (le_word (le_bytes n v) :: 'a word) k = bit v k"
    using k by (simp add: bit_le_word nth_le_bytes bit_simps)
qed

lemma be_bytes_be_word:
  "8 * length bs \<le> LENGTH('a) \<Longrightarrow> be_bytes (length bs) (be_word bs :: 'a::len word) = bs"
  using le_bytes_le_word [of "rev bs", where 'a = 'a] by (simp add: be_bytes_def be_word_def)

lemma be_word_be_bytes:
  "LENGTH('a) = 8 * n \<Longrightarrow> be_word (be_bytes n v) = (v :: 'a::len word)"
  by (simp add: be_bytes_def be_word_def le_word_le_bytes)

text \<open>Whatever the processor, the device sees the first byte of the buffer as the highest.\<close>

lemma cpu_to_be_word:
  assumes "LENGTH('a) = 8 * length bs"
  shows "cpu_to_be e (cpu_word e bs) = (be_word bs :: 'a::len word)"
  using assms le_bytes_le_word [of bs, where 'a = 'a] by (auto simp: cpu_to_be_def cpu_word_def)

lemma cpu_bytes_to_be:
  assumes "LENGTH('a) = 8 * n"
  shows "cpu_bytes e n (cpu_to_be e (v :: 'a::len word)) = be_bytes n v"
proof (cases e)
  case LittleEndian
  have "le_bytes n (be_word (le_bytes n v) :: 'a word) = rev (be_bytes n (be_word (le_bytes n v) :: 'a word))"
    by (simp add: be_bytes_def)
  also have "\<dots> = rev (le_bytes n v)"
    using be_bytes_be_word [of "le_bytes n v", where 'a = 'a] assms by simp
  finally show ?thesis
    using LittleEndian assms by (simp add: cpu_bytes_def cpu_to_be_def be_bytes_def)
next
  case BigEndian
  then show ?thesis
    by (simp add: cpu_bytes_def cpu_to_be_def)
qed

end
