(* ===== verification/Fifo.thy ===== *)
theory Fifo
  imports Base
begin

text \<open>
  The interface of a bounded first-in first-out buffer, as its client uses it: what it holds is a
  list, putting appends, peeking returns the head and popping drops it. The lemmas about runs of
  operations are proved from the laws alone.
\<close>

locale fifo =
  fixes inv :: "'s \<Rightarrow> bool"
    and content :: "'s \<Rightarrow> 'a list"
    and cap :: "'s \<Rightarrow> nat"
    and put :: "'a \<Rightarrow> 's \<Rightarrow> 's"
    and peek :: "'s \<Rightarrow> 'e + 'a"
    and pop :: "'s \<Rightarrow> 's"
  assumes bound: "inv s \<Longrightarrow> length (content s) \<le> cap s"
    and put: "inv s \<Longrightarrow> length (content s) < cap s
      \<Longrightarrow> inv (put x s) \<and> content (put x s) = content s @ [x] \<and> cap (put x s) = cap s"
    and peek: "inv s \<Longrightarrow> content s \<noteq> [] \<Longrightarrow> peek s = Inr (hd (content s))"
    and pop: "inv s \<Longrightarrow> content s \<noteq> [] \<Longrightarrow> inv (pop s) \<and> content (pop s) = tl (content s) \<and> cap (pop s) = cap s"
begin

lemma puts:
  "inv s \<Longrightarrow> length (content s) + length xs \<le> cap s
    \<Longrightarrow> inv (fold put xs s) \<and> content (fold put xs s) = content s @ xs \<and> cap (fold put xs s) = cap s"
  by (induction xs arbitrary: s) (auto simp: put)

lemma pops:
  "inv s \<Longrightarrow> n \<le> length (content s)
    \<Longrightarrow> inv ((pop ^^ n) s) \<and> content ((pop ^^ n) s) = drop n (content s) \<and> cap ((pop ^^ n) s) = cap s"
proof (induction n arbitrary: s)
  case 0
  then show ?case by simp
next
  case (Suc n)
  have "content s \<noteq> []"
    using Suc.prems(2) by auto
  then show ?case
    using Suc.IH [of "pop s"] pop [OF Suc.prems(1)] Suc.prems(2)
    by (simp add: funpow_swap1 drop_Suc)
qed

text \<open>What was popped, followed by what is left, is what was there.\<close>

lemma pops_take:
  assumes "inv s" "n \<le> length (content s)"
  shows "take n (content s) @ content ((pop ^^ n) s) = content s"
  using pops [OF assms] by simp

end

end
