(* ===== verification/Wbgen.thy ===== *)
theory Wbgen
  imports Base
begin

text \<open>
  The field macros of the register headers wbgen2 generates (\<open>htvic_regs.h\<close>, \<open>wb_uart.h\<close>,
  \<open>wb_vuart.h\<close>), and the interface of a field of a register: what is put into a field is read back
  from it, and the rest of the register stays.
\<close>

unbundle bit_operations_syntax

section \<open>Macros\<close>

definition WBGEN2_GEN_MASK :: "nat \<Rightarrow> nat \<Rightarrow> u32" where
  "WBGEN2_GEN_MASK offset n = push_bit offset (push_bit n 1 - 1)"

definition WBGEN2_GEN_WRITE :: "u32 \<Rightarrow> nat \<Rightarrow> nat \<Rightarrow> u32" where
  "WBGEN2_GEN_WRITE value offset n = push_bit offset (value AND (push_bit n 1 - 1))"

definition WBGEN2_GEN_READ :: "u32 \<Rightarrow> nat \<Rightarrow> nat \<Rightarrow> u32" where
  "WBGEN2_GEN_READ r offset n = drop_bit offset r AND (push_bit n 1 - 1)"

definition WBGEN2_SIGN_EXTEND :: "u32 \<Rightarrow> nat \<Rightarrow> u32" where
  "WBGEN2_SIGN_EXTEND value bits = (if value AND push_bit bits 1 \<noteq> 0 then NOT (push_bit bits 1 - 1) else 0) OR value"

lemma low_mask: "(push_bit n 1 - 1 :: u32) = mask n"
  by (simp add: mask_eq_exp_minus_1)

lemma wbgen_bits [reg_simps]:
  "bit (WBGEN2_GEN_MASK off n) k \<longleftrightarrow> off \<le> k \<and> k < off + n \<and> k < 32"
  "bit (WBGEN2_GEN_WRITE v off n) k \<longleftrightarrow> off \<le> k \<and> k < off + n \<and> k < 32 \<and> bit v (k - off)"
  "bit (WBGEN2_GEN_READ r off n) k \<longleftrightarrow> k < n \<and> k < 32 \<and> bit r (off + k)"
  unfolding WBGEN2_GEN_MASK_def WBGEN2_GEN_WRITE_def WBGEN2_GEN_READ_def low_mask
  by (auto simp: bit_simps)

section \<open>Fields\<close>

text \<open>A field is given by its mask and by how it is read from and made up for its register.\<close>

locale reg_field =
  fixes fmask :: u32
    and rd :: "u32 \<Rightarrow> u32"
    and wr :: "u32 \<Rightarrow> u32"
    and width :: nat
  assumes rd_local: "r AND fmask = q AND fmask \<Longrightarrow> rd r = rd q"
    and rd_wr: "rd (wr v) = take_bit width v"
    and wr_rd: "wr (rd r) = r AND fmask"
    and wr_inside: "wr v AND NOT fmask = 0"
begin

definition put :: "u32 \<Rightarrow> u32 \<Rightarrow> u32" where
  "put v r = (r AND NOT fmask) OR wr v"

lemma put_bits: "bit (put v r) k \<longleftrightarrow> (if bit fmask k then bit (wr v) k else bit r k)"
proof -
  have "\<not> bit (wr v AND NOT fmask) k"
    by (simp add: wr_inside)
  then show ?thesis
    using bit_imp_le_length [of r k] bit_imp_le_length [of "wr v" k] by (auto simp: put_def bit_simps)
qed

lemma put_keeps: "put v r AND NOT fmask = r AND NOT fmask"
  by (rule bit_word_eqI) (auto simp: bit_simps put_bits)

lemma rd_put: "rd (put v r) = take_bit width v"
proof -
  have "put v r AND fmask = wr v AND fmask"
    by (rule bit_word_eqI) (auto simp: bit_simps put_bits)
  then show ?thesis
    using rd_local rd_wr by metis
qed

lemma put_rd: "put (rd r) r = r"
  by (rule bit_word_eqI) (auto simp: put_bits wr_rd bit_simps)

lemma put_put: "put v (put u r) = put v r"
  by (rule bit_word_eqI) (auto simp: put_bits)

end

text \<open>Two fields of one register that do not overlap do not disturb each other.\<close>

locale two_fields = f: reg_field m1 rd1 wr1 n1 + g: reg_field m2 rd2 wr2 n2
  for m1 rd1 wr1 n1 m2 rd2 wr2 n2 +
  assumes disjoint: "m1 AND m2 = 0"
begin

lemma apart: "bit m1 k \<Longrightarrow> \<not> bit m2 k"
proof -
  have "\<not> bit (m1 AND m2) k"
    by (simp add: disjoint)
  then show "bit m1 k \<Longrightarrow> \<not> bit m2 k"
    by (simp add: bit_and_iff)
qed

lemma rd_other: "rd2 (f.put v r) = rd2 r"
proof -
  have "f.put v r AND m2 = r AND m2"
    using apart by (auto intro!: bit_word_eqI simp: bit_simps f.put_bits split: if_splits)
  then show ?thesis
    by (rule g.rd_local)
qed

lemma put_swap: "g.put v (f.put u r) = f.put u (g.put v r)"
  using apart by (auto intro!: bit_word_eqI simp: f.put_bits g.put_bits)

end

text \<open>The macros make a field of any range of bits of the register.\<close>

lemma wbgen_field:
  assumes "off + n \<le> 32"
  shows "reg_field (WBGEN2_GEN_MASK off n) (\<lambda>r. WBGEN2_GEN_READ r off n) (\<lambda>v. WBGEN2_GEN_WRITE v off n) n"
proof
  fix r q v :: u32
  show "WBGEN2_GEN_READ (WBGEN2_GEN_WRITE v off n) off n = take_bit n v"
    using assms by (auto intro!: bit_word_eqI simp: wbgen_bits bit_simps)
  show "WBGEN2_GEN_WRITE (WBGEN2_GEN_READ r off n) off n = r AND WBGEN2_GEN_MASK off n"
    by (auto intro!: bit_word_eqI simp: wbgen_bits bit_simps)
  show "WBGEN2_GEN_WRITE v off n AND NOT (WBGEN2_GEN_MASK off n) = 0"
    by (auto intro!: bit_word_eqI simp: wbgen_bits bit_simps)
  assume e: "r AND WBGEN2_GEN_MASK off n = q AND WBGEN2_GEN_MASK off n"
  have "bit r (off + k) = bit q (off + k)" if "k < n" for k
    using arg_cong [OF e, of "\<lambda>x. bit x (off + k)"] that assms by (simp add: bit_and_iff wbgen_bits)
  then show "WBGEN2_GEN_READ r off n = WBGEN2_GEN_READ q off n"
    by (auto intro!: bit_word_eqI simp: wbgen_bits)
qed

text \<open>
  \<open>bits\<close> of the sign extension is the position of the sign, one less than the width of the number;
  with the width itself a negative number is not extended.
\<close>

lemma sign_extend:
  assumes "take_bit (Suc b) v = v"
  shows "WBGEN2_SIGN_EXTEND v b = signed_take_bit b v"
proof (rule bit_word_eqI)
  fix k
  assume k: "k < LENGTH(32)"
  have small: "bit v j \<Longrightarrow> j \<le> b" for j
    using assms bit_take_bit_iff [of "Suc b" v j] by simp
  have "v AND push_bit b 1 \<noteq> 0 \<longleftrightarrow> bit v b"
    by (simp add: and_exp_eq_0_iff_not_bit)
  then show "bit (WBGEN2_SIGN_EXTEND v b) k \<longleftrightarrow> bit (signed_take_bit b v) k"
    using k small [of k] unfolding WBGEN2_SIGN_EXTEND_def low_mask by (auto simp: bit_simps min_def)
qed

section \<open>The serial port of the test system\<close>

definition UART_TDR_TX_DATA_MASK :: u32 where "UART_TDR_TX_DATA_MASK = WBGEN2_GEN_MASK 0 8"
definition UART_TDR_TX_DATA_W :: "u32 \<Rightarrow> u32" where "UART_TDR_TX_DATA_W value = WBGEN2_GEN_WRITE value 0 8"
definition UART_TDR_TX_DATA_R :: "u32 \<Rightarrow> u32" where "UART_TDR_TX_DATA_R r = WBGEN2_GEN_READ r 0 8"
definition UART_RDR_RX_DATA_MASK :: u32 where "UART_RDR_RX_DATA_MASK = WBGEN2_GEN_MASK 0 8"
definition UART_RDR_RX_DATA_W :: "u32 \<Rightarrow> u32" where "UART_RDR_RX_DATA_W value = WBGEN2_GEN_WRITE value 0 8"
definition UART_RDR_RX_DATA_R :: "u32 \<Rightarrow> u32" where "UART_RDR_RX_DATA_R r = WBGEN2_GEN_READ r 0 8"
definition UART_HOST_TDR_DATA_MASK :: u32 where "UART_HOST_TDR_DATA_MASK = WBGEN2_GEN_MASK 0 8"
definition UART_HOST_TDR_DATA_W :: "u32 \<Rightarrow> u32" where "UART_HOST_TDR_DATA_W value = WBGEN2_GEN_WRITE value 0 8"
definition UART_HOST_TDR_DATA_R :: "u32 \<Rightarrow> u32" where "UART_HOST_TDR_DATA_R r = WBGEN2_GEN_READ r 0 8"
definition UART_HOST_TDR_RDY :: u32 where "UART_HOST_TDR_RDY = WBGEN2_GEN_MASK 8 1"
definition UART_HOST_RDR_DATA_MASK :: u32 where "UART_HOST_RDR_DATA_MASK = WBGEN2_GEN_MASK 0 8"
definition UART_HOST_RDR_DATA_W :: "u32 \<Rightarrow> u32" where "UART_HOST_RDR_DATA_W value = WBGEN2_GEN_WRITE value 0 8"
definition UART_HOST_RDR_DATA_R :: "u32 \<Rightarrow> u32" where "UART_HOST_RDR_DATA_R r = WBGEN2_GEN_READ r 0 8"
definition UART_HOST_RDR_RDY :: u32 where "UART_HOST_RDR_RDY = WBGEN2_GEN_MASK 8 1"
definition UART_HOST_RDR_COUNT_MASK :: u32 where "UART_HOST_RDR_COUNT_MASK = WBGEN2_GEN_MASK 9 16"
definition UART_HOST_RDR_COUNT_W :: "u32 \<Rightarrow> u32" where "UART_HOST_RDR_COUNT_W value = WBGEN2_GEN_WRITE value 9 16"
definition UART_HOST_RDR_COUNT_R :: "u32 \<Rightarrow> u32" where "UART_HOST_RDR_COUNT_R r = WBGEN2_GEN_READ r 9 16"

text \<open>The register the host reads a received byte from: the byte, whether there is one, how many wait.\<close>

interpretation rdr_data: reg_field UART_HOST_RDR_DATA_MASK UART_HOST_RDR_DATA_R UART_HOST_RDR_DATA_W 8
  using wbgen_field [of 0 8]
  by (simp add: UART_HOST_RDR_DATA_MASK_def UART_HOST_RDR_DATA_R_def [abs_def] UART_HOST_RDR_DATA_W_def [abs_def])

interpretation rdr_count: reg_field UART_HOST_RDR_COUNT_MASK UART_HOST_RDR_COUNT_R UART_HOST_RDR_COUNT_W 16
  using wbgen_field [of 9 16]
  by (simp add: UART_HOST_RDR_COUNT_MASK_def UART_HOST_RDR_COUNT_R_def [abs_def] UART_HOST_RDR_COUNT_W_def [abs_def])

interpretation rdr: two_fields UART_HOST_RDR_DATA_MASK UART_HOST_RDR_DATA_R UART_HOST_RDR_DATA_W 8
  UART_HOST_RDR_COUNT_MASK UART_HOST_RDR_COUNT_R UART_HOST_RDR_COUNT_W 16
  by unfold_locales (auto intro!: bit_word_eqI simp: UART_HOST_RDR_DATA_MASK_def UART_HOST_RDR_COUNT_MASK_def wbgen_bits bit_simps)

end
