(* ===== verification/I2c_Regs.thy ===== *)
theory I2c_Regs
  imports Kernel_Io
begin

text \<open>
  The I2C driver (\<open>i2c-ocores.c\<close>): its register map, its instance structure
  \<open>struct ocores_i2c\<close> and the register accessors \<open>oc_setreg\<close>, \<open>oc_getreg\<close> behind which
  six access families stand: 8, 16 and 32 bits wide, the latter two in either byte order,
  and the GRLIB port, which packs both prescale bytes into one register.
\<close>

unbundle bit_operations_syntax

section \<open>Registers\<close>

definition OCI2C_PRELOW :: u32 where [simp]: "OCI2C_PRELOW = 0"
definition OCI2C_PREHIGH :: u32 where [simp]: "OCI2C_PREHIGH = 1"
definition OCI2C_CONTROL :: u32 where [simp]: "OCI2C_CONTROL = 2"
definition OCI2C_DATA :: u32 where [simp]: "OCI2C_DATA = 3"
definition OCI2C_CMD :: u32 where [simp]: "OCI2C_CMD = 4"
definition OCI2C_STATUS :: u32 where [simp]: "OCI2C_STATUS = 4"
definition OCI2C_OHWR_MUX :: u32 where [simp]: "OCI2C_OHWR_MUX = 5"

definition OCI2C_CTRL_IEN :: u8 where [simp]: "OCI2C_CTRL_IEN = 0x40"
definition OCI2C_CTRL_EN :: u8 where [simp]: "OCI2C_CTRL_EN = 0x80"

definition OCI2C_CMD_START :: u8 where [simp]: "OCI2C_CMD_START = 0x91"
definition OCI2C_CMD_STOP :: u8 where [simp]: "OCI2C_CMD_STOP = 0x41"
definition OCI2C_CMD_READ_ACK :: u8 where [simp]: "OCI2C_CMD_READ_ACK = 0x21"
definition OCI2C_CMD_READ_NACK :: u8 where [simp]: "OCI2C_CMD_READ_NACK = 0x29"
definition OCI2C_CMD_WRITE :: u8 where [simp]: "OCI2C_CMD_WRITE = 0x11"
definition OCI2C_CMD_IACK :: u8 where [simp]: "OCI2C_CMD_IACK = 0x01"

definition OCI2C_STAT_IF :: u8 where [simp]: "OCI2C_STAT_IF = 0x01"
definition OCI2C_STAT_TIP :: u8 where [simp]: "OCI2C_STAT_TIP = 0x02"
definition OCI2C_STAT_ARBLOST :: u8 where [simp]: "OCI2C_STAT_ARBLOST = 0x20"
definition OCI2C_STAT_BUSY :: u8 where [simp]: "OCI2C_STAT_BUSY = 0x40"
definition OCI2C_STAT_NACK :: u8 where [simp]: "OCI2C_STAT_NACK = 0x80"

definition OCI2C_OHWR_MUX_BUSY :: u8 where [simp]: "OCI2C_OHWR_MUX_BUSY = 0x80"
definition OCI2C_OHWR_MUX_SEL_MASK :: u8 where [simp]: "OCI2C_OHWR_MUX_SEL_MASK = 0x0F"

definition OCORES_FLAG_POLL :: u64 where [simp]: "OCORES_FLAG_POLL = push_bit 0 1"

section \<open>The driver's instance\<close>

datatype oc_xstate = STATE_DONE | STATE_START | STATE_WRITE | STATE_READ | STATE_ERROR

text \<open>The function pointers \<open>setreg\<close> and \<open>getreg\<close> of the instance point to one of these.\<close>

datatype oc_fn = Fn8 | Fn16 | Fn32 | Fn16be | Fn32be | FnGrlib

text \<open>
  \<open>struct i2c_msg\<close> of the kernel, and its flags. The buffer is the list of its bytes; \<open>len\<close>
  is what the sender says it holds.
\<close>

record i2c_msg =
  m_addr :: u16
  m_flags :: u16
  m_len :: u16
  m_buf :: "u8 list"

definition I2C_M_RD :: u16 where [simp]: "I2C_M_RD = 0x0001"
definition I2C_M_NOSTART :: u16 where [simp]: "I2C_M_NOSTART = 0x4000"

text \<open>
  \<open>struct ocores_i2c\<close>. The pointer \<open>msg\<close> walks over the message array that the caller of
  the transfer passed: \<open>oc_mem\<close> is that array and \<open>oc_msg\<close> the index \<open>msg\<close> points at.
\<close>

record ocores_i2c =
  oc_base :: addr
  oc_reg_shift :: u32
  oc_reg_io_width :: u32
  oc_flags :: u64
  oc_mem :: "i2c_msg list"
  oc_msg :: nat
  oc_pos :: int
  oc_nmsgs :: int
  oc_state :: oc_xstate
  oc_ip_clock_khz :: int
  oc_bus_clock_khz :: int
  oc_setreg_fn :: oc_fn
  oc_getreg_fn :: oc_fn

text \<open>The kernel services the driver calls, as they appear in a trace.\<close>

datatype i2c_call = WakeUp | Udelay int | DevErr | DevWarn
  | ClkPrepareEnable | ClkDisableUnprepare | RequestIrq int | AddAdapter | DelAdapter
  | MuxAlloc | MuxAdd nat | MuxDel | MuxDelOne nat | NewClient nat | FreeIrq int

type_synonym 'd i2c_world = "('d, i2c_call) world"

section \<open>Register accessors\<close>

text \<open>\<open>i2c->base + (reg << i2c->reg_shift)\<close>: the offset is a signed 32-bit value.\<close>

definition reg_addr :: "ocores_i2c \<Rightarrow> u32 \<Rightarrow> addr" where
  "reg_addr i reg = oc_base i + scast (push_bit (unat (oc_reg_shift i)) reg)"

definition oc_setreg_8 :: "'d platform \<Rightarrow> ocores_i2c \<Rightarrow> u32 \<Rightarrow> u8 \<Rightarrow> 'd i2c_world \<Rightarrow> 'd i2c_world" where
  "oc_setreg_8 P i reg v w = iowrite P IO8 (ucast v) (reg_addr i reg) w"

definition oc_setreg_16 :: "'d platform \<Rightarrow> ocores_i2c \<Rightarrow> u32 \<Rightarrow> u8 \<Rightarrow> 'd i2c_world \<Rightarrow> 'd i2c_world" where
  "oc_setreg_16 P i reg v w = iowrite P IO16 (ucast v) (reg_addr i reg) w"

definition oc_setreg_32 :: "'d platform \<Rightarrow> ocores_i2c \<Rightarrow> u32 \<Rightarrow> u8 \<Rightarrow> 'd i2c_world \<Rightarrow> 'd i2c_world" where
  "oc_setreg_32 P i reg v w = iowrite P IO32 (ucast v) (reg_addr i reg) w"

definition oc_setreg_16be :: "'d platform \<Rightarrow> ocores_i2c \<Rightarrow> u32 \<Rightarrow> u8 \<Rightarrow> 'd i2c_world \<Rightarrow> 'd i2c_world" where
  "oc_setreg_16be P i reg v w = iowrite P IO16BE (ucast v) (reg_addr i reg) w"

definition oc_setreg_32be :: "'d platform \<Rightarrow> ocores_i2c \<Rightarrow> u32 \<Rightarrow> u8 \<Rightarrow> 'd i2c_world \<Rightarrow> 'd i2c_world" where
  "oc_setreg_32be P i reg v w = iowrite P IO32BE (ucast v) (reg_addr i reg) w"

definition oc_getreg_8 :: "'d platform \<Rightarrow> ocores_i2c \<Rightarrow> u32 \<Rightarrow> 'd i2c_world \<Rightarrow> u8 \<times> 'd i2c_world" where
  "oc_getreg_8 P i reg w = (let (v, w) = ioread P IO8 (reg_addr i reg) w in (ucast v, w))"

definition oc_getreg_16 :: "'d platform \<Rightarrow> ocores_i2c \<Rightarrow> u32 \<Rightarrow> 'd i2c_world \<Rightarrow> u8 \<times> 'd i2c_world" where
  "oc_getreg_16 P i reg w = (let (v, w) = ioread P IO16 (reg_addr i reg) w in (ucast v, w))"

definition oc_getreg_32 :: "'d platform \<Rightarrow> ocores_i2c \<Rightarrow> u32 \<Rightarrow> 'd i2c_world \<Rightarrow> u8 \<times> 'd i2c_world" where
  "oc_getreg_32 P i reg w = (let (v, w) = ioread P IO32 (reg_addr i reg) w in (ucast v, w))"

definition oc_getreg_16be :: "'d platform \<Rightarrow> ocores_i2c \<Rightarrow> u32 \<Rightarrow> 'd i2c_world \<Rightarrow> u8 \<times> 'd i2c_world" where
  "oc_getreg_16be P i reg w = (let (v, w) = ioread P IO16BE (reg_addr i reg) w in (ucast v, w))"

definition oc_getreg_32be :: "'d platform \<Rightarrow> ocores_i2c \<Rightarrow> u32 \<Rightarrow> 'd i2c_world \<Rightarrow> u8 \<times> 'd i2c_world" where
  "oc_getreg_32be P i reg w = (let (v, w) = ioread P IO32BE (reg_addr i reg) w in (ucast v, w))"

text \<open>
  The GRLIB port: 32-bit big-endian registers, the two prescale bytes merged into register 0
  and every later register one place down.
\<close>

definition grlib_rreg :: "u32 \<Rightarrow> u32" where
  "grlib_rreg reg = (if reg \<noteq> OCI2C_PRELOW then reg - 1 else reg)"

definition oc_getreg_grlib :: "'d platform \<Rightarrow> ocores_i2c \<Rightarrow> u32 \<Rightarrow> 'd i2c_world \<Rightarrow> u8 \<times> 'd i2c_world" where
  "oc_getreg_grlib P i reg w =
     (let (rd, w) = ioread P IO32BE (reg_addr i (grlib_rreg reg)) w
      in if reg = OCI2C_PREHIGH then (ucast (drop_bit 8 rd), w) else (ucast rd, w))"

definition oc_setreg_grlib :: "'d platform \<Rightarrow> ocores_i2c \<Rightarrow> u32 \<Rightarrow> u8 \<Rightarrow> 'd i2c_world \<Rightarrow> 'd i2c_world" where
  "oc_setreg_grlib P i reg v w =
     (let a = reg_addr i (grlib_rreg reg)
      in if reg = OCI2C_PRELOW \<or> reg = OCI2C_PREHIGH then
           (let (curr, w) = ioread P IO32BE a w;
                wr = (if reg = OCI2C_PRELOW then (curr AND 0xff00) OR ucast v
                      else push_bit 8 (ucast v) OR (curr AND 0xff))
            in iowrite P IO32BE wr a w)
         else iowrite P IO32BE (ucast v) a w)"

definition oc_setreg :: "'d platform \<Rightarrow> ocores_i2c \<Rightarrow> u32 \<Rightarrow> u8 \<Rightarrow> 'd i2c_world \<Rightarrow> 'd i2c_world" where
  "oc_setreg P i = (case oc_setreg_fn i of
     Fn8 \<Rightarrow> oc_setreg_8 P i | Fn16 \<Rightarrow> oc_setreg_16 P i | Fn32 \<Rightarrow> oc_setreg_32 P i
   | Fn16be \<Rightarrow> oc_setreg_16be P i | Fn32be \<Rightarrow> oc_setreg_32be P i | FnGrlib \<Rightarrow> oc_setreg_grlib P i)"

definition oc_getreg :: "'d platform \<Rightarrow> ocores_i2c \<Rightarrow> u32 \<Rightarrow> 'd i2c_world \<Rightarrow> u8 \<times> 'd i2c_world" where
  "oc_getreg P i = (case oc_getreg_fn i of
     Fn8 \<Rightarrow> oc_getreg_8 P i | Fn16 \<Rightarrow> oc_getreg_16 P i | Fn32 \<Rightarrow> oc_getreg_32 P i
   | Fn16be \<Rightarrow> oc_getreg_16be P i | Fn32be \<Rightarrow> oc_getreg_32be P i | FnGrlib \<Rightarrow> oc_getreg_grlib P i)"

section \<open>One shape for the six families\<close>

definition fn_acc :: "oc_fn \<Rightarrow> io_acc" where
  "fn_acc f = (case f of Fn8 \<Rightarrow> IO8 | Fn16 \<Rightarrow> IO16 | Fn32 \<Rightarrow> IO32 | Fn16be \<Rightarrow> IO16BE | _ \<Rightarrow> IO32BE)"

definition fn_reg :: "oc_fn \<Rightarrow> u32 \<Rightarrow> u32" where
  "fn_reg f reg = (if f = FnGrlib then grlib_rreg reg else reg)"

lemmas oc_family_defs =
  oc_setreg_8_def oc_setreg_16_def oc_setreg_32_def oc_setreg_16be_def oc_setreg_32be_def
  oc_getreg_8_def oc_getreg_16_def oc_getreg_32_def oc_getreg_16be_def oc_getreg_32be_def
  oc_setreg_grlib_def oc_getreg_grlib_def oc_setreg_def oc_getreg_def

text \<open>Outside the prescale registers every family is one access at one address.\<close>

lemma oc_setreg_plain:
  assumes "oc_setreg_fn i \<noteq> FnGrlib \<or> (reg \<noteq> OCI2C_PRELOW \<and> reg \<noteq> OCI2C_PREHIGH)"
  shows "oc_setreg P i reg v w
    = iowrite P (fn_acc (oc_setreg_fn i)) (ucast v) (reg_addr i (fn_reg (oc_setreg_fn i) reg)) w"
  using assms by (cases "oc_setreg_fn i") (simp_all add: oc_family_defs fn_acc_def fn_reg_def)

lemma oc_getreg_plain:
  assumes "oc_getreg_fn i \<noteq> FnGrlib \<or> reg \<noteq> OCI2C_PREHIGH"
  shows "oc_getreg P i reg w
    = (let (v, w) = ioread P (fn_acc (oc_getreg_fn i)) (reg_addr i (fn_reg (oc_getreg_fn i) reg)) w
       in (ucast v, w))"
  using assms by (cases "oc_getreg_fn i") (simp_all add: oc_family_defs fn_acc_def fn_reg_def)

text \<open>The events of a register write and the address of a register read, outside the prescale.\<close>

definition wr_ev :: "ocores_i2c \<Rightarrow> u32 \<times> u8 \<Rightarrow> i2c_call event" where
  "wr_ev i rv = EvWrite (fn_acc (oc_setreg_fn i)) (reg_addr i (fn_reg (oc_setreg_fn i) (fst rv))) (ucast (snd rv))"

definition rd_addr :: "ocores_i2c \<Rightarrow> u32 \<Rightarrow> addr" where
  "rd_addr i reg = reg_addr i (fn_reg (oc_getreg_fn i) reg)"

lemma trace_setreg [io_simps]:
  assumes "reg \<noteq> OCI2C_PRELOW" "reg \<noteq> OCI2C_PREHIGH"
  shows "trace (oc_setreg P i reg v w) = trace w @ [wr_ev i (reg, v)]"
  using assms by (simp add: oc_setreg_plain wr_ev_def trace_iowrite)

lemma trace_getreg:
  assumes "reg \<noteq> OCI2C_PREHIGH" "oc_getreg P i reg w = (b, w')"
  shows "\<exists>v. b = ucast v \<and> trace w' = trace w @ [EvRead (fn_acc (oc_getreg_fn i)) (rd_addr i reg) v]"
  using assms by (auto simp: oc_getreg_plain rd_addr_def ioread_def split: prod.splits)

lemma writes_getreg:
  "oc_getreg P i reg w = (b, w') \<Longrightarrow> writes_of (trace w') = writes_of (trace w)"
  by (cases "oc_getreg_fn i") (auto simp: oc_family_defs ioread_def split: prod.splits if_splits)

text \<open>
  The accessors read only the address layout and the function pointers of the instance: the
  configuration, which a transfer does not change.
\<close>

definition same_regs :: "ocores_i2c \<Rightarrow> ocores_i2c \<Rightarrow> bool" where
  "same_regs i j \<longleftrightarrow> oc_base j = oc_base i \<and> oc_reg_shift j = oc_reg_shift i
     \<and> oc_setreg_fn j = oc_setreg_fn i \<and> oc_getreg_fn j = oc_getreg_fn i
     \<and> oc_bus_clock_khz j = oc_bus_clock_khz i \<and> oc_flags j = oc_flags i"

lemma same_regs_refl [simp]: "same_regs i i"
  by (simp add: same_regs_def)

lemma same_regs_trans: "same_regs i j \<Longrightarrow> same_regs j k \<Longrightarrow> same_regs i k"
  by (simp add: same_regs_def)

lemma same_regs_cong:
  assumes "same_regs i j"
  shows "oc_setreg P j = oc_setreg P i" "oc_getreg P j = oc_getreg P i"
    "wr_ev j = wr_ev i" "rd_addr j = rd_addr i"
proof -
  have a: "reg_addr j = reg_addr i"
    using assms by (simp add: fun_eq_iff reg_addr_def same_regs_def)
  show "oc_setreg P j = oc_setreg P i"
    using assms by (simp add: fun_eq_iff oc_family_defs a same_regs_def split: oc_fn.split)
  show "oc_getreg P j = oc_getreg P i"
    using assms by (simp add: fun_eq_iff oc_family_defs a same_regs_def split: oc_fn.split)
  show "wr_ev j = wr_ev i" "rd_addr j = rd_addr i"
    using assms by (simp_all add: fun_eq_iff wr_ev_def rd_addr_def a same_regs_def)
qed

lemma same_regs_upd [simp]:
  "same_regs i (j\<lparr>oc_pos := p\<rparr>) = same_regs i j"
  "same_regs i (j\<lparr>oc_msg := k\<rparr>) = same_regs i j"
  "same_regs i (j\<lparr>oc_nmsgs := p\<rparr>) = same_regs i j"
  "same_regs i (j\<lparr>oc_state := st\<rparr>) = same_regs i j"
  "same_regs i (j\<lparr>oc_mem := ms\<rparr>) = same_regs i j"
  "same_regs (i\<lparr>oc_pos := p\<rparr>) j = same_regs i j"
  "same_regs (i\<lparr>oc_msg := k\<rparr>) j = same_regs i j"
  "same_regs (i\<lparr>oc_nmsgs := p\<rparr>) j = same_regs i j"
  "same_regs (i\<lparr>oc_state := st\<rparr>) j = same_regs i j"
  "same_regs (i\<lparr>oc_mem := ms\<rparr>) j = same_regs i j"
  by (simp_all add: same_regs_def)

lemma oc_setreg_upd [simp]:
  "oc_setreg P (i\<lparr>oc_pos := p\<rparr>) = oc_setreg P i"
  "oc_setreg P (i\<lparr>oc_msg := k\<rparr>) = oc_setreg P i"
  "oc_setreg P (i\<lparr>oc_nmsgs := p\<rparr>) = oc_setreg P i"
  "oc_setreg P (i\<lparr>oc_state := st\<rparr>) = oc_setreg P i"
  "oc_setreg P (i\<lparr>oc_mem := ms\<rparr>) = oc_setreg P i"
  by (rule same_regs_cong; simp)+

lemma oc_getreg_upd [simp]:
  "oc_getreg P (i\<lparr>oc_pos := p\<rparr>) = oc_getreg P i"
  "oc_getreg P (i\<lparr>oc_msg := k\<rparr>) = oc_getreg P i"
  "oc_getreg P (i\<lparr>oc_nmsgs := p\<rparr>) = oc_getreg P i"
  "oc_getreg P (i\<lparr>oc_state := st\<rparr>) = oc_getreg P i"
  "oc_getreg P (i\<lparr>oc_mem := ms\<rparr>) = oc_getreg P i"
  by (rule same_regs_cong; simp)+

lemma wr_ev_upd [simp]:
  "wr_ev (i\<lparr>oc_pos := p\<rparr>) = wr_ev i"
  "wr_ev (i\<lparr>oc_msg := k\<rparr>) = wr_ev i"
  "wr_ev (i\<lparr>oc_nmsgs := p\<rparr>) = wr_ev i"
  "wr_ev (i\<lparr>oc_state := st\<rparr>) = wr_ev i"
  "wr_ev (i\<lparr>oc_mem := ms\<rparr>) = wr_ev i"
  by (rule same_regs_cong; simp)+

lemma rd_addr_upd [simp]:
  "rd_addr (i\<lparr>oc_pos := p\<rparr>) = rd_addr i"
  "rd_addr (i\<lparr>oc_msg := k\<rparr>) = rd_addr i"
  "rd_addr (i\<lparr>oc_nmsgs := p\<rparr>) = rd_addr i"
  "rd_addr (i\<lparr>oc_state := st\<rparr>) = rd_addr i"
  "rd_addr (i\<lparr>oc_mem := ms\<rparr>) = rd_addr i"
  by (rule same_regs_cong; simp)+

section \<open>The accessors over a bank of registers\<close>

text \<open>
  Whatever family the instance uses, its accessors show one 8-bit register per register
  number: the GRLIB read-modify-write keeps the two prescale bytes apart although they share
  an address. The address layout must not overflow the 32-bit offset, which the shift of
  28 at most ensures.
\<close>

lemma reg_addr_inj:
  assumes "unat (oc_reg_shift i) \<le> 28" "unat r < 8" "unat q < 8"
  shows "reg_addr i r = reg_addr i q \<longleftrightarrow> r = q"
proof -
  have "reg_addr i r = reg_addr i q
      \<longleftrightarrow> push_bit (unat (oc_reg_shift i)) r = push_bit (unat (oc_reg_shift i)) q"
    by (simp add: reg_addr_def scast_u32_u64_inj)
  then show ?thesis
    using push_bit_small_inj [OF assms(2,3,1)] by auto
qed

lemma acc_mask_ucast: "(ucast (ucast (v :: u8) AND acc_mask c) :: u8) = v"
  by (rule bit_word_eqI) (cases c; auto simp: acc_mask_def bit_simps less_8_cases)

lemma oc_cases: "unat (r :: u32) \<le> 5 \<longleftrightarrow> r \<in> {0, 1, 2, 3, 4, 5}"
proof
  assume "unat r \<le> 5"
  then have "unat r \<in> {0, 1, 2, 3, 4, 5}"
    by auto
  then show "r \<in> {0, 1, 2, 3, 4, 5}"
    by (auto simp: word_unat_eq_iff)
qed auto

lemma grlib_word:
  fixes v :: u8 and curr :: u32
  shows "(ucast (curr AND 0xff00 OR ucast v) :: u8) = v"
    "(ucast (drop_bit 8 (curr AND 0xff00 OR ucast v)) :: u8) = ucast (drop_bit 8 curr)"
    "(ucast (push_bit 8 (ucast v) OR curr AND 0xff) :: u8) = ucast curr"
    "(ucast (drop_bit 8 (push_bit 8 (ucast v) OR curr AND 0xff)) :: u8) = v"
    "(ucast (drop_bit 8 curr AND 0xff OR drop_bit 8 (ucast v)) :: u8) = ucast (drop_bit 8 curr)"
  by (rule bit_word_eqI; auto simp: bit_simps less_8_cases dest: bit_imp_le_length)+

text \<open>The GRLIB accessors over the bank, as a merge into one 32-bit value.\<close>

lemma grlib_get_bank:
  assumes "oc_getreg_fn i = FnGrlib"
  shows "fst (oc_getreg bank i q w)
    = (let x = dev w (reg_addr i (grlib_rreg q)) in if q = 1 then ucast (drop_bit 8 x) else ucast x)"
  using assms by (simp add: oc_family_defs ioread_def acc_mask_def Let_def)

definition grlib_merge :: "u32 \<Rightarrow> u8 \<Rightarrow> u32 \<Rightarrow> u32" where
  "grlib_merge r v x = (if r = 0 then (x AND 0xff00) OR ucast v
     else if r = 1 then push_bit 8 (ucast v) OR (x AND 0xff) else ucast v)"

lemma grlib_set_bank:
  assumes "oc_setreg_fn i = FnGrlib"
  shows "dev (oc_setreg bank i r v w) = (let a = reg_addr i (grlib_rreg r)
     in (dev w)(a := grlib_merge r v (dev w a)))"
  using assms by (simp add: oc_family_defs ioread_def iowrite_def acc_mask_def Let_def grlib_merge_def)

lemma grlib_rreg_eq:
  assumes "unat r \<le> 5" "unat q \<le> 5" "q \<noteq> r" "grlib_rreg q = grlib_rreg r"
  shows "(q = 0 \<and> r = 1) \<or> (q = 1 \<and> r = 0)"
  using assms by (auto simp: oc_cases grlib_rreg_def)

lemma grlib_rreg_01 [simp]: "grlib_rreg 0 = 0" "grlib_rreg 1 = 0"
  by (simp_all add: grlib_rreg_def)

lemma grlib_rreg_bound: "unat r \<le> 5 \<Longrightarrow> unat (grlib_rreg r) < 8"
  by (auto simp: oc_cases grlib_rreg_def)

interpretation oc: reg_file
  "\<lambda>r (i, w). fst (oc_getreg bank i r w)"
  "\<lambda>r v (i, w). (i, oc_setreg bank i r v w)"
  "\<lambda>r. unat r \<le> 5"
  "\<lambda>(i, w). unat (oc_reg_shift i) \<le> 28 \<and> oc_setreg_fn i = oc_getreg_fn i"
proof (unfold_locales, goal_cases)
  case (1 s r v)
  obtain i w where s: "s = (i, w)" by fastforce
  show ?case
  proof (cases "oc_getreg_fn i = FnGrlib")
    case True
    then show ?thesis
      using 1 by (auto simp: s oc_cases oc_family_defs ioread_def iowrite_def Let_def grlib_rreg_def acc_mask_def grlib_word)
  next
    case False
    then show ?thesis
      using 1 by (auto simp: s oc_setreg_plain oc_getreg_plain ioread_def iowrite_def acc_mask_ucast)
  qed
next
  case (2 s r q v)
  obtain i w where s: "s = (i, w)" by fastforce
  have inj: "reg_addr i a = reg_addr i b \<longleftrightarrow> a = b" if "unat a < 8" "unat b < 8" for a b
    using 2(1) that reg_addr_inj [of i a b] by (simp add: s)
  show ?case
  proof (cases "oc_getreg_fn i = FnGrlib")
    case True
    have a: "reg_addr i (grlib_rreg q) = reg_addr i (grlib_rreg r) \<longleftrightarrow> grlib_rreg q = grlib_rreg r"
      using 2 by (simp add: inj grlib_rreg_bound)
    show ?thesis
    proof (cases "grlib_rreg q = grlib_rreg r")
      case same: True
      have "(q = 0 \<and> r = 1) \<or> (q = 1 \<and> r = 0)"
        using grlib_rreg_eq [OF 2(2,3,4) same] .
      then show ?thesis
        using 2 True by (auto simp: s grlib_get_bank grlib_set_bank grlib_merge_def grlib_word Let_def)
    next
      case False
      then show ?thesis
        using 2 True a by (auto simp: s grlib_get_bank grlib_set_bank Let_def)
    qed
  next
    case False
    then show ?thesis
      using 2 inj [of q r] by (simp add: s oc_setreg_plain oc_getreg_plain ioread_def iowrite_def fn_reg_def)
  qed
next
  case (3 s r v)
  then show ?case by (auto split: prod.splits)
qed

text \<open>The instance the witnesses use: 8-bit registers, a 50 MHz core, a 100 kHz bus.\<close>

definition demo_i2c :: "oc_fn \<Rightarrow> ocores_i2c" where
  "demo_i2c f = \<lparr>oc_base = 0x1000, oc_reg_shift = 2, oc_reg_io_width = 1, oc_flags = 0, oc_mem = [],
     oc_msg = 0, oc_pos = 0, oc_nmsgs = 0, oc_state = STATE_DONE, oc_ip_clock_khz = 50000,
     oc_bus_clock_khz = 100, oc_setreg_fn = f, oc_getreg_fn = f\<rparr>"

definition demo_w :: "(addr \<Rightarrow> u32) i2c_world" where
  "demo_w = \<lparr>dev = (\<lambda>_. 0), trace = []\<rparr>"

end
