(* ===== verification/I2c_Process.thy ===== *)
theory I2c_Process
  imports I2c_Regs
begin

text \<open>
  The interrupt-driven core of the I2C driver: \<open>ocores_process\<close>, the state machine that
  advances a transfer by one bus command, \<open>ocores_isr\<close> and \<open>ocores_process_timeout\<close>. An
  access outside the message array or outside a buffer is a fault of the model. The file
  states when there is none (\<open>i2c_inv\<close>, kept by every call whatever status the controller
  reports), what a call leaves alone, and where a zero-length message breaks it.
\<close>

unbundle bit_operations_syntax

section \<open>The state machine\<close>

definition is_rd :: "i2c_msg \<Rightarrow> bool" where
  "is_rd m \<longleftrightarrow> m_flags m AND I2C_M_RD \<noteq> 0"

definition is_nostart :: "i2c_msg \<Rightarrow> bool" where
  "is_nostart m \<longleftrightarrow> m_flags m AND I2C_M_NOSTART \<noteq> 0"

definition i2c_8bit_addr_from_msg :: "i2c_msg \<Rightarrow> u8" where
  "i2c_8bit_addr_from_msg m = ucast (push_bit 1 (m_addr m) OR (if is_rd m then 1 else 0))"

text \<open>Dereferencing \<open>i2c->msg\<close>, and reading or writing \<open>msg->buf[k]\<close>.\<close>

definition cur_msg :: "ocores_i2c \<Rightarrow> c_fault + i2c_msg" where
  "cur_msg i = (if oc_msg i < length (oc_mem i) then Inr (oc_mem i ! oc_msg i) else Inl BadPointer)"

definition buf_get :: "i2c_msg \<Rightarrow> int \<Rightarrow> c_fault + u8" where
  "buf_get m k = (if 0 \<le> k \<and> k < int (length (m_buf m)) then Inr (m_buf m ! nat k) else Inl (BadIndex k))"

definition buf_set :: "i2c_msg \<Rightarrow> int \<Rightarrow> u8 \<Rightarrow> c_fault + i2c_msg" where
  "buf_set m k b = (if 0 \<le> k \<and> k < int (length (m_buf m)) then Inr (m\<lparr>m_buf := (m_buf m)[nat k := b]\<rparr>)
     else Inl (BadIndex k))"

text \<open>The last part of \<open>ocores_process\<close>: the command for the next byte.\<close>

definition process_next :: "'d platform \<Rightarrow> ocores_i2c \<Rightarrow> 'd i2c_world \<Rightarrow> c_fault + ocores_i2c \<times> 'd i2c_world" where
  "process_next P i w = ebind (cur_msg i) (\<lambda>m.
     if oc_state i = STATE_READ then
       Inr (i, oc_setreg P i OCI2C_CMD
         (if oc_pos i = uint (m_len m) - 1 then OCI2C_CMD_READ_NACK else OCI2C_CMD_READ_ACK) w)
     else
       ebind (buf_get m (oc_pos i)) (\<lambda>b.
         let i = i\<lparr>oc_pos := oc_pos i + 1\<rparr>;
             w = oc_setreg P i OCI2C_DATA b w;
             w = oc_setreg P i OCI2C_CMD OCI2C_CMD_WRITE w
         in Inr (i, w)))"

text \<open>The middle part: at the end of a message, step to the next one or stop.\<close>

definition process_eom :: "'d platform \<Rightarrow> ocores_i2c \<Rightarrow> 'd i2c_world \<Rightarrow> c_fault + ocores_i2c \<times> 'd i2c_world" where
  "process_eom P i w = ebind (cur_msg i) (\<lambda>m.
     if oc_pos i = uint (m_len m) then
       (let i = i\<lparr>oc_nmsgs := oc_nmsgs i - 1, oc_msg := oc_msg i + 1, oc_pos := 0\<rparr>
        in if oc_nmsgs i \<noteq> 0 then
             ebind (cur_msg i) (\<lambda>m.
               if \<not> is_nostart m then
                 (let a = i2c_8bit_addr_from_msg m;
                      i = i\<lparr>oc_state := STATE_START\<rparr>;
                      w = oc_setreg P i OCI2C_DATA a w;
                      w = oc_setreg P i OCI2C_CMD OCI2C_CMD_START w
                  in Inr (i, w))
               else
                 process_next P (i\<lparr>oc_state := (if is_rd m then STATE_READ else STATE_WRITE)\<rparr>) w)
           else
             (let i = i\<lparr>oc_state := STATE_DONE\<rparr>
              in Inr (i, oc_setreg P i OCI2C_CMD OCI2C_CMD_STOP w)))
     else process_next P i w)"

definition stop_error :: "'d platform \<Rightarrow> ocores_i2c \<Rightarrow> 'd i2c_world \<Rightarrow> ocores_i2c \<times> 'd i2c_world" where
  "stop_error P i w = (let i = i\<lparr>oc_state := STATE_ERROR\<rparr>
     in (i, oc_setreg P i OCI2C_CMD OCI2C_CMD_STOP w))"

definition ocores_process ::
    "'d platform \<Rightarrow> u8 \<Rightarrow> ocores_i2c \<Rightarrow> 'd i2c_world \<Rightarrow> c_fault + ocores_i2c \<times> 'd i2c_world" where
  "ocores_process P stat i w =
     (if oc_state i = STATE_DONE \<or> oc_state i = STATE_ERROR then
        Inr (i, kcall WakeUp (oc_setreg P i OCI2C_CMD OCI2C_CMD_IACK w))
      else if stat AND OCI2C_STAT_ARBLOST \<noteq> 0 then
        Inr (stop_error P i w)
      else if oc_state i = STATE_START \<or> oc_state i = STATE_WRITE then
        ebind (cur_msg i) (\<lambda>m.
          let i = i\<lparr>oc_state := (if is_rd m then STATE_READ else STATE_WRITE)\<rparr>
          in if stat AND OCI2C_STAT_NACK \<noteq> 0 then Inr (stop_error P i w)
             else process_eom P i w)
      else
        ebind (cur_msg i) (\<lambda>m.
          let (b, w) = oc_getreg P i OCI2C_DATA w
          in ebind (buf_set m (oc_pos i) b) (\<lambda>m.
               process_eom P (i\<lparr>oc_mem := (oc_mem i)[oc_msg i := m], oc_pos := oc_pos i + 1\<rparr>) w)))"

datatype irqreturn_t = IRQ_NONE | IRQ_HANDLED

definition ocores_isr ::
    "'d platform \<Rightarrow> ocores_i2c \<Rightarrow> 'd i2c_world \<Rightarrow> c_fault + irqreturn_t \<times> ocores_i2c \<times> 'd i2c_world" where
  "ocores_isr P i w =
     (let (stat, w) = oc_getreg P i OCI2C_STATUS w
      in if stat AND OCI2C_STAT_IF = 0 then Inr (IRQ_NONE, i, w)
         else ebind (ocores_process P stat i w) (\<lambda>(i, w). Inr (IRQ_HANDLED, i, w)))"

definition ocores_process_timeout ::
    "'d platform \<Rightarrow> ocores_i2c \<Rightarrow> 'd i2c_world \<Rightarrow> ocores_i2c \<times> 'd i2c_world" where
  "ocores_process_timeout P i w = stop_error P i w"

lemmas process_defs = ocores_process_def process_eom_def process_next_def stop_error_def
  ocores_process_timeout_def

section \<open>The transfer invariant\<close>

text \<open>
  A message's buffer holds the bytes its length claims; a message that continues the one
  before it without a new start is not empty.
\<close>

definition msg_ok :: "i2c_msg \<Rightarrow> bool" where
  "msg_ok m \<longleftrightarrow> unat (m_len m) \<le> length (m_buf m)"

definition msgs_ok :: "i2c_msg list \<Rightarrow> bool" where
  "msgs_ok ms \<longleftrightarrow> list_all msg_ok ms \<and> list_all (\<lambda>m. is_nostart m \<longrightarrow> 0 < m_len m) (tl ms)"

definition in_flight :: "ocores_i2c \<Rightarrow> bool" where
  "in_flight i \<longleftrightarrow> oc_state i \<noteq> STATE_DONE \<and> oc_state i \<noteq> STATE_ERROR"

definition pos_ok :: "oc_xstate \<Rightarrow> int \<Rightarrow> i2c_msg \<Rightarrow> bool" where
  "pos_ok st p m \<longleftrightarrow> (case st of
       STATE_START \<Rightarrow> p = 0
     | STATE_WRITE \<Rightarrow> 0 \<le> p \<and> p \<le> uint (m_len m) \<and> \<not> is_rd m
     | STATE_READ \<Rightarrow> 0 \<le> p \<and> p < uint (m_len m) \<and> is_rd m
     | _ \<Rightarrow> True)"

definition i2c_inv :: "ocores_i2c \<Rightarrow> bool" where
  "i2c_inv i \<longleftrightarrow> msgs_ok (oc_mem i) \<and>
     (in_flight i \<longrightarrow> oc_msg i < length (oc_mem i)
        \<and> oc_nmsgs i = int (length (oc_mem i)) - int (oc_msg i)
        \<and> pos_ok (oc_state i) (oc_pos i) (oc_mem i ! oc_msg i))
     \<and> (oc_state i = STATE_DONE \<longrightarrow> oc_msg i = length (oc_mem i))"

text \<open>What a call may change in the messages: bytes of a buffer that is being read into.\<close>

definition msg_frame :: "i2c_msg \<Rightarrow> i2c_msg \<Rightarrow> bool" where
  "msg_frame m m' \<longleftrightarrow> m' = m\<lparr>m_buf := m_buf m'\<rparr> \<and> length (m_buf m') = length (m_buf m)
     \<and> (\<not> is_rd m \<longrightarrow> m_buf m' = m_buf m)"

definition msgs_frame :: "i2c_msg list \<Rightarrow> i2c_msg list \<Rightarrow> bool" where
  "msgs_frame ms ms' \<longleftrightarrow> list_all2 msg_frame ms ms'"

lemma msg_frame_refl [simp]: "msg_frame m m"
  by (simp add: msg_frame_def)

lemma msgs_frame_refl [simp]: "msgs_frame ms ms"
  by (simp add: msgs_frame_def list_all2_same)

lemma is_rd_buf [simp]: "is_rd (m\<lparr>m_buf := b\<rparr>) = is_rd m"
  by (simp add: is_rd_def)

lemma is_nostart_buf [simp]: "is_nostart (m\<lparr>m_buf := b\<rparr>) = is_nostart m"
  by (simp add: is_nostart_def)

lemma msg_frame_D:
  assumes "msg_frame m m'"
  shows "m_len m' = m_len m" "m_flags m' = m_flags m" "m_addr m' = m_addr m"
    "is_rd m' = is_rd m" "is_nostart m' = is_nostart m" "length (m_buf m') = length (m_buf m)"
    "\<not> is_rd m \<Longrightarrow> m_buf m' = m_buf m"
proof -
  have m: "m' = m\<lparr>m_buf := m_buf m'\<rparr>"
    using assms by (simp add: msg_frame_def)
  show "m_len m' = m_len m" "m_flags m' = m_flags m" "m_addr m' = m_addr m"
    by (subst m, simp)+
  then show "is_rd m' = is_rd m" "is_nostart m' = is_nostart m"
    by (simp_all add: is_rd_def is_nostart_def)
  show "length (m_buf m') = length (m_buf m)" "\<not> is_rd m \<Longrightarrow> m_buf m' = m_buf m"
    using assms by (simp_all add: msg_frame_def)
qed

lemma msg_frame_I:
  assumes "m_addr m' = m_addr m" "m_flags m' = m_flags m" "m_len m' = m_len m"
    "length (m_buf m') = length (m_buf m)" "\<not> is_rd m \<Longrightarrow> m_buf m' = m_buf m"
  shows "msg_frame m m'"
  using assms by (simp add: msg_frame_def)

lemma msg_frame_trans:
  assumes "msg_frame a b" "msg_frame b c"
  shows "msg_frame a c"
  by (rule msg_frame_I) (simp_all add: msg_frame_D [OF assms(1)] msg_frame_D [OF assms(2)])

lemma msgs_frame_trans: "msgs_frame a b \<Longrightarrow> msgs_frame b c \<Longrightarrow> msgs_frame a c"
  unfolding msgs_frame_def by (rule list_all2_trans [OF msg_frame_trans])

lemma msgs_frame_nth: "msgs_frame ms ms' \<Longrightarrow> k < length ms \<Longrightarrow> msg_frame (ms ! k) (ms' ! k)"
  by (simp add: msgs_frame_def list_all2_nthD)

lemma msgs_frame_length: "msgs_frame ms ms' \<Longrightarrow> length ms' = length ms"
  by (simp add: msgs_frame_def list_all2_lengthD)

lemma msgs_frame_ok:
  assumes "msgs_frame ms ms'" "msgs_ok ms"
  shows "msgs_ok ms'"
proof -
  note f = msg_frame_D [OF msgs_frame_nth [OF assms(1)]] and l = msgs_frame_length [OF assms(1)]
  show ?thesis
    using assms(2) f l by (auto simp: msgs_ok_def msg_ok_def list_all_length nth_tl)
qed

lemma msgs_frame_update:
  assumes "k < length ms" "msg_frame (ms ! k) m"
  shows "msgs_frame ms (ms[k := m])"
  using assms by (simp add: msgs_frame_def list_all2_conv_all_nth nth_list_update)

lemma cur_msg_Inr: "cur_msg i = Inr m \<longleftrightarrow> oc_msg i < length (oc_mem i) \<and> m = oc_mem i ! oc_msg i"
  by (auto simp: cur_msg_def)

lemma msg_ok_uint: "msg_ok m \<longleftrightarrow> uint (m_len m) \<le> int (length (m_buf m))"
  by (metis msg_ok_def of_nat_le_iff uint_nat)

end
