(* ===== verification/I2c_Script.thy ===== *)
theory I2c_Script
  imports I2c_Process
begin

text \<open>
  What a transfer must put on the bus, as a function of the messages alone (\<open>xfer_script\<close>), and
  the proof that \<open>ocores_process\<close> does exactly that: each call emits the next command of the
  script, and the bytes it stores are the bytes it read. The script is also the measure of
  progress: a transfer needs as many calls as it has commands left.
\<close>

unbundle bit_operations_syntax

section \<open>What a transfer puts on the bus\<close>

text \<open>
  The abstract specification of a transfer: the register writes it consists of, as a function
  of the messages alone. A message is announced by a start with its address, unless it says
  otherwise, and then has one command per byte; a read is acknowledged up to its last byte,
  which is not. A stop ends the transfer.
\<close>

fun rd_cmds :: "nat \<Rightarrow> (u32 \<times> u8) list" where
  "rd_cmds 0 = []"
| "rd_cmds (Suc 0) = [(OCI2C_CMD, OCI2C_CMD_READ_NACK)]"
| "rd_cmds (Suc (Suc n)) = (OCI2C_CMD, OCI2C_CMD_READ_ACK) # rd_cmds (Suc n)"

fun wr_cmds :: "u8 list \<Rightarrow> (u32 \<times> u8) list" where
  "wr_cmds [] = []"
| "wr_cmds (b # bs) = (OCI2C_DATA, b) # (OCI2C_CMD, OCI2C_CMD_WRITE) # wr_cmds bs"

text \<open>The bytes of a message from byte \<open>p\<close> on, the announcement of a message, the messages.\<close>

definition body_from :: "i2c_msg \<Rightarrow> nat \<Rightarrow> (u32 \<times> u8) list" where
  "body_from m p = (if is_rd m then rd_cmds (unat (m_len m) - p)
     else wr_cmds (drop p (take (unat (m_len m)) (m_buf m))))"

definition head_cmds :: "i2c_msg \<Rightarrow> (u32 \<times> u8) list" where
  "head_cmds m = [(OCI2C_DATA, i2c_8bit_addr_from_msg m), (OCI2C_CMD, OCI2C_CMD_START)]"

definition later_msg :: "i2c_msg \<Rightarrow> (u32 \<times> u8) list" where
  "later_msg m = (if is_nostart m then [] else head_cmds m) @ body_from m 0"

definition rest_cmds :: "i2c_msg list \<Rightarrow> (u32 \<times> u8) list" where
  "rest_cmds ms = concat (map later_msg ms) @ [(OCI2C_CMD, OCI2C_CMD_STOP)]"

fun xfer_script :: "i2c_msg list \<Rightarrow> (u32 \<times> u8) list" where
  "xfer_script [] = []"
| "xfer_script (m # ms) = head_cmds m @ body_from m 0 @ rest_cmds ms"

text \<open>
  What is left of the script when the command in flight completes. In \<open>STATE_READ\<close> the byte
  at \<open>pos\<close> has been asked for, in \<open>STATE_WRITE\<close> the byte at \<open>pos\<close> is the next to send.
\<close>

definition todo :: "ocores_i2c \<Rightarrow> nat \<Rightarrow> (u32 \<times> u8) list" where
  "todo i p = body_from (oc_mem i ! oc_msg i) p @ rest_cmds (drop (Suc (oc_msg i)) (oc_mem i))"

definition pending :: "ocores_i2c \<Rightarrow> (u32 \<times> u8) list" where
  "pending i = (case oc_state i of
       STATE_START \<Rightarrow> todo i 0
     | STATE_WRITE \<Rightarrow> todo i (nat (oc_pos i))
     | STATE_READ \<Rightarrow> todo i (Suc (nat (oc_pos i)))
     | _ \<Rightarrow> [])"

definition ncmds :: "(u32 \<times> u8) list \<Rightarrow> nat" where
  "ncmds ws = length (filter (\<lambda>(r, v). r = OCI2C_CMD) ws)"

lemma ncmds_simps [simp]:
  "ncmds [] = 0"
  "ncmds ((r, v) # ws) = (if r = OCI2C_CMD then Suc (ncmds ws) else ncmds ws)"
  "ncmds (ws @ vs) = ncmds ws + ncmds vs"
  by (simp_all add: ncmds_def)

lemma ncmds_rd_cmds [simp]: "ncmds (rd_cmds n) = n"
  by (induction n rule: rd_cmds.induct) simp_all

lemma ncmds_wr_cmds [simp]: "ncmds (wr_cmds bs) = length bs"
  by (induction bs) simp_all

lemma rd_cmds_Suc: "rd_cmds (Suc n) =
    (OCI2C_CMD, if n = 0 then OCI2C_CMD_READ_NACK else OCI2C_CMD_READ_ACK) # rd_cmds n"
  by (cases n) simp_all

lemma body_from_rd:
  assumes "is_rd m" "p < unat (m_len m)"
  shows "body_from m p = (OCI2C_CMD, if p = unat (m_len m) - 1 then OCI2C_CMD_READ_NACK
    else OCI2C_CMD_READ_ACK) # body_from m (Suc p)"
proof -
  obtain n where "unat (m_len m) - p = Suc n" "unat (m_len m) - Suc p = n"
    using assms(2) by (metis Suc_diff_Suc)
  then show ?thesis
    using assms by (auto simp: body_from_def rd_cmds_Suc)
qed

lemma body_from_wr:
  assumes "\<not> is_rd m" "p < unat (m_len m)" "msg_ok m"
  shows "body_from m p = (OCI2C_DATA, m_buf m ! p) # (OCI2C_CMD, OCI2C_CMD_WRITE) # body_from m (Suc p)"
proof -
  have "drop p (take (unat (m_len m)) (m_buf m))
      = m_buf m ! p # drop (Suc p) (take (unat (m_len m)) (m_buf m))"
    using assms by (simp add: msg_ok_def flip: Cons_nth_drop_Suc)
  then show ?thesis
    using assms(1) by (simp add: body_from_def)
qed

lemma body_from_end [simp]: "body_from m (unat (m_len m)) = []"
  by (simp add: body_from_def)

lemma rest_cmds_simps [simp]:
  "rest_cmds [] = [(OCI2C_CMD, OCI2C_CMD_STOP)]"
  "rest_cmds (m # ms) = later_msg m @ rest_cmds ms"
  by (simp_all add: rest_cmds_def)

lemma todo_upd [simp]:
  "todo (i\<lparr>oc_pos := q\<rparr>) p = todo i p"
  "todo (i\<lparr>oc_nmsgs := q\<rparr>) p = todo i p"
  "todo (i\<lparr>oc_state := st\<rparr>) p = todo i p"
  by (simp_all add: todo_def)

text \<open>
  The bytes a transfer has delivered so far: the whole of every read message that is behind,
  and the first \<open>p\<close> bytes of the current one if it is a read.
\<close>

definition read_bytes :: "i2c_msg \<Rightarrow> u8 list" where
  "read_bytes m = (if is_rd m then take (unat (m_len m)) (m_buf m) else [])"

definition recv_upto :: "ocores_i2c \<Rightarrow> nat \<Rightarrow> u8 list" where
  "recv_upto i p = concat (map read_bytes (take (oc_msg i) (oc_mem i)))
     @ (if oc_msg i < length (oc_mem i) \<and> is_rd (oc_mem i ! oc_msg i)
        then take p (m_buf (oc_mem i ! oc_msg i)) else [])"

definition received :: "ocores_i2c \<Rightarrow> u8 list" where
  "received i = recv_upto i (if oc_state i = STATE_READ then nat (oc_pos i) else 0)"

lemma recv_upto_upd [simp]:
  "recv_upto (i\<lparr>oc_pos := q\<rparr>) p = recv_upto i p"
  "recv_upto (i\<lparr>oc_nmsgs := q\<rparr>) p = recv_upto i p"
  "recv_upto (i\<lparr>oc_state := st\<rparr>) p = recv_upto i p"
  "recv_upto (i\<lparr>oc_nmsgs := q, oc_msg := k\<rparr>) p = recv_upto (i\<lparr>oc_msg := k\<rparr>) p"
  by (simp_all add: recv_upto_def)

lemma recv_upto_wr:
  "oc_msg i < length (oc_mem i) \<Longrightarrow> \<not> is_rd (oc_mem i ! oc_msg i) \<Longrightarrow> recv_upto i p = recv_upto i q"
  by (simp add: recv_upto_def)

lemma recv_upto_next_msg:
  assumes "oc_msg i < length (oc_mem i)"
  shows "recv_upto (i\<lparr>oc_msg := Suc (oc_msg i)\<rparr>) 0 = recv_upto i (unat (m_len (oc_mem i ! oc_msg i)))"
  using assms by (simp add: recv_upto_def read_bytes_def take_Suc_conv_app_nth)

section \<open>Each command advances the script\<close>

lemma process_next_READ:
  assumes "oc_state i = STATE_READ" "cur_msg i = Inr m"
  shows "process_next P i w = Inr (i, oc_setreg P i OCI2C_CMD
         (if oc_pos i = uint (m_len m) - 1 then OCI2C_CMD_READ_NACK else OCI2C_CMD_READ_ACK) w)"
  using assms by (simp add: process_next_def)

lemma process_next_WRITE:
  assumes "oc_state i \<noteq> STATE_READ" "cur_msg i = Inr m" "0 \<le> oc_pos i" "oc_pos i < int (length (m_buf m))"
  shows "process_next P i w = Inr (i\<lparr>oc_pos := oc_pos i + 1\<rparr>,
     oc_setreg P i OCI2C_CMD OCI2C_CMD_WRITE (oc_setreg P i OCI2C_DATA (m_buf m ! nat (oc_pos i)) w))"
  using assms by (simp add: process_next_def buf_get_def Let_def)

text \<open>
  \<open>advance\<close>: from \<open>i\<close> the driver has written the registers \<open>em\<close>, one of them a command, and
  is now in \<open>j\<close>, with what is left of \<open>ws\<close> and the bytes \<open>rs\<close> delivered.
\<close>

definition advance :: "ocores_i2c \<Rightarrow> 'd i2c_world \<Rightarrow> (u32 \<times> u8) list \<Rightarrow> u8 list \<Rightarrow> ocores_i2c \<Rightarrow> 'd i2c_world \<Rightarrow> bool" where
  "advance i w ws rs j w' \<longleftrightarrow> i2c_inv j \<and> same_regs i j \<and> received j = rs \<and> oc_state j \<noteq> STATE_ERROR \<and>
     (\<exists>em. trace w' = trace w @ map (wr_ev i) em \<and> ncmds em = 1 \<and> em @ pending j = ws)"

lemma process_next_advance:
  assumes "msgs_ok (oc_mem i)" "oc_msg i < length (oc_mem i)"
    "oc_nmsgs i = int (length (oc_mem i)) - int (oc_msg i)"
    "oc_state i = (if is_rd (oc_mem i ! oc_msg i) then STATE_READ else STATE_WRITE)"
    "0 \<le> oc_pos i" "oc_pos i < uint (m_len (oc_mem i ! oc_msg i))"
  shows "\<exists>j w'. process_next P i w = Inr (j, w') \<and> oc_mem j = oc_mem i
    \<and> advance i w (todo i (nat (oc_pos i))) (recv_upto i (nat (oc_pos i))) j w'"
proof -
  let ?m = "oc_mem i ! oc_msg i"
  have cur: "cur_msg i = Inr ?m"
    using assms(2) by (simp add: cur_msg_def)
  have ok: "msg_ok ?m"
    using assms(1,2) by (simp add: msgs_ok_def list_all_length)
  then have b: "oc_pos i < int (length (m_buf ?m))"
    using assms(6) by (simp add: msg_ok_uint)
  have p: "nat (oc_pos i) < unat (m_len ?m)"
    using assms(5,6) by (simp add: nat_unat_less)
  show ?thesis
  proof (cases "is_rd ?m")
    case True
    have last: "nat (oc_pos i) = unat (m_len ?m) - 1 \<longleftrightarrow> oc_pos i = uint (m_len ?m) - 1"
      using assms(5,6) by (rule nat_unat_pred)
    show ?thesis
      using assms True last
      by (simp add: process_next_READ [OF _ cur] advance_def i2c_inv_def pos_ok_def in_flight_def
          pending_def todo_def body_from_rd [OF True p] trace_setreg received_def)
  next
    case False
    have "nat (oc_pos i + 1) = Suc (nat (oc_pos i))"
      using assms(5) by simp
    then show ?thesis
      using assms False b
      by (simp add: process_next_WRITE [OF _ cur] advance_def i2c_inv_def pos_ok_def in_flight_def
          pending_def todo_def body_from_wr [OF False p ok] trace_setreg received_def
          recv_upto_wr [of i 0 "nat (oc_pos i)"]
          exI [where x = "[(3, m_buf ?m ! nat (oc_pos i)), (4, 17)]"])
  qed
qed


lemma process_eom_advance:
  assumes "msgs_ok (oc_mem i)" "oc_msg i < length (oc_mem i)"
    "oc_nmsgs i = int (length (oc_mem i)) - int (oc_msg i)"
    "oc_state i = (if is_rd (oc_mem i ! oc_msg i) then STATE_READ else STATE_WRITE)"
    "0 \<le> oc_pos i" "oc_pos i \<le> uint (m_len (oc_mem i ! oc_msg i))"
  shows "\<exists>j w'. process_eom P i w = Inr (j, w') \<and> oc_mem j = oc_mem i
    \<and> advance i w (todo i (nat (oc_pos i))) (recv_upto i (nat (oc_pos i))) j w'"
proof (cases "oc_pos i = uint (m_len (oc_mem i ! oc_msg i))")
  case False
  then show ?thesis
    using assms process_next_advance [of i P w] by (simp add: process_eom_def cur_msg_def)
next
  case True
  let ?k = "oc_msg i + 1"
  let ?i = "i\<lparr>oc_nmsgs := oc_nmsgs i - 1, oc_msg := ?k, oc_pos := 0\<rparr>"
  have p: "nat (oc_pos i) = unat (m_len (oc_mem i ! oc_msg i))"
    using True by simp
  show ?thesis
  proof (cases "?k < length (oc_mem i)")
    case last: False
    then show ?thesis
      using True assms
      by (simp add: process_eom_def cur_msg_def advance_def i2c_inv_def in_flight_def pending_def
          todo_def trace_setreg p received_def flip: recv_upto_next_msg)
  next
    case more: True
    let ?m = "oc_mem i ! ?k"
    have rest: "rest_cmds (drop ?k (oc_mem i)) = later_msg ?m @ rest_cmds (drop (Suc ?k) (oc_mem i))"
      using more by (simp flip: Cons_nth_drop_Suc)
    show ?thesis
    proof (cases "is_nostart ?m")
      case False
      then show ?thesis
        using True more assms rest
        by (simp add: process_eom_def cur_msg_def advance_def i2c_inv_def in_flight_def pos_ok_def
            Let_def pending_def todo_def trace_setreg p later_msg_def head_cmds_def
            exI [where x = "head_cmds ?m"] received_def flip: recv_upto_next_msg)
    next
      case ns: True
      let ?j = "?i\<lparr>oc_state := (if is_rd ?m then STATE_READ else STATE_WRITE)\<rparr>"
      have "0 < m_len ?m"
        using assms(1) more ns by (auto simp: msgs_ok_def list_all_length nth_tl)
      then have "0 < uint (m_len ?m)"
        by (simp add: word_less_def)
      then have "\<exists>j w'. process_next P ?j w = Inr (j, w') \<and> oc_mem j = oc_mem i
          \<and> advance ?j w (todo ?j 0) (recv_upto ?j 0) j w'"
        using more assms process_next_advance [of ?j P w] by simp
      moreover have "recv_upto ?j 0 = recv_upto i (nat (oc_pos i))"
        using assms(2) by (simp add: p recv_upto_next_msg)
      moreover have "todo ?j 0 = todo i (nat (oc_pos i))"
        using rest ns by (simp add: todo_def p later_msg_def)
      ultimately show ?thesis
        using True more ns assms
        by (simp add: process_eom_def cur_msg_def Let_def advance_def)
    qed
  qed
qed

text \<open>The branches of \<open>ocores_process\<close>.\<close>

lemma process_final:
  assumes "\<not> in_flight i"
  shows "ocores_process P stat i w = Inr (i, kcall WakeUp (oc_setreg P i OCI2C_CMD OCI2C_CMD_IACK w))"
  using assms by (simp add: ocores_process_def in_flight_def)

lemma process_arblost:
  assumes "in_flight i" "stat AND OCI2C_STAT_ARBLOST \<noteq> 0"
  shows "ocores_process P stat i w = Inr (stop_error P i w)"
  using assms by (simp add: ocores_process_def in_flight_def)

lemma process_acked:
  assumes "oc_state i \<in> {STATE_START, STATE_WRITE}" "stat AND OCI2C_STAT_ARBLOST = 0" "cur_msg i = Inr m"
  shows "ocores_process P stat i w =
    (if stat AND OCI2C_STAT_NACK \<noteq> 0 then Inr (stop_error P i w)
     else process_eom P (i\<lparr>oc_state := (if is_rd m then STATE_READ else STATE_WRITE)\<rparr>) w)"
  using assms by (auto simp: ocores_process_def stop_error_def Let_def)

lemma process_read:
  assumes "oc_state i = STATE_READ" "stat AND OCI2C_STAT_ARBLOST = 0" "cur_msg i = Inr m"
    "0 \<le> oc_pos i" "oc_pos i < int (length (m_buf m))" "oc_getreg P i OCI2C_DATA w = (b, w')"
  shows "ocores_process P stat i w = process_eom P
    (i\<lparr>oc_mem := (oc_mem i)[oc_msg i := m\<lparr>m_buf := (m_buf m)[nat (oc_pos i) := b]\<rparr>],
       oc_pos := oc_pos i + 1\<rparr>) w'"
  using assms by (simp add: ocores_process_def buf_set_def)

text \<open>The status lets the transfer go on: no lost arbitration, and no missing acknowledge of a byte sent.\<close>

definition go_on :: "u8 \<Rightarrow> ocores_i2c \<Rightarrow> bool" where
  "go_on stat i \<longleftrightarrow> stat AND OCI2C_STAT_ARBLOST = 0
     \<and> (oc_state i \<noteq> STATE_READ \<longrightarrow> stat AND OCI2C_STAT_NACK = 0)"

lemma process_bad:
  assumes "i2c_inv i" "in_flight i" "\<not> go_on stat i"
  shows "ocores_process P stat i w = Inr (stop_error P i w)"
proof (cases "stat AND OCI2C_STAT_ARBLOST = 0")
  case False
  then show ?thesis
    using assms(2) by (simp add: process_arblost)
next
  case True
  then have "oc_state i \<in> {STATE_START, STATE_WRITE}" "stat AND OCI2C_STAT_NACK \<noteq> 0"
    using assms(2,3) by (cases "oc_state i"; simp add: go_on_def in_flight_def)+
  moreover have "cur_msg i = Inr (oc_mem i ! oc_msg i)"
    using assms(1,2) by (simp add: cur_msg_def i2c_inv_def)
  ultimately show ?thesis
    using True by (simp add: process_acked)
qed

text \<open>What a call reads: in \<open>STATE_READ\<close> the byte that has arrived, else nothing.\<close>

definition fetch :: "'d platform \<Rightarrow> ocores_i2c \<Rightarrow> 'd i2c_world \<Rightarrow> u8 list \<times> 'd i2c_world" where
  "fetch P i w = (if oc_state i = STATE_READ
     then (let (b, w) = oc_getreg P i OCI2C_DATA w in ([b], w)) else ([], w))"

lemma process_good_write:
  assumes "i2c_inv i" "oc_state i \<in> {STATE_START, STATE_WRITE}" "go_on stat i"
  shows "\<exists>j w'. ocores_process P stat i w = Inr (j, w') \<and> oc_mem j = oc_mem i
     \<and> advance i w (pending i) (received i) j w'"
proof -
  let ?m = "oc_mem i ! oc_msg i"
  let ?i = "i\<lparr>oc_state := (if is_rd ?m then STATE_READ else STATE_WRITE)\<rparr>"
  have f: "in_flight i"
    using assms(2) by (auto simp: in_flight_def)
  have cur: "cur_msg i = Inr ?m"
    using assms(1) f by (simp add: i2c_inv_def cur_msg_def)
  have p: "0 \<le> oc_pos i" "oc_pos i \<le> uint (m_len ?m)" "oc_state i = STATE_START \<Longrightarrow> oc_pos i = 0"
    "oc_state i = STATE_WRITE \<Longrightarrow> \<not> is_rd ?m"
    using assms(1,2) f by (auto simp: i2c_inv_def pos_ok_def)
  have "\<exists>j w'. process_eom P ?i w = Inr (j, w') \<and> oc_mem j = oc_mem ?i
      \<and> advance ?i w (todo ?i (nat (oc_pos ?i))) (recv_upto ?i (nat (oc_pos ?i))) j w'"
    using assms(1) f p by (intro process_eom_advance) (simp_all add: i2c_inv_def)
  moreover have "todo ?i (nat (oc_pos ?i)) = pending i"
    using assms(2) p by (auto simp: pending_def)
  moreover have "recv_upto ?i (nat (oc_pos ?i)) = received i"
    using assms(1,2) f p recv_upto_wr [of i "nat (oc_pos i)" 0] by (auto simp: received_def i2c_inv_def)
  moreover have "ocores_process P stat i w = process_eom P ?i w"
    using assms(2,3) by (subst process_acked [OF assms(2) _ cur]) (auto simp: go_on_def)
  ultimately show ?thesis
    by (simp add: advance_def)
qed


lemma todo_store:
  assumes "is_rd (oc_mem i ! oc_msg i)" "oc_msg i < length (oc_mem i)"
  shows "todo (i\<lparr>oc_mem := (oc_mem i)[oc_msg i := (oc_mem i ! oc_msg i)\<lparr>m_buf := bs\<rparr>]\<rparr>) p = todo i p"
  using assms by (simp add: todo_def body_from_def)

lemma recv_upto_store:
  assumes "is_rd (oc_mem i ! oc_msg i)" "oc_msg i < length (oc_mem i)"
    "p < length (m_buf (oc_mem i ! oc_msg i))"
  shows "recv_upto (i\<lparr>oc_mem := (oc_mem i)[oc_msg i :=
      (oc_mem i ! oc_msg i)\<lparr>m_buf := (m_buf (oc_mem i ! oc_msg i))[p := b]\<rparr>]\<rparr>) (Suc p)
    = recv_upto i p @ [b]"
  using assms by (simp add: recv_upto_def take_Suc_conv_app_nth)

lemma process_good_read:
  assumes "i2c_inv i" "oc_state i = STATE_READ" "go_on stat i" "oc_getreg P i OCI2C_DATA w = (b, w1)"
  shows "\<exists>j w'. ocores_process P stat i w = Inr (j, w') \<and> msgs_frame (oc_mem i) (oc_mem j)
     \<and> advance i w1 (pending i) (received i @ [b]) j w'"
proof -
  let ?m = "oc_mem i ! oc_msg i" and ?p = "nat (oc_pos i)"
  let ?n = "?m\<lparr>m_buf := (m_buf ?m)[?p := b]\<rparr>"
  let ?j = "i\<lparr>oc_mem := (oc_mem i)[oc_msg i := ?n]\<rparr>"
  let ?i = "i\<lparr>oc_mem := (oc_mem i)[oc_msg i := ?n], oc_pos := oc_pos i + 1\<rparr>"
  have f: "in_flight i" and k: "oc_msg i < length (oc_mem i)" and ok: "msgs_ok (oc_mem i)"
    using assms(1,2) by (auto simp: in_flight_def i2c_inv_def)
  have "msg_ok ?m"
    using ok k by (simp add: msgs_ok_def list_all_length)
  then have r: "0 \<le> oc_pos i" "oc_pos i < uint (m_len ?m)" "oc_pos i < int (length (m_buf ?m))" "is_rd ?m"
    using assms(1,2) f by (simp_all add: i2c_inv_def pos_ok_def msg_ok_uint)
  have cur: "cur_msg i = Inr ?m"
    using k by (simp add: cur_msg_def)
  have fr: "msgs_frame (oc_mem i) (oc_mem ?i)"
    using k r(4) by (simp add: msgs_frame_update msg_frame_def)
  have s: "nat (oc_pos i + 1) = Suc ?p"
    using r(1) by simp
  have "\<exists>j w'. process_eom P ?i w1 = Inr (j, w') \<and> oc_mem j = oc_mem ?i
      \<and> advance ?i w1 (todo ?i (nat (oc_pos ?i))) (recv_upto ?i (nat (oc_pos ?i))) j w'"
    using assms(1,2) f r k msgs_frame_ok [OF fr ok]
    by (intro process_eom_advance) (simp_all add: i2c_inv_def)
  moreover have "todo ?i (nat (oc_pos ?i)) = pending i"
    using assms(2) k r by (simp add: pending_def s todo_def body_from_def)
  moreover have "recv_upto ?i (nat (oc_pos ?i)) = received i @ [b]"
    using assms(2) k r recv_upto_store [of i ?p b] by (simp add: s received_def recv_upto_def)
  moreover have "ocores_process P stat i w = process_eom P ?i w1"
    using assms(2,3) by (subst process_read [OF assms(2) _ cur r(1,3) assms(4)]) (simp_all add: go_on_def)
  ultimately show ?thesis
    using fr by (auto simp: advance_def)
qed

text \<open>Both at once.\<close>

lemma process_good:
  assumes "i2c_inv i" "in_flight i" "go_on stat i" "fetch P i w = (bs, w1)"
  shows "\<exists>j w'. ocores_process P stat i w = Inr (j, w') \<and> msgs_frame (oc_mem i) (oc_mem j)
     \<and> advance i w1 (pending i) (received i @ bs) j w'"
proof (cases "oc_state i = STATE_READ")
  case True
  then obtain b where "oc_getreg P i OCI2C_DATA w = (b, w1)" "bs = [b]"
    using assms(4) by (auto simp: fetch_def split: prod.splits)
  then show ?thesis
    using process_good_read [OF assms(1) True assms(3)] by blast
next
  case False
  then have "oc_state i \<in> {STATE_START, STATE_WRITE}" "bs = []" "w1 = w"
    using assms(2,4) by (cases "oc_state i"; simp add: in_flight_def fetch_def)+
  then show ?thesis
    using process_good_write [OF assms(1) _ assms(3), of P w] by (metis append_Nil2 msgs_frame_refl)
qed

lemma stop_error_ok:
  assumes "msgs_ok (oc_mem i)" "stop_error P i w = (i', w')"
  shows "i2c_inv i'" "oc_mem i' = oc_mem i" "same_regs i i'" "oc_state i' = STATE_ERROR"
    "trace w' = trace w @ [wr_ev i (OCI2C_CMD, OCI2C_CMD_STOP)]" "oc_nmsgs i' = oc_nmsgs i"
  using assms by (auto simp: stop_error_def i2c_inv_def in_flight_def Let_def trace_setreg)

text \<open>No call faults, whatever the status says.\<close>

lemma process_total:
  assumes "i2c_inv i"
  shows "\<exists>j w'. ocores_process P stat i w = Inr (j, w') \<and> i2c_inv j
    \<and> msgs_frame (oc_mem i) (oc_mem j) \<and> same_regs i j"
proof -
  consider "\<not> in_flight i" | "in_flight i" "\<not> go_on stat i" | "in_flight i" "go_on stat i"
    by blast
  then show ?thesis
  proof cases
    case 1
    then show ?thesis
      using assms by (simp add: process_final)
  next
    case 2
    obtain j w' where e: "stop_error P i w = (j, w')"
      by fastforce
    have "msgs_ok (oc_mem i)"
      using assms by (simp add: i2c_inv_def)
    note s = stop_error_ok [OF this e]
    show ?thesis
      using process_bad [OF assms 2, of P w] e s(1-3) by simp
  next
    case 3
    then show ?thesis
      using process_good [OF assms 3, of P w] by (cases "fetch P i w") (auto simp: advance_def)
  qed
qed

section \<open>What a step does to the world\<close>

lemma pending_in_flight:
  assumes "in_flight i"
  shows "0 < ncmds (pending i)"
  using assms by (cases "oc_state i") (auto simp: in_flight_def pending_def todo_def rest_cmds_def)

lemma pending_final: "\<not> in_flight i \<Longrightarrow> pending i = []"
  by (auto simp: in_flight_def pending_def)

lemma in_flight_ncmds: "in_flight i \<longleftrightarrow> 0 < ncmds (pending i)"
  using pending_in_flight pending_final by fastforce

lemma writes_of_wr_ev [simp]: "writes_of (map (wr_ev i) em) = map (wr_ev i) em"
  by (induction em) (simp_all add: wr_ev_def)

lemma writes_of_Cons_wr_ev [simp]: "writes_of (wr_ev i x # es) = wr_ev i x # writes_of es"
  by (simp add: wr_ev_def)

lemma reads_at_Cons_wr_ev [simp]: "reads_at a (wr_ev i x # es) = reads_at a es"
  by (simp add: wr_ev_def)

lemma reads_at_wr_ev [simp]: "reads_at a (map (wr_ev i) em) = []"
  by (induction em) (simp_all add: wr_ev_def)

text \<open>The world after a step: what was written and what the data register returned.\<close>

definition steps_io :: "ocores_i2c \<Rightarrow> 'd i2c_world \<Rightarrow> (u32 \<times> u8) list \<Rightarrow> u8 list \<Rightarrow> 'd i2c_world \<Rightarrow> bool" where
  "steps_io i w em bs w' \<longleftrightarrow> (\<exists>es vs. trace w' = trace w @ es \<and> writes_of es = map (wr_ev i) em
     \<and> reads_at (rd_addr i OCI2C_DATA) es = vs \<and> bs = map ucast vs)"

lemma steps_io_refl [simp]: "steps_io i w [] [] w"
  by (simp add: steps_io_def)

lemma steps_io_trans:
  assumes "steps_io i w em bs w1" "steps_io j w1 em' bs' w2" "same_regs i j"
  shows "steps_io i w (em @ em') (bs @ bs') w2"
  using assms same_regs_cong [OF assms(3)] by (auto simp: steps_io_def)

lemma fetch_io:
  assumes "fetch P i w = (bs, w1)"
  shows "steps_io i w [] bs w1"
proof (cases "oc_state i = STATE_READ")
  case True
  then obtain b where g: "oc_getreg P i OCI2C_DATA w = (b, w1)" "bs = [b]"
    using assms by (auto simp: fetch_def split: prod.splits)
  then show ?thesis
    using trace_getreg [OF _ g(1)] by (auto simp: steps_io_def)
next
  case False
  then show ?thesis
    using assms by (simp add: fetch_def)
qed

text \<open>A step of a healthy transfer, in one statement.\<close>

lemma process_step:
  assumes "i2c_inv i" "in_flight i" "go_on stat i"
  obtains j w' em bs where "ocores_process P stat i w = Inr (j, w')" "i2c_inv j" "same_regs i j"
    "msgs_frame (oc_mem i) (oc_mem j)" "steps_io i w em bs w'" "em @ pending j = pending i"
    "ncmds em = 1" "received j = received i @ bs" "oc_state j \<noteq> STATE_ERROR"
proof -
  obtain bs w1 where f: "fetch P i w = (bs, w1)"
    by fastforce
  obtain j w' where j: "ocores_process P stat i w = Inr (j, w')" "msgs_frame (oc_mem i) (oc_mem j)"
      and a: "advance i w1 (pending i) (received i @ bs) j w'"
    using process_good [OF assms f] by blast
  then obtain em where em: "trace w' = trace w1 @ map (wr_ev i) em" "ncmds em = 1" "em @ pending j = pending i"
    by (auto simp: advance_def)
  have "steps_io i w1 em [] w'"
    using em(1) by (simp add: steps_io_def)
  then have "steps_io i w em bs w'"
    using steps_io_trans [OF fetch_io [OF f] _ same_regs_refl] by fastforce
  then show ?thesis
    using that j a em(2,3) by (simp add: advance_def)
qed

text \<open>The statuses let the transfer go on whatever the state.\<close>

definition good :: "u8 \<Rightarrow> bool" where
  "good stat \<longleftrightarrow> stat AND OCI2C_STAT_ARBLOST = 0 \<and> stat AND OCI2C_STAT_NACK = 0"

lemma good_go_on: "good stat \<Longrightarrow> go_on stat i"
  by (simp add: good_def go_on_def)

end
