(* ===== verification/I2c_Xfer.thy ===== *)
theory I2c_Xfer
  imports I2c_Script Clock
begin

text \<open>
  Transfers: \<open>ocores_wait\<close> and the polling loop around the interrupt handler, the interrupt
  driven transfer, \<open>ocores_xfer\<close>, and \<open>ocores_init\<close>. The loops run until the controller or the
  clock ends them, so a loop that never ends is \<open>None\<close>. A call that faults is \<open>Some (Inl f)\<close>.
\<close>

unbundle bit_operations_syntax

section \<open>Polling\<close>

partial_function (option) wait_loop ::
    "'d platform \<Rightarrow> ocores_i2c \<Rightarrow> u32 \<Rightarrow> u8 \<Rightarrow> u8 \<Rightarrow> u64 \<Rightarrow> 'd i2c_world \<Rightarrow> (int \<times> 'd i2c_world) option" where
  "wait_loop P i reg msk val j w =
     (let (status, w1) = oc_getreg P i reg w
      in if status AND msk = val then Some (0, w1)
         else let (now, w2) = jiffies P w1
              in if time_after now j then Some (- ETIMEDOUT, w2)
                 else wait_loop P i reg msk val j w2)"

definition ocores_wait ::
    "'d platform \<Rightarrow> ocores_i2c \<Rightarrow> u32 \<Rightarrow> u8 \<Rightarrow> u8 \<Rightarrow> u64 \<Rightarrow> 'd i2c_world \<Rightarrow> (int \<times> 'd i2c_world) option" where
  "ocores_wait P i reg msk val timeout w =
     (let (now, w) = jiffies P w in wait_loop P i reg msk val (now + timeout) w)"

text \<open>
  \<open>ocores_poll_wait\<close> waits for the bus to be free after a transfer, and for the byte in flight
  during one. It divides by the bus clock.
\<close>

definition poll_status :: "'d platform \<Rightarrow> ocores_i2c \<Rightarrow> u8 \<Rightarrow> 'd i2c_world \<Rightarrow> (int \<times> 'd i2c_world) option" where
  "poll_status P i msk w = (case ocores_wait P i OCI2C_STATUS msk 0 (p_msecs P 1) w of
     None \<Rightarrow> None
   | Some (err, w) \<Rightarrow> Some (err, if err \<noteq> 0 then kcall DevWarn w else w))"

definition ocores_poll_wait :: "'d platform \<Rightarrow> ocores_i2c \<Rightarrow> 'd i2c_world \<Rightarrow> (c_fault + int \<times> 'd i2c_world) option" where
  "ocores_poll_wait P i w =
     (if oc_state i = STATE_DONE \<or> oc_state i = STATE_ERROR then
        map_option Inr (poll_status P i OCI2C_STAT_BUSY w)
      else if oc_bus_clock_khz i = 0 then Some (Inl DivByZero)
      else map_option Inr (poll_status P i OCI2C_STAT_TIP
        (kcall (Udelay ((8 * 1000) sdiv oc_bus_clock_khz i)) w)))"

partial_function (option) ocores_process_polling ::
    "'d platform \<Rightarrow> ocores_i2c \<Rightarrow> 'd i2c_world \<Rightarrow> (c_fault + ocores_i2c \<times> 'd i2c_world) option" where
  "ocores_process_polling P i w = Option.bind (ocores_poll_wait P i w) (\<lambda>r.
     case r of
       Inl f \<Rightarrow> Some (Inl f)
     | Inr (err, w) \<Rightarrow>
         if err \<noteq> 0 then Some (Inr (i\<lparr>oc_state := STATE_ERROR\<rparr>, w))
         else (case ocores_isr P i w of
             Inl f \<Rightarrow> Some (Inl f)
           | Inr (ret, i, w) \<Rightarrow>
               if ret = IRQ_NONE then Some (Inr (i, w)) else ocores_process_polling P i w))"

section \<open>Transfers\<close>

text \<open>
  \<open>serve n\<close>: the controller interrupts \<open>n\<close> times. \<open>wait_event_timeout\<close> returns to its caller
  after some number of interrupts; it reports a timeout exactly when the condition does not
  hold then.
\<close>

fun serve :: "'d platform \<Rightarrow> nat \<Rightarrow> ocores_i2c \<Rightarrow> 'd i2c_world \<Rightarrow> c_fault + ocores_i2c \<times> 'd i2c_world" where
  "serve P 0 i w = Inr (i, w)"
| "serve P (Suc n) i w = ebind (ocores_isr P i w) (\<lambda>(r, i, w). serve P n i w)"

definition xfer_start :: "'d platform \<Rightarrow> i2c_msg list \<Rightarrow> int \<Rightarrow> bool \<Rightarrow> ocores_i2c \<Rightarrow> 'd i2c_world \<Rightarrow>
    c_fault + ocores_i2c \<times> 'd i2c_world" where
  "xfer_start P msgs num polling i w =
     (let (ctrl, w) = oc_getreg P i OCI2C_CONTROL w;
          w = oc_setreg P i OCI2C_CONTROL
            (if polling then ctrl AND NOT OCI2C_CTRL_IEN else ctrl OR OCI2C_CTRL_IEN) w;
          i = i\<lparr>oc_mem := msgs, oc_msg := 0, oc_pos := 0, oc_nmsgs := num, oc_state := STATE_START\<rparr>
      in ebind (cur_msg i) (\<lambda>m.
           let w = oc_setreg P i OCI2C_DATA (i2c_8bit_addr_from_msg m) w;
               w = oc_setreg P i OCI2C_CMD OCI2C_CMD_START w
           in Inr (i, w)))"

definition xfer_result :: "int \<Rightarrow> ocores_i2c \<Rightarrow> int" where
  "xfer_result num i = (if oc_state i = STATE_DONE then num else - EIO)"

definition ocores_xfer_core ::
    "'d platform \<Rightarrow> nat \<Rightarrow> i2c_msg list \<Rightarrow> int \<Rightarrow> bool \<Rightarrow> ocores_i2c \<Rightarrow> 'd i2c_world \<Rightarrow>
     (c_fault + int \<times> ocores_i2c \<times> 'd i2c_world) option" where
  "ocores_xfer_core P irqs msgs num polling i w = (case xfer_start P msgs num polling i w of
       Inl f \<Rightarrow> Some (Inl f)
     | Inr (i, w) \<Rightarrow>
         if polling then (case ocores_process_polling P i w of
             None \<Rightarrow> None
           | Some (Inl f) \<Rightarrow> Some (Inl f)
           | Some (Inr (i, w)) \<Rightarrow> Some (Inr (xfer_result num i, i, w)))
         else Some (ebind (serve P irqs i w) (\<lambda>(i, w).
             if oc_state i = STATE_ERROR \<or> oc_state i = STATE_DONE then
               Inr (xfer_result num i, i, w)
             else (let (i, w) = ocores_process_timeout P i w in Inr (- ETIMEDOUT, i, w)))))"

definition ocores_xfer_polling ::
    "'d platform \<Rightarrow> nat \<Rightarrow> i2c_msg list \<Rightarrow> int \<Rightarrow> ocores_i2c \<Rightarrow> 'd i2c_world \<Rightarrow>
     (c_fault + int \<times> ocores_i2c \<times> 'd i2c_world) option" where
  "ocores_xfer_polling P irqs msgs num i w = ocores_xfer_core P irqs msgs num True i w"

definition ocores_xfer ::
    "'d platform \<Rightarrow> nat \<Rightarrow> i2c_msg list \<Rightarrow> int \<Rightarrow> ocores_i2c \<Rightarrow> 'd i2c_world \<Rightarrow>
     (c_fault + int \<times> ocores_i2c \<times> 'd i2c_world) option" where
  "ocores_xfer P irqs msgs num i w =
     (if oc_flags i AND OCORES_FLAG_POLL \<noteq> 0 then ocores_xfer_polling P irqs msgs num i w
      else ocores_xfer_core P irqs msgs num False i w)"

section \<open>Initialisation\<close>

definition clamp_int :: "int \<Rightarrow> int \<Rightarrow> int \<Rightarrow> int" where
  "clamp_int v lo hi = min (max v lo) hi"

definition ocores_init :: "'d platform \<Rightarrow> ocores_i2c \<Rightarrow> 'd i2c_world \<Rightarrow> c_fault + int \<times> 'd i2c_world" where
  "ocores_init P i w =
     (let (ctrl, w) = oc_getreg P i OCI2C_CONTROL w;
          ctrl = ctrl AND NOT (OCI2C_CTRL_EN OR OCI2C_CTRL_IEN);
          w = oc_setreg P i OCI2C_CONTROL ctrl w
      in if 5 * oc_bus_clock_khz i = 0 then Inl DivByZero
         else
           let prescale = oc_ip_clock_khz i sdiv (5 * oc_bus_clock_khz i) - 1;
               prescale = clamp_int prescale 0 0xffff;
               diff = oc_ip_clock_khz i sdiv (5 * (prescale + 1)) - oc_bus_clock_khz i
           in if \<bar>diff\<bar> > oc_bus_clock_khz i sdiv 10 then Inr (- EINVAL, kcall DevErr w)
              else
                let w = oc_setreg P i OCI2C_PRELOW (word_of_int (prescale AND 0xff)) w;
                    w = oc_setreg P i OCI2C_PREHIGH (word_of_int (drop_bit 8 prescale)) w;
                    w = oc_setreg P i OCI2C_CMD OCI2C_CMD_IACK w;
                    w = oc_setreg P i OCI2C_CONTROL (ctrl OR OCI2C_CTRL_EN) w
                in Inr (0, w))"

end
