(* ===== verification/I2c_Transfer.thy ===== *)
theory I2c_Transfer
  imports I2c_Xfer
begin

text \<open>
  Whole transfers. \<open>progress\<close> relates a transfer in flight to what it has written and stored so
  far; the interrupt handler, the waits and the polling loop all keep it. From it follow what a
  successful transfer has done, that no transfer faults, and when the loops end.
\<close>

unbundle bit_operations_syntax

section \<open>What a running transfer has done\<close>

text \<open>The registers of an instance do not overlap when its shift keeps the offsets apart.\<close>

definition layout_ok :: "ocores_i2c \<Rightarrow> bool" where
  "layout_ok i \<longleftrightarrow> unat (oc_reg_shift i) \<le> 28"

lemma layout_ok_same: "same_regs i j \<Longrightarrow> layout_ok j = layout_ok i"
  by (simp add: layout_ok_def same_regs_def)

lemma status_not_data:
  assumes "layout_ok i"
  shows "rd_addr i OCI2C_STATUS \<noteq> rd_addr i OCI2C_DATA" "rd_addr i OCI2C_CONTROL \<noteq> rd_addr i OCI2C_DATA"
  using assms by (simp_all add: layout_ok_def rd_addr_def fn_reg_def grlib_rreg_def reg_addr_inj)

text \<open>
  \<open>progress\<close>: from \<open>(i, w)\<close>, an instance in flight, to \<open>(j, w')\<close>. The messages are the same but
  for the bytes of read buffers. Unless the transfer has failed, what was written is the part
  of the script that is no longer pending, with acknowledgements after its end, and what was
  stored is what the data register returned.
\<close>

definition iacks :: "nat \<Rightarrow> (u32 \<times> u8) list" where
  "iacks k = replicate k (OCI2C_CMD, OCI2C_CMD_IACK)"

definition progress :: "ocores_i2c \<Rightarrow> 'd i2c_world \<Rightarrow> ocores_i2c \<Rightarrow> 'd i2c_world \<Rightarrow> bool" where
  "progress i w j w' \<longleftrightarrow> i2c_inv j \<and> same_regs i j \<and> msgs_frame (oc_mem i) (oc_mem j) \<and>
     (oc_state j = STATE_ERROR \<or>
      (\<exists>em k bs. steps_io i w (em @ iacks k) bs w' \<and> em @ pending j = pending i
         \<and> received j = received i @ bs \<and> (in_flight j \<longrightarrow> k = 0)))"

lemma progress_refl: "i2c_inv i \<Longrightarrow> progress i w i w"
  unfolding progress_def
  by (auto intro!: exI [of _ "[]"] exI [of _ 0] simp: iacks_def)

lemma steps_io_quiet:
  assumes "steps_io i w em bs w1" "trace w2 = trace w1 @ es" "writes_of es = []"
    "reads_at (rd_addr i OCI2C_DATA) es = []"
  shows "steps_io i w em bs w2"
  using assms by (auto simp: steps_io_def)

text \<open>Reading the status, waiting and warning leave progress as it is.\<close>

lemma progress_quiet:
  assumes "progress i w j w1" "trace w2 = trace w1 @ es" "writes_of es = []"
    "reads_at (rd_addr i OCI2C_DATA) es = []"
  shows "progress i w j w2"
  using assms steps_io_quiet [OF _ assms(2-4)] by (fastforce simp: progress_def)

text \<open>Out of the states of a transfer the step only acknowledges the interrupt and wakes the waiting thread.\<close>

lemma progress_final:
  assumes "progress i w j w1" "\<not> in_flight j"
  shows "progress i w j (kcall WakeUp (oc_setreg P j OCI2C_CMD OCI2C_CMD_IACK w1))"
proof (cases "oc_state j = STATE_ERROR")
  case True
  then show ?thesis
    using assms(1) by (simp add: progress_def)
next
  case False
  let ?w = "kcall WakeUp (oc_setreg P j OCI2C_CMD OCI2C_CMD_IACK w1)"
  obtain em k bs where p: "steps_io i w (em @ iacks k) bs w1" "em @ pending j = pending i"
      "received j = received i @ bs" "same_regs i j"
    using assms(1) False by (auto simp: progress_def)
  have "steps_io j w1 (iacks 1) [] ?w"
    by (simp add: steps_io_def trace_kcall trace_setreg iacks_def)
  then have "steps_io i w ((em @ iacks k) @ iacks 1) (bs @ []) ?w"
    using steps_io_trans [OF p(1) _ p(4)] by blast
  moreover have "(em @ iacks k) @ iacks 1 = em @ iacks (Suc k)"
    by (simp add: iacks_def replicate_append_same)
  ultimately have "steps_io i w (em @ iacks (Suc k)) bs ?w"
    by simp
  then show ?thesis
    using assms p(2,3) unfolding progress_def by blast
qed

lemma progress_process:
  assumes "progress i w j w1"
  shows "\<exists>k w2. ocores_process P stat j w1 = Inr (k, w2) \<and> progress i w k w2
    \<and> (in_flight j \<longrightarrow> go_on stat j \<longrightarrow> Suc (ncmds (pending k)) = ncmds (pending j) \<and> oc_state k \<noteq> STATE_ERROR)
    \<and> (in_flight j \<longrightarrow> \<not> go_on stat j \<longrightarrow> stop_error P j w1 = (k, w2))
    \<and> (\<not> in_flight j \<longrightarrow> k = j)"
proof -
  have inv: "i2c_inv j" and sr: "same_regs i j" and fr: "msgs_frame (oc_mem i) (oc_mem j)"
    using assms by (simp_all add: progress_def)
  consider "\<not> in_flight j" | "in_flight j" "\<not> go_on stat j" | "in_flight j" "go_on stat j"
    by blast
  then show ?thesis
  proof cases
    case 1
    then show ?thesis
      using progress_final [OF assms] by (simp add: process_final)
  next
    case 2
    obtain k w2 where e: "stop_error P j w1 = (k, w2)"
      by fastforce
    have "msgs_ok (oc_mem j)"
      using inv by (simp add: i2c_inv_def)
    note s = stop_error_ok [OF this e]
    have "progress i w k w2"
      using s fr same_regs_trans [OF sr] by (simp add: progress_def)
    then show ?thesis
      using process_bad [OF inv 2, of P w1] 2 e by simp
  next
    case 3
    then have ne: "oc_state j \<noteq> STATE_ERROR"
      by (simp add: in_flight_def)
    then obtain em bs where p: "steps_io i w em bs w1" "em @ pending j = pending i"
        "received j = received i @ bs"
      using assms 3(1) by (auto simp: progress_def iacks_def)
    obtain k w2 em2 bs2 where st: "ocores_process P stat j w1 = Inr (k, w2)" "i2c_inv k" "same_regs j k"
      "msgs_frame (oc_mem j) (oc_mem k)" "steps_io j w1 em2 bs2 w2" "em2 @ pending k = pending j"
      "ncmds em2 = 1" "received k = received j @ bs2" "oc_state k \<noteq> STATE_ERROR"
      using process_step [OF inv 3, of P w1] by metis
    have io: "steps_io i w ((em @ em2) @ iacks 0) (bs @ bs2) w2"
      using steps_io_trans [OF p(1) st(5) sr] by (simp add: iacks_def)
    have em: "(em @ em2) @ pending k = pending i"
      using p(2) st(6) by simp
    have "received k = received i @ (bs @ bs2)"
      using p(3) st(8) by simp
    then have "progress i w k w2"
      using st(2) same_regs_trans [OF sr st(3)] msgs_frame_trans [OF fr st(4)] io em
      unfolding progress_def by blast
    moreover have "Suc (ncmds (pending k)) = ncmds (pending j)"
      using st(6,7) by (metis ncmds_simps(3) plus_1_eq_Suc)
    ultimately show ?thesis
      using 3 st(1,9) by simp
  qed
qed


lemma status_read:
  assumes "layout_ok i" "same_regs i j" "oc_getreg P j OCI2C_STATUS w = (stat, w')"
  shows "\<exists>es. trace w' = trace w @ es \<and> writes_of es = [] \<and> reads_at (rd_addr i OCI2C_DATA) es = []"
  using trace_getreg [OF _ assms(3)] status_not_data(1) [OF assms(1)] same_regs_cong(4) [OF assms(2)]
  by auto

text \<open>The handler: nothing to do, or a step of the state machine.\<close>

lemma progress_isr:
  assumes "progress i w j w1" "layout_ok i" "oc_getreg P j OCI2C_STATUS w1 = (stat, ws)"
  shows "\<exists>r k w2. ocores_isr P j w1 = Inr (r, k, w2) \<and> progress i w k w2
    \<and> (stat AND OCI2C_STAT_IF = 0 \<longrightarrow> r = IRQ_NONE \<and> k = j)
    \<and> (stat AND OCI2C_STAT_IF \<noteq> 0 \<longrightarrow> r = IRQ_HANDLED
        \<and> (in_flight j \<longrightarrow> go_on stat j \<longrightarrow> Suc (ncmds (pending k)) = ncmds (pending j) \<and> oc_state k \<noteq> STATE_ERROR)
        \<and> (in_flight j \<longrightarrow> \<not> go_on stat j \<longrightarrow> oc_state k = STATE_ERROR)
        \<and> (\<not> in_flight j \<longrightarrow> k = j))"
proof -
  have "same_regs i j"
    using assms(1) by (simp add: progress_def)
  then have q: "progress i w j ws"
    using status_read [OF assms(2) _ assms(3)] progress_quiet [OF assms(1)] by blast
  have er: "oc_state k = STATE_ERROR" if "stop_error P j ws = (k, w2)" for k w2
    using that by (auto simp: stop_error_def Let_def)
  show ?thesis
    using assms(3) progress_process [OF q, of P stat] q er
    by (cases "stat AND OCI2C_STAT_IF = 0") (auto simp: ocores_isr_def)
qed

lemma progress_serve:
  assumes "progress i w j w1" "layout_ok i"
  shows "\<exists>k w2. serve P n j w1 = Inr (k, w2) \<and> progress i w k w2"
  using assms
proof (induction n arbitrary: j w1)
  case 0
  then show ?case by simp
next
  case (Suc n)
  obtain stat ws where g: "oc_getreg P j OCI2C_STATUS w1 = (stat, ws)"
    by fastforce
  then obtain r k w2 where k: "ocores_isr P j w1 = Inr (r, k, w2)" "progress i w k w2"
    using progress_isr [OF Suc.prems g] by blast
  then show ?case
    using Suc.IH [OF k(2) Suc.prems(2)] by simp
qed

section \<open>Waiting\<close>

text \<open>
  \<open>polled\<close>: a wait reads its register until the value matches, and nothing else; it gives up
  only after a value that does not match, with the clock past the deadline.
\<close>

definition polled :: "'d platform \<Rightarrow> ocores_i2c \<Rightarrow> u32 \<Rightarrow> u8 \<Rightarrow> u8 \<Rightarrow> 'd i2c_world \<Rightarrow> int \<Rightarrow> 'd i2c_world \<Rightarrow> bool" where
  "polled P i reg msk val w err w' \<longleftrightarrow> (\<exists>vs x. trace w' = trace w
       @ map (EvRead (fn_acc (oc_getreg_fn i)) (rd_addr i reg)) (vs @ [x])
     \<and> (\<forall>v \<in> set vs. ucast v AND msk \<noteq> val)
     \<and> (err = 0 \<and> ucast x AND msk = val \<or> err = - ETIMEDOUT \<and> ucast x AND msk \<noteq> val))"

lemma polled_Cons:
  assumes "trace w1 = trace w @ [EvRead (fn_acc (oc_getreg_fn i)) (rd_addr i reg) v]" "ucast v AND msk \<noteq> val"
    "polled P i reg msk val w1 err w'"
  shows "polled P i reg msk val w err w'"
proof -
  obtain vs x where "trace w' = trace w1 @ map (EvRead (fn_acc (oc_getreg_fn i)) (rd_addr i reg)) (vs @ [x])"
     "\<forall>v \<in> set vs. ucast v AND msk \<noteq> val"
     "err = 0 \<and> ucast x AND msk = val \<or> err = - ETIMEDOUT \<and> ucast x AND msk \<noteq> val"
    using assms(3) unfolding polled_def by blast
  then show ?thesis
    using assms(1,2) unfolding polled_def by (intro exI [of _ "v # vs"] exI [of _ x]) simp
qed

lemma polled_one:
  assumes "trace w' = trace w @ [EvRead (fn_acc (oc_getreg_fn i)) (rd_addr i reg) v]"
    "err = 0 \<and> ucast v AND msk = val \<or> err = - ETIMEDOUT \<and> ucast v AND msk \<noteq> val"
  shows "polled P i reg msk val w err w'"
  using assms unfolding polled_def by (intro exI [of _ "[]"] exI [of _ v]) simp

lemma trace_jiffies_pair: "jiffies P w = (t, w') \<Longrightarrow> trace w' = trace w"
  using trace_jiffies [of P w] by simp

lemma wait_loop_polled:
  assumes "wait_loop P i reg msk val t w = Some (err, w')" "reg \<noteq> OCI2C_PREHIGH"
  shows "polled P i reg msk val w err w'"
proof -
  let ?Q = "\<lambda>((((((P, i), reg), msk), val), t), w) (err, w').
    reg \<noteq> OCI2C_PREHIGH \<longrightarrow> polled P i reg msk val w err w'"
  have "?Q ((((((P, i), reg), msk), val), t), w) (err, w')"
  proof (rule wait_loop.raw_induct [OF _ assms(1)])
    fix wl and P :: "'a platform" and i reg msk val t w and y :: "int \<times> 'a i2c_world"
    assume IH: "\<And>P i reg msk val t w y. wl P i reg msk val t w = Some y \<Longrightarrow>
        ?Q ((((((P, i), reg), msk), val), t), w) y"
      and e: "(let (status, w1) = oc_getreg P i reg w
        in if status AND msk = val then Some (0, w1)
           else let (now, w2) = jiffies P w1
                in if time_after now t then Some (- ETIMEDOUT, w2) else wl P i reg msk val t w2) = Some y"
    obtain st w1 where g: "oc_getreg P i reg w = (st, w1)"
      by fastforce
    obtain now w2 where j: "jiffies P w1 = (now, w2)"
      by fastforce
    obtain err' w' where y: "y = (err', w')"
      by fastforce
    show "?Q ((((((P, i), reg), msk), val), t), w) y"
    proof (simp only: y prod.case, rule impI)
      assume r: "reg \<noteq> OCI2C_PREHIGH"
      obtain v where v: "st = ucast v" "trace w1 = trace w @ [EvRead (fn_acc (oc_getreg_fn i)) (rd_addr i reg) v]"
        using trace_getreg [OF r g] by blast
      note t2 = trace_jiffies_pair [OF j]
      consider "st AND msk = val" "err' = 0" "w' = w1"
        | "st AND msk \<noteq> val" "err' = - ETIMEDOUT" "w' = w2"
        | "st AND msk \<noteq> val" "wl P i reg msk val t w2 = Some (err', w')"
        using e g j y by (auto split: if_splits)
      then show "polled P i reg msk val w err' w'"
      proof cases
        case 1
        then show ?thesis using v by (intro polled_one) auto
      next
        case 2
        then show ?thesis using v t2 by (intro polled_one) auto
      next
        case 3
        then show ?thesis
          using IH [OF 3(2)] r v t2 by (intro polled_Cons [of w2 w i reg v]) auto
      qed
    qed
  qed
  then show ?thesis using assms(2) by simp
qed

lemma ocores_wait_polled:
  assumes "ocores_wait P i reg msk val tmo w = Some (err, w')" "reg \<noteq> OCI2C_PREHIGH"
  shows "polled P i reg msk val w err w'"
proof -
  obtain t w1 where j: "jiffies P w = (t, w1)"
    by fastforce
  then have "polled P i reg msk val w1 err w'"
    using assms wait_loop_polled by (fastforce simp: ocores_wait_def)
  then show ?thesis
    using trace_jiffies_pair [OF j] by (simp add: polled_def)
qed


lemma progress_polled:
  assumes "progress i w j w1" "layout_ok i" "polled P j OCI2C_STATUS msk val w1 err w2"
  shows "progress i w j w2"
proof -
  obtain vs where t: "trace w2 = trace w1 @ map (EvRead (fn_acc (oc_getreg_fn j)) (rd_addr j OCI2C_STATUS)) vs"
    using assms(3) unfolding polled_def by blast
  have a: "rd_addr j OCI2C_STATUS \<noteq> rd_addr i OCI2C_DATA"
    using assms(1) status_not_data(1) [OF assms(2)] same_regs_cong(4) [of i j] by (simp add: progress_def)
  have e: "writes_of (map (EvRead c b) vs) = []" "b \<noteq> a \<Longrightarrow> reads_at a (map (EvRead c b) vs) = []" for c a b
    by (induction vs) simp_all
  show ?thesis
    by (rule progress_quiet [OF assms(1) t e(1) e(2) [OF a]])
qed

lemma progress_kcall: "progress i w j w1 \<Longrightarrow> progress i w j (kcall k w1)"
  by (rule progress_quiet [of _ _ _ _ _ "[EvCall k]"]) (simp_all add: trace_kcall)

lemma progress_poll_status:
  assumes "progress i w j w1" "layout_ok i" "poll_status P j msk w1 = Some (err, w2)"
  shows "progress i w j w2 \<and> (err = 0 \<or> err = - ETIMEDOUT)"
proof -
  obtain w3 where e: "ocores_wait P j OCI2C_STATUS msk 0 (p_msecs P 1) w1 = Some (err, w3)"
      and w2: "w2 = (if err \<noteq> 0 then kcall DevWarn w3 else w3)"
    using assms(3) by (auto simp: poll_status_def split: option.splits)
  have p: "polled P j OCI2C_STATUS msk 0 w1 err w3"
    using ocores_wait_polled [OF e] by simp
  then have "err = 0 \<or> err = - ETIMEDOUT"
    unfolding polled_def by blast
  then show ?thesis
    using progress_polled [OF assms(1,2) p] progress_kcall w2 by auto
qed

lemma progress_poll_wait:
  assumes "progress i w j w1" "layout_ok i" "ocores_poll_wait P j w1 = Some r" "oc_bus_clock_khz i \<noteq> 0"
  shows "\<exists>err w2. r = Inr (err, w2) \<and> progress i w j w2 \<and> (err = 0 \<or> err = - ETIMEDOUT)"
proof -
  have "oc_bus_clock_khz j \<noteq> 0"
    using assms(1,4) by (simp add: progress_def same_regs_def)
  then show ?thesis
    using assms(3) progress_poll_status [OF assms(1,2)]
      progress_poll_status [OF progress_kcall [OF assms(1)] assms(2)]
    by (auto simp: ocores_poll_wait_def split: if_splits)
qed

lemma progress_failed: "progress i w j w1 \<Longrightarrow> progress i w (j\<lparr>oc_state := STATE_ERROR\<rparr>) w2"
  by (simp add: progress_def i2c_inv_def in_flight_def)

text \<open>The polling loop, whenever it ends.\<close>

lemma progress_polling:
  assumes "ocores_process_polling P j w1 = Some r" "progress i w j w1" "layout_ok i" "oc_bus_clock_khz i \<noteq> 0"
  shows "\<exists>k w2. r = Inr (k, w2) \<and> progress i w k w2"
proof -
  let ?Q = "\<lambda>((P, j), w1) r. progress i w j w1 \<longrightarrow> (\<exists>k w2. r = Inr (k, w2) \<and> progress i w k w2)"
  have "?Q ((P, j), w1) r"
  proof (rule ocores_process_polling.raw_induct [OF _ assms(1)])
    fix pp and P :: "'a platform" and j w1 and y :: "c_fault + ocores_i2c \<times> 'a i2c_world"
    assume IH: "\<And>P j w1 y. pp P j w1 = Some y \<Longrightarrow> ?Q ((P, j), w1) y"
      and e: "Option.bind (ocores_poll_wait P j w1) (\<lambda>r. case r of Inl f \<Rightarrow> Some (Inl f)
          | Inr (err, w) \<Rightarrow>
              if err \<noteq> 0 then Some (Inr (j\<lparr>oc_state := STATE_ERROR\<rparr>, w))
              else case ocores_isr P j w of Inl f \<Rightarrow> Some (Inl f)
                   | Inr (ret, i, w) \<Rightarrow>
                       if ret = IRQ_NONE then Some (Inr (i, w)) else pp P i w) = Some y"
    show "?Q ((P, j), w1) y"
    proof (simp only: prod.case, rule impI)
    assume p: "progress i w j w1"
    obtain r0 where r0: "ocores_poll_wait P j w1 = Some r0"
      using e by (cases "ocores_poll_wait P j w1") auto
    then obtain err w2 where r: "ocores_poll_wait P j w1 = Some (Inr (err, w2))" "progress i w j w2"
      using progress_poll_wait [OF p assms(3) _ assms(4)] by blast
    show "\<exists>k w2. y = Inr (k, w2) \<and> progress i w k w2"
    proof (cases "err = 0")
      case False
      then show ?thesis
        using e r progress_failed [OF r(2)] by auto
    next
      case True
      obtain stat ws where g: "oc_getreg P j OCI2C_STATUS w2 = (stat, ws)"
        by fastforce
      obtain ret k w3 where k: "ocores_isr P j w2 = Inr (ret, k, w3)" "progress i w k w3"
        using progress_isr [OF r(2) assms(3) g] by blast
      then show ?thesis
        using e r True IH [of P k w3 y] by (auto split: if_splits)
    qed
    qed
  qed
  then show ?thesis
    using assms(2) by simp
qed

section \<open>The start of a transfer\<close>

lemma progress_start:
  assumes "msgs_ok msgs" "msgs \<noteq> []" "num = int (length msgs)" "layout_ok i"
  shows "\<exists>j w' ctrl. xfer_start P msgs num polling i w = Inr (j, w') \<and> i2c_inv j \<and> same_regs i j
    \<and> oc_mem j = msgs \<and> oc_state j = STATE_START \<and> received j = []
    \<and> head_cmds (hd msgs) @ pending j = xfer_script msgs
    \<and> steps_io i w ((OCI2C_CONTROL, ctrl) # head_cmds (hd msgs)) [] w'"
proof -
  obtain c w1 where g: "oc_getreg P i OCI2C_CONTROL w = (c, w1)"
    by fastforce
  let ?c = "if polling then c AND NOT OCI2C_CTRL_IEN else c OR OCI2C_CTRL_IEN"
  let ?j = "i\<lparr>oc_mem := msgs, oc_msg := 0, oc_pos := 0, oc_nmsgs := num, oc_state := STATE_START\<rparr>"
  let ?w = "oc_setreg P i OCI2C_CMD OCI2C_CMD_START (oc_setreg P i OCI2C_DATA
     (i2c_8bit_addr_from_msg (hd msgs)) (oc_setreg P i OCI2C_CONTROL ?c w1))"
  obtain m ms where ms: "msgs = m # ms"
    using assms(2) by (cases msgs) auto
  have s: "xfer_start P msgs num polling i w = Inr (?j, ?w)"
    using ms g by (simp add: xfer_start_def cur_msg_def Let_def)
  have inv: "i2c_inv ?j"
    using assms by (simp add: i2c_inv_def in_flight_def pos_ok_def)
  obtain v where v: "trace w1 = trace w @ [EvRead (fn_acc (oc_getreg_fn i)) (rd_addr i OCI2C_CONTROL) v]"
    using trace_getreg [OF _ g] by auto
  have io: "steps_io i w ((OCI2C_CONTROL, ?c) # head_cmds (hd msgs)) [] ?w"
    using v status_not_data(2) [OF assms(4)] by (simp add: steps_io_def trace_setreg head_cmds_def)
  have rc: "received ?j = []"
    using ms by (simp add: received_def recv_upto_def)
  have sc: "head_cmds (hd msgs) @ pending ?j = xfer_script msgs"
    using ms by (simp add: pending_def todo_def)
  show ?thesis
    using s inv io rc sc by (intro exI [of _ ?j] exI [of _ ?w] exI [of _ ?c]) simp
qed

section \<open>Results\<close>

lemma final_received:
  assumes "i2c_inv j" "oc_state j = STATE_DONE"
  shows "received j = concat (map read_bytes (oc_mem j))"
  using assms by (simp add: received_def recv_upto_def i2c_inv_def)

lemma serve_start:
  assumes "msgs_ok msgs" "msgs \<noteq> []" "layout_ok i"
  obtains j0 w0 ctrl j w1 where "xfer_start P msgs (int (length msgs)) False i w = Inr (j0, w0)"
    "i2c_inv j0" "same_regs i j0" "oc_mem j0 = msgs" "oc_state j0 = STATE_START" "received j0 = []"
    "head_cmds (hd msgs) @ pending j0 = xfer_script msgs"
    "steps_io i w ((OCI2C_CONTROL, ctrl) # head_cmds (hd msgs)) [] w0"
    "serve P n j0 w0 = Inr (j, w1)" "progress j0 w0 j w1"
proof -
  obtain j0 w0 ctrl where a: "xfer_start P msgs (int (length msgs)) False i w = Inr (j0, w0)"
    "i2c_inv j0" "same_regs i j0" "oc_mem j0 = msgs" "oc_state j0 = STATE_START" "received j0 = []"
    "head_cmds (hd msgs) @ pending j0 = xfer_script msgs"
    "steps_io i w ((OCI2C_CONTROL, ctrl) # head_cmds (hd msgs)) [] w0"
    using progress_start [OF assms(1,2) refl assms(3)] by blast
  have "layout_ok j0"
    using layout_ok_same [OF a(3)] assms(3) by simp
  then obtain j w1 where "serve P n j0 w0 = Inr (j, w1)" "progress j0 w0 j w1"
    using progress_serve [OF progress_refl [OF a(2)]] by blast
  then show ?thesis
    using that a by blast
qed

text \<open>The outcome of a transfer whose state machine has been left in \<open>j\<close>.\<close>

definition outcome :: "ocores_i2c \<Rightarrow> 'd i2c_world \<Rightarrow> i2c_msg list \<Rightarrow> int \<Rightarrow> ocores_i2c \<Rightarrow> 'd i2c_world \<Rightarrow> bool" where
  "outcome i w msgs ret j w' \<longleftrightarrow> i2c_inv j \<and> same_regs i j \<and> msgs_frame msgs (oc_mem j)
     \<and> ret \<in> {int (length msgs), - EIO, - ETIMEDOUT}
     \<and> (ret = int (length msgs) \<longrightarrow> (\<exists>ctrl k. steps_io i w
          ((OCI2C_CONTROL, ctrl) # xfer_script msgs @ iacks k) (concat (map read_bytes (oc_mem j))) w'))"

lemma progress_outcome:
  assumes "same_regs i j0" "oc_mem j0 = msgs" "oc_state j0 = STATE_START" "received j0 = []"
    "head_cmds (hd msgs) @ pending j0 = xfer_script msgs"
    "steps_io i w ((OCI2C_CONTROL, ctrl) # head_cmds (hd msgs)) [] w0" "progress j0 w0 j w1"
  shows "outcome i w msgs (xfer_result (int (length msgs)) j) j w1"
proof -
  have p: "i2c_inv j" "same_regs j0 j" "msgs_frame msgs (oc_mem j)"
    using assms(2,7) by (simp_all add: progress_def)
  show ?thesis
  proof (cases "oc_state j = STATE_DONE")
    case False
    then show ?thesis
      using p same_regs_trans [OF assms(1)] by (simp add: outcome_def xfer_result_def)
  next
    case True
    then obtain em k bs where e: "steps_io j0 w0 (em @ iacks k) bs w1" "em @ pending j = pending j0"
        "received j = bs"
      using assms(4,7) by (auto simp: progress_def)
    have em: "em = pending j0"
      using e(2) True by (simp add: pending_def)
    have "steps_io i w (((OCI2C_CONTROL, ctrl) # head_cmds (hd msgs)) @ em @ iacks k) ([] @ bs) w1"
      using steps_io_trans [OF assms(6) e(1) assms(1)] .
    then have "steps_io i w ((OCI2C_CONTROL, ctrl) # xfer_script msgs @ iacks k) (concat (map read_bytes (oc_mem j))) w1"
      using em e(3) assms(5) final_received [OF p(1) True] by (simp flip: append_assoc)
    then show ?thesis
      using p same_regs_trans [OF assms(1)] True unfolding outcome_def xfer_result_def by auto
  qed
qed

lemma outcome_timeout:
  assumes "outcome i w msgs r j w1"
  shows "outcome i w msgs (- ETIMEDOUT) (j\<lparr>oc_state := STATE_ERROR\<rparr>) w2"
  using assms by (simp add: outcome_def i2c_inv_def in_flight_def)

text \<open>The interrupt-driven transfer always returns, and never faults.\<close>

lemma xfer_irq_outcome:
  assumes "msgs_ok msgs" "msgs \<noteq> []" "layout_ok i"
  shows "\<exists>ret j w'. ocores_xfer_core P n msgs (int (length msgs)) False i w = Some (Inr (ret, j, w'))
    \<and> outcome i w msgs ret j w'"
proof -
  obtain j0 w0 ctrl j w1 where a: "xfer_start P msgs (int (length msgs)) False i w = Inr (j0, w0)"
    "i2c_inv j0" "same_regs i j0" "oc_mem j0 = msgs" "oc_state j0 = STATE_START" "received j0 = []"
    "head_cmds (hd msgs) @ pending j0 = xfer_script msgs"
    "steps_io i w ((OCI2C_CONTROL, ctrl) # head_cmds (hd msgs)) [] w0"
    "serve P n j0 w0 = Inr (j, w1)" "progress j0 w0 j w1"
    using serve_start [OF assms, of P w n] by blast
  note o1 = progress_outcome [OF a(3-8,10)]
  show ?thesis
    using a(1,9) o1 outcome_timeout [OF o1]
    by (auto simp: ocores_xfer_core_def ocores_process_timeout_def stop_error_def Let_def)
qed

lemma xfer_poll_outcome:
  assumes "msgs_ok msgs" "msgs \<noteq> []" "layout_ok i" "oc_bus_clock_khz i \<noteq> 0"
    "ocores_xfer_core P n msgs (int (length msgs)) True i w = Some r"
  shows "\<exists>ret j w'. r = Inr (ret, j, w') \<and> outcome i w msgs ret j w'"
proof -
  obtain j0 w0 ctrl where a: "xfer_start P msgs (int (length msgs)) True i w = Inr (j0, w0)"
    "i2c_inv j0" "same_regs i j0" "oc_mem j0 = msgs" "oc_state j0 = STATE_START" "received j0 = []"
    "head_cmds (hd msgs) @ pending j0 = xfer_script msgs"
    "steps_io i w ((OCI2C_CONTROL, ctrl) # head_cmds (hd msgs)) [] w0"
    using progress_start [OF assms(1,2) refl assms(3)] by blast
  have l: "layout_ok j0" "oc_bus_clock_khz j0 \<noteq> 0"
    using layout_ok_same [OF a(3)] a(3) assms(3,4) by (simp_all add: same_regs_def)
  obtain r1 where r1: "ocores_process_polling P j0 w0 = Some r1"
    using assms(5) a(1) by (cases "ocores_process_polling P j0 w0") (auto simp: ocores_xfer_core_def)
  then obtain j w1 where j: "r1 = Inr (j, w1)" "progress j0 w0 j w1"
    using progress_polling [OF r1 progress_refl [OF a(2)] l] by blast
  show ?thesis
    using progress_outcome [OF a(3-8) j(2)] assms(5) a(1) r1 j(1) by (auto simp: ocores_xfer_core_def)
qed

text \<open>The statuses that \<open>n\<close> interrupts find.\<close>

fun seen :: "'d platform \<Rightarrow> nat \<Rightarrow> ocores_i2c \<Rightarrow> 'd i2c_world \<Rightarrow> u8 list" where
  "seen P 0 i w = []"
| "seen P (Suc n) i w = fst (oc_getreg P i OCI2C_STATUS w) #
     (case ocores_isr P i w of Inl f \<Rightarrow> [] | Inr (r, i, w) \<Rightarrow> seen P n i w)"

definition raised :: "u8 \<Rightarrow> bool" where
  "raised stat \<longleftrightarrow> stat AND OCI2C_STAT_IF \<noteq> 0"

lemma serve_ends:
  assumes "progress i w j w1" "layout_ok i" "ncmds (pending j) \<le> n" "list_all raised (seen P n j w1)"
  shows "\<exists>k w2. serve P n j w1 = Inr (k, w2) \<and> \<not> in_flight k
    \<and> (oc_state j \<noteq> STATE_ERROR \<longrightarrow> list_all good (seen P n j w1) \<longrightarrow> oc_state k = STATE_DONE)"
  using assms
proof (induction n arbitrary: j w1)
  case 0
  then have "\<not> in_flight j"
    using in_flight_ncmds by fastforce
  then show ?case by (auto simp: in_flight_def)
next
  case (Suc n)
  obtain stat ws where g: "oc_getreg P j OCI2C_STATUS w1 = (stat, ws)"
    by fastforce
  obtain r k w2 where k: "ocores_isr P j w1 = Inr (r, k, w2)" "progress i w k w2"
    "raised stat \<Longrightarrow> in_flight j \<Longrightarrow> go_on stat j \<Longrightarrow> Suc (ncmds (pending k)) = ncmds (pending j) \<and> oc_state k \<noteq> STATE_ERROR"
    "raised stat \<Longrightarrow> in_flight j \<Longrightarrow> \<not> go_on stat j \<Longrightarrow> oc_state k = STATE_ERROR"
    "raised stat \<Longrightarrow> \<not> in_flight j \<Longrightarrow> k = j"
    using progress_isr [OF Suc.prems(1,2) g] unfolding raised_def by blast
  have st: "raised stat" "list_all raised (seen P n k w2)" "seen P (Suc n) j w1 = stat # seen P n k w2"
    using Suc.prems(4) g k(1) by simp_all
  have e: "oc_state k = STATE_ERROR \<Longrightarrow> ncmds (pending k) \<le> n"
    by (simp add: pending_def)
  consider "in_flight j" "go_on stat j" | "in_flight j" "\<not> go_on stat j" | "\<not> in_flight j"
    by blast
  then have n: "ncmds (pending k) \<le> n"
      and ne: "oc_state j \<noteq> STATE_ERROR \<Longrightarrow> good stat \<Longrightarrow> oc_state k \<noteq> STATE_ERROR"
    using k(3-5) st(1) e Suc.prems(3) in_flight_ncmds [of k] good_go_on by (cases, fastforce+)+
  show ?case
    using Suc.IH [OF k(2) Suc.prems(2) n st(2)] k(1) st(3) ne by auto
qed

text \<open>With enough interrupts a transfer ends; if all is well on the bus, it succeeds.\<close>

lemma xfer_irq_ends:
  assumes "msgs_ok msgs" "msgs \<noteq> []" "layout_ok i" "ncmds (xfer_script msgs) \<le> Suc n"
    "xfer_start P msgs (int (length msgs)) False i w = Inr (i0, w0)" "list_all raised (seen P n i0 w0)"
  shows "\<exists>ret j w'. ocores_xfer_core P n msgs (int (length msgs)) False i w = Some (Inr (ret, j, w'))
    \<and> outcome i w msgs ret j w' \<and> ret \<noteq> - ETIMEDOUT
    \<and> (list_all good (seen P n i0 w0) \<longrightarrow> ret = int (length msgs))"
proof -
  obtain j0 w00 ctrl j w1 where a: "xfer_start P msgs (int (length msgs)) False i w = Inr (j0, w00)"
    "i2c_inv j0" "same_regs i j0" "oc_mem j0 = msgs" "oc_state j0 = STATE_START" "received j0 = []"
    "head_cmds (hd msgs) @ pending j0 = xfer_script msgs"
    "steps_io i w ((OCI2C_CONTROL, ctrl) # head_cmds (hd msgs)) [] w00"
    "serve P n j0 w00 = Inr (j, w1)" "progress j0 w00 j w1"
    using serve_start [OF assms(1-3), of P w n] by blast
  have e: "j0 = i0" "w00 = w0"
    using a(1) assms(5) by simp_all
  have n: "ncmds (pending j0) \<le> n"
    using assms(4) by (simp add: head_cmds_def flip: a(7))
  have l: "layout_ok j0"
    using layout_ok_same [OF a(3)] assms(3) by simp
  have s: "\<not> in_flight j" "list_all good (seen P n i0 w0) \<Longrightarrow> oc_state j = STATE_DONE"
    using serve_ends [OF progress_refl [OF a(2)] l n, of P w0] assms(6) e a(5,9) by auto
  then have "oc_state j = STATE_ERROR \<or> oc_state j = STATE_DONE"
    by (auto simp: in_flight_def)
  then have c: "ocores_xfer_core P n msgs (int (length msgs)) False i w
      = Some (Inr (xfer_result (int (length msgs)) j, j, w1))"
    using a(1,9) by (auto simp: ocores_xfer_core_def)
  then show ?thesis
    using progress_outcome [OF a(3-8,10)] s by (auto simp: xfer_result_def)
qed

section \<open>The loops end\<close>

lemma dev_getreg:
  assumes "oc_getreg P i reg w = (st, w1)"
  shows "\<exists>c a. dev w1 = snd (p_read P c a (dev w))"
proof -
  have "\<exists>c a. dev w1 = snd (p_read P c a (dev w))" if "w1 = snd (ioread P c a w)" for c a
    using that by (auto simp: ioread_def split: prod.splits intro!: exI [of _ c] exI [of _ a])
  then show ?thesis
    using assms by (cases "oc_getreg_fn i") (auto simp: oc_family_defs split: prod.splits if_splits; metis snd_conv)+
qed

interpretation i2c_poll: poll_loop P "oc_getreg P i reg" "\<lambda>st. st AND msk = val" "wait_loop P i reg msk val"
  for P i reg msk val
proof
  show "\<exists>c a. dev (snd (oc_getreg P i reg w)) = snd (p_read P c a (dev w))" for w
    using dev_getreg [of P i reg w] by (metis prod.collapse)
qed (rule wait_loop.simps)

lemma wait_returns:
  assumes "clock_ok P clk K"
  shows "\<exists>err w'. ocores_wait P i reg msk val tmo w = Some (err, w')"
  using i2c_poll.deadline_returns [OF assms, of w _ _ "\<lambda>_. True" i reg msk val tmo]
  by (cases "jiffies P w") (auto simp: ocores_wait_def)

lemma poll_wait_returns:
  assumes "clock_ok P clk K"
  shows "\<exists>r. ocores_poll_wait P i w = Some r"
proof -
  have "\<exists>r. poll_status P i msk w = Some r" for msk w
    using wait_returns [OF assms, of i OCI2C_STATUS msk 0 "p_msecs P 1" w] by (auto simp: poll_status_def)
  then show ?thesis
    by (cases "in_flight i") (auto simp: ocores_poll_wait_def in_flight_def)
qed

text \<open>
  The interrupt flag, for an instance that polls. \<open>ok\<close> is an invariant of the controller (that it is
  enabled, say) and \<open>m\<close> bounds the interrupts it has still to raise: the flag itself, a command
  in progress, what other masters do on the bus. Commands written may raise the bound to
  anything; reads and time do not raise it, and acknowledging a flag that was seen lowers
  it. Clearing the interrupt enable bit keeps the controller \<open>ok\<close>.
\<close>

definition flag_law :: "'d platform \<Rightarrow> ocores_i2c \<Rightarrow> ('d \<Rightarrow> bool) \<Rightarrow> ('d \<Rightarrow> nat) \<Rightarrow> bool" where
  "flag_law P i ok m \<longleftrightarrow>
     (\<forall>reg w v w'. reg \<in> {OCI2C_CONTROL, OCI2C_DATA, OCI2C_STATUS} \<longrightarrow> oc_getreg P i reg w = (v, w')
        \<longrightarrow> ok (dev w) \<longrightarrow> ok (dev w') \<and> m (dev w') \<le> m (dev w))
   \<and> (\<forall>d. ok d \<longrightarrow> ok (snd (p_jiffies P d)) \<and> m (snd (p_jiffies P d)) \<le> m d)
   \<and> (\<forall>reg v w. reg \<in> {OCI2C_DATA, OCI2C_CMD} \<longrightarrow> ok (dev w) \<longrightarrow> ok (dev (oc_setreg P i reg v w)))
   \<and> (\<forall>w v w'. oc_getreg P i OCI2C_CONTROL w = (v, w') \<longrightarrow> ok (dev w)
        \<longrightarrow> ok (dev (oc_setreg P i OCI2C_CONTROL (v AND NOT OCI2C_CTRL_IEN) w')))
   \<and> (\<forall>w v w'. oc_getreg P i OCI2C_STATUS w = (v, w') \<longrightarrow> ok (dev w) \<longrightarrow> v AND OCI2C_STAT_IF \<noteq> 0
        \<longrightarrow> m (dev (oc_setreg P i OCI2C_CMD OCI2C_CMD_IACK w')) < m (dev w))"

lemma flag_law_same: "same_regs i j \<Longrightarrow> flag_law P i ok m \<Longrightarrow> flag_law P j ok m"
  using same_regs_cong(1,2) [of i j P] by (simp add: flag_law_def)

lemma flag_lawD:
  assumes "flag_law P i ok m" "ok (dev w)"
  shows "reg \<in> {OCI2C_CONTROL, OCI2C_DATA, OCI2C_STATUS} \<Longrightarrow> oc_getreg P i reg w = (v, w')
      \<Longrightarrow> ok (dev w') \<and> m (dev w') \<le> m (dev w)"
    "jiffies P w = (t, w') \<Longrightarrow> ok (dev w') \<and> m (dev w') \<le> m (dev w)"
    "reg \<in> {OCI2C_DATA, OCI2C_CMD} \<Longrightarrow> ok (dev (oc_setreg P i reg v w))"
    "oc_getreg P i OCI2C_CONTROL w = (v, w') \<Longrightarrow> ok (dev (oc_setreg P i OCI2C_CONTROL (v AND NOT OCI2C_CTRL_IEN) w'))"
    "oc_getreg P i OCI2C_STATUS w = (v, w') \<Longrightarrow> v AND OCI2C_STAT_IF \<noteq> 0
      \<Longrightarrow> m (dev (oc_setreg P i OCI2C_CMD OCI2C_CMD_IACK w')) < m (dev w)"
proof -
  note l = assms(1) [unfolded flag_law_def]
  show "reg \<in> {OCI2C_CONTROL, OCI2C_DATA, OCI2C_STATUS} \<Longrightarrow> oc_getreg P i reg w = (v, w')
      \<Longrightarrow> ok (dev w') \<and> m (dev w') \<le> m (dev w)"
    using l assms(2) by blast
  show "jiffies P w = (t, w') \<Longrightarrow> ok (dev w') \<and> m (dev w') \<le> m (dev w)"
    using l assms(2) dev_jiffies [of P w t w'] by simp
  show "reg \<in> {OCI2C_DATA, OCI2C_CMD} \<Longrightarrow> ok (dev (oc_setreg P i reg v w))"
    using l assms(2) by blast
  show "oc_getreg P i OCI2C_CONTROL w = (v, w') \<Longrightarrow> ok (dev (oc_setreg P i OCI2C_CONTROL (v AND NOT OCI2C_CTRL_IEN) w'))"
    using l assms(2) by blast
  show "oc_getreg P i OCI2C_STATUS w = (v, w') \<Longrightarrow> v AND OCI2C_STAT_IF \<noteq> 0
      \<Longrightarrow> m (dev (oc_setreg P i OCI2C_CMD OCI2C_CMD_IACK w')) < m (dev w)"
    using l assms(2) by blast
qed

text \<open>The invariant through the state machine.\<close>

lemma setreg_ok:
  assumes "flag_law P i ok m" "ok (dev w)"
  shows "ok (dev (oc_setreg P i OCI2C_DATA v w))" "ok (dev (oc_setreg P i OCI2C_CMD v w))"
  using flag_lawD(3) [OF assms] by simp_all

lemma flag_law_upd [simp]:
  "flag_law P (i\<lparr>oc_pos := p\<rparr>) = flag_law P i" "flag_law P (i\<lparr>oc_msg := k\<rparr>) = flag_law P i"
  "flag_law P (i\<lparr>oc_nmsgs := n\<rparr>) = flag_law P i" "flag_law P (i\<lparr>oc_state := st\<rparr>) = flag_law P i"
  "flag_law P (i\<lparr>oc_mem := ms\<rparr>) = flag_law P i"
  by (simp_all add: fun_eq_iff flag_law_def)

lemma process_next_ok:
  assumes "flag_law P i ok m" "ok (dev w)" "process_next P i w = Inr (j, w')"
  shows "ok (dev w')"
  using assms(3) setreg_ok [OF assms(1)] assms(2)
  by (auto simp: process_next_def Let_def ebind_eq_Inr_iff simp del: OCI2C_DATA_def OCI2C_CMD_def split: if_splits)

lemma process_eom_ok:
  assumes "flag_law P i ok m" "ok (dev w)" "process_eom P i w = Inr (j, w')"
  shows "ok (dev w')"
proof -
  obtain c where c: "cur_msg i = Inr c"
    using assms(3) by (auto simp: process_eom_def ebind_eq_Inr_iff)
  let ?i = "i\<lparr>oc_nmsgs := oc_nmsgs i - 1, oc_msg := oc_msg i + 1, oc_pos := 0\<rparr>"
  consider "process_next P i w = Inr (j, w')"
    | "w' = oc_setreg P i OCI2C_CMD OCI2C_CMD_STOP w"
    | a where "w' = oc_setreg P i OCI2C_CMD OCI2C_CMD_START (oc_setreg P i OCI2C_DATA a w)"
    | st where "process_next P (?i\<lparr>oc_state := st\<rparr>) w = Inr (j, w')"
    using assms(3) c by (auto simp: process_eom_def Let_def ebind_eq_Inr_iff split: if_splits)
  then show ?thesis
  proof cases
    case 4
    then show ?thesis
      by (rule process_next_ok [rotated 2]) (use assms(1,2) in simp_all)
  qed (use process_next_ok [OF assms(1,2)] setreg_ok [OF assms(1)] assms(2) in \<open>blast+\<close>)
qed

lemma process_ok:
  assumes "flag_law P i ok m" "ok (dev w)" "ocores_process P stat i w = Inr (j, w')"
  shows "ok (dev w')"
proof -
  obtain b w1 where g: "oc_getreg P i OCI2C_DATA w = (b, w1)"
    by fastforce
  have w1: "ok (dev w1)"
    using flag_lawD(1) [OF assms(1,2) _ g] by simp
  consider "w' = kcall WakeUp (oc_setreg P i OCI2C_CMD OCI2C_CMD_IACK w)"
    | "w' = oc_setreg P i OCI2C_CMD OCI2C_CMD_STOP w"
    | st where "process_eom P (i\<lparr>oc_state := st\<rparr>) w = Inr (j, w')"
    | ms p where "process_eom P (i\<lparr>oc_mem := ms, oc_pos := p\<rparr>) w1 = Inr (j, w')"
    using assms(3) g by (auto simp: ocores_process_def stop_error_def Let_def ebind_eq_Inr_iff split: if_splits)
  then show ?thesis
  proof cases
    case 1
    then show ?thesis
      using setreg_ok [OF assms(1,2)] by (simp add: dev_kcall del: OCI2C_CMD_def)
  next
    case 2
    then show ?thesis
      using setreg_ok [OF assms(1,2)] by blast
  next
    case 3
    then show ?thesis
      by (rule process_eom_ok [rotated 2]) (use assms(1,2) in simp_all)
  next
    case 4
    then show ?thesis
      by (rule process_eom_ok [rotated 2]) (use assms(1) w1 in simp_all)
  qed
qed

text \<open>And through a wait, with the bound.\<close>

lemma poll_wait_ok:
  assumes "clock_ok P clk K" "flag_law P j ok m" "ok (dev w)" "ocores_poll_wait P j w = Some (Inr (err, w'))"
  shows "ok (dev w') \<and> m (dev w') \<le> m (dev w)"
proof -
  let ?Q = "\<lambda>v. ok (dev v) \<and> m (dev v) \<le> m (dev w)"
  have st: "?Q w'" if s: "poll_status P j msk v = Some (err, w')" and v: "dev v = dev w" for msk v
  proof -
    obtain now v1 where j: "jiffies P v = (now, v1)"
      by fastforce
    have q: "?Q v1"
      using flag_lawD(2) [OF assms(2) _ j] v assms(3) by simp
    have rd: "?Q (snd (oc_getreg P j OCI2C_STATUS u))" if q: "?Q u" for u
    proof -
      obtain x y where g: "oc_getreg P j OCI2C_STATUS u = (x, y)"
        by fastforce
      show ?thesis
        using flag_lawD(1) [OF assms(2) conjunct1 [OF q] _ g] q g by simp
    qed
    have jf: "?Q (snd (jiffies P u))" if q: "?Q u" for u :: "'a i2c_world"
    proof -
      obtain x y where g: "jiffies P u = (x, y)"
        by fastforce
      show ?thesis
        using flag_lawD(2) [OF assms(2) conjunct1 [OF q] g] q g by simp
    qed
    obtain e u where "wait_loop P j OCI2C_STATUS msk 0 (now + p_msecs P 1) v1 = Some (e, u)" "?Q u"
      using i2c_poll.deadline_returns [where Q = ?Q and i = j and reg = OCI2C_STATUS and msk = msk and val = 0
          and tmo = "p_msecs P 1", OF assms(1) j q rd jf] by blast
    then show ?thesis
      using s j by (auto simp: poll_status_def ocores_wait_def dev_kcall split: if_splits)
  qed
  show ?thesis
    using assms(4) st by (auto simp: ocores_poll_wait_def dev_kcall split: if_splits)
qed

text \<open>After the end of the transfer: as many rounds as there are interrupts to come.\<close>

lemma polling_returns_final:
  assumes "clock_ok P clk K" "\<not> in_flight j" "flag_law P j ok m" "ok (dev w)"
  shows "\<exists>r. ocores_process_polling P j w = Some r"
  using assms(4)
proof (induction "m (dev w)" arbitrary: w rule: less_induct)
  case less
  obtain r where r: "ocores_poll_wait P j w = Some r"
    using poll_wait_returns [OF assms(1)] by blast
  show ?case
  proof (cases r)
    case (Inl f)
    then show ?thesis
      using r by (subst ocores_process_polling.simps) simp
  next
    case (Inr ew)
    obtain err w1 where e: "ew = (err, w1)"
      by fastforce
    have o1: "ok (dev w1)" "m (dev w1) \<le> m (dev w)"
      using poll_wait_ok [OF assms(1,3) less.prems] r Inr e by simp_all
    obtain stat ws where g: "oc_getreg P j OCI2C_STATUS w1 = (stat, ws)"
      by fastforce
    have os: "ok (dev ws)"
      using flag_lawD(1) [OF assms(3) o1(1) _ g] by simp
    let ?w = "kcall WakeUp (oc_setreg P j OCI2C_CMD OCI2C_CMD_IACK ws)"
    have "\<exists>r2. ocores_process_polling P j ?w = Some r2" if "stat AND OCI2C_STAT_IF \<noteq> 0"
    proof (rule less.hyps)
      show "m (dev ?w) < m (dev w)"
        using flag_lawD(5) [OF assms(3) o1(1) g that] o1(2) by (simp add: dev_kcall)
      show "ok (dev ?w)"
        using setreg_ok(2) [OF assms(3) os] by (simp add: dev_kcall)
    qed
    then show ?thesis
      using r Inr e g process_final [OF assms(2), of P stat ws]
      by (subst ocores_process_polling.simps) (auto simp: ocores_isr_def)
  qed
qed

lemma polling_returns:
  assumes "clock_ok P clk K" "flag_law P i ok m" "layout_ok i" "oc_bus_clock_khz i \<noteq> 0" "progress i w j w1" "ok (dev w1)"
  shows "\<exists>r. ocores_process_polling P j w1 = Some r"
  using assms(5,6)
proof (induction "ncmds (pending j)" arbitrary: j w1 rule: less_induct)
  case less
  have law: "flag_law P k ok m" if "progress i w k w2" for k w2
    using that flag_law_same [OF _ assms(2)] by (simp add: progress_def)
  obtain r where "ocores_poll_wait P j w1 = Some r"
    using poll_wait_returns [OF assms(1)] by blast
  then obtain err w2 where r: "ocores_poll_wait P j w1 = Some (Inr (err, w2))" "progress i w j w2"
    using progress_poll_wait [OF less.prems(1) assms(3) _ assms(4)] by blast
  have o2: "ok (dev w2)"
    using poll_wait_ok [OF assms(1) law [OF less.prems(1)] less.prems(2) r(1)] by simp
  obtain stat ws where g: "oc_getreg P j OCI2C_STATUS w2 = (stat, ws)"
    by fastforce
  have os: "ok (dev ws)"
    using flag_lawD(1) [OF law [OF r(2)] o2 _ g] by simp
  obtain ret k w3 where k: "ocores_isr P j w2 = Inr (ret, k, w3)" "progress i w k w3"
    "stat AND OCI2C_STAT_IF = 0 \<longrightarrow> ret = IRQ_NONE"
    "stat AND OCI2C_STAT_IF \<noteq> 0 \<longrightarrow> in_flight j \<longrightarrow> in_flight k \<longrightarrow> Suc (ncmds (pending k)) = ncmds (pending j)"
    "\<not> in_flight j \<longrightarrow> \<not> in_flight k"
    using progress_isr [OF r(2) assms(3) g] unfolding in_flight_def by metis
  have "\<exists>r. ocores_process_polling P k w3 = Some r" if i: "stat AND OCI2C_STAT_IF \<noteq> 0"
  proof -
    have "ocores_process P stat j ws = Inr (k, w3)"
      using k(1) g i by (auto simp: ocores_isr_def ebind_eq_Inr_iff)
    then have o3: "ok (dev w3)"
      by (rule process_ok [OF law [OF r(2)] os])
    show ?thesis
    proof (cases "in_flight k")
      case False
      then show ?thesis
        using polling_returns_final [OF assms(1) _ law [OF k(2)] o3] by blast
    next
      case True
      then have "ncmds (pending k) < ncmds (pending j)"
        using k(4,5) i by fastforce
      then show ?thesis
        using less.hyps k(2) o3 by blast
    qed
  qed
  then show ?case
    using r k(1,3) by (subst ocores_process_polling.simps) auto
qed

lemma xfer_start_ok:
  assumes "flag_law P i ok m" "ok (dev w)" "xfer_start P msgs num True i w = Inr (j, w')"
  shows "ok (dev w')"
proof -
  obtain c w1 where g: "oc_getreg P i OCI2C_CONTROL w = (c, w1)"
    by fastforce
  have 1: "ok (dev (oc_setreg P i OCI2C_CONTROL (c AND NOT OCI2C_CTRL_IEN) w1))"
    by (rule flag_lawD(4) [OF assms(1,2) g])
  obtain a where "w' = oc_setreg P i OCI2C_CMD OCI2C_CMD_START (oc_setreg P i OCI2C_DATA a
      (oc_setreg P i OCI2C_CONTROL (c AND NOT OCI2C_CTRL_IEN) w1))"
    using assms(3) g by (auto simp: xfer_start_def Let_def ebind_eq_Inr_iff)
  then show ?thesis
    using setreg_ok [OF assms(1)] 1 by blast
qed

lemma xfer_poll_returns:
  assumes "msgs_ok msgs" "msgs \<noteq> []" "layout_ok i" "oc_bus_clock_khz i \<noteq> 0"
    "clock_ok P clk K" "flag_law P i ok m" "ok (dev w)"
  shows "\<exists>r. ocores_xfer_core P n msgs (int (length msgs)) True i w = Some r"
proof -
  obtain j0 w0 where a: "xfer_start P msgs (int (length msgs)) True i w = Inr (j0, w0)"
    "i2c_inv j0" "same_regs i j0"
    using progress_start [OF assms(1,2) refl assms(3), of P True w] by blast
  have l: "layout_ok j0" "oc_bus_clock_khz j0 \<noteq> 0"
    using layout_ok_same [OF a(3)] a(3) assms(3,4) by (simp_all add: same_regs_def)
  obtain r where r: "ocores_process_polling P j0 w0 = Some r"
    using polling_returns [OF assms(5) flag_law_same [OF a(3) assms(6)] l progress_refl [OF a(2)]
        xfer_start_ok [OF assms(6,7) a(1)]] by blast
  then show ?thesis
    using a(1) by (cases r) (auto simp: ocores_xfer_core_def split: prod.splits)
qed

section \<open>A sample transfer\<close>

text \<open>A one-byte write to device 0x50 on a controller whose status reads as interrupt, no error.\<close>

definition demo_msg :: i2c_msg where
  "demo_msg = \<lparr>m_addr = 0x50, m_flags = 0, m_len = 1, m_buf = [0xAB]\<rparr>"

definition demo_run :: ocores_i2c where
  "demo_run = (demo_i2c Fn8)\<lparr>oc_mem := [demo_msg], oc_nmsgs := 1, oc_state := STATE_START\<rparr>"

definition ready :: "unit platform" where
  "ready = \<lparr>p_read = (\<lambda>c a d. (1, d)), p_write = (\<lambda>c a v d. d), p_jiffies = (\<lambda>d. (0, d)), p_msecs = of_nat\<rparr>"

definition ready_w :: "unit i2c_world" where
  "ready_w = \<lparr>dev = (), trace = []\<rparr>"

lemma demo_run_ok: "i2c_inv demo_run" "layout_ok demo_run" "oc_state demo_run = STATE_START" "received demo_run = []"
  by (simp_all add: demo_run_def demo_i2c_def demo_msg_def i2c_inv_def msgs_ok_def msg_ok_def in_flight_def
      pos_ok_def layout_ok_def received_def recv_upto_def is_rd_def)


lemma ready_status: "fst (oc_getreg ready i OCI2C_STATUS w) = 1"
  by (cases "oc_getreg_fn i") (simp_all add: oc_family_defs ready_def ioread_def grlib_rreg_def)

lemma seen_ready: "set (seen ready n i w) \<subseteq> {1}"
  by (induction n arbitrary: i w) (auto simp: ready_status [simplified] split: sum.splits)

lemma seen_ready_good: "list_all raised (seen ready n i w)" "list_all good (seen ready n i w)"
  using seen_ready [of n i w] by (auto simp: list_all_iff raised_def good_def)

lemma demo_pending: "ncmds (pending demo_run) = 2"
  by (simp add: pending_def todo_def demo_run_def demo_i2c_def body_from_def demo_msg_def is_rd_def)


section \<open>Properties\<close>

text \<open>
  C19: from any instance that satisfies the invariant the interrupt handler runs without a fault,
  whatever status the controller reports: no access leaves the message array or a buffer. It
  keeps the invariant and the configuration, and of the messages it changes at most the bytes
  of read buffers.
\<close>

theorem ocores_isr_safe:
  assumes "i2c_inv i"
  shows "\<exists>ret j w'. ocores_isr P i w = Inr (ret, j, w') \<and> i2c_inv j
    \<and> msgs_frame (oc_mem i) (oc_mem j) \<and> same_regs i j"
proof -
  obtain stat ws where g: "oc_getreg P i OCI2C_STATUS w = (stat, ws)"
    by fastforce
  obtain j w' where "ocores_process P stat i ws = Inr (j, w')" "i2c_inv j"
    "msgs_frame (oc_mem i) (oc_mem j)" "same_regs i j"
    using process_total [OF assms] by blast
  then show ?thesis
    using assms g by (simp add: ocores_isr_def)
qed

text \<open>
  C12: a call of \<open>ocores_process\<close> during a healthy transfer writes exactly the registers of the next
  command of the script the messages define, and appends to the bytes delivered exactly the
  byte it read from the data register, if the command was a read.
\<close>

theorem ocores_process_next_command:
  assumes "i2c_inv i" "in_flight i" "stat AND OCI2C_STAT_ARBLOST = 0"
    "oc_state i \<noteq> STATE_READ \<Longrightarrow> stat AND OCI2C_STAT_NACK = 0"
  shows "\<exists>j w' em bs. ocores_process P stat i w = Inr (j, w') \<and> steps_io i w em bs w'
    \<and> em @ pending j = pending i \<and> ncmds em = 1 \<and> received j = received i @ bs"
proof -
  have "go_on stat i"
    using assms(3,4) by (simp add: go_on_def)
  from process_step [OF assms(1,2) this] show ?thesis
    by metis
qed

text \<open>
  C26: lost arbitration, or a byte that was not acknowledged, ends the transfer: the call writes a
  stop command and nothing else, the state is \<open>STATE_ERROR\<close>, no message has changed, and every
  later call of the handler leaves the instance as it is.
\<close>

theorem ocores_process_error:
  assumes "i2c_inv i" "in_flight i" "stat AND OCI2C_STAT_ARBLOST \<noteq> 0
    \<or> oc_state i \<noteq> STATE_READ \<and> stat AND OCI2C_STAT_NACK \<noteq> 0"
  shows "\<exists>j w'. ocores_process P stat i w = Inr (j, w') \<and> oc_state j = STATE_ERROR \<and> oc_mem j = oc_mem i
    \<and> trace w' = trace w @ [wr_ev i (OCI2C_CMD, OCI2C_CMD_STOP)]
    \<and> (\<forall>s v. \<exists>v'. ocores_process P s j v = Inr (j, v'))"
proof -
  have b: "\<not> go_on stat i"
    using assms(3) by (auto simp: go_on_def)
  obtain j w' where e: "stop_error P i w = (j, w')"
    by fastforce
  have "msgs_ok (oc_mem i)"
    using assms(1) by (simp add: i2c_inv_def)
  note s = stop_error_ok [OF this e]
  have "\<not> in_flight j"
    using s(4) by (simp add: in_flight_def)
  then show ?thesis
    using process_bad [OF assms(1,2) b, of P w] e s(2,4,5) by (auto simp: process_final)
qed

text \<open>
  C1: a transfer, by interrupts or by polling, never faults, and what it returns is true: it is
  the number of messages, or \<open>-EIO\<close>, or \<open>-ETIMEDOUT\<close>; when it is the number of messages, the
  control write, the complete script and then only acknowledgements have been put on the bus,
  and the read buffers hold exactly the bytes the data register returned.
\<close>

theorem ocores_xfer_outcome:
  assumes "msgs_ok msgs" "msgs \<noteq> []" "layout_ok i" "oc_bus_clock_khz i \<noteq> 0"
    "ocores_xfer P n msgs (int (length msgs)) i w = Some r"
  shows "\<exists>ret j w'. r = Inr (ret, j, w') \<and> msgs_frame msgs (oc_mem j)
    \<and> ret \<in> {int (length msgs), - EIO, - ETIMEDOUT}
    \<and> (ret = int (length msgs) \<longrightarrow> (\<exists>ctrl k. steps_io i w
          ((OCI2C_CONTROL, ctrl) # xfer_script msgs @ iacks k) (concat (map read_bytes (oc_mem j))) w'))"
  using assms xfer_irq_outcome [OF assms(1-3), of P n w] xfer_poll_outcome [OF assms(1-4)]
  by (fastforce simp: ocores_xfer_def ocores_xfer_polling_def outcome_def split: if_splits)

text \<open>
  C17: as many interrupts as the script has commands after the start end the transfer, so it does
  not time out, whatever errors the controller reports; if it reports none, the transfer succeeds.
\<close>

theorem ocores_xfer_ends:
  assumes "msgs_ok msgs" "msgs \<noteq> []" "layout_ok i" "oc_flags i AND OCORES_FLAG_POLL = 0"
    "ncmds (xfer_script msgs) \<le> Suc n"
    "xfer_start P msgs (int (length msgs)) False i w = Inr (i0, w0)" "list_all raised (seen P n i0 w0)"
  shows "\<exists>ret j w'. ocores_xfer P n msgs (int (length msgs)) i w = Some (Inr (ret, j, w')) \<and> ret \<noteq> - ETIMEDOUT
    \<and> (list_all good (seen P n i0 w0) \<longrightarrow> ret = int (length msgs))"
  using xfer_irq_ends [OF assms(1-3,5-7)] assms(4) by (auto simp: ocores_xfer_def)

text \<open>
  C18: a polled transfer returns, on any controller whose clock advances and that has, whatever it is
  told to do, finitely many interrupts to raise without further commands: acknowledging the flag when
  it is seen lowers their number.
\<close>

theorem ocores_xfer_polling_returns:
  assumes "msgs_ok msgs" "msgs \<noteq> []" "layout_ok i" "oc_bus_clock_khz i \<noteq> 0"
    "clock_ok P clk K" "flag_law P i ok m" "ok (dev w)"
  shows "\<exists>r. ocores_xfer_polling P n msgs (int (length msgs)) i w = Some r"
  using xfer_poll_returns [OF assms] by (simp add: ocores_xfer_polling_def)

text \<open>
  \<open>ocores_wait\<close> returns as soon as the clock advances, wrap-around of the counter included; it
  has read the register until the first value that matches and reports success exactly when
  there was one.
\<close>

theorem ocores_wait_returns:
  assumes "clock_ok P clk K" "reg \<noteq> OCI2C_PREHIGH"
  shows "\<exists>err w'. ocores_wait P i reg msk val tmo w = Some (err, w') \<and> polled P i reg msk val w err w'"
  using wait_returns [OF assms(1)] ocores_wait_polled [OF _ assms(2)] by blast

text \<open>
  The boundary of the invariant. When a message ends and the one after it is an empty write
  that asks for no new start, \<open>ocores_process\<close> sends a byte all the same: it reads the buffer
  of the empty message.
\<close>

theorem ocores_process_empty_continuation:
  assumes "oc_state i = STATE_WRITE" "oc_mem i = [m, e]" "oc_msg i = 0" "oc_nmsgs i = 2"
    "oc_pos i = uint (m_len m)" "\<not> is_rd m" "\<not> is_rd e" "is_nostart e" "m_len e = 0" "m_buf e = []"
    "stat AND OCI2C_STAT_ARBLOST = 0" "stat AND OCI2C_STAT_NACK = 0"
  shows "ocores_process P stat i w = Inl (BadIndex 0)"
proof -
  have "cur_msg i = Inr m"
    using assms(2,3) by (simp add: cur_msg_def)
  then have "ocores_process P stat i w = process_eom P (i\<lparr>oc_state := STATE_WRITE\<rparr>) w"
    using assms(1,6,11,12) by (simp add: process_acked [of i stat m])
  then show ?thesis
    using assms by (simp add: process_eom_def cur_msg_def process_next_def buf_get_def Let_def)
qed

section \<open>Witnesses\<close>

lemma ocores_isr_safe_witness:
  "\<exists>ret j w'. ocores_isr ready demo_run ready_w = Inr (ret, j, w') \<and> i2c_inv j"
  using ocores_isr_safe [OF demo_run_ok(1), of ready ready_w] by blast

lemma ocores_process_next_command_witness:
  "\<exists>j w' em bs. ocores_process ready 1 demo_run ready_w = Inr (j, w') \<and> em @ pending j = pending demo_run \<and> ncmds em = 1"
  using ocores_process_next_command [OF demo_run_ok(1), of 1 ready ready_w] demo_run_ok(3)
  by (auto simp: in_flight_def)

lemma ocores_process_error_witness:
  "\<exists>j w'. ocores_process ready 0x81 demo_run ready_w = Inr (j, w') \<and> oc_state j = STATE_ERROR"
  using ocores_process_error [OF demo_run_ok(1), of "0x81" ready ready_w] demo_run_ok(3)
  by (auto simp: in_flight_def)

lemma demo_xfer_ok: "msgs_ok [demo_msg]" "layout_ok (demo_i2c f)" "oc_bus_clock_khz (demo_i2c f) \<noteq> 0"
  "oc_flags (demo_i2c f) = 0"
  by (simp_all add: msgs_ok_def msg_ok_def demo_msg_def demo_i2c_def layout_ok_def)

lemma ocores_xfer_outcome_witness:
  "\<exists>ret j w'. ocores_xfer ready 2 [demo_msg] 1 (demo_i2c Fn8) ready_w = Some (Inr (ret, j, w'))
    \<and> msgs_frame [demo_msg] (oc_mem j) \<and> ret \<in> {1, - EIO, - ETIMEDOUT}"
proof -
  obtain r where r: "ocores_xfer ready 2 [demo_msg] 1 (demo_i2c Fn8) ready_w = Some r"
    using xfer_irq_outcome [OF demo_xfer_ok(1) _ demo_xfer_ok(2), of ready 2 Fn8 ready_w] demo_xfer_ok(4)
    by (fastforce simp: ocores_xfer_def)
  then show ?thesis
    using ocores_xfer_outcome [OF demo_xfer_ok(1) _ demo_xfer_ok(2,3), of ready 2 Fn8 ready_w r] by auto
qed

lemma ocores_xfer_ends_witness:
  "\<exists>j w'. ocores_xfer ready 3 [demo_msg] 1 (demo_i2c Fn32be) ready_w = Some (Inr (1, j, w'))"
proof -
  obtain i0 w0 where s: "xfer_start ready [demo_msg] (int (length [demo_msg])) False (demo_i2c Fn32be) ready_w = Inr (i0, w0)"
    using progress_start [OF demo_xfer_ok(1) _ refl demo_xfer_ok(2), of ready False Fn32be ready_w] by blast
  have n: "ncmds (xfer_script [demo_msg]) \<le> Suc 3"
    by (simp add: head_cmds_def body_from_def demo_msg_def is_rd_def)
  show ?thesis
    using ocores_xfer_ends [OF demo_xfer_ok(1) _ demo_xfer_ok(2) _ n s seen_ready_good(1)] seen_ready_good(2) demo_xfer_ok(4)
    by auto
qed

lemma ocores_wait_returns_witness:
  "\<exists>err w'. ocores_wait ticking (demo_i2c Fn8) OCI2C_STATUS 0x40 0x40 1 \<lparr>dev = 0xFFFFFFFFFFFFFFFF, trace = []\<rparr> = Some (err, w')"
  using ocores_wait_returns [OF ticking_clock, of OCI2C_STATUS "demo_i2c Fn8" "0x40" "0x40" 1
    "\<lparr>dev = 0xFFFFFFFFFFFFFFFF, trace = []\<rparr>"] by auto

lemma ocores_process_empty_continuation_witness:
  "ocores_process ready 1 (demo_run\<lparr>oc_state := STATE_WRITE, oc_pos := 1, oc_nmsgs := 2,
     oc_mem := [demo_msg, \<lparr>m_addr = 0x50, m_flags = 0x4000, m_len = 0, m_buf = []\<rparr>]\<rparr>) ready_w = Inl (BadIndex 0)"
  by (rule ocores_process_empty_continuation [where m = demo_msg
        and e = "\<lparr>m_addr = 0x50, m_flags = 0x4000, m_len = 0, m_buf = []\<rparr>"])
    (simp_all add: demo_run_def demo_i2c_def demo_msg_def is_rd_def is_nostart_def)

end
