(* ===== verification/I2c_Core.thy ===== *)
theory I2c_Core
  imports I2c_Transfer
begin

text \<open>
  The I2C core (\<open>i2c_master_top.vhd\<close> with its byte controller), as the bus sees it: its registers, the
  command in progress and the interrupt flag, which the end of a command or a lost arbitration
  raises and an acknowledgement clears. When a command ends, what the slave answers and what other
  masters do is a schedule, arbitrary and finite: one entry for each access, and after its end
  a command completes at the next access. The core keeps the law of the flag that the polling
  loop needs.
\<close>

unbundle bit_operations_syntax

section \<open>The core\<close>

text \<open>
  What happens on the bus between two accesses: nothing, the byte controller finishes its command
  (\<open>done\<close>), or arbitration is lost, which a STOP of another master also counts as (\<open>i2c_al\<close>).
\<close>

datatype bus_event = BusQuiet | BusDone | BusLost

record bus_slot =
  b_event :: bus_event
  b_rxack :: bool
  b_busy :: bool
  b_rxr :: u8

record i2c_core =
  k_prer_lo :: u8
  k_prer_hi :: u8
  k_ctr :: u8
  k_txr :: u8
  k_rxr :: u8
  k_if :: u8
  k_cmd :: u8
  k_run :: bool
  k_flag :: bool
  k_al :: bool
  k_rxack :: bool
  k_busy :: bool
  k_slots :: "bus_slot list"
  k_time :: nat

definition core_on :: "i2c_core \<Rightarrow> bool" where
  "core_on d \<longleftrightarrow> k_ctr d AND 0x80 \<noteq> 0"

text \<open>The end of a command: the flag is raised and the command bits of \<open>cr\<close> are cleared.\<close>

definition k_done :: "i2c_core \<Rightarrow> i2c_core" where
  "k_done d = d\<lparr>k_run := False, k_cmd := 0, k_flag := True\<rparr>"

definition k_event :: "bus_event \<Rightarrow> i2c_core \<Rightarrow> i2c_core" where
  "k_event e d = (case e of
     BusQuiet \<Rightarrow> d
   | BusDone \<Rightarrow> if k_run d then k_done d else d
   | BusLost \<Rightarrow> (k_done d)\<lparr>k_al := True\<rparr>)"

definition k_tick :: "i2c_core \<Rightarrow> i2c_core" where
  "k_tick d = (case k_slots d of
     [] \<Rightarrow> k_event BusDone d
   | s # ss \<Rightarrow> k_event (b_event s)
       (d\<lparr>k_slots := ss, k_rxack := b_rxack s, k_busy := b_busy s, k_rxr := b_rxr s\<rparr>))"

text \<open>The status register \<open>sr\<close>; \<open>tip\<close> is set while a byte is read or written.\<close>

definition k_status :: "i2c_core \<Rightarrow> u8" where
  "k_status d = (if k_rxack d then 0x80 else 0) OR (if k_busy d then 0x40 else 0)
     OR (if k_al d then 0x20 else 0) OR (if k_cmd d AND 0x30 \<noteq> 0 then 2 else 0) OR (if k_flag d then 1 else 0)"

definition i2c_core_read :: "nat \<Rightarrow> i2c_core \<Rightarrow> u8" where
  "i2c_core_read r d =
     (if r = 0 then k_prer_lo d else if r = 1 then k_prer_hi d else if r = 2 then k_ctr d
      else if r = 3 then k_rxr d else if r = 4 then k_status d else if r = 5 then k_if d
      else if r = 6 then k_txr d else k_cmd d)"

text \<open>
  A write to \<open>cr\<close> is taken while the core is enabled. A read, write or stop bit starts the byte
  controller, a start bit clears the lost arbitration, the acknowledgement bit clears the flag. Writing
  \<open>cr\<close> with a command in progress replaces the command bits; the byte controller goes on.
\<close>

definition i2c_core_write :: "nat \<Rightarrow> u8 \<Rightarrow> i2c_core \<Rightarrow> i2c_core" where
  "i2c_core_write r v d =
     (if r = 0 then d\<lparr>k_prer_lo := v\<rparr> else if r = 1 then d\<lparr>k_prer_hi := v\<rparr>
      else if r = 2 then d\<lparr>k_ctr := v\<rparr> else if r = 3 then d\<lparr>k_txr := v\<rparr>
      else if r = 4 then
        (if core_on d then
           d\<lparr>k_cmd := v AND 0xF0, k_run := k_run d \<or> v AND 0x70 \<noteq> 0,
             k_al := k_al d \<and> v AND 0x80 = 0, k_flag := k_flag d \<and> v AND 1 = 0\<rparr>
         else d)
      else if r = 5 then
        d\<lparr>k_if := (v AND 0x80) OR ((if k_if d AND 0x80 = 0 then v else k_if d) AND 0x0F)\<rparr>
      else d)"

text \<open>The core on a bus, its registers four bytes apart from \<open>b\<close>, with a clock of its own.\<close>

definition i2c_at :: "addr \<Rightarrow> i2c_core platform" where
  "i2c_at b = \<lparr>
     p_read = (\<lambda>c a d. let d = k_tick d; r = unat (drop_bit 2 (a - b))
       in (if r < 8 then ucast (i2c_core_read r d) else 0, d)),
     p_write = (\<lambda>c a v d. let d = k_tick d; r = unat (drop_bit 2 (a - b))
       in if r < 8 then i2c_core_write r (ucast v) d else d),
     p_jiffies = (\<lambda>d. (of_nat (Suc (k_time d)), d\<lparr>k_time := Suc (k_time d)\<rparr>)),
     p_msecs = of_nat\<rparr>"

section \<open>The law of the flag\<close>

text \<open>The flags the core has still to raise: this one, a command in progress, the bus.\<close>

definition k_left :: "i2c_core \<Rightarrow> nat" where
  "k_left d = of_bool (k_flag d) + of_bool (k_run d) + length (k_slots d)"

lemma k_event_simps [simp]:
  "k_ctr (k_event e d) = k_ctr d" "k_time (k_event e d) = k_time d" "k_slots (k_event e d) = k_slots d"
  "k_flag d \<Longrightarrow> k_flag (k_event e d)"
  by (simp_all add: k_event_def k_done_def split: bus_event.split)

lemma k_event_left: "k_left (k_event e d) \<le> Suc (k_left d)" "k_left (k_event BusDone d) \<le> k_left d"
  by (simp_all add: k_event_def k_left_def k_done_def split: bus_event.split)

lemma k_tick_simps [simp]: "k_ctr (k_tick d) = k_ctr d" "k_time (k_tick d) = k_time d" "core_on (k_tick d) = core_on d"
  by (simp_all add: k_tick_def core_on_def split: list.split)

lemma k_tick_left: "k_left (k_tick d) \<le> k_left d"
proof (cases "k_slots d")
  case Nil
  then show ?thesis
    using k_event_left(2) by (simp add: k_tick_def)
next
  case (Cons s ss)
  let ?d = "d\<lparr>k_slots := ss, k_rxack := b_rxack s, k_busy := b_busy s, k_rxr := b_rxr s\<rparr>"
  have "k_left d = Suc (k_left ?d)"
    using Cons by (simp add: k_left_def)
  then show ?thesis
    using k_event_left(1) [of "b_event s" ?d] Cons by (simp add: k_tick_def)
qed

lemma k_tick_flag: "k_flag d \<Longrightarrow> k_flag (k_tick d)"
  by (simp add: k_tick_def split: list.split)

lemma k_status_if: "k_status d AND 1 \<noteq> 0 \<longleftrightarrow> k_flag d"
  by (simp add: k_status_def bit_simps flip: bit_iff_and_drop_bit_eq_1)

lemma i2c_at_clock: "clock_ok (i2c_at b) k_time 1"
  by (simp add: clock_ok_def i2c_at_def Let_def)

text \<open>The instance the bus layout belongs to.\<close>

definition i2c_layout :: "ocores_i2c \<Rightarrow> addr \<Rightarrow> bool" where
  "i2c_layout i b \<longleftrightarrow> oc_base i = b \<and> oc_reg_shift i = 2 \<and> oc_setreg_fn i \<noteq> FnGrlib \<and> oc_getreg_fn i \<noteq> FnGrlib"

lemma core_getreg:
  assumes "i2c_layout i b" "reg \<in> {2, 3, 4}" "oc_getreg (i2c_at b) i reg w = (v, w')"
  shows "dev w' = k_tick (dev w) \<and> v = i2c_core_read (unat reg) (k_tick (dev w))"
  using assms
  by (auto simp: oc_getreg_plain i2c_layout_def fn_reg_def reg_addr_def ioread_def i2c_at_def Let_def split: prod.splits)

lemma core_setreg:
  assumes "i2c_layout i b" "reg \<in> {2, 3, 4}"
  shows "dev (oc_setreg (i2c_at b) i reg v w) = i2c_core_write (unat reg) v (k_tick (dev w))"
  using assms
  by (auto simp: oc_setreg_plain i2c_layout_def fn_reg_def reg_addr_def iowrite_def i2c_at_def Let_def)

lemma i2c_core_flag_law:
  assumes "i2c_layout i b"
  shows "flag_law (i2c_at b) i core_on k_left"
  unfolding flag_law_def
proof (intro conjI allI impI)
  fix reg w v w'
  assume "reg \<in> {OCI2C_CONTROL, OCI2C_DATA, OCI2C_STATUS}" "oc_getreg (i2c_at b) i reg w = (v, w')" "core_on (dev w)"
  then show "core_on (dev w')" "k_left (dev w') \<le> k_left (dev w)"
    using core_getreg [OF assms, of reg w v w'] k_tick_left by auto
next
  fix d :: i2c_core
  assume "core_on d"
  then show "core_on (snd (p_jiffies (i2c_at b) d))" "k_left (snd (p_jiffies (i2c_at b) d)) \<le> k_left d"
    by (simp_all add: i2c_at_def core_on_def k_left_def)
next
  fix reg and v :: u8 and w :: "i2c_core i2c_world"
  assume "reg \<in> {OCI2C_DATA, OCI2C_CMD}" "core_on (dev w)"
  then show "core_on (dev (oc_setreg (i2c_at b) i reg v w))"
    using core_setreg [OF assms, of reg v w] by (auto simp: i2c_core_write_def core_on_def)
next
  fix w v w'
  assume g: "oc_getreg (i2c_at b) i OCI2C_CONTROL w = (v, w')" and o: "core_on (dev w)"
  have v: "dev w' = k_tick (dev w)" "v = k_ctr (dev w)"
    using core_getreg [OF assms _ g] by (simp_all add: i2c_core_read_def)
  have "(c AND NOT 0x40) AND 0x80 = c AND (0x80 :: u8)" for c
    by (simp add: and.assoc)
  then show "core_on (dev (oc_setreg (i2c_at b) i OCI2C_CONTROL (v AND NOT OCI2C_CTRL_IEN) w'))"
    using core_setreg [OF assms, of 2] v o by (simp add: i2c_core_write_def core_on_def)
next
  fix w v w'
  assume g: "oc_getreg (i2c_at b) i OCI2C_STATUS w = (v, w')" and o: "core_on (dev w)" and f: "v AND OCI2C_STAT_IF \<noteq> 0"
  let ?d = "k_tick (k_tick (dev w))"
  have v: "dev w' = k_tick (dev w)" "v = k_status (k_tick (dev w))"
    using core_getreg [OF assms _ g] by (simp_all add: i2c_core_read_def)
  then have "k_flag ?d"
    using f k_status_if k_tick_flag by simp
  then have "k_left (i2c_core_write 4 OCI2C_CMD_IACK ?d) < k_left ?d"
    using o by (simp add: i2c_core_write_def k_left_def)
  also have "k_left ?d \<le> k_left (dev w)"
    using k_tick_left order_trans by blast
  finally show "k_left (dev (oc_setreg (i2c_at b) i OCI2C_CMD OCI2C_CMD_IACK w')) < k_left (dev w)"
    using core_setreg [OF assms, of 4] v(1) by simp
qed

section \<open>A sample transfer\<close>

text \<open>
  An enabled core whose first command takes two accesses, whose second one takes one, and which sees a
  STOP of another master at the end of the transfer.
\<close>

definition bus_idle :: "bus_event \<Rightarrow> bus_slot" where
  "bus_idle e = \<lparr>b_event = e, b_rxack = False, b_busy = False, b_rxr = 0\<rparr>"

definition demo_i2c_core :: i2c_core where
  "demo_i2c_core = \<lparr>k_prer_lo = 0x63, k_prer_hi = 0, k_ctr = 0x80, k_txr = 0, k_rxr = 0, k_if = 0, k_cmd = 0,
     k_run = False, k_flag = False, k_al = False, k_rxack = False, k_busy = False,
     k_slots = map bus_idle [BusQuiet, BusQuiet, BusQuiet, BusQuiet, BusQuiet, BusQuiet, BusDone,
       BusQuiet, BusQuiet, BusQuiet, BusDone, BusQuiet, BusQuiet, BusQuiet, BusQuiet, BusQuiet, BusLost],
     k_time = 0\<rparr>"

lemma ocores_xfer_polling_returns_witness:
  "\<exists>r. ocores_xfer_polling (i2c_at 0x1000) 0 [demo_msg] 1 (demo_i2c Fn8) \<lparr>dev = demo_i2c_core, trace = []\<rparr> = Some r"
proof -
  have l: "i2c_layout (demo_i2c Fn8) 0x1000"
    by (simp add: i2c_layout_def demo_i2c_def)
  show ?thesis
    using ocores_xfer_polling_returns [OF demo_xfer_ok(1) _ demo_xfer_ok(2,3) i2c_at_clock i2c_core_flag_law [OF l],
      of "\<lparr>dev = demo_i2c_core, trace = []\<rparr>" 0] by (simp add: core_on_def demo_i2c_core_def)
qed

end
