(* ===== verification/I2c_Init.thy ===== *)
theory I2c_Init
  imports I2c_Transfer
begin

text \<open>
  \<open>ocores_init\<close>: the clock prescaler, the order in which the controller is disabled, configured
  and enabled, and what the registers hold afterwards, whatever the access family.
\<close>

unbundle bit_operations_syntax

text \<open>The writes of a successful initialisation, as a list for the register-file law.\<close>

definition init_prescale :: "ocores_i2c \<Rightarrow> int" where
  "init_prescale i = clamp_int (oc_ip_clock_khz i sdiv (5 * oc_bus_clock_khz i) - 1) 0 0xffff"

definition init_close :: "ocores_i2c \<Rightarrow> bool" where
  "init_close i \<longleftrightarrow> \<bar>oc_ip_clock_khz i sdiv (5 * (init_prescale i + 1)) - oc_bus_clock_khz i\<bar>
     \<le> oc_bus_clock_khz i sdiv 10"

definition init_writes :: "ocores_i2c \<Rightarrow> u8 \<Rightarrow> (u32 \<times> u8) list" where
  "init_writes i ctrl = [(OCI2C_CONTROL, ctrl), (OCI2C_PRELOW, word_of_int (init_prescale i AND 0xff)),
     (OCI2C_PREHIGH, word_of_int (drop_bit 8 (init_prescale i))), (OCI2C_CMD, OCI2C_CMD_IACK),
     (OCI2C_CONTROL, ctrl OR OCI2C_CTRL_EN)]"

lemma init_cases:
  assumes "oc_getreg P i OCI2C_CONTROL w = (c, w1)"
  defines "ctrl \<equiv> c AND NOT (OCI2C_CTRL_EN OR OCI2C_CTRL_IEN)"
  shows "ocores_init P i w = (if oc_bus_clock_khz i = 0 then Inl DivByZero
     else if init_close i then Inr (0, fold (\<lambda>(r, v). oc_setreg P i r v) (init_writes i ctrl) w1)
     else Inr (- EINVAL, kcall DevErr (oc_setreg P i OCI2C_CONTROL ctrl w1)))"
  using assms by (simp add: ocores_init_def Let_def init_close_def init_prescale_def init_writes_def not_le)

lemma init_prescale_bounds: "0 \<le> init_prescale i" "init_prescale i \<le> 0xffff"
  by (simp_all add: init_prescale_def clamp_int_def)

lemma prescale_bytes:
  assumes "0 \<le> p" "p \<le> 0xffff"
  shows "uint (word_of_int (drop_bit 8 p) :: u8) * 256 + uint (word_of_int (p AND 0xff) :: u8) = p"
proof -
  have "p AND 0xff = take_bit 8 p"
    by (simp add: take_bit_eq_mask mask_eq_exp_minus_1)
  then have "uint (word_of_int (p AND 0xff) :: u8) = p mod 256"
    by (simp add: uint_word_of_int take_bit_eq_mod)
  moreover have "uint (word_of_int (drop_bit 8 p) :: u8) = p div 256"
    using assms by (simp add: uint_word_of_int drop_bit_eq_div)
  ultimately show ?thesis
    by simp
qed

lemma enabled_ctrl:
  "(c AND NOT (OCI2C_CTRL_EN OR OCI2C_CTRL_IEN) OR OCI2C_CTRL_EN) AND (OCI2C_CTRL_EN OR OCI2C_CTRL_IEN) = OCI2C_CTRL_EN"
  by (rule bit_word_eqI; auto simp: bit_simps less_8_cases)


text \<open>Over a bank of registers, a successful initialisation reads back as it should.\<close>

definition prescaler :: "ocores_i2c \<Rightarrow> (addr \<Rightarrow> u32) i2c_world \<Rightarrow> int" where
  "prescaler i w = uint (fst (oc_getreg bank i OCI2C_PREHIGH w)) * 256
     + uint (fst (oc_getreg bank i OCI2C_PRELOW w))"

lemma init_bank:
  assumes "layout_ok i" "oc_setreg_fn i = oc_getreg_fn i" "ocores_init bank i w = Inr (0, w')"
  shows "prescaler i w' = init_prescale i" "init_close i"
    "fst (oc_getreg bank i OCI2C_CONTROL w') AND (OCI2C_CTRL_EN OR OCI2C_CTRL_IEN) = OCI2C_CTRL_EN"
proof -
  obtain c w1 where g: "oc_getreg bank i OCI2C_CONTROL w = (c, w1)"
    by fastforce
  let ?c = "c AND NOT (OCI2C_CTRL_EN OR OCI2C_CTRL_IEN)"
  have cl: "init_close i" and w': "w' = fold (\<lambda>(r, v). oc_setreg bank i r v) (init_writes i ?c) w1"
    using assms(3) by (auto simp: init_cases [OF g] split: if_splits)
  have f: "fold (\<lambda>(r, v) (i, w). (i, oc_setreg bank i r v w)) ws (i, w1)
      = (i, fold (\<lambda>(r, v). oc_setreg bank i r v) ws w1)" for ws w1
    by (induction ws arbitrary: w1) auto
  have get: "fst (oc_getreg bank i q w') = (case map_of (rev (init_writes i ?c)) q of Some v \<Rightarrow> v
      | None \<Rightarrow> fst (oc_getreg bank i q w1))" if "unat q \<le> 5" for q
    using oc.get_fold [of "(i, w1)" q "init_writes i ?c"] that assms(1,2)
    by (simp add: f w' layout_ok_def init_writes_def)
  show "init_close i"
    by (rule cl)
  show "prescaler i w' = init_prescale i"
    using prescale_bytes [OF init_prescale_bounds [of i]]
    by (simp add: prescaler_def get init_writes_def)
  show "fst (oc_getreg bank i OCI2C_CONTROL w') AND (OCI2C_CTRL_EN OR OCI2C_CTRL_IEN) = OCI2C_CTRL_EN"
    using enabled_ctrl [of c] by (simp add: get init_writes_def)
qed


lemma sdiv_pos: "0 \<le> (a :: int) \<Longrightarrow> 0 \<le> b \<Longrightarrow> a sdiv b = a div b"
  by (simp add: signed_divide_int_def sgn_if)

lemma init_exact:
  assumes "0 < oc_bus_clock_khz i" "oc_ip_clock_khz i = 5 * oc_bus_clock_khz i * (k + 1)" "0 \<le> k" "k \<le> 0xffff"
  shows "init_prescale i = k" "init_close i"
proof -
  let ?b = "oc_bus_clock_khz i"
  have "oc_ip_clock_khz i sdiv (5 * ?b) = k + 1"
    using assms by (simp add: sdiv_pos)
  then show p: "init_prescale i = k"
    using assms(3,4) by (simp add: init_prescale_def clamp_int_def)
  have "oc_ip_clock_khz i = ?b * (5 * (k + 1))"
    using assms(2) by simp
  moreover have "0 \<le> ?b * (5 * (k + 1))"
    using assms(1,3) by simp
  ultimately have "oc_ip_clock_khz i sdiv (5 * (k + 1)) = ?b"
    using assms(3) by (simp add: sdiv_pos del: distrib_left_numeral)
  then show "init_close i"
    using assms(1) by (simp add: init_close_def p sdiv_pos)
qed

lemma trace_setreg_fn:
  "oc_setreg_fn i \<noteq> FnGrlib \<Longrightarrow> trace (oc_setreg P i r v w) = trace w @ [wr_ev i (r, v)]"
  by (simp add: oc_setreg_plain trace_iowrite wr_ev_def)

section \<open>Properties\<close>

text \<open>
  C28: a successful \<open>ocores_init\<close> leaves in the two prescale registers a prescaler with which the
  bus clock is within a tenth of the one asked for, and the controller enabled with its
  interrupt masked, whichever of the six access families the instance uses.
\<close>

theorem ocores_init_configures:
  assumes "layout_ok i" "oc_setreg_fn i = oc_getreg_fn i" "ocores_init bank i w = Inr (0, w')"
  shows "0 \<le> prescaler i w' \<and> prescaler i w' \<le> 0xffff
    \<and> \<bar>oc_ip_clock_khz i sdiv (5 * (prescaler i w' + 1)) - oc_bus_clock_khz i\<bar> \<le> oc_bus_clock_khz i sdiv 10
    \<and> fst (oc_getreg bank i OCI2C_CONTROL w') AND (OCI2C_CTRL_EN OR OCI2C_CTRL_IEN) = OCI2C_CTRL_EN"
  using init_bank [OF assms] init_prescale_bounds [of i] by (simp add: init_close_def)

text \<open>
  The order of initialisation. The first write disables the controller and masks its
  interrupt, the last one enables it, and the prescaler is written between the two; a rate that
  cannot be met is refused with the controller left disabled; without a bus clock the division
  faults, after the controller has been disabled.
\<close>

theorem ocores_init_order:
  assumes "oc_setreg_fn i \<noteq> FnGrlib" "oc_getreg P i OCI2C_CONTROL w = (c, w1)"
  defines "ctrl \<equiv> c AND NOT (OCI2C_CTRL_EN OR OCI2C_CTRL_IEN)"
  shows "case ocores_init P i w of
      Inl f \<Rightarrow> f = DivByZero \<and> oc_bus_clock_khz i = 0
    | Inr (ret, w') \<Rightarrow> oc_bus_clock_khz i \<noteq> 0 \<and>
        (if init_close i
         then ret = 0 \<and> writes_of (trace w') = writes_of (trace w) @ map (wr_ev i)
            [(OCI2C_CONTROL, ctrl), (OCI2C_PRELOW, word_of_int (init_prescale i AND 0xff)),
             (OCI2C_PREHIGH, word_of_int (drop_bit 8 (init_prescale i))), (OCI2C_CMD, OCI2C_CMD_IACK),
             (OCI2C_CONTROL, ctrl OR OCI2C_CTRL_EN)]
         else ret = - EINVAL \<and> writes_of (trace w') = writes_of (trace w) @ [wr_ev i (OCI2C_CONTROL, ctrl)])"
  using init_cases [OF assms(2)] writes_getreg [OF assms(2)] assms(1)
  by (simp add: ctrl_def trace_setreg_fn init_writes_def trace_kcall)

text \<open>
  A bus clock that divides the input clock is met exactly: the prescaler is the quotient less
  one.
\<close>

theorem ocores_init_exact:
  assumes "0 < oc_bus_clock_khz i" "oc_ip_clock_khz i = 5 * oc_bus_clock_khz i * (k + 1)" "0 \<le> k" "k \<le> 0xffff"
    "layout_ok i" "oc_setreg_fn i = oc_getreg_fn i"
  shows "\<exists>w'. ocores_init bank i w = Inr (0, w') \<and> prescaler i w' = k"
proof -
  note e = init_exact [OF assms(1-4)]
  obtain c w1 where g: "oc_getreg bank i OCI2C_CONTROL w = (c, w1)"
    by fastforce
  obtain w' where w': "ocores_init bank i w = Inr (0, w')"
    using assms(1) e(2) by (simp add: init_cases [OF g])
  then show ?thesis
    using init_bank(1) [OF assms(5,6) w'] e(1) by simp
qed

lemma ocores_init_configures_witness:
  "\<exists>w'. ocores_init bank (demo_i2c Fn16be) demo_w = Inr (0, w') \<and> prescaler (demo_i2c Fn16be) w' \<le> 0xffff"
proof -
  let ?i = "demo_i2c Fn16be"
  obtain c w1 where g: "oc_getreg bank ?i OCI2C_CONTROL demo_w = (c, w1)"
    by fastforce
  have "init_close ?i"
    by (simp add: init_close_def init_prescale_def clamp_int_def demo_i2c_def signed_divide_int_def)
  then obtain w' where "ocores_init bank ?i demo_w = Inr (0, w')"
    by (simp add: init_cases [OF g]) (simp add: demo_i2c_def)
  moreover from this have "prescaler ?i w' \<le> 0xffff"
    using ocores_init_configures [of ?i demo_w w'] by (simp add: demo_i2c_def layout_ok_def)
  ultimately show ?thesis
    by blast
qed

lemma ocores_init_exact_witness:
  "\<exists>w'. ocores_init bank (demo_i2c FnGrlib) demo_w = Inr (0, w') \<and> prescaler (demo_i2c FnGrlib) w' = 99"
  by (rule ocores_init_exact) (simp_all add: demo_i2c_def layout_ok_def)

lemma ocores_init_order_witness:
  "case ocores_init bank (demo_i2c Fn8) demo_w of Inl f \<Rightarrow> False | Inr (ret, w') \<Rightarrow> ret = 0"
proof -
  have g: "oc_getreg bank (demo_i2c Fn8) OCI2C_CONTROL demo_w
      = (0, demo_w\<lparr>trace := [EvRead IO8 0x1008 0]\<rparr>)"
    by (simp add: oc_getreg_plain demo_i2c_def demo_w_def ioread_def fn_acc_def fn_reg_def reg_addr_def)
  have "init_close (demo_i2c Fn8)"
    by (simp add: init_close_def init_prescale_def clamp_int_def demo_i2c_def signed_divide_int_def)
  then show ?thesis
    using ocores_init_order [OF _ g] by (auto simp: demo_i2c_def split: sum.splits)
qed

end
