(* ===== verification/I2c_Concurrency.thy ===== *)
theory I2c_Concurrency
  imports I2c_Transfer
begin

text \<open>
  The interrupt handler against the thread that waits for the transfer. The handler reads the
  status before it takes the lock, so a status can be stale by the time it is acted upon, and
  the wait can expire between the two: the bodies of \<open>ocores_process\<close> and
  \<open>ocores_process_timeout\<close> exclude each other. The waiting thread tests \<open>i2c->state\<close> without the
  lock, and both bodies set the final state before they write the last STOP: they are two steps
  each here, with everything else in between. A step relation has every such interleaving. It shows
  that none faults, that what the caller is told is true of its messages, that after the
  transfer has returned no handler, however late, touches them, and that success can be
  reported with the STOP still to be written.
\<close>

unbundle bit_operations_syntax

section \<open>The handler's body in two\<close>

text \<open>
  \<open>ocores_process\<close> up to where the state is final and its STOP is the last thing left to write. The flag
  says whether there is one.
\<close>

definition eom_front ::
    "'d platform \<Rightarrow> ocores_i2c \<Rightarrow> 'd i2c_world \<Rightarrow> c_fault + ocores_i2c \<times> 'd i2c_world \<times> bool" where
  "eom_front P i w = ebind (cur_msg i) (\<lambda>m.
     if oc_pos i = uint (m_len m) then
       (let i = i\<lparr>oc_nmsgs := oc_nmsgs i - 1, oc_msg := oc_msg i + 1, oc_pos := 0\<rparr>
        in if oc_nmsgs i \<noteq> 0 then
             ebind (cur_msg i) (\<lambda>m.
               if \<not> is_nostart m then
                 (let a = i2c_8bit_addr_from_msg m;
                      i = i\<lparr>oc_state := STATE_START\<rparr>;
                      w = oc_setreg P i OCI2C_DATA a w;
                      w = oc_setreg P i OCI2C_CMD OCI2C_CMD_START w
                  in Inr (i, w, False))
               else
                 ebind (process_next P (i\<lparr>oc_state := (if is_rd m then STATE_READ else STATE_WRITE)\<rparr>) w)
                   (\<lambda>(i, w). Inr (i, w, False)))
           else Inr (i\<lparr>oc_state := STATE_DONE\<rparr>, w, True))
     else ebind (process_next P i w) (\<lambda>(i, w). Inr (i, w, False)))"

definition process_front ::
    "'d platform \<Rightarrow> u8 \<Rightarrow> ocores_i2c \<Rightarrow> 'd i2c_world \<Rightarrow> c_fault + ocores_i2c \<times> 'd i2c_world \<times> bool" where
  "process_front P stat i w =
     (if oc_state i = STATE_DONE \<or> oc_state i = STATE_ERROR then
        Inr (i, kcall WakeUp (oc_setreg P i OCI2C_CMD OCI2C_CMD_IACK w), False)
      else if stat AND OCI2C_STAT_ARBLOST \<noteq> 0 then
        Inr (i\<lparr>oc_state := STATE_ERROR\<rparr>, w, True)
      else if oc_state i = STATE_START \<or> oc_state i = STATE_WRITE then
        ebind (cur_msg i) (\<lambda>m.
          let i = i\<lparr>oc_state := (if is_rd m then STATE_READ else STATE_WRITE)\<rparr>
          in if stat AND OCI2C_STAT_NACK \<noteq> 0 then Inr (i\<lparr>oc_state := STATE_ERROR\<rparr>, w, True)
             else eom_front P i w)
      else
        ebind (cur_msg i) (\<lambda>m.
          let (b, w) = oc_getreg P i OCI2C_DATA w
          in ebind (buf_set m (oc_pos i) b) (\<lambda>m.
               eom_front P (i\<lparr>oc_mem := (oc_mem i)[oc_msg i := m], oc_pos := oc_pos i + 1\<rparr>) w)))"

text \<open>The last STOP, with the state already set.\<close>

definition put_stop :: "'d platform \<Rightarrow> ocores_i2c \<Rightarrow> 'd i2c_world \<Rightarrow> 'd i2c_world" where
  "put_stop P i w = oc_setreg P i OCI2C_CMD OCI2C_CMD_STOP w"

definition timeout_front :: "ocores_i2c \<Rightarrow> ocores_i2c" where
  "timeout_front i = i\<lparr>oc_state := STATE_ERROR\<rparr>"

lemma ebind_front: "ebind (ebind x (\<lambda>(i, w). Inr (i, w, False)))
    (\<lambda>(j, v, stop). Inr (j, if stop then put_stop P j v else v)) = x"
  by (cases x) auto

lemma process_eom_split:
  "process_eom P i w = ebind (eom_front P i w) (\<lambda>(j, v, stop). Inr (j, if stop then put_stop P j v else v))"
proof (cases "cur_msg i")
  case (Inr m)
  show ?thesis
    by (cases "cur_msg (i\<lparr>oc_nmsgs := oc_nmsgs i - 1, oc_msg := oc_msg i + 1, oc_pos := 0\<rparr>)")
      (use Inr in \<open>simp_all add: process_eom_def eom_front_def ebind_front put_stop_def Let_def\<close>)
qed (simp add: process_eom_def eom_front_def)

text \<open>The two parts, one after the other, are the functions of the driver.\<close>

lemma process_split:
  "ocores_process P stat i w =
    ebind (process_front P stat i w) (\<lambda>(j, v, stop). Inr (j, if stop then put_stop P j v else v))"
proof (cases "cur_msg i")
  case (Inl f)
  then show ?thesis
    by (simp add: ocores_process_def process_front_def stop_error_def put_stop_def Let_def)
next
  case (Inr m)
  obtain b v where g: "oc_getreg P i OCI2C_DATA w = (b, v)"
    by fastforce
  show ?thesis
    by (cases "buf_set m (oc_pos i) b")
      (use Inr g in \<open>simp_all add: ocores_process_def process_front_def stop_error_def put_stop_def process_eom_split Let_def\<close>)
qed

lemma timeout_split: "ocores_process_timeout P i w = (timeout_front i, put_stop P (timeout_front i) w)"
  by (simp add: ocores_process_timeout_def stop_error_def timeout_front_def put_stop_def Let_def)

lemma front_eqs:
  "process_front P stat i w = Inr (j, v, False) \<Longrightarrow> ocores_process P stat i w = Inr (j, v)"
  "process_front P stat i w = Inr (j, v, True) \<Longrightarrow> ocores_process P stat i w = Inr (j, put_stop P j v)"
  by (simp_all add: process_split)

lemma eom_front_stop: "eom_front P i w = Inr (j, v, True) \<Longrightarrow> oc_state j = STATE_DONE"
  by (auto simp: eom_front_def Let_def ebind_eq_Inr_iff split: if_splits)

lemma process_front_stop:
  "process_front P stat i w = Inr (j, v, True) \<Longrightarrow> in_flight i \<and> \<not> in_flight j"
  by (cases "oc_getreg P i OCI2C_DATA w")
    (auto simp: process_front_def in_flight_def Let_def ebind_eq_Inr_iff split: if_splits dest!: eom_front_stop)

section \<open>Steps\<close>

text \<open>
  The waiting thread is in \<open>wait_event_timeout\<close>, past it with the time expired, in
  \<open>ocores_process_timeout\<close> with its STOP to write, or has returned a value. The handler is idle, holds
  the status it has read, or has set a final state and has its STOP to write. In \<open>IsrStopping\<close>
  and \<open>GivingUp\<close> a thread holds the lock.
\<close>

datatype waiter = Waiting | Expired | GivingUp | Returned int

datatype i2c_handler = IsrIdle | IsrEntered u8 | IsrStopping

record 'd conc =
  c_i2c :: ocores_i2c
  c_world :: "'d i2c_world"
  c_handler :: i2c_handler
  c_waiter :: waiter

inductive istep :: "'d platform \<Rightarrow> int \<Rightarrow> 'd conc \<Rightarrow> 'd conc \<Rightarrow> bool" for P num where
  isr_none: "c_handler s = IsrIdle \<Longrightarrow> oc_getreg P (c_i2c s) OCI2C_STATUS (c_world s) = (stat, w)
    \<Longrightarrow> stat AND OCI2C_STAT_IF = 0 \<Longrightarrow> istep P num s (s\<lparr>c_world := w\<rparr>)"
| isr_enter: "c_handler s = IsrIdle \<Longrightarrow> oc_getreg P (c_i2c s) OCI2C_STATUS (c_world s) = (stat, w)
    \<Longrightarrow> stat AND OCI2C_STAT_IF \<noteq> 0 \<Longrightarrow> istep P num s (s\<lparr>c_world := w, c_handler := IsrEntered stat\<rparr>)"
| isr_run: "c_handler s = IsrEntered stat \<Longrightarrow> c_waiter s \<noteq> GivingUp
    \<Longrightarrow> process_front P stat (c_i2c s) (c_world s) = Inr (i, w, False)
    \<Longrightarrow> istep P num s (s\<lparr>c_i2c := i, c_world := w, c_handler := IsrIdle\<rparr>)"
| isr_set: "c_handler s = IsrEntered stat \<Longrightarrow> c_waiter s \<noteq> GivingUp
    \<Longrightarrow> process_front P stat (c_i2c s) (c_world s) = Inr (i, w, True)
    \<Longrightarrow> istep P num s (s\<lparr>c_i2c := i, c_world := w, c_handler := IsrStopping\<rparr>)"
| isr_stop: "c_handler s = IsrStopping
    \<Longrightarrow> istep P num s (s\<lparr>c_world := put_stop P (c_i2c s) (c_world s), c_handler := IsrIdle\<rparr>)"
| wake: "c_waiter s = Waiting \<Longrightarrow> \<not> in_flight (c_i2c s)
    \<Longrightarrow> istep P num s (s\<lparr>c_waiter := Returned (xfer_result num (c_i2c s))\<rparr>)"
| expire: "c_waiter s = Waiting \<Longrightarrow> in_flight (c_i2c s) \<Longrightarrow> istep P num s (s\<lparr>c_waiter := Expired\<rparr>)"
| give_up: "c_waiter s = Expired \<Longrightarrow> c_handler s \<noteq> IsrStopping
    \<Longrightarrow> istep P num s (s\<lparr>c_i2c := timeout_front (c_i2c s), c_waiter := GivingUp\<rparr>)"
| give_up_stop: "c_waiter s = GivingUp
    \<Longrightarrow> istep P num s (s\<lparr>c_world := put_stop P (c_i2c s) (c_world s), c_waiter := Returned (- ETIMEDOUT)\<rparr>)"

inductive_cases istepE: "istep P num s t"

text \<open>The state in which \<open>ocores_xfer_core\<close> enters the wait.\<close>

definition wait_start :: "ocores_i2c \<Rightarrow> 'd i2c_world \<Rightarrow> 'd conc" where
  "wait_start i w = \<lparr>c_i2c = i, c_world = w, c_handler = IsrIdle, c_waiter = Waiting\<rparr>"

text \<open>The bus once a handler that has set its final state has also written the STOP.\<close>

definition settled :: "'d platform \<Rightarrow> 'd conc \<Rightarrow> 'd i2c_world" where
  "settled P s = (if c_handler s = IsrStopping then put_stop P (c_i2c s) (c_world s) else c_world s)"

section \<open>The invariant of all interleavings\<close>

definition conc_inv :: "'d platform \<Rightarrow> ocores_i2c \<Rightarrow> 'd i2c_world \<Rightarrow> int \<Rightarrow> 'd conc \<Rightarrow> bool" where
  "conc_inv P i w num s \<longleftrightarrow> progress i w (c_i2c s) (settled P s)
     \<and> (c_handler s = IsrStopping \<longrightarrow> \<not> in_flight (c_i2c s) \<and> c_waiter s \<noteq> GivingUp)
     \<and> (c_waiter s = GivingUp \<longrightarrow> oc_state (c_i2c s) = STATE_ERROR)
     \<and> (\<forall>r. c_waiter s = Returned r \<longrightarrow> \<not> in_flight (c_i2c s)
          \<and> (r = xfer_result num (c_i2c s) \<or> r = - ETIMEDOUT))"

lemma conc_inv_start: "i2c_inv i \<Longrightarrow> conc_inv P i w num (wait_start i w)"
  by (simp add: conc_inv_def wait_start_def settled_def progress_refl)

lemma progress_error: "progress i w j w1 \<Longrightarrow> oc_state j = STATE_ERROR \<Longrightarrow> progress i w j w2"
  by (simp add: progress_def)

lemma progress_front:
  assumes "progress i w j w1" "process_front P stat j w1 = Inr (k, w2, stop)"
  shows "progress i w k (if stop then put_stop P k w2 else w2)"
  using progress_process [OF assms(1), of P stat] assms(2) by (auto simp: process_split)

text \<open>Reading the status, acting on it, and the steps of the waiting thread.\<close>

lemma conc_inv_read:
  assumes "conc_inv P i w num s" "layout_ok i" "c_handler s = IsrIdle" "h \<noteq> IsrStopping"
    "oc_getreg P (c_i2c s) OCI2C_STATUS (c_world s) = (stat, v)"
  shows "conc_inv P i w num (s\<lparr>c_world := v, c_handler := h\<rparr>)"
proof -
  have "progress i w (c_i2c s) (c_world s)"
    using assms(1,3) by (simp add: conc_inv_def settled_def)
  moreover obtain es where "trace v = trace (c_world s) @ es" "writes_of es = []" "reads_at (rd_addr i OCI2C_DATA) es = []"
    using status_read [OF assms(2) _ assms(5)] assms(1) by (auto simp: conc_inv_def progress_def)
  ultimately have "progress i w (c_i2c s) v"
    by (rule progress_quiet)
  then show ?thesis
    using assms(1,4) by (simp add: conc_inv_def settled_def)
qed

lemma conc_inv_act:
  assumes "conc_inv P i w num s" "c_handler s = IsrEntered stat" "c_waiter s \<noteq> GivingUp"
    "process_front P stat (c_i2c s) (c_world s) = Inr (j, v, stop)"
  shows "conc_inv P i w num (s\<lparr>c_i2c := j, c_world := v, c_handler := (if stop then IsrStopping else IsrIdle)\<rparr>)"
proof -
  have p: "progress i w (c_i2c s) (c_world s)"
    using assms(1,2) by (simp add: conc_inv_def settled_def)
  have ret: "j = c_i2c s \<and> \<not> stop" if "c_waiter s = Returned r" for r
    using assms(1,4) that by (auto simp: conc_inv_def process_front_def in_flight_def)
  have "\<not> in_flight j" if stop
    using process_front_stop [of P stat "c_i2c s" "c_world s" j v] assms(4) that by simp
  then show ?thesis
    using assms(1,3) progress_front [OF p assms(4)] ret by (auto simp: conc_inv_def settled_def)
qed

lemma conc_inv_step:
  assumes "istep P num s t" "conc_inv P i w num s" "layout_ok i"
  shows "conc_inv P i w num t"
  using assms(1)
proof cases
  case (isr_none stat v)
  then show ?thesis
    using conc_inv_read [OF assms(2,3) isr_none(2) _ isr_none(3), of "c_handler s"]
    by (simp add: conc_inv_def settled_def)
next
  case (isr_enter stat v)
  then show ?thesis
    using conc_inv_read [OF assms(2,3) isr_enter(2) _ isr_enter(3)] by simp
next
  case (isr_run stat j v)
  then show ?thesis
    using conc_inv_act [OF assms(2) isr_run(2-4)] by simp
next
  case (isr_set stat j v)
  then show ?thesis
    using conc_inv_act [OF assms(2) isr_set(2-4)] by simp
next
  case isr_stop
  then show ?thesis
    using assms(2) by (simp add: conc_inv_def settled_def)
next
  case wake
  then show ?thesis
    using assms(2) by (auto simp: conc_inv_def settled_def)
next
  case expire
  then show ?thesis
    using assms(2) by (auto simp: conc_inv_def settled_def)
next
  case give_up
  then show ?thesis
    using assms(2) progress_failed [of i w "c_i2c s" "c_world s"]
    by (simp add: conc_inv_def settled_def timeout_front_def)
next
  case give_up_stop
  then show ?thesis
    using assms(2) progress_error by (auto simp: conc_inv_def settled_def in_flight_def)
qed

lemma conc_inv_reach:
  assumes "(istep P num)\<^sup>*\<^sup>* s t" "conc_inv P i w num s" "layout_ok i"
  shows "conc_inv P i w num t"
  using assms by (induction rule: rtranclp_induct) (auto intro: conc_inv_step)


text \<open>Once the caller has its answer, nothing changes but the bus: acknowledgements, and the STOP the handler owed.\<close>

lemma returned_step:
  assumes "istep P num s t" "c_waiter s = Returned r" "\<not> in_flight (c_i2c s)"
  shows "c_waiter t = Returned r \<and> c_i2c t = c_i2c s"
  using assms by (auto elim!: istepE simp: process_front_def in_flight_def)

lemma returned_stays:
  assumes "(istep P num)\<^sup>*\<^sup>* s t" "c_waiter s = Returned r" "\<not> in_flight (c_i2c s)"
  shows "c_waiter t = Returned r \<and> c_i2c t = c_i2c s"
  using assms by (induction rule: rtranclp_induct) (auto dest: returned_step)

text \<open>The handler run without interruption, and any number of them: the steps of \<open>serve\<close>.\<close>

definition conc_st :: "ocores_i2c \<Rightarrow> 'd i2c_world \<Rightarrow> i2c_handler \<Rightarrow> waiter \<Rightarrow> 'd conc" where
  "conc_st i w h x = \<lparr>c_i2c = i, c_world = w, c_handler = h, c_waiter = x\<rparr>"

lemma conc_st_simps [simp]:
  "c_i2c (conc_st i w h x) = i" "c_world (conc_st i w h x) = w"
  "c_handler (conc_st i w h x) = h" "c_waiter (conc_st i w h x) = x"
  "(conc_st i w h x)\<lparr>c_i2c := j\<rparr> = conc_st j w h x"
  "(conc_st i w h x)\<lparr>c_world := v\<rparr> = conc_st i v h x"
  "(conc_st i w h x)\<lparr>c_handler := g\<rparr> = conc_st i w g x"
  "(conc_st i w h x)\<lparr>c_waiter := y\<rparr> = conc_st i w h y"
  by (simp_all add: conc_st_def)

lemma act_reach:
  assumes "ocores_process P stat i w = Inr (j, v)" "x \<noteq> GivingUp"
  shows "(istep P num)\<^sup>*\<^sup>* (conc_st i w (IsrEntered stat) x) (conc_st j v IsrIdle x)"
proof -
  let ?s = "conc_st i w (IsrEntered stat) x"
  obtain u stop where f: "process_front P stat i w = Inr (j, u, stop)" "v = (if stop then put_stop P j u else u)"
    using assms(1) by (auto simp: process_split ebind_eq_Inr_iff)
  show ?thesis
  proof (cases stop)
    case False
    have "istep P num ?s (?s\<lparr>c_i2c := j, c_world := v, c_handler := IsrIdle\<rparr>)"
      by (rule isr_run) (use f False assms(2) in simp_all)
    then show ?thesis by auto
  next
    case True
    have "istep P num ?s (?s\<lparr>c_i2c := j, c_world := u, c_handler := IsrStopping\<rparr>)"
      by (rule isr_set) (use f True assms(2) in simp_all)
    moreover have "istep P num (conc_st j u IsrStopping x)
        ((conc_st j u IsrStopping x)\<lparr>c_world := put_stop P (c_i2c (conc_st j u IsrStopping x))
           (c_world (conc_st j u IsrStopping x)), c_handler := IsrIdle\<rparr>)"
      by (rule isr_stop) simp
    ultimately have "istep P num ?s (conc_st j u IsrStopping x)" "istep P num (conc_st j u IsrStopping x) (conc_st j v IsrIdle x)"
      using f(2) True by simp_all
    then show ?thesis
      by (meson r_into_rtranclp rtranclp_trans)
  qed
qed

lemma isr_reach:
  assumes "ocores_isr P i w = Inr (r, j, v)" "x \<noteq> GivingUp"
  shows "(istep P num)\<^sup>*\<^sup>* (conc_st i w IsrIdle x) (conc_st j v IsrIdle x)"
proof -
  obtain stat ws where g: "oc_getreg P i OCI2C_STATUS w = (stat, ws)"
    by fastforce
  show ?thesis
  proof (cases "stat AND OCI2C_STAT_IF = 0")
    case True
    have "istep P num (conc_st i w IsrIdle x) ((conc_st i w IsrIdle x)\<lparr>c_world := ws\<rparr>)"
      by (rule isr_none) (use g True in simp_all)
    then show ?thesis
      using assms g True by (auto simp: ocores_isr_def)
  next
    case False
    have "istep P num (conc_st i w IsrIdle x) ((conc_st i w IsrIdle x)\<lparr>c_world := ws, c_handler := IsrEntered stat\<rparr>)"
      by (rule isr_enter) (use g False in simp_all)
    then have 1: "istep P num (conc_st i w IsrIdle x) (conc_st i ws (IsrEntered stat) x)"
      by simp
    have "ocores_process P stat i ws = Inr (j, v)"
      using assms(1) g False by (auto simp: ocores_isr_def ebind_eq_Inr_iff)
    then show ?thesis
      using act_reach [OF _ assms(2)] 1 by (meson converse_rtranclp_into_rtranclp)
  qed
qed

lemma serve_reach:
  "serve P n i w = Inr (j, v) \<Longrightarrow> x \<noteq> GivingUp
    \<Longrightarrow> (istep P num)\<^sup>*\<^sup>* (conc_st i w IsrIdle x) (conc_st j v IsrIdle x)"
proof (induction n arbitrary: i w)
  case 0
  then show ?case by simp
next
  case (Suc n)
  then obtain r k u where k: "ocores_isr P i w = Inr (r, k, u)" "serve P n k u = Inr (j, v)"
    by (auto simp: ebind_eq_Inr_iff)
  show ?case
    using isr_reach [OF k(1) Suc.prems(2)] Suc.IH [OF k(2) Suc.prems(2)] by (rule rtranclp_trans)
qed

lemma demo_returns:
  "\<exists>s. (istep ready 1)\<^sup>*\<^sup>* (wait_start demo_run ready_w) s \<and> c_waiter s = Returned 1"
proof -
  have s: "wait_start demo_run ready_w = conc_st demo_run ready_w IsrIdle Waiting"
    by (simp add: wait_start_def conc_st_def)
  obtain k w where k: "serve ready 2 demo_run ready_w = Inr (k, w)" "oc_state k = STATE_DONE"
    using serve_ends [OF progress_refl [OF demo_run_ok(1)] demo_run_ok(2), of 2 ready ready_w]
      seen_ready_good [of 2 demo_run ready_w] demo_pending demo_run_ok(3) by auto
  let ?s = "conc_st k w IsrIdle Waiting"
  have "istep ready 1 ?s (?s\<lparr>c_waiter := Returned (xfer_result 1 (c_i2c ?s))\<rparr>)"
    by (rule wake) (use k(2) in \<open>simp_all add: in_flight_def\<close>)
  then have "istep ready 1 ?s (conc_st k w IsrIdle (Returned 1))"
    using k(2) by (simp add: xfer_result_def)
  then have "(istep ready 1)\<^sup>*\<^sup>* (wait_start demo_run ready_w) (conc_st k w IsrIdle (Returned 1))"
    using serve_reach [OF k(1), of Waiting 1] unfolding s by (auto intro: rtranclp.rtrancl_into_rtrancl)
  then show ?thesis
    by (metis conc_st_simps(4))
qed

section \<open>Success before the STOP\<close>

lemma process_next_state: "process_next P i w = Inr (j, v) \<Longrightarrow> oc_state j = oc_state i"
  by (auto simp: process_next_def Let_def ebind_eq_Inr_iff split: if_splits)

lemma eom_front_go: "eom_front P i w = Inr (j, v, False) \<Longrightarrow> in_flight i \<Longrightarrow> in_flight j"
  by (auto simp: eom_front_def in_flight_def Let_def ebind_eq_Inr_iff split: if_splits dest!: process_next_state)

lemma process_front_go: "process_front P stat i w = Inr (j, v, False) \<Longrightarrow> in_flight i \<Longrightarrow> in_flight j"
  by (cases "oc_getreg P i OCI2C_DATA w")
    (auto simp: process_front_def in_flight_def Let_def ebind_eq_Inr_iff split: if_splits
      dest!: eom_front_go [unfolded in_flight_def])

text \<open>
  The step that ends a transfer leaves the handler with the STOP to write. The waiting
  thread can see the state, report success and go on to the next transfer before it is written.
\<close>

lemma success_before_stop:
  assumes "c_handler s = IsrEntered stat" "c_waiter s = Waiting" "in_flight (c_i2c s)"
    "ocores_process P stat (c_i2c s) (c_world s) = Inr (j, v)" "oc_state j = STATE_DONE"
  obtains t where "(istep P num)\<^sup>*\<^sup>* s t" "c_waiter t = Returned num" "c_handler t = IsrStopping"
    "v = oc_setreg P j OCI2C_CMD OCI2C_CMD_STOP (c_world t)"
proof -
  obtain u stop where f: "process_front P stat (c_i2c s) (c_world s) = Inr (j, u, stop)"
      "v = (if stop then put_stop P j u else u)"
    using assms(4) by (auto simp: process_split ebind_eq_Inr_iff)
  have "stop"
  proof (rule ccontr)
    assume "\<not> stop"
    then have "in_flight j"
      using process_front_go [of P stat "c_i2c s" "c_world s" j u] f(1) assms(3) by simp
    then show False
      using assms(5) by (simp add: in_flight_def)
  qed
  let ?u = "s\<lparr>c_i2c := j, c_world := u, c_handler := IsrStopping\<rparr>"
  have 1: "istep P num s ?u"
    by (rule isr_set) (use f assms(1,2) \<open>stop\<close> in simp_all)
  have "istep P num ?u (?u\<lparr>c_waiter := Returned (xfer_result num (c_i2c ?u))\<rparr>)"
    by (rule wake) (use assms(2,5) in \<open>simp_all add: in_flight_def\<close>)
  then have "(istep P num)\<^sup>*\<^sup>* s (?u\<lparr>c_waiter := Returned (xfer_result num j)\<rparr>)"
    using 1 by (auto intro: converse_rtranclp_into_rtranclp)
  then show ?thesis
    by (rule that) (use f(2) \<open>stop\<close> assms(5) in \<open>simp_all add: xfer_result_def put_stop_def\<close>)
qed

lemma ready_step:
  assumes "i2c_inv i" "in_flight i"
  obtains w' k v where "oc_getreg ready i OCI2C_STATUS w = (1, w')" "ocores_process ready 1 i w' = Inr (k, v)"
    "i2c_inv k" "Suc (ncmds (pending k)) = ncmds (pending i)" "oc_state k \<noteq> STATE_ERROR"
proof -
  obtain stat w' where g: "oc_getreg ready i OCI2C_STATUS w = (stat, w')"
    by fastforce
  then have "stat = 1"
    using ready_status [of i w] by simp
  moreover have "go_on 1 i"
    by (rule good_go_on) (simp add: good_def)
  ultimately show ?thesis
    using progress_process [OF progress_refl [OF assms(1)], of ready 1 w'] assms(2) g that
    by (auto simp: progress_def)
qed

text \<open>It does happen: a write of one byte, with no error and in time.\<close>

lemma demo_early_success:
  "\<exists>s. (istep ready 1)\<^sup>*\<^sup>* (wait_start demo_run ready_w) s \<and> c_waiter s = Returned 1 \<and> c_handler s = IsrStopping"
proof -
  have i: "i2c_inv demo_run" "in_flight demo_run"
    using demo_run_ok by (simp_all add: in_flight_def)
  obtain w1 k w2 where 1: "oc_getreg ready demo_run OCI2C_STATUS ready_w = (1, w1)"
      "ocores_process ready 1 demo_run w1 = Inr (k, w2)" "i2c_inv k" "Suc (ncmds (pending k)) = 2"
    using ready_step [OF i, of ready_w] demo_pending by metis
  then have k: "in_flight k"
    by (simp add: in_flight_ncmds)
  obtain w3 j w4 where 2: "oc_getreg ready k OCI2C_STATUS w2 = (1, w3)"
      "ocores_process ready 1 k w3 = Inr (j, w4)" "Suc (ncmds (pending j)) = ncmds (pending k)" "oc_state j \<noteq> STATE_ERROR"
    using ready_step [OF 1(3) k, of w2] by metis
  have j: "oc_state j = STATE_DONE"
    using 1(4) 2(3,4) in_flight_ncmds [of j] by (simp add: in_flight_def)
  have "ocores_isr ready demo_run ready_w = Inr (IRQ_HANDLED, k, w2)"
    using 1(1,2) by (simp add: ocores_isr_def)
  from isr_reach [OF this, of Waiting 1]
  have r: "(istep ready 1)\<^sup>*\<^sup>* (wait_start demo_run ready_w) (conc_st k w2 IsrIdle Waiting)"
    by (simp add: wait_start_def conc_st_def)
  have "istep ready 1 (conc_st k w2 IsrIdle Waiting)
      ((conc_st k w2 IsrIdle Waiting)\<lparr>c_world := w3, c_handler := IsrEntered 1\<rparr>)"
    by (rule isr_enter) (use 2(1) in simp_all)
  then have s: "(istep ready 1)\<^sup>*\<^sup>* (wait_start demo_run ready_w) (conc_st k w3 (IsrEntered 1) Waiting)"
    using r by (auto intro: rtranclp.rtrancl_into_rtrancl)
  obtain t where "(istep ready 1)\<^sup>*\<^sup>* (conc_st k w3 (IsrEntered 1) Waiting) t" "c_waiter t = Returned 1" "c_handler t = IsrStopping"
    by (rule success_before_stop [of "conc_st k w3 (IsrEntered 1) Waiting" 1 ready j w4 1]) (use k 2(2) j in simp_all)
  then show ?thesis
    using s by (meson rtranclp_trans)
qed

section \<open>Properties\<close>

text \<open>
  C27: in every interleaving of the interrupt handler with the waiting thread and its timeout, a
  handler that has read a status, however old, runs without a fault and keeps the invariant
  of the transfer.
\<close>

theorem interleaving_no_fault:
  assumes "i2c_inv i" "layout_ok i" "(istep P num)\<^sup>*\<^sup>* (wait_start i w) s" "c_handler s = IsrEntered stat"
  shows "\<exists>j w'. ocores_process P stat (c_i2c s) (c_world s) = Inr (j, w') \<and> i2c_inv j
    \<and> msgs_frame (oc_mem i) (oc_mem j)"
proof -
  have "progress i w (c_i2c s) (c_world s)"
    using conc_inv_reach [OF assms(3) conc_inv_start [OF assms(1)] assms(2)] assms(4)
    by (simp add: conc_inv_def settled_def)
  then obtain j w' where "ocores_process P stat (c_i2c s) (c_world s) = Inr (j, w')" "progress i w j w'"
    using progress_process by blast
  then show ?thesis
    by (auto simp: progress_def)
qed

text \<open>
  C14: once the transfer has returned to its caller, with success, error or timeout, no later step
  of any handler changes the instance: the message buffers are the caller's again.
\<close>

theorem returned_buffers_untouched:
  assumes "i2c_inv i" "layout_ok i" "(istep P num)\<^sup>*\<^sup>* (wait_start i w) s" "c_waiter s = Returned r"
    "(istep P num)\<^sup>*\<^sup>* s t"
  shows "oc_mem (c_i2c t) = oc_mem (c_i2c s) \<and> c_waiter t = Returned r"
  using conc_inv_reach [OF assms(3) conc_inv_start [OF assms(1)] assms(2)] assms(4)
    returned_stays [OF assms(5,4)] by (simp add: conc_inv_def)

text \<open>
  C7: in every interleaving, a return value that reports all messages means that the whole rest of
  the script is put on the bus, with acknowledgements only after its end, and that the read
  buffers hold exactly the bytes the data register returned. All of it is on the bus by then except,
  when the handler still holds the lock, the last STOP: it is the one write the handler has
  left, and completes the script.
\<close>

theorem interleaving_success:
  assumes "i2c_inv i" "layout_ok i" "oc_state i = STATE_START" "received i = []" "0 \<le> num"
    "(istep P num)\<^sup>*\<^sup>* (wait_start i w) s" "c_waiter s = Returned num"
  shows "\<exists>k. steps_io i w (pending i @ iacks k) (concat (map read_bytes (oc_mem (c_i2c s))))
    (if c_handler s = IsrStopping then oc_setreg P (c_i2c s) OCI2C_CMD OCI2C_CMD_STOP (c_world s)
     else c_world s)"
proof -
  have c: "conc_inv P i w num s"
    by (rule conc_inv_reach [OF assms(6) conc_inv_start [OF assms(1)] assms(2)])
  then have d: "oc_state (c_i2c s) = STATE_DONE"
    using assms(5,7) by (auto simp: conc_inv_def xfer_result_def split: if_splits)
  then obtain em k bs where e: "steps_io i w (em @ iacks k) bs (settled P s)" "em @ pending (c_i2c s) = pending i"
      "received (c_i2c s) = bs"
    using c assms(4) by (auto simp: conc_inv_def progress_def)
  have "em = pending i"
    using e(2) d by (simp add: pending_def)
  moreover have "bs = concat (map read_bytes (oc_mem (c_i2c s)))"
    using c d e(3) final_received by (simp add: conc_inv_def progress_def)
  ultimately show ?thesis
    using e(1) unfolding settled_def put_stop_def by blast
qed

section \<open>Witnesses\<close>

lemma interleaving_no_fault_witness:
  "\<exists>w j w'. oc_getreg ready demo_run OCI2C_STATUS ready_w = (1, w)
    \<and> ocores_process ready 1 demo_run w = Inr (j, w') \<and> i2c_inv j"
proof -
  obtain stat w where g: "oc_getreg ready demo_run OCI2C_STATUS ready_w = (stat, w)"
    by fastforce
  then have one: "stat = 1"
    using ready_status [of demo_run ready_w] by simp
  have "istep ready 1 (wait_start demo_run ready_w)
      ((wait_start demo_run ready_w)\<lparr>c_world := w, c_handler := IsrEntered stat\<rparr>)"
    by (rule isr_enter) (use g one in \<open>simp_all add: wait_start_def\<close>)
  then have "(istep ready 1)\<^sup>*\<^sup>* (wait_start demo_run ready_w)
      ((wait_start demo_run ready_w)\<lparr>c_world := w, c_handler := IsrEntered stat\<rparr>)"
    by (rule r_into_rtranclp)
  from interleaving_no_fault [OF demo_run_ok(1,2) this, of stat] g one show ?thesis
    by (auto simp: wait_start_def)
qed

lemma returned_buffers_untouched_witness:
  "\<exists>s. (istep ready 1)\<^sup>*\<^sup>* (wait_start demo_run ready_w) s \<and> c_waiter s = Returned 1
    \<and> (\<forall>t. (istep ready 1)\<^sup>*\<^sup>* s t \<longrightarrow> oc_mem (c_i2c t) = oc_mem (c_i2c s))"
  using demo_returns returned_buffers_untouched [OF demo_run_ok(1,2)] by metis

lemma interleaving_success_witness:
  "\<exists>s k. (istep ready 1)\<^sup>*\<^sup>* (wait_start demo_run ready_w) s
    \<and> steps_io demo_run ready_w (pending demo_run @ iacks k) (concat (map read_bytes (oc_mem (c_i2c s))))
        (if c_handler s = IsrStopping then oc_setreg ready (c_i2c s) OCI2C_CMD OCI2C_CMD_STOP (c_world s)
         else c_world s)"
  using demo_returns interleaving_success [OF demo_run_ok, of 1 ready ready_w] by (metis zero_le_one)

end
