(* ===== verification/I2c_Probe.thy ===== *)
theory I2c_Probe
  imports I2c_Init
begin

text \<open>
  The life of an I2C instance: the OHWR multiplexer, the device-tree and platform-data
  configuration, \<open>probe\<close> with its error exits, \<open>remove\<close>, \<open>suspend\<close> and \<open>resume\<close>. What the kernel
  answers (memory, clocks, properties, interrupts, adapters) is a parameter; the calls the
  driver makes are events of the trace.
\<close>

unbundle bit_operations_syntax

section \<open>The multiplexer\<close>

definition ohwr_i2c_mux_select :: "'d platform \<Rightarrow> ocores_i2c \<Rightarrow> u32 \<Rightarrow> 'd i2c_world \<Rightarrow> int \<times> 'd i2c_world" where
  "ohwr_i2c_mux_select P i num w =
     (let (mux, w) = oc_getreg P i OCI2C_OHWR_MUX w
      in if mux AND OCI2C_OHWR_MUX_BUSY \<noteq> 0 then (- EBUSY, w)
         else
           let mux = mux AND NOT OCI2C_OHWR_MUX_SEL_MASK;
               mux = mux OR (ucast num AND OCI2C_OHWR_MUX_SEL_MASK);
               mux = mux OR OCI2C_OHWR_MUX_BUSY
           in (0, oc_setreg P i OCI2C_OHWR_MUX mux w))"

definition ohwr_i2c_mux_deselect :: "'d platform \<Rightarrow> ocores_i2c \<Rightarrow> u32 \<Rightarrow> 'd i2c_world \<Rightarrow> int \<times> 'd i2c_world" where
  "ohwr_i2c_mux_deselect P i num w =
     (let (mux, w) = oc_getreg P i OCI2C_OHWR_MUX w;
          w = (if mux AND OCI2C_OHWR_MUX_BUSY = 0 then kcall DevErr w else w);
          mux = mux AND NOT OCI2C_OHWR_MUX_BUSY
      in (0, oc_setreg P i OCI2C_OHWR_MUX mux w))"

section \<open>The kernel around an instance\<close>

definition TYPE_OCORES :: nat where [simp]: "TYPE_OCORES = 0"
definition TYPE_GRLIB :: nat where [simp]: "TYPE_GRLIB = 1"
definition TYPE_OHWR :: nat where [simp]: "TYPE_OHWR = 2"

text \<open>The match tables: compatible strings of the device tree, names of platform devices.\<close>

definition ocores_i2c_match :: "(string \<times> nat) list" where
  "ocores_i2c_match = [(''opencores,i2c-ocores'', TYPE_OCORES), (''aeroflexgaisler,i2cmst'', TYPE_GRLIB),
     (''ohwr,i2c-ohwr'', TYPE_OHWR)]"

definition ocores_id_table :: "(string \<times> nat) list" where
  "ocores_id_table = [(''ocores-i2c'', TYPE_OCORES), (''i2c-ocores'', TYPE_OCORES), (''i2cmst'', TYPE_GRLIB),
     (''i2c-ohwr'', TYPE_OHWR)]"

record ocores_i2c_platform_data =
  pd_reg_shift :: u32
  pd_reg_io_width :: u32
  pd_clock_khz :: u32
  pd_big_endian :: bool
  pd_num_devices :: u8

text \<open>
  The device tree node: the \<open>u32\<close> properties it has, whether it is big endian, its compatible
  string. The clock: whether \<open>devm_clk_get\<close> finds it, what
  \<open>clk_prepare_enable\<close> returns, and its rate.
\<close>

record of_node =
  of_u32 :: "string \<Rightarrow> u32 option"
  of_big_endian :: bool
  of_compatible :: string

record clk_env =
  ck_get :: "int option"
  ck_prepare :: int
  ck_rate :: u64

text \<open>
  \<open>ev_id\<close> is \<open>platform_get_device_id(pdev)\<close>: the table entry that matched by name, or a null
  pointer if the device was matched otherwise, as the device tree does.
\<close>

record i2c_env =
  ev_alloc :: bool
  ev_ioremap :: "int + addr"
  ev_pdata :: "ocores_i2c_platform_data option"
  ev_of :: of_node
  ev_clk :: clk_env
  ev_irq :: int
  ev_request_irq :: int
  ev_add_adapter :: int
  ev_id :: "(string \<times> nat) option"
  ev_mux_alloc :: "nat option"
  ev_mux_add :: "nat \<Rightarrow> int"

text \<open>An instance under construction: its accessors may not be set yet, its clock is a pointer.\<close>

datatype clk = ClkNull | ClkErr int | Clk

record ocores_drv =
  drv :: ocores_i2c
  drv_setreg :: "oc_fn option"
  drv_getreg :: "oc_fn option"
  drv_clk :: clk

text \<open>The clock functions accept a null clock, and disabling accepts an error pointer.\<close>

definition clk_prepare_enable :: "clk_env \<Rightarrow> clk \<Rightarrow> 'd i2c_world \<Rightarrow> int \<times> 'd i2c_world" where
  "clk_prepare_enable ck c w = (if c \<noteq> Clk then (0, w)
     else if ck_prepare ck \<noteq> 0 then (ck_prepare ck, w) else (0, kcall ClkPrepareEnable w))"

definition clk_get_rate :: "clk_env \<Rightarrow> clk \<Rightarrow> u64" where
  "clk_get_rate ck c = (if c = Clk then ck_rate ck else 0)"

fun clk_is_err :: "clk \<Rightarrow> bool" where
  "clk_is_err (ClkErr e) = True"
| "clk_is_err c = False"

definition clk_disable_unprepare :: "clk \<Rightarrow> 'd i2c_world \<Rightarrow> 'd i2c_world" where
  "clk_disable_unprepare c w = (if c = Clk then kcall ClkDisableUnprepare w else w)"

section \<open>Device tree\<close>

fun ilog2 :: "nat \<Rightarrow> nat" where
  "ilog2 n = (if n < 2 then 0 else Suc (ilog2 (n div 2)))"

declare ilog2.simps [simp del]

definition is_power_of_2 :: "u32 \<Rightarrow> bool" where
  "is_power_of_2 n \<longleftrightarrow> n \<noteq> 0 \<and> n AND (n - 1) = 0"

definition of_reg_shift :: "of_node \<Rightarrow> ocores_i2c \<Rightarrow> 'd i2c_world \<Rightarrow> int + ocores_i2c \<times> 'd i2c_world" where
  "of_reg_shift np i w = (case of_u32 np ''reg-shift'' of
       Some v \<Rightarrow> Inr (i\<lparr>oc_reg_shift := v\<rparr>, w)
     | None \<Rightarrow> (case of_u32 np ''regstep'' of
           None \<Rightarrow> Inr (i, w)
         | Some val \<Rightarrow>
             if \<not> is_power_of_2 val then Inl (- EINVAL)
             else Inr (i\<lparr>oc_reg_shift := of_nat (ilog2 (unat val))\<rparr>, kcall DevWarn w)))"

text \<open>An \<open>int\<close> that receives an \<open>unsigned long\<close>.\<close>

definition to_int :: "u64 \<Rightarrow> int" where
  "to_int v = sint (ucast v :: u32)"

definition khz :: "u32 \<Rightarrow> int" where
  "khz v = uint v div 1000"

text \<open>The clock, if there is one: \<open>Inl\<close> is an early return.\<close>

definition of_clk :: "clk_env \<Rightarrow> u32 option \<Rightarrow> ocores_drv \<Rightarrow> 'd i2c_world \<Rightarrow>
    (int \<times> 'd i2c_world) + ocores_drv \<times> 'd i2c_world" where
  "of_clk ck freq d w = (case ck_get ck of
       Some err \<Rightarrow> Inr (d\<lparr>drv_clk := ClkErr err\<rparr>, w)
     | None \<Rightarrow>
         let (ret, w) = clk_prepare_enable ck Clk w
         in if ret \<noteq> 0 then Inl (ret, kcall DevErr w)
            else
              let i = (drv d)\<lparr>oc_ip_clock_khz := to_int (clk_get_rate ck Clk div 1000)\<rparr>;
                  i = (case freq of Some f \<Rightarrow> i\<lparr>oc_bus_clock_khz := khz f\<rparr> | None \<Rightarrow> i)
              in Inr (d\<lparr>drv := i, drv_clk := Clk\<rparr>, w))"

definition of_ip_clock :: "of_node \<Rightarrow> u32 option \<Rightarrow> ocores_drv \<Rightarrow> 'd i2c_world \<Rightarrow>
    (int \<times> 'd i2c_world) + ocores_drv \<times> 'd i2c_world" where
  "of_ip_clock np freq d w =
     (if oc_ip_clock_khz (drv d) = 0 then
        (case of_u32 np ''opencores,ip-clock-frequency'' of
           None \<Rightarrow> (case freq of
               None \<Rightarrow> Inl (- ENODEV, clk_disable_unprepare (drv_clk d) (kcall DevErr w))
             | Some f \<Rightarrow> Inr (d\<lparr>drv := (drv d)\<lparr>oc_ip_clock_khz := khz f\<rparr>\<rparr>, kcall DevWarn w))
         | Some val \<Rightarrow>
             let i = (drv d)\<lparr>oc_ip_clock_khz := khz val\<rparr>;
                 i = (case freq of Some f \<Rightarrow> i\<lparr>oc_bus_clock_khz := khz f\<rparr> | None \<Rightarrow> i)
             in Inr (d\<lparr>drv := i\<rparr>, w))
      else Inr (d, w))"

definition of_accessors :: "of_node \<Rightarrow> ocores_drv \<Rightarrow> ocores_drv" where
  "of_accessors np d =
     (let i = (case of_u32 np ''reg-io-width'' of Some v \<Rightarrow> (drv d)\<lparr>oc_reg_io_width := v\<rparr> | None \<Rightarrow> drv d);
          d = d\<lparr>drv := i\<rparr>
      in if map_of ocores_i2c_match (of_compatible np) = Some TYPE_GRLIB
         then d\<lparr>drv_setreg := Some FnGrlib, drv_getreg := Some FnGrlib\<rparr> else d)"

definition ocores_i2c_of_probe :: "of_node \<Rightarrow> clk_env \<Rightarrow> ocores_drv \<Rightarrow> 'd i2c_world \<Rightarrow> int \<times> ocores_drv \<times> 'd i2c_world" where
  "ocores_i2c_of_probe np ck d w = (case of_reg_shift np (drv d) w of
       Inl e \<Rightarrow> (e, d, kcall DevErr w)
     | Inr (i, w) \<Rightarrow>
         let freq = of_u32 np ''clock-frequency'';
             d = d\<lparr>drv := i\<lparr>oc_bus_clock_khz := 100\<rparr>\<rparr>
         in (case of_clk ck freq d w of
               Inl (e, w) \<Rightarrow> (e, d, w)
             | Inr (d, w) \<Rightarrow> (case of_ip_clock np freq d w of
                   Inl (e, w) \<Rightarrow> (e, d, w)
                 | Inr (d, w) \<Rightarrow> (0, of_accessors np d, w))))"

section \<open>Probe\<close>

text \<open>The accessors that go with an access width.\<close>

definition select_fn :: "u32 \<Rightarrow> bool \<Rightarrow> oc_fn option" where
  "select_fn width be = (if width = 1 then Some Fn8
     else if width = 2 then Some (if be then Fn16be else Fn16)
     else if width = 4 then Some (if be then Fn32be else Fn32)
     else None)"

definition probe_accessors :: "i2c_env \<Rightarrow> ocores_drv \<Rightarrow> ocores_drv option" where
  "probe_accessors E d =
     (if drv_setreg d = None \<or> drv_getreg d = None then
        let be = (case ev_pdata E of Some pd \<Rightarrow> pd_big_endian pd | None \<Rightarrow> of_big_endian (ev_of E))
        in map_option (\<lambda>f. d\<lparr>drv_setreg := Some f, drv_getreg := Some f\<rparr>)
             (select_fn (oc_reg_io_width (drv d)) be)
      else Some d)"

text \<open>Adding the multiplexer's adapters: the first failure removes those already added.\<close>

fun mux_add_all :: "(nat \<Rightarrow> int) \<Rightarrow> nat list \<Rightarrow> 'd i2c_world \<Rightarrow> int \<times> 'd i2c_world" where
  "mux_add_all add [] w = (0, w)"
| "mux_add_all add (k # ks) w =
     (if add k \<noteq> 0 then (add k, kcall MuxDel w) else mux_add_all add ks (kcall (MuxAdd k) w))"

definition ocores_i2c_probe_ohwr :: "i2c_env \<Rightarrow> 'd i2c_world \<Rightarrow> int \<times> 'd i2c_world" where
  "ocores_i2c_probe_ohwr E w = (case ev_mux_alloc E of
       None \<Rightarrow> (- ENOMEM, w)
     | Some max_adapters \<Rightarrow> mux_add_all (ev_mux_add E) [0..<max_adapters] (kcall MuxAlloc w))"

definition ocores_i2c_remove_ohwr :: "'d i2c_world \<Rightarrow> 'd i2c_world" where
  "ocores_i2c_remove_ohwr w = kcall MuxDel w"

text \<open>\<open>kzalloc\<close>: everything is zero, and the state zero is \<open>STATE_DONE\<close>.\<close>

definition fresh_drv :: "addr \<Rightarrow> ocores_drv" where
  "fresh_drv base = \<lparr>drv = \<lparr>oc_base = base, oc_reg_shift = 0, oc_reg_io_width = 0, oc_flags = 0, oc_mem = [],
     oc_msg = 0, oc_pos = 0, oc_nmsgs = 0, oc_state = STATE_DONE, oc_ip_clock_khz = 0, oc_bus_clock_khz = 0,
     oc_setreg_fn = Fn8, oc_getreg_fn = Fn8\<rparr>, drv_setreg = None, drv_getreg = None, drv_clk = ClkNull\<rparr>"

definition probe_config :: "i2c_env \<Rightarrow> addr \<Rightarrow> 'd i2c_world \<Rightarrow> int \<times> ocores_drv \<times> 'd i2c_world" where
  "probe_config E base w = (case ev_pdata E of
       Some pd \<Rightarrow> (0, (fresh_drv base)\<lparr>drv := (drv (fresh_drv base))\<lparr>oc_reg_shift := pd_reg_shift pd,
           oc_reg_io_width := pd_reg_io_width pd, oc_ip_clock_khz := sint (pd_clock_khz pd),
           oc_bus_clock_khz := 100\<rparr>\<rparr>, w)
     | None \<Rightarrow> ocores_i2c_of_probe (ev_of E) (ev_clk E) (fresh_drv base) w)"

definition probe_width :: "ocores_drv \<Rightarrow> ocores_drv" where
  "probe_width d = (if oc_reg_io_width (drv d) = 0 then d\<lparr>drv := (drv d)\<lparr>oc_reg_io_width := 1\<rparr>\<rparr> else d)"

text \<open>The instance with its function pointers, as the accessors use it.\<close>

definition drv_ready :: "ocores_drv \<Rightarrow> ocores_i2c" where
  "drv_ready d = (drv d)\<lparr>oc_setreg_fn := the (drv_setreg d), oc_getreg_fn := the (drv_getreg d)\<rparr>"

definition err_clk :: "int \<Rightarrow> ocores_drv \<Rightarrow> 'd i2c_world \<Rightarrow> int \<times> ocores_i2c \<times> clk \<times> 'd i2c_world" where
  "err_clk ret d w = (ret, drv_ready d, drv_clk d, clk_disable_unprepare (drv_clk d) w)"

definition probe_register :: "'d platform \<Rightarrow> i2c_env \<Rightarrow> ocores_drv \<Rightarrow> 'd i2c_world \<Rightarrow>
    c_fault + int \<times> ocores_i2c \<times> clk \<times> 'd i2c_world" where
  "probe_register P E d w = ebind (ocores_init P (drv_ready d) w) (\<lambda>(ret, w).
     if ret \<noteq> 0 then Inr (err_clk ret d w)
     else if ev_add_adapter E \<noteq> 0 then Inr (err_clk (ev_add_adapter E) d w)
     else
       let w = kcall AddAdapter w
       in (case ev_id E of
            None \<Rightarrow> Inl BadPointer
          | Some (_, data) \<Rightarrow>
              let (ret, w) = (if data = TYPE_OHWR then ocores_i2c_probe_ohwr E w else (0, w))
              in if ret \<noteq> 0 then Inr (err_clk ret d (kcall DelAdapter w))
                 else
                   let w = (case ev_pdata E of
                       Some pd \<Rightarrow> fold (\<lambda>k. kcall (NewClient k)) [0..<unat (pd_num_devices pd)] w
                     | None \<Rightarrow> w)
                   in Inr (0, drv_ready d, drv_clk d, w)))"

definition probe_irq :: "'d platform \<Rightarrow> i2c_env \<Rightarrow> ocores_drv \<Rightarrow> 'd i2c_world \<Rightarrow>
    c_fault + int \<times> ocores_i2c \<times> clk \<times> 'd i2c_world" where
  "probe_irq P E d w =
     (let irq = ev_irq E
      in if irq = - ENXIO then
           probe_register P E (d\<lparr>drv := (drv d)\<lparr>oc_flags := oc_flags (drv d) OR OCORES_FLAG_POLL\<rparr>\<rparr>) w
         else if irq < 0 then Inr (irq, drv_ready d, drv_clk d, w)
         else if oc_flags (drv d) AND OCORES_FLAG_POLL = 0 then
           (let ret = ev_request_irq E; w = kcall (RequestIrq irq) w
            in if ret < 0 then Inr (err_clk ret d (kcall DevErr w)) else probe_register P E d w)
         else probe_register P E d w)"

definition ocores_i2c_probe :: "'d platform \<Rightarrow> i2c_env \<Rightarrow> 'd i2c_world \<Rightarrow>
    c_fault + int \<times> (ocores_i2c \<times> clk) option \<times> 'd i2c_world" where
  "ocores_i2c_probe P E w =
     (if \<not> ev_alloc E then Inr (- ENOMEM, None, w)
      else case ev_ioremap E of
        Inl e \<Rightarrow> Inr (e, None, w)
      | Inr base \<Rightarrow>
          let (ret, d, w) = probe_config E base w
          in if ret \<noteq> 0 then Inr (ret, None, w)
             else case probe_accessors E (probe_width d) of
               None \<Rightarrow> Inr (- EINVAL, None, clk_disable_unprepare (drv_clk d) (kcall DevErr w))
             | Some d \<Rightarrow> ebind (probe_irq P E d w) (\<lambda>(ret, i, c, w). Inr (ret, Some (i, c), w)))"

section \<open>Remove, suspend, resume\<close>

definition i2c_disable :: "'d platform \<Rightarrow> ocores_i2c \<Rightarrow> 'd i2c_world \<Rightarrow> 'd i2c_world" where
  "i2c_disable P i w =
     (let (ctrl, w) = oc_getreg P i OCI2C_CONTROL w
      in oc_setreg P i OCI2C_CONTROL (ctrl AND NOT (OCI2C_CTRL_EN OR OCI2C_CTRL_IEN)) w)"

definition ocores_i2c_remove :: "'d platform \<Rightarrow> i2c_env \<Rightarrow> ocores_i2c \<Rightarrow> clk \<Rightarrow> 'd i2c_world \<Rightarrow> c_fault + int \<times> 'd i2c_world" where
  "ocores_i2c_remove P E i c w =
     (let w = i2c_disable P i w
      in (case ev_id E of
           None \<Rightarrow> Inl BadPointer
         | Some (_, data) \<Rightarrow>
             let w = (if data = TYPE_OHWR then ocores_i2c_remove_ohwr w else w);
                 w = kcall DelAdapter w
             in Inr (0, clk_disable_unprepare c w)))"

definition ocores_i2c_suspend :: "'d platform \<Rightarrow> ocores_i2c \<Rightarrow> clk \<Rightarrow> 'd i2c_world \<Rightarrow> int \<times> 'd i2c_world" where
  "ocores_i2c_suspend P i c w = (0, clk_disable_unprepare c (i2c_disable P i w))"

definition ocores_i2c_resume :: "'d platform \<Rightarrow> clk_env \<Rightarrow> ocores_i2c \<Rightarrow> clk \<Rightarrow> 'd i2c_world \<Rightarrow>
    c_fault + int \<times> ocores_i2c \<times> 'd i2c_world" where
  "ocores_i2c_resume P ck i c w =
     (if clk_is_err c then ebind (ocores_init P i w) (\<lambda>(r, w). Inr (r, i, w))
      else
        let (ret, w) = clk_prepare_enable ck c w
        in if ret \<noteq> 0 then Inr (ret, i, kcall DevErr w)
           else
             let rate = clk_get_rate ck c div 1000;
                 i = (if rate \<noteq> 0 then i\<lparr>oc_ip_clock_khz := to_int rate\<rparr> else i)
             in ebind (ocores_init P i w) (\<lambda>(r, w). Inr (r, i, w)))"

section \<open>What the exits leave behind\<close>

abbreviation net_clk :: "'d i2c_world \<Rightarrow> int" where
  "net_clk w \<equiv> net ClkPrepareEnable ClkDisableUnprepare (trace w)"

abbreviation net_adap :: "'d i2c_world \<Rightarrow> int" where
  "net_adap w \<equiv> net AddAdapter DelAdapter (trace w)"

lemma net_setreg [simp]: "net a b (trace (oc_setreg P i r v w)) = net a b (trace w)"
  by (cases "oc_setreg_fn i") (auto simp: oc_family_defs net_def trace_iowrite ioread_def Let_def split: prod.splits)

lemma net_getreg: "oc_getreg P i r w = (v, w') \<Longrightarrow> net a b (trace w') = net a b (trace w)"
  by (cases "oc_getreg_fn i") (auto simp: oc_family_defs net_def ioread_def split: prod.splits if_splits)

lemma net_init:
  assumes "ocores_init P i w = Inr (ret, w')" "a \<noteq> DevErr" "b \<noteq> DevErr"
  shows "net a b (trace w') = net a b (trace w)" "oc_bus_clock_khz i \<noteq> 0"
proof -
  obtain c w1 where g: "oc_getreg P i OCI2C_CONTROL w = (c, w1)"
    by fastforce
  have "net a b (trace (fold (\<lambda>(r, v). oc_setreg P i r v) ws v)) = net a b (trace v)" for ws v
    by (induction ws arbitrary: v) auto
  then show "net a b (trace w') = net a b (trace w)" "oc_bus_clock_khz i \<noteq> 0"
    using assms net_getreg [OF g, of a b] by (auto simp: init_cases [OF g] net_kcall split: if_splits)
qed

lemma net_clk_off: "net_clk (clk_disable_unprepare c w) = net_clk w - (if c = Clk then 1 else 0)"
  "net_adap (clk_disable_unprepare c w) = net_adap w"
  by (simp_all add: clk_disable_unprepare_def net_kcall)

text \<open>An instance that is configured but has not run: no message, no flag, matching accessors.\<close>

definition unused :: "ocores_drv \<Rightarrow> bool" where
  "unused d \<longleftrightarrow> oc_mem (drv d) = [] \<and> oc_msg (drv d) = 0 \<and> oc_state (drv d) = STATE_DONE
     \<and> oc_flags (drv d) = 0 \<and> drv_setreg d = drv_getreg d"

lemma unused_fresh: "unused (fresh_drv base)" "drv_clk (fresh_drv base) = ClkNull"
  by (simp_all add: unused_def fresh_drv_def)

lemma of_reg_shift_spec:
  assumes "of_reg_shift np i w = Inr (j, w')"
  shows "net_clk w' = net_clk w" "net_adap w' = net_adap w"
    "unused d \<Longrightarrow> drv d = i \<Longrightarrow> unused (d\<lparr>drv := j\<lparr>oc_bus_clock_khz := b\<rparr>\<rparr>)"
  using assms by (auto simp: of_reg_shift_def net_kcall unused_def split: option.splits if_splits)

lemma of_clk_spec:
  assumes "drv_clk d \<noteq> Clk"
  shows "case of_clk ck f d w of
      Inl (e, w') \<Rightarrow> e \<noteq> 0 \<and> net_clk w' = net_clk w \<and> net_adap w' = net_adap w
    | Inr (d', w') \<Rightarrow> net_clk w' = net_clk w + (if drv_clk d' = Clk then 1 else 0) \<and> net_adap w' = net_adap w
        \<and> (unused d \<longrightarrow> unused d')"
  using assms by (auto simp: of_clk_def clk_prepare_enable_def net_kcall unused_def Let_def split: option.splits)

lemma of_ip_clock_spec:
  "case of_ip_clock np f d w of
      Inl (e, w') \<Rightarrow> e \<noteq> 0 \<and> net_clk w' = net_clk w - (if drv_clk d = Clk then 1 else 0) \<and> net_adap w' = net_adap w
    | Inr (d', w') \<Rightarrow> net_clk w' = net_clk w \<and> net_adap w' = net_adap w \<and> drv_clk d' = drv_clk d
        \<and> (unused d \<longrightarrow> unused d')"
  by (auto simp: of_ip_clock_def net_kcall net_clk_off unused_def Let_def split: option.splits)

lemma of_accessors_spec: "drv_clk (of_accessors np d) = drv_clk d" "unused d \<Longrightarrow> unused (of_accessors np d)"
  by (auto simp: of_accessors_def unused_def Let_def split: option.splits)

lemma of_probe_spec:
  assumes "ocores_i2c_of_probe np ck d w = (ret, d', w')" "unused d" "drv_clk d \<noteq> Clk"
  shows "net_adap w' = net_adap w \<and> (if ret = 0 then unused d' \<and> net_clk w' = net_clk w + (if drv_clk d' = Clk then 1 else 0)
     else net_clk w' = net_clk w)"
proof (cases "of_reg_shift np (drv d) w")
  case (Inl e)
  then have "e \<noteq> 0"
    by (auto simp: of_reg_shift_def split: option.splits if_splits)
  then show ?thesis
    using assms(1) Inl by (auto simp: ocores_i2c_of_probe_def net_kcall)
next
  case (Inr jw)
  obtain j w1 where j: "of_reg_shift np (drv d) w = Inr (j, w1)"
    using Inr by (cases jw) auto
  let ?d = "d\<lparr>drv := j\<lparr>oc_bus_clock_khz := 100\<rparr>\<rparr>"
  note 1 = of_reg_shift_spec [OF j]
  have u: "unused ?d"
    using 1(3) assms(2) by simp
  have c: "drv_clk ?d \<noteq> Clk"
    using assms(3) by simp
  note 2 = of_clk_spec [OF c, of w1 ck "of_u32 np ''clock-frequency''"]
  let ?f = "of_u32 np ''clock-frequency''"
  show ?thesis
  proof (cases "of_clk ck ?f ?d w1")
    case (Inl ew)
    then show ?thesis
      using assms(1) j 1 2 by (cases ew) (auto simp: ocores_i2c_of_probe_def Let_def)
  next
    case (Inr dw)
    obtain d2 w2 where d2: "of_clk ck ?f ?d w1 = Inr (d2, w2)"
      using Inr by (cases dw) auto
    have 3: "net_clk w2 = net_clk w + (if drv_clk d2 = Clk then 1 else 0)" "net_adap w2 = net_adap w" "unused d2"
      using 1(1,2) 2 d2 u by simp_all
    note 4 = of_ip_clock_spec [where np = np and f = ?f and d = d2 and w = w2]
    show ?thesis
    proof (cases "of_ip_clock np ?f d2 w2")
      case (Inl ew)
      then show ?thesis
        using assms(1) j d2 3 4 by (cases ew) (auto simp: ocores_i2c_of_probe_def Let_def)
    next
      case (Inr dw)
      obtain d3 w3 where d3: "of_ip_clock np ?f d2 w2 = Inr (d3, w3)"
        using Inr by (cases dw) auto
      have "ret = 0" "d' = of_accessors np d3" "w' = w3"
        using assms(1) j d2 d3 by (simp_all add: ocores_i2c_of_probe_def Let_def)
      then show ?thesis
        using 3 4 d3 of_accessors_spec [where np = np and d = d3] by simp
    qed
  qed
qed

lemma probe_config_spec:
  assumes "probe_config E base w = (ret, d', w')"
  shows "net_adap w' = net_adap w \<and> (if ret = 0 then unused d' \<and> net_clk w' = net_clk w + (if drv_clk d' = Clk then 1 else 0)
     else net_clk w' = net_clk w)"
  using assms of_probe_spec [of "ev_of E" "ev_clk E" "fresh_drv base" w ret d' w'] unused_fresh [of base]
  by (auto simp: probe_config_def unused_def split: option.splits)

lemma probe_accessors_spec:
  assumes "probe_accessors E (probe_width d) = Some d'" "unused d"
  shows "unused d'" "drv_clk d' = drv_clk d"
  using assms by (auto simp: probe_accessors_def probe_width_def unused_def Let_def split: if_splits)

lemma mux_add_all_net:
  assumes "mux_add_all add ks w = (ret, w')"
  shows "net_clk w' = net_clk w" "net_adap w' = net_adap w"
  using assms by (induction ks arbitrary: w) (auto simp: net_kcall split: if_splits)

lemma probe_ohwr_net:
  assumes "ocores_i2c_probe_ohwr E w = (ret, w')"
  shows "net_clk w' = net_clk w" "net_adap w' = net_adap w"
  using assms mux_add_all_net by (fastforce simp: ocores_i2c_probe_ohwr_def net_kcall split: option.splits)+

lemma new_clients_net: "net_clk (fold (\<lambda>k. kcall (NewClient k)) ks w) = net_clk w"
  "net_adap (fold (\<lambda>k. kcall (NewClient k)) ks w) = net_adap w"
  by (induction ks arbitrary: w) (simp_all add: net_kcall)

lemma err_clk_net:
  assumes "err_clk ret d w = (r, i, c, w')"
  shows "r = ret" "net_clk w' = net_clk w - (if drv_clk d = Clk then 1 else 0)" "net_adap w' = net_adap w"
  using assms by (auto simp: err_clk_def net_clk_off)

text \<open>The state of the books when \<open>probe\<close> is past its configuration, and what its last part does.\<close>

lemma probe_register_spec:
  assumes "probe_register P E d w = Inr (ret, i, c, w')" "net_adap w = 0" "net_clk w = (if drv_clk d = Clk then 1 else 0)"
  shows "if ret = 0 then i = drv_ready d \<and> c = drv_clk d \<and> net_adap w' = 1 \<and> net_clk w' = net_clk w
       \<and> oc_bus_clock_khz i \<noteq> 0 \<and> ev_id E \<noteq> None
     else net_adap w' = 0 \<and> net_clk w' = 0"
proof -
  obtain r w1 where init: "ocores_init P (drv_ready d) w = Inr (r, w1)"
    using assms(1) by (auto simp: probe_register_def ebind_eq_Inr_iff)
  note n = net_init [OF init]
  have n: "net_clk w1 = net_clk w" "net_adap w1 = net_adap w" "oc_bus_clock_khz (drv_ready d) \<noteq> 0"
    using n(1) net_init(2) [OF init, of WakeUp WakeUp] by simp_all
  have err: "net_adap w' = 0 \<and> net_clk w' = 0 \<and> ret = e"
    if "err_clk e d v = (ret, i, c, w')" "net_clk v = net_clk w" "net_adap v = 0" for e v
    using err_clk_net [OF that(1)] that(2,3) assms(3) by simp
  consider (bad_init) "r \<noteq> 0" | (bad_adapter) "r = 0" "ev_add_adapter E \<noteq> 0"
    | (added) "r = 0" "ev_add_adapter E = 0"
    by blast
  then show ?thesis
  proof cases
    case bad_init
    then show ?thesis
      using assms(1,2) init err [of r w1] n by (simp add: probe_register_def)
  next
    case bad_adapter
    then show ?thesis
      using assms(1,2) init err [of "ev_add_adapter E" w1] n by (simp add: probe_register_def)
  next
    case added
    then obtain nm data where id: "ev_id E = Some (nm, data)"
      using assms(1) init by (auto simp: probe_register_def Let_def split: option.splits)
    obtain r2 w2 where m: "(if data = TYPE_OHWR then ocores_i2c_probe_ohwr E (kcall AddAdapter w1)
        else (0, kcall AddAdapter w1)) = (r2, w2)"
      by fastforce
    have n2: "net_clk w2 = net_clk w" "net_adap w2 = 1"
      using m n assms(2) probe_ohwr_net [of E "kcall AddAdapter w1" r2 w2]
      by (auto simp: net_kcall split: if_splits)
    have reg: "probe_register P E d w = (if r2 \<noteq> 0 then Inr (err_clk r2 d (kcall DelAdapter w2))
        else Inr (0, drv_ready d, drv_clk d, case ev_pdata E of
            Some pd \<Rightarrow> fold (\<lambda>k. kcall (NewClient k)) [0..<unat (pd_num_devices pd)] w2 | None \<Rightarrow> w2))"
      using init added id m by (simp add: probe_register_def Let_def)
    show ?thesis
    proof (cases "r2 = 0")
      case False
      then show ?thesis
        using assms(1) reg err [of r2 "kcall DelAdapter w2"] n2 by (simp add: net_kcall)
    next
      case True
      then show ?thesis
        using assms(1) reg n n2 id by (auto simp: new_clients_net split: option.splits)
    qed
  qed
qed

text \<open>The interrupt: the one exit that does not go through \<open>err_clk\<close>.\<close>

definition irq_refused :: "i2c_env \<Rightarrow> bool" where
  "irq_refused E \<longleftrightarrow> ev_irq E < 0 \<and> ev_irq E \<noteq> - ENXIO"

lemma probe_irq_spec:
  assumes "probe_irq P E d w = Inr (ret, i, c, w')" "unused d" "net_adap w = 0"
    "net_clk w = (if drv_clk d = Clk then 1 else 0)"
  shows "if irq_refused E then ret = ev_irq E \<and> net_adap w' = 0 \<and> net_clk w' = net_clk w \<and> c = drv_clk d
     else if ret = 0 then net_adap w' = 1 \<and> net_clk w' = (if c = Clk then 1 else 0) \<and> ev_id E \<noteq> None
       \<and> oc_bus_clock_khz i \<noteq> 0 \<and> i2c_inv i \<and> \<not> in_flight i \<and> oc_setreg_fn i = oc_getreg_fn i
       \<and> (oc_flags i AND OCORES_FLAG_POLL \<noteq> 0 \<longleftrightarrow> ev_irq E = - ENXIO)
     else net_adap w' = 0 \<and> net_clk w' = 0"
proof -
  have ready: "i2c_inv (drv_ready x) \<and> \<not> in_flight (drv_ready x) \<and> oc_setreg_fn (drv_ready x) = oc_getreg_fn (drv_ready x)"
    if "oc_mem (drv x) = []" "oc_msg (drv x) = 0" "oc_state (drv x) = STATE_DONE" "drv_setreg x = drv_getreg x" for x
    using that by (simp add: drv_ready_def i2c_inv_def msgs_ok_def in_flight_def)
  have u: "oc_mem (drv d) = []" "oc_msg (drv d) = 0" "oc_state (drv d) = STATE_DONE" "oc_flags (drv d) = 0"
    "drv_setreg d = drv_getreg d"
    using assms(2) by (simp_all add: unused_def)
  let ?d = "d\<lparr>drv := (drv d)\<lparr>oc_flags := oc_flags (drv d) OR OCORES_FLAG_POLL\<rparr>\<rparr>"
  consider (poll) "ev_irq E = - ENXIO" | (refused) "irq_refused E"
    | (busy) "0 \<le> ev_irq E" "ev_request_irq E < 0" | (irq) "0 \<le> ev_irq E" "0 \<le> ev_request_irq E"
    by (cases "ev_irq E < 0"; cases "ev_request_irq E < 0") (auto simp: irq_refused_def)
  then show ?thesis
  proof cases
    case poll
    then have r: "probe_register P E ?d w = Inr (ret, i, c, w')"
      using assms(1) by (simp add: probe_irq_def Let_def)
    show ?thesis
      using probe_register_spec [OF r] assms(3,4) poll ready [of ?d] u
      by (auto simp: irq_refused_def drv_ready_def)
  next
    case refused
    then show ?thesis
      using assms by (auto simp: probe_irq_def irq_refused_def Let_def)
  next
    case busy
    then have r: "err_clk (ev_request_irq E) d (kcall DevErr (kcall (RequestIrq (ev_irq E)) w)) = (ret, i, c, w')"
      using assms(1) u(4) by (auto simp: probe_irq_def Let_def)
    show ?thesis
      using err_clk_net [OF r] busy assms(3,4) by (auto simp: irq_refused_def net_kcall)
  next
    case irq
    then have r: "probe_register P E d (kcall (RequestIrq (ev_irq E)) w) = Inr (ret, i, c, w')"
      using assms(1) u(4) by (auto simp: probe_irq_def Let_def)
    show ?thesis
      using probe_register_spec [OF r] assms(3,4) irq ready [of d] u
      by (auto simp: irq_refused_def drv_ready_def net_kcall)
  qed
qed

lemma probe_spec:
  assumes "ocores_i2c_probe P E w = Inr (ret, r, w')" "trace w = []" "\<And>e. ev_ioremap E = Inl e \<Longrightarrow> e < 0"
  shows "if ret \<noteq> 0 then net_adap w' = 0 \<and>
      (net_clk w' = 0 \<or> irq_refused E \<and> ret = ev_irq E \<and> net_clk w' = 1)
    else \<exists>i c. r = Some (i, c) \<and> net_adap w' = 1 \<and> net_clk w' = (if c = Clk then 1 else 0) \<and> ev_id E \<noteq> None
       \<and> oc_bus_clock_khz i \<noteq> 0 \<and> i2c_inv i \<and> \<not> in_flight i \<and> oc_setreg_fn i = oc_getreg_fn i
       \<and> (oc_flags i AND OCORES_FLAG_POLL \<noteq> 0 \<longleftrightarrow> ev_irq E = - ENXIO)"
proof -
  have z: "net_adap w = 0" "net_clk w = 0"
    using assms(2) by (simp_all add: net_def)
  consider (none) "\<not> ev_alloc E \<or> (\<exists>e. ev_ioremap E = Inl e)" | (some) base where "ev_alloc E" "ev_ioremap E = Inr base"
    by (cases "ev_ioremap E") auto
  then show ?thesis
  proof cases
    case none
    then show ?thesis
      using assms(1,3) z by (fastforce simp: ocores_i2c_probe_def split: if_splits)
  next
    case some
    obtain r1 d w1 where c: "probe_config E base w = (r1, d, w1)"
      using prod_cases3 by blast
    note cs = probe_config_spec [OF c]
    show ?thesis
    proof (cases "r1 = 0")
      case False
      then show ?thesis
        using assms(1) some c cs z by (simp add: ocores_i2c_probe_def)
    next
      case True
      show ?thesis
      proof (cases "probe_accessors E (probe_width d)")
        case None
        then show ?thesis
          using assms(1) some c cs z True by (auto simp: ocores_i2c_probe_def net_clk_off net_kcall)
      next
        case (Some d2)
        have u: "unused d2" "drv_clk d2 = drv_clk d"
          using probe_accessors_spec [OF Some] cs True by simp_all
        obtain i c' where i: "probe_irq P E d2 w1 = Inr (ret, i, c', w')" "r = Some (i, c')"
          using assms(1) some c True Some by (auto simp: ocores_i2c_probe_def ebind_eq_Inr_iff)
        then show ?thesis
          using probe_irq_spec [OF i(1) u(1)] cs True z u(2) by (auto simp: irq_refused_def split: if_splits)
      qed
    qed
  qed
qed

section \<open>The registers after the operations\<close>

text \<open>The law of the register file for one write, and for none.\<close>

lemma bank_setreg:
  assumes "layout_ok i" "oc_setreg_fn i = oc_getreg_fn i" "unat r \<le> 5" "unat q \<le> 5"
  shows "fst (oc_getreg bank i q (oc_setreg bank i r v w)) = (if q = r then v else fst (oc_getreg bank i q w))"
  using oc.get_set [of "(i, w)" r v] oc.get_set_other [of "(i, w)" r q v] assms by (auto simp: layout_ok_def)

lemma bank_getreg: "oc_getreg bank i r w = (v, w') \<Longrightarrow> oc_getreg bank i q w' = (fst (oc_getreg bank i q w), snd (oc_getreg bank i q w'))"
  by (cases "oc_getreg_fn i") (auto simp: oc_family_defs ioread_def Let_def split: if_splits)

definition reg :: "ocores_i2c \<Rightarrow> u32 \<Rightarrow> (addr \<Rightarrow> u32) i2c_world \<Rightarrow> u8" where
  "reg i q w = fst (oc_getreg bank i q w)"

lemma reg_setreg:
  assumes "layout_ok i" "oc_setreg_fn i = oc_getreg_fn i" "unat r \<le> 5" "unat q \<le> 5"
  shows "reg i q (oc_setreg bank i r v w) = (if q = r then v else reg i q w)"
  using bank_setreg [OF assms] by (simp add: reg_def)

lemma reg_getreg: "oc_getreg bank i r w = (v, w') \<Longrightarrow> reg i q w' = reg i q w \<and> v = reg i r w"
  using bank_getreg [of i r w v w' q] unfolding reg_def by (metis fst_conv)

lemma reg_kcall [simp]: "reg i q (kcall k w) = reg i q w"
  by (cases "oc_getreg_fn i") (auto simp: reg_def oc_family_defs ioread_def kcall_def Let_def)

lemma mux_select_bank:
  assumes "layout_ok i" "oc_setreg_fn i = oc_getreg_fn i" "ohwr_i2c_mux_select bank i num w = (r, w')"
  shows "if reg i OCI2C_OHWR_MUX w AND OCI2C_OHWR_MUX_BUSY \<noteq> 0
    then r = - EBUSY \<and> reg i OCI2C_OHWR_MUX w' = reg i OCI2C_OHWR_MUX w
    else r = 0 \<and> reg i OCI2C_OHWR_MUX w' = (reg i OCI2C_OHWR_MUX w AND NOT OCI2C_OHWR_MUX_SEL_MASK)
      OR (ucast num AND OCI2C_OHWR_MUX_SEL_MASK) OR OCI2C_OHWR_MUX_BUSY"
proof -
  obtain m w1 where g: "oc_getreg bank i OCI2C_OHWR_MUX w = (m, w1)"
    by fastforce
  show ?thesis
    using assms(3) g reg_getreg [OF g, of OCI2C_OHWR_MUX] reg_setreg [OF assms(1,2), of OCI2C_OHWR_MUX OCI2C_OHWR_MUX]
    by (auto simp: ohwr_i2c_mux_select_def Let_def or.assoc split: if_splits)
qed

lemma mux_deselect_bank:
  assumes "layout_ok i" "oc_setreg_fn i = oc_getreg_fn i" "ohwr_i2c_mux_deselect bank i num w = (r, w')"
  shows "r = 0 \<and> reg i OCI2C_OHWR_MUX w' = reg i OCI2C_OHWR_MUX w AND NOT OCI2C_OHWR_MUX_BUSY"
proof -
  obtain m w1 where g: "oc_getreg bank i OCI2C_OHWR_MUX w = (m, w1)"
    by fastforce
  show ?thesis
    using assms(3) g reg_getreg [OF g, of OCI2C_OHWR_MUX] reg_setreg [OF assms(1,2), of OCI2C_OHWR_MUX OCI2C_OHWR_MUX]
    by (auto simp: ohwr_i2c_mux_deselect_def Let_def)
qed

lemma disable_bank:
  assumes "layout_ok i" "oc_setreg_fn i = oc_getreg_fn i"
  shows "reg i OCI2C_CONTROL (i2c_disable bank i w) = reg i OCI2C_CONTROL w AND NOT (OCI2C_CTRL_EN OR OCI2C_CTRL_IEN)"
proof -
  obtain m w1 where g: "oc_getreg bank i OCI2C_CONTROL w = (m, w1)"
    by fastforce
  show ?thesis
    using g reg_getreg [OF g, of OCI2C_CONTROL] reg_setreg [OF assms, of OCI2C_CONTROL OCI2C_CONTROL]
    by (simp add: i2c_disable_def)
qed

lemma mux_words:
  fixes m s :: u8
  shows "(m AND NOT OCI2C_OHWR_MUX_SEL_MASK OR (s AND OCI2C_OHWR_MUX_SEL_MASK) OR OCI2C_OHWR_MUX_BUSY) AND OCI2C_OHWR_MUX_BUSY \<noteq> 0"
    "((m AND NOT OCI2C_OHWR_MUX_SEL_MASK OR (s AND OCI2C_OHWR_MUX_SEL_MASK) OR OCI2C_OHWR_MUX_BUSY) AND NOT OCI2C_OHWR_MUX_BUSY)
      AND OCI2C_OHWR_MUX_SEL_MASK = s AND OCI2C_OHWR_MUX_SEL_MASK"
    "(m AND NOT OCI2C_OHWR_MUX_BUSY) AND OCI2C_OHWR_MUX_BUSY = 0"
    "(m AND NOT (OCI2C_CTRL_EN OR OCI2C_CTRL_IEN)) AND (OCI2C_CTRL_EN OR OCI2C_CTRL_IEN) = 0"
proof -
  have "bit ((m AND NOT OCI2C_OHWR_MUX_SEL_MASK OR (s AND OCI2C_OHWR_MUX_SEL_MASK) OR OCI2C_OHWR_MUX_BUSY) AND OCI2C_OHWR_MUX_BUSY) 7"
    by (simp add: bit_simps)
  then show "(m AND NOT OCI2C_OHWR_MUX_SEL_MASK OR (s AND OCI2C_OHWR_MUX_SEL_MASK) OR OCI2C_OHWR_MUX_BUSY) AND OCI2C_OHWR_MUX_BUSY \<noteq> 0"
    by (metis bit_0_eq bot_apply bot_bool_def)
qed (rule bit_word_eqI; auto simp: bit_simps less_8_cases)+

section \<open>Properties\<close>

text \<open>
  C31: \<open>probe\<close> that fails leaves no adapter registered and no clock enabled, whichever step
  failed, with the one exception of a refused interrupt, whose exit skips the clean-up.
\<close>

theorem ocores_i2c_probe_cleans_up:
  assumes "ocores_i2c_probe P E w = Inr (ret, r, w')" "trace w = []" "\<And>e. ev_ioremap E = Inl e \<Longrightarrow> e < 0" "ret \<noteq> 0"
  shows "net AddAdapter DelAdapter (trace w') = 0
    \<and> (net ClkPrepareEnable ClkDisableUnprepare (trace w') = 0
       \<or> ev_irq E < 0 \<and> ev_irq E \<noteq> - ENXIO \<and> ret = ev_irq E)"
  using probe_spec [OF assms(1-3)] assms(4) by (auto simp: irq_refused_def)

text \<open>
  C30: \<open>probe\<close> that succeeds leaves an instance that transfers can use: it satisfies the transfer
  invariant, its accessors match, it has a bus clock, it polls exactly when the platform has no
  interrupt, and the adapter is registered.
\<close>

theorem ocores_i2c_probe_ready:
  assumes "ocores_i2c_probe P E w = Inr (0, r, w')" "trace w = []" "\<And>e. ev_ioremap E = Inl e \<Longrightarrow> e < 0"
  shows "\<exists>i c. r = Some (i, c) \<and> i2c_inv i \<and> \<not> in_flight i \<and> oc_setreg_fn i = oc_getreg_fn i
    \<and> oc_bus_clock_khz i \<noteq> 0 \<and> (oc_flags i AND OCORES_FLAG_POLL \<noteq> 0 \<longleftrightarrow> ev_irq E = - ENXIO)
    \<and> net AddAdapter DelAdapter (trace w') = 1
    \<and> net ClkPrepareEnable ClkDisableUnprepare (trace w') = (if c = Clk then 1 else 0)"
proof -
  obtain i c where "r = Some (i, c)" "net_adap w' = 1" "net_clk w' = (if c = Clk then 1 else 0)"
    "oc_bus_clock_khz i \<noteq> 0" "i2c_inv i" "\<not> in_flight i" "oc_setreg_fn i = oc_getreg_fn i"
    "oc_flags i AND OCORES_FLAG_POLL \<noteq> 0 \<longleftrightarrow> ev_irq E = - ENXIO"
    using probe_spec [OF assms] by auto
  then show ?thesis
    by blast
qed

text \<open>
  A device that has no entry of the name table, as when it comes from the device tree, is
  never probed with success: past the registration of the adapter the code follows the null
  pointer.
\<close>

theorem ocores_i2c_probe_no_id:
  assumes "ev_id E = None" "trace w = []" "\<And>e. ev_ioremap E = Inl e \<Longrightarrow> e < 0"
  shows "\<nexists>r w'. ocores_i2c_probe P E w = Inr (0, r, w')"
  using probe_spec [OF _ assms(2,3)] assms(1) by fastforce

text \<open>
  The lock of the multiplexer. A select on a free multiplexer succeeds and takes the lock; a
  second select, of whatever bus, is refused with \<open>-EBUSY\<close> and changes nothing; the deselect
  frees the lock and keeps the selection.
\<close>

theorem ohwr_i2c_mux_lock:
  assumes "layout_ok i" "oc_setreg_fn i = oc_getreg_fn i" "reg i OCI2C_OHWR_MUX w AND OCI2C_OHWR_MUX_BUSY = 0"
    "ohwr_i2c_mux_select bank i num w = (r1, w1)" "ohwr_i2c_mux_select bank i other w1 = (r2, w2)"
    "ohwr_i2c_mux_deselect bank i num w2 = (r3, w3)"
  shows "r1 = 0 \<and> r2 = - EBUSY \<and> r3 = 0
    \<and> reg i OCI2C_OHWR_MUX w1 AND OCI2C_OHWR_MUX_BUSY \<noteq> 0
    \<and> reg i OCI2C_OHWR_MUX w3 AND OCI2C_OHWR_MUX_BUSY = 0
    \<and> reg i OCI2C_OHWR_MUX w3 AND OCI2C_OHWR_MUX_SEL_MASK = ucast num AND OCI2C_OHWR_MUX_SEL_MASK"
proof -
  note s1 = mux_select_bank [OF assms(1,2,4)]
  note s2 = mux_select_bank [OF assms(1,2,5)]
  note s3 = mux_deselect_bank [OF assms(1,2,6)]
  show ?thesis
    using s1 s2 s3 assms(3) mux_words(1,2) [where m = "reg i OCI2C_OHWR_MUX w" and s = "ucast num"]
      mux_words(3) [where m = "reg i OCI2C_OHWR_MUX w2"]
    by (simp only: if_True if_False simp_thms)
qed

text \<open>
  Suspend and resume. After \<open>suspend\<close> the controller is disabled with its interrupt masked;
  a \<open>resume\<close> that succeeds has it enabled again, with the prescaler of the clock rate it found.
\<close>

theorem ocores_i2c_suspend_resume:
  assumes "layout_ok i" "oc_setreg_fn i = oc_getreg_fn i" "ocores_i2c_suspend bank i c w = (r1, w1)"
    "ocores_i2c_resume bank ck i c w1 = Inr (0, j, w2)"
  shows "reg i OCI2C_CONTROL w1 AND (OCI2C_CTRL_EN OR OCI2C_CTRL_IEN) = 0
    \<and> reg j OCI2C_CONTROL w2 AND (OCI2C_CTRL_EN OR OCI2C_CTRL_IEN) = OCI2C_CTRL_EN
    \<and> prescaler j w2 = init_prescale j
    \<and> oc_ip_clock_khz j = (if c = Clk \<and> ck_rate ck div 1000 \<noteq> 0 then to_int (ck_rate ck div 1000) else oc_ip_clock_khz i)"
proof -
  have "reg i OCI2C_CONTROL w1 AND (OCI2C_CTRL_EN OR OCI2C_CTRL_IEN) = 0"
    using assms(3) disable_bank [OF assms(1,2)] mux_words(4) by (auto simp: ocores_i2c_suspend_def clk_disable_unprepare_def)
  moreover obtain v where v: "ocores_init bank j v = Inr (0, w2)" "layout_ok j" "oc_setreg_fn j = oc_getreg_fn j"
    "oc_ip_clock_khz j = (if c = Clk \<and> ck_rate ck div 1000 \<noteq> 0 then to_int (ck_rate ck div 1000) else oc_ip_clock_khz i)"
    using assms(1,2,4) by (cases c) (auto simp: ocores_i2c_resume_def clk_prepare_enable_def clk_get_rate_def layout_ok_def
        ebind_eq_Inr_iff Let_def split: if_splits)
  ultimately show ?thesis
    using init_bank [OF v(2,3,1)] by (simp only: reg_def simp_thms)
qed

section \<open>Witnesses\<close>

text \<open>A platform device named \<open>ocores-i2c\<close> with a 50 MHz clock, and one from the device tree.\<close>

definition demo_env :: i2c_env where
  "demo_env = \<lparr>ev_alloc = True, ev_ioremap = Inr 0x1000,
     ev_pdata = Some \<lparr>pd_reg_shift = 2, pd_reg_io_width = 0, pd_clock_khz = 50000, pd_big_endian = False, pd_num_devices = 1\<rparr>,
     ev_of = \<lparr>of_u32 = (\<lambda>_. None), of_big_endian = False, of_compatible = ''opencores,i2c-ocores''\<rparr>,
     ev_clk = \<lparr>ck_get = Some (- ENODEV), ck_prepare = 0, ck_rate = 0\<rparr>, ev_irq = 7, ev_request_irq = 0,
     ev_add_adapter = 0, ev_id = Some (''ocores-i2c'', TYPE_OCORES), ev_mux_alloc = None, ev_mux_add = (\<lambda>_. 0)\<rparr>"

definition demo_of_env :: i2c_env where
  "demo_of_env = demo_env\<lparr>ev_pdata := None, ev_id := None,
     ev_of := \<lparr>of_u32 = [''clock-frequency'' \<mapsto> 100000, ''opencores,ip-clock-frequency'' \<mapsto> 50000000],
       of_big_endian = False, of_compatible = ''opencores,i2c-ocores''\<rparr>\<rparr>"

lemma demo_init:
  assumes "oc_ip_clock_khz i = 50000" "oc_bus_clock_khz i = 100"
  shows "\<exists>w'. ocores_init P i w = Inr (0, w')"
proof -
  obtain c w1 where g: "oc_getreg P i OCI2C_CONTROL w = (c, w1)"
    by fastforce
  have "init_close i"
    using init_exact(2) [of i 99] assms by simp
  then show ?thesis
    using assms by (simp add: init_cases [OF g])
qed

lemma demo_configured:
  "\<exists>d w1. probe_config demo_env 0x1000 w = (0, d, w1) \<and> probe_accessors demo_env (probe_width d) =
     Some (d\<lparr>drv := (drv d)\<lparr>oc_reg_io_width := 1\<rparr>, drv_setreg := Some Fn8, drv_getreg := Some Fn8\<rparr>)
     \<and> oc_ip_clock_khz (drv d) = 50000 \<and> oc_bus_clock_khz (drv d) = 100 \<and> oc_flags (drv d) = 0"
  by (simp add: probe_config_def demo_env_def fresh_drv_def probe_accessors_def probe_width_def select_fn_def Let_def)

lemma demo_of_configured:
  "\<exists>d w1. probe_config demo_of_env 0x1000 w = (0, d, w1) \<and> probe_accessors demo_of_env (probe_width d) =
     Some (d\<lparr>drv := (drv d)\<lparr>oc_reg_io_width := 1\<rparr>, drv_setreg := Some Fn8, drv_getreg := Some Fn8\<rparr>)
     \<and> oc_ip_clock_khz (drv d) = 50000 \<and> oc_bus_clock_khz (drv d) = 100 \<and> oc_flags (drv d) = 0"
  by (simp add: probe_config_def demo_of_env_def demo_env_def fresh_drv_def probe_accessors_def probe_width_def
      select_fn_def Let_def ocores_i2c_of_probe_def of_reg_shift_def of_clk_def of_ip_clock_def of_accessors_def
      ocores_i2c_match_def khz_def)

lemma ocores_i2c_probe_ready_witness:
  "\<exists>i c w'. ocores_i2c_probe ready demo_env ready_w = Inr (0, Some (i, c), w')
    \<and> i2c_inv i \<and> net AddAdapter DelAdapter (trace w') = 1"
proof -
  let ?w = ready_w
  obtain r w' where p: "ocores_i2c_probe ready demo_env ?w = Inr (0, r, w')"
  proof -
    obtain d1 w1 where c: "probe_config demo_env 0x1000 ?w = (0, d1, w1)"
      "probe_accessors demo_env (probe_width d1) =
         Some (d1\<lparr>drv := (drv d1)\<lparr>oc_reg_io_width := 1\<rparr>, drv_setreg := Some Fn8, drv_getreg := Some Fn8\<rparr>)"
      "oc_ip_clock_khz (drv d1) = 50000" "oc_bus_clock_khz (drv d1) = 100" "oc_flags (drv d1) = 0"
      using demo_configured by blast
    let ?d = "d1\<lparr>drv := (drv d1)\<lparr>oc_reg_io_width := 1\<rparr>, drv_setreg := Some Fn8, drv_getreg := Some Fn8\<rparr>"
    obtain w2 where "ocores_init ready (drv_ready ?d) (kcall (RequestIrq 7) w1) = Inr (0, w2)"
      using demo_init [of "drv_ready ?d" ready] c(3,4) by (auto simp: drv_ready_def)
    then show ?thesis
      using that c by (simp add: ocores_i2c_probe_def probe_irq_def probe_register_def demo_env_def Let_def)
  qed
  have "\<And>e. ev_ioremap demo_env = Inl e \<Longrightarrow> e < 0"
    by (simp add: demo_env_def)
  from ocores_i2c_probe_ready [OF p _ this] show ?thesis
    using p by (auto simp: ready_w_def)
qed

lemma ocores_i2c_probe_no_id_witness:
  "ocores_i2c_probe ready demo_of_env ready_w = Inl BadPointer
    \<and> (\<nexists>r w'. ocores_i2c_probe ready demo_of_env ready_w = Inr (0, r, w'))"
proof -
  let ?w = ready_w
  obtain d1 w1 where c: "probe_config demo_of_env 0x1000 ?w = (0, d1, w1)"
    "probe_accessors demo_of_env (probe_width d1) =
       Some (d1\<lparr>drv := (drv d1)\<lparr>oc_reg_io_width := 1\<rparr>, drv_setreg := Some Fn8, drv_getreg := Some Fn8\<rparr>)"
    "oc_ip_clock_khz (drv d1) = 50000" "oc_bus_clock_khz (drv d1) = 100" "oc_flags (drv d1) = 0"
    using demo_of_configured by blast
  let ?d = "d1\<lparr>drv := (drv d1)\<lparr>oc_reg_io_width := 1\<rparr>, drv_setreg := Some Fn8, drv_getreg := Some Fn8\<rparr>"
  obtain w2 where "ocores_init ready (drv_ready ?d) (kcall (RequestIrq 7) w1) = Inr (0, w2)"
    using demo_init [of "drv_ready ?d" ready] c(3,4) by (auto simp: drv_ready_def)
  then have "ocores_i2c_probe ready demo_of_env ?w = Inl BadPointer"
    using c by (simp add: ocores_i2c_probe_def probe_irq_def probe_register_def demo_of_env_def demo_env_def Let_def)
  moreover have "\<And>e. ev_ioremap demo_of_env = Inl e \<Longrightarrow> e < 0" "ev_id demo_of_env = None"
    by (simp_all add: demo_env_def demo_of_env_def)
  ultimately show ?thesis
    using ocores_i2c_probe_no_id [of demo_of_env ?w ready] by (simp add: ready_w_def)
qed

lemma ocores_i2c_probe_cleans_up_witness:
  "\<exists>w'. ocores_i2c_probe ready (demo_env\<lparr>ev_irq := - ENODEV\<rparr>) ready_w = Inr (- ENODEV, w')
    \<and> net AddAdapter DelAdapter (trace (snd w')) = 0"
proof -
  let ?E = "demo_env\<lparr>ev_irq := - ENODEV\<rparr>"
  obtain r w' where p: "ocores_i2c_probe ready ?E ready_w = Inr (- ENODEV, r, w')"
    by (simp add: ocores_i2c_probe_def probe_config_def demo_env_def fresh_drv_def probe_accessors_def
        probe_width_def select_fn_def probe_irq_def Let_def)
  have "\<And>e. ev_ioremap ?E = Inl e \<Longrightarrow> e < 0"
    by (simp add: demo_env_def)
  from ocores_i2c_probe_cleans_up [OF p _ this] show ?thesis
    using p by (simp add: ready_w_def)
qed

lemma ohwr_i2c_mux_lock_witness:
  "\<exists>w1 w2. ohwr_i2c_mux_select bank (demo_i2c Fn32) 1 demo_w = (0, w1)
     \<and> ohwr_i2c_mux_select bank (demo_i2c Fn32) 0 w1 = (- EBUSY, w2)"
proof -
  let ?i = "demo_i2c Fn32"
  obtain r1 w1 where 1: "ohwr_i2c_mux_select bank ?i 1 demo_w = (r1, w1)" by fastforce
  obtain r2 w2 where 2: "ohwr_i2c_mux_select bank ?i 0 w1 = (r2, w2)" by fastforce
  obtain r3 w3 where 3: "ohwr_i2c_mux_deselect bank ?i 1 w2 = (r3, w3)" by fastforce
  have "reg ?i OCI2C_OHWR_MUX demo_w AND OCI2C_OHWR_MUX_BUSY = 0"
    by (simp add: reg_def oc_family_defs demo_i2c_def demo_w_def ioread_def acc_mask_def)
  from ohwr_i2c_mux_lock [OF demo_xfer_ok(2) _ this 1 2 3] show ?thesis
    using 1 2 by (simp add: demo_i2c_def)
qed

lemma ocores_i2c_suspend_resume_witness:
  "\<exists>w1 w2. ocores_i2c_suspend bank (demo_i2c Fn8) ClkNull demo_w = (0, w1)
    \<and> ocores_i2c_resume bank (ev_clk demo_env) (demo_i2c Fn8) ClkNull w1 = Inr (0, demo_i2c Fn8, w2)
    \<and> prescaler (demo_i2c Fn8) w2 = init_prescale (demo_i2c Fn8)"
proof -
  let ?i = "demo_i2c Fn8"
  obtain w1 where 1: "ocores_i2c_suspend bank ?i ClkNull demo_w = (0, w1)"
    by (simp add: ocores_i2c_suspend_def)
  obtain w2 where 2: "ocores_i2c_resume bank (ev_clk demo_env) ?i ClkNull w1 = Inr (0, ?i, w2)"
    using demo_init [of ?i bank w1] by (auto simp: ocores_i2c_resume_def clk_prepare_enable_def clk_get_rate_def demo_i2c_def)
  show ?thesis
    using ocores_i2c_suspend_resume [OF demo_xfer_ok(2) _ 1 2] 1 2 by (simp add: demo_i2c_def)
qed

end
