(* ===== verification/I2c_Compat.thy ===== *)
theory I2c_Compat
  imports I2c_Probe
begin

text \<open>
  What \<open>i2c-ocores.c\<close> brings along for kernels that lack a service: before 4.7 the multiplexer core,
  before 4.1 the test for a big-endian device, before 3.14 the managed request of an interrupt.
  Where the current services clean up what was added, the old one deletes every adapter, also those
  that were never added.
\<close>

unbundle bit_operations_syntax

section \<open>The multiplexer of old kernels\<close>

text \<open>
  \<open>priv\<close> points to the space allocated behind the structure until the driver makes it point to the
  instance. An adapter is a null pointer until it is added; the kernel keeps with it the pointer it
  was given and its number, and hands both to the callbacks.
\<close>

datatype mux_priv = PrivNull | PrivSpace | PrivInstance

record mux_adapter =
  ma_priv :: mux_priv
  ma_chan :: nat

record i2c_mux_core =
  mc_priv :: mux_priv
  mc_max_adapters :: nat
  mc_adapter :: "mux_adapter option list"

definition ocores_i2c_mux_select_old_api :: "'d platform \<Rightarrow> ocores_i2c \<Rightarrow> mux_priv \<Rightarrow> u32 \<Rightarrow> 'd i2c_world \<Rightarrow> c_fault + int \<times> 'd i2c_world" where
  "ocores_i2c_mux_select_old_api P i priv num w =
     (if priv = PrivInstance then Inr (ohwr_i2c_mux_select P i num w) else Inl BadPointer)"

definition ocores_i2c_mux_deselect_old_api :: "'d platform \<Rightarrow> ocores_i2c \<Rightarrow> mux_priv \<Rightarrow> u32 \<Rightarrow> 'd i2c_world \<Rightarrow> c_fault + int \<times> 'd i2c_world" where
  "ocores_i2c_mux_deselect_old_api P i priv num w =
     (if priv = PrivInstance then Inr (ohwr_i2c_mux_deselect P i num w) else Inl BadPointer)"

text \<open>The callbacks of current kernels get the multiplexer instead, and take the instance from its \<open>priv\<close>.\<close>

definition ocores_i2c_mux_select :: "'d platform \<Rightarrow> ocores_i2c \<Rightarrow> i2c_mux_core \<Rightarrow> u32 \<Rightarrow> 'd i2c_world \<Rightarrow> c_fault + int \<times> 'd i2c_world" where
  "ocores_i2c_mux_select P i muxc num w =
     (if mc_priv muxc = PrivInstance then Inr (ohwr_i2c_mux_select P i num w) else Inl BadPointer)"

definition ocores_i2c_mux_deselect :: "'d platform \<Rightarrow> ocores_i2c \<Rightarrow> i2c_mux_core \<Rightarrow> u32 \<Rightarrow> 'd i2c_world \<Rightarrow> c_fault + int \<times> 'd i2c_world" where
  "ocores_i2c_mux_deselect P i muxc num w =
     (if mc_priv muxc = PrivInstance then Inr (ohwr_i2c_mux_deselect P i num w) else Inl BadPointer)"

definition i2c_mux_alloc :: "bool \<Rightarrow> nat \<Rightarrow> nat \<Rightarrow> i2c_mux_core option" where
  "i2c_mux_alloc mem max_adapters sizeof_priv =
     (if \<not> mem then None
      else Some \<lparr>mc_priv = (if sizeof_priv \<noteq> 0 then PrivSpace else PrivNull), mc_max_adapters = max_adapters,
        mc_adapter = replicate max_adapters None\<rparr>)"

text \<open>\<open>add k\<close>: whether \<open>i2c_add_mux_adapter\<close> returns an adapter for bus \<open>k\<close>.\<close>

definition i2c_mux_add_adapter :: "(nat \<Rightarrow> bool) \<Rightarrow> nat \<Rightarrow> i2c_mux_core \<Rightarrow> 'd i2c_world \<Rightarrow>
    c_fault + int \<times> i2c_mux_core \<times> 'd i2c_world" where
  "i2c_mux_add_adapter add chan_id m w =
     (if \<not> chan_id < length (mc_adapter m) then Inl (BadIndex (int chan_id))
      else
        let a = (if add chan_id then Some \<lparr>ma_priv = mc_priv m, ma_chan = chan_id\<rparr> else None);
            m = m\<lparr>mc_adapter := (mc_adapter m)[chan_id := a]\<rparr>
        in Inr (if a \<noteq> None then 0 else - EINVAL, m, if a \<noteq> None then kcall (MuxAdd chan_id) w else w))"

text \<open>\<open>i2c_del_mux_adapter\<close> follows the pointer it is given.\<close>

fun del_adapters :: "mux_adapter option list \<Rightarrow> 'd i2c_world \<Rightarrow> c_fault + 'd i2c_world" where
  "del_adapters [] w = Inr w"
| "del_adapters (None # as) w = Inl BadPointer"
| "del_adapters (Some a # as) w = del_adapters as (kcall (MuxDelOne (ma_chan a)) w)"

definition i2c_mux_del_adapters :: "i2c_mux_core \<Rightarrow> 'd i2c_world \<Rightarrow> c_fault + 'd i2c_world" where
  "i2c_mux_del_adapters m w = del_adapters (take (mc_max_adapters m) (mc_adapter m)) w"

section \<open>Adding and removing the multiplexer\<close>

fun add_adapters :: "(nat \<Rightarrow> bool) \<Rightarrow> nat list \<Rightarrow> i2c_mux_core \<Rightarrow> 'd i2c_world \<Rightarrow> c_fault + int \<times> i2c_mux_core \<times> 'd i2c_world" where
  "add_adapters add [] m w = Inr (0, m, w)"
| "add_adapters add (k # ks) m w = ebind (i2c_mux_add_adapter add k m w) (\<lambda>(err, m, w).
     if err \<noteq> 0 then ebind (i2c_mux_del_adapters m w) (\<lambda>w. Inr (err, m, w)) else add_adapters add ks m w)"

text \<open>\<open>ocores_i2c_probe_ohwr\<close> and \<open>ocores_i2c_remove_ohwr\<close> with these services; the size is that of a pointer.\<close>

definition probe_ohwr_old :: "bool \<Rightarrow> (nat \<Rightarrow> bool) \<Rightarrow> 'd i2c_world \<Rightarrow> c_fault + int \<times> i2c_mux_core option \<times> 'd i2c_world" where
  "probe_ohwr_old mem add w = (case i2c_mux_alloc mem 2 8 of
     None \<Rightarrow> Inr (- ENOMEM, None, w)
   | Some m \<Rightarrow>
       let m = m\<lparr>mc_priv := PrivInstance\<rparr>
       in ebind (add_adapters add [0..<mc_max_adapters m] m (kcall MuxAlloc w)) (\<lambda>(err, m, w). Inr (err, Some m, w)))"

definition remove_ohwr_old :: "i2c_mux_core \<Rightarrow> 'd i2c_world \<Rightarrow> c_fault + 'd i2c_world" where
  "remove_ohwr_old m w = i2c_mux_del_adapters m w"

section \<open>Other replacements\<close>

text \<open>\<open>np\<close> says which flags the node has, \<open>cpu_be\<close> whether the processor is big endian.\<close>

definition of_device_is_big_endian :: "(string \<Rightarrow> bool) \<Rightarrow> bool \<Rightarrow> bool" where
  "of_device_is_big_endian np cpu_be =
     (if np ''big-endian'' then True else if cpu_be \<and> np ''native-endian'' then True else False)"

text \<open>The resources a device releases when it goes away, the last first.\<close>

definition devm_irq_release :: "int \<Rightarrow> 'd i2c_world \<Rightarrow> 'd i2c_world" where
  "devm_irq_release irq w = kcall (FreeIrq irq) w"

definition devm_request_any_context_irq :: "bool \<Rightarrow> int \<Rightarrow> int \<Rightarrow> int list \<times> 'd i2c_world \<Rightarrow> int \<times> int list \<times> 'd i2c_world" where
  "devm_request_any_context_irq mem irq answer = (\<lambda>(res, w).
     if \<not> mem then (- ENOMEM, res, w)
     else let rc = answer; w = kcall (RequestIrq irq) w
       in if rc < 0 then (rc, res, w) else (rc, irq # res, w))"

fun release_all :: "int list \<times> 'd i2c_world \<Rightarrow> 'd i2c_world" where
  "release_all ([], w) = w"
| "release_all (irq # res, w) = release_all (res, devm_irq_release irq w)"

text \<open>
  Whether the driver is to provide \<open>i2c_8bit_addr_from_msg\<close>, which it then does not: the function is
  commented out. \<open>rhel\<close> is the release of a Red Hat kernel.
\<close>

definition RHEL_RELEASE_VERSION :: "nat \<Rightarrow> nat \<Rightarrow> nat" where
  "RHEL_RELEASE_VERSION a b = a * 256 + b"

definition I2C_8BIT_ADDR_FROM_MSG :: "nat option \<Rightarrow> nat \<Rightarrow> bool" where
  "I2C_8BIT_ADDR_FROM_MSG rhel version = (case rhel of
     Some r \<Rightarrow> RHEL_RELEASE_VERSION 7 6 \<le> r \<or> version \<le> KERNEL_VERSION 4 7 0
   | None \<Rightarrow> version \<le> KERNEL_VERSION 4 7 0)"

section \<open>What they do\<close>

lemma probe_ohwr_old_cases:
  "probe_ohwr_old mem add w =
     (if \<not> mem then Inr (- ENOMEM, None, w)
      else if add 0 \<and> add 1 then Inr (0, Some \<lparr>mc_priv = PrivInstance, mc_max_adapters = 2,
          mc_adapter = map (\<lambda>k. Some \<lparr>ma_priv = PrivInstance, ma_chan = k\<rparr>) [0, 1]\<rparr>,
          kcall (MuxAdd 1) (kcall (MuxAdd 0) (kcall MuxAlloc w)))
      else Inl BadPointer)"
  by (simp add: probe_ohwr_old_def i2c_mux_alloc_def i2c_mux_add_adapter_def i2c_mux_del_adapters_def upt_rec Let_def eval_nat_numeral)

text \<open>On the adapters of a successful probe the callbacks of old and current kernels do the same.\<close>

lemma mux_callbacks_agree:
  assumes "probe_ohwr_old mem add w = Inr (0, Some m, w')" "k < 2" "mc_adapter m ! k = Some a"
  shows "ocores_i2c_mux_select P i m num v = ocores_i2c_mux_select_old_api P i (ma_priv a) num v"
    "ocores_i2c_mux_deselect P i m num v = ocores_i2c_mux_deselect_old_api P i (ma_priv a) num v"
  using assms by (auto simp: probe_ohwr_old_cases less_2_cases_iff ocores_i2c_mux_select_def ocores_i2c_mux_deselect_def
      ocores_i2c_mux_select_old_api_def ocores_i2c_mux_deselect_old_api_def split: if_splits)

lemma devm_irq_balanced:
  assumes "devm_request_any_context_irq mem irq answer ([], w) = (rc, res, w')"
  shows "trace (release_all (res, w')) = trace w' @ (if mem \<and> 0 \<le> answer then [EvCall (FreeIrq irq)] else [])
    \<and> trace w' = trace w @ (if mem then [EvCall (RequestIrq irq)] else [])
    \<and> rc = (if mem then answer else - ENOMEM)"
  using assms by (auto simp: devm_request_any_context_irq_def devm_irq_release_def trace_kcall Let_def split: if_splits)

text \<open>
  Adapter \<open>a\<close> is selected, \<open>b\<close> refused, \<open>a\<close> deselected: bus \<open>k\<close> is selected, and locked in between.
\<close>

definition mux_exclusive :: "ocores_i2c \<Rightarrow> mux_adapter \<Rightarrow> mux_adapter \<Rightarrow> nat \<Rightarrow> (addr \<Rightarrow> u32) i2c_world \<Rightarrow> bool" where
  "mux_exclusive i a b k w \<longleftrightarrow>
     (\<exists>w1 w2 w3. ocores_i2c_mux_select_old_api bank i (ma_priv a) (of_nat (ma_chan a)) w = Inr (0, w1)
       \<and> ocores_i2c_mux_select_old_api bank i (ma_priv b) (of_nat (ma_chan b)) w1 = Inr (- EBUSY, w2)
       \<and> ocores_i2c_mux_deselect_old_api bank i (ma_priv a) (of_nat (ma_chan a)) w2 = Inr (0, w3)
       \<and> reg i OCI2C_OHWR_MUX w1 AND OCI2C_OHWR_MUX_BUSY \<noteq> 0 \<and> reg i OCI2C_OHWR_MUX w3 AND OCI2C_OHWR_MUX_BUSY = 0
       \<and> reg i OCI2C_OHWR_MUX w3 AND OCI2C_OHWR_MUX_SEL_MASK = of_nat k)"

lemma old_api_exclusive:
  assumes "layout_ok i" "oc_setreg_fn i = oc_getreg_fn i" "reg i OCI2C_OHWR_MUX w AND OCI2C_OHWR_MUX_BUSY = 0"
    "ma_priv a = PrivInstance" "ma_priv b = PrivInstance" "ma_chan a = k" "k < 2"
  shows "mux_exclusive i a b k w"
proof -
  have sel: "ucast (of_nat k :: u32) AND OCI2C_OHWR_MUX_SEL_MASK = of_nat k"
    using assms(7) by (auto simp: less_2_cases_iff)
  obtain r1 w1 where 1: "ohwr_i2c_mux_select bank i (of_nat k) w = (r1, w1)" by fastforce
  obtain r2 w2 where 2: "ohwr_i2c_mux_select bank i (of_nat (ma_chan b)) w1 = (r2, w2)" by fastforce
  obtain r3 w3 where 3: "ohwr_i2c_mux_deselect bank i (of_nat k) w2 = (r3, w3)" by fastforce
  show ?thesis
    unfolding mux_exclusive_def ocores_i2c_mux_select_old_api_def ocores_i2c_mux_deselect_old_api_def assms(4-6)
    using ohwr_i2c_mux_lock [OF assms(1-3) 1 2 3] 1 2 3 sel by auto
qed

section \<open>Properties\<close>

text \<open>
  C39: the multiplexer on a kernel before 4.7. The probe succeeds exactly when there is memory and
  both adapters can be added. Then the callback of the adapter of bus \<open>k\<close> selects bus \<open>k\<close> of this
  controller and locks it; the callback of the other adapter is refused with \<open>-EBUSY\<close> until the
  first is deselected, which keeps the selection; and removing the multiplexer deletes both adapters.
  When an adapter cannot be added the clean-up follows its null pointer.
\<close>

theorem ohwr_mux_old_kernel:
  assumes "layout_ok i" "oc_setreg_fn i = oc_getreg_fn i"
  shows "if \<not> mem then probe_ohwr_old mem add w = Inr (- ENOMEM, None, w)
    else if \<not> (add 0 \<and> add 1) then probe_ohwr_old mem add w = Inl BadPointer
    else \<exists>m w0. probe_ohwr_old mem add w = Inr (0, Some m, w0)
      \<and> (\<exists>v. remove_ohwr_old m w0 = Inr v \<and> trace v = trace w0 @ [EvCall (MuxDelOne 0), EvCall (MuxDelOne 1)])
      \<and> (\<forall>k < 2. \<forall>j < 2. \<exists>a b. mc_adapter m ! k = Some a \<and> mc_adapter m ! j = Some b \<and>
          (\<forall>w. reg i OCI2C_OHWR_MUX w AND OCI2C_OHWR_MUX_BUSY = 0 \<longrightarrow> mux_exclusive i a b k w))"
proof -
  consider "\<not> mem" | "mem" "\<not> (add 0 \<and> add 1)" | (ok) "mem" "add 0" "add 1"
    by blast
  then show ?thesis
  proof cases
    case ok
    let ?m = "\<lparr>mc_priv = PrivInstance, mc_max_adapters = 2,
      mc_adapter = map (\<lambda>k. Some \<lparr>ma_priv = PrivInstance, ma_chan = k\<rparr>) [0, 1]\<rparr>"
    let ?w0 = "kcall (MuxAdd 1) (kcall (MuxAdd 0) (kcall MuxAlloc w))"
    have p: "probe_ohwr_old mem add w = Inr (0, Some ?m, ?w0)"
      using ok by (simp add: probe_ohwr_old_cases)
    have r: "remove_ohwr_old ?m ?w0 = Inr (kcall (MuxDelOne 1) (kcall (MuxDelOne 0) ?w0))"
      by (simp add: remove_ohwr_old_def i2c_mux_del_adapters_def)
    have a: "mc_adapter ?m ! k = Some \<lparr>ma_priv = PrivInstance, ma_chan = k\<rparr>" if "k < 2" for k
      using that by (auto simp: less_2_cases_iff)
    have "mc_adapter ?m ! k = Some a \<and> mc_adapter ?m ! j = Some b \<and>
        (\<forall>w. reg i OCI2C_OHWR_MUX w AND OCI2C_OHWR_MUX_BUSY = 0 \<longrightarrow> mux_exclusive i a b k w)"
      if "k < 2" "j < 2" "a = \<lparr>ma_priv = PrivInstance, ma_chan = k\<rparr>" "b = \<lparr>ma_priv = PrivInstance, ma_chan = j\<rparr>" for k j a b
      using a that old_api_exclusive [OF assms, of _ a b k] by simp
    then have "\<forall>k < 2. \<forall>j < 2. \<exists>a b. mc_adapter ?m ! k = Some a \<and> mc_adapter ?m ! j = Some b \<and>
        (\<forall>w. reg i OCI2C_OHWR_MUX w AND OCI2C_OHWR_MUX_BUSY = 0 \<longrightarrow> mux_exclusive i a b k w)"
      by blast
    moreover have "\<exists>v. remove_ohwr_old ?m ?w0 = Inr v \<and> trace v = trace ?w0 @ [EvCall (MuxDelOne 0), EvCall (MuxDelOne 1)]"
      unfolding r by (simp add: trace_kcall)
    ultimately show ?thesis
      using ok p by auto
  qed (simp_all add: probe_ohwr_old_cases)
qed

section \<open>Witnesses\<close>

lemma ohwr_mux_old_kernel_witness:
  "\<exists>m w0 a b. probe_ohwr_old True (\<lambda>_. True) demo_w = Inr (0, Some m, w0) \<and> mc_adapter m ! 1 = Some a
    \<and> mc_adapter m ! 0 = Some b \<and> mux_exclusive (demo_i2c Fn32) a b 1 demo_w"
proof -
  let ?i = "demo_i2c Fn32"
  have f: "oc_setreg_fn ?i = oc_getreg_fn ?i"
    by (simp add: demo_i2c_def)
  have free: "reg ?i OCI2C_OHWR_MUX demo_w AND OCI2C_OHWR_MUX_BUSY = 0"
    by (simp add: reg_def oc_family_defs demo_i2c_def demo_w_def ioread_def acc_mask_def)
  have two: "(1 :: nat) < 2"
    by simp
  show ?thesis
    using ohwr_mux_old_kernel [OF demo_xfer_ok(2) f, of True "\<lambda>_. True" demo_w] free two zero_less_numeral
    unfolding not_True_eq_False simp_thms if_False by blast
qed

end
