(* ===== verification/Uart_Channel.thy ===== *)
theory Uart_Channel
  imports Kernel_Io Fifo
begin

text \<open>
  The UART driver (\<open>wb_uart.c\<close>): its register accesses and the transmit buffer of its channel, a
  ring in one page with a read pointer, a write pointer and a count. The register layout comes
  from \<open>wb_uart.h\<close>, which the build generates, so it is a parameter of the model, like the page
  size and the signedness of \<open>char\<close>.
\<close>

unbundle bit_operations_syntax

section \<open>Registers and channel\<close>

record wbu_hw =
  UART_REG_SR :: u32
  UART_REG_CR :: u32
  UART_REG_TDR :: u32
  UART_REG_RDR :: u32
  UART_SR_TX_BUSY :: u32
  UART_SR_RX_RDY :: u32
  UART_SR_PHYSICAL_UART :: u32
  UART_CR_RX_INTERRUPT_ENABLE :: u32
  UART_CR_TX_INTERRUPT_ENABLE :: u32
  PAGE_SIZE :: u32
  char_signed :: bool

definition MAX_NBR_OF_BYTES_PER_IRQ :: nat where [simp]: "MAX_NBR_OF_BYTES_PER_IRQ = 32"

record wbu_channel =
  open_count :: u32
  nb_bytes :: u32
  ptr_read :: u32
  ptr_write :: u32
  xmit_buf :: "u8 list"

text \<open>\<open>memops\<close> holds the accessors that go with the byte order of the bus.\<close>

datatype wbu_memops = MemNone | MemLe | MemBe

record wbu_desc =
  base_addr :: addr
  memops :: wbu_memops
  channel :: wbu_channel

datatype uart_call = FlipChar u8 | FlipPush | TtyWakeup | TtyPortOpen | TtyPortClose
  | DevErr | TtyAlloc | TtyRegister | TtyUnregister | PortInit | PortRegister | PortPut | PortExit
  | UnregDevice | FreeXmit | PortDestroy | RequestIrq | FreeIrq | FreeNames | KrefPut

type_synonym 'd uart_world = "('d, uart_call) world"

definition mem_acc :: "wbu_memops \<Rightarrow> io_acc" where
  "mem_acc m = (if m = MemBe then IO32BE else IO32)"

definition wbu_write_reg :: "'d platform \<Rightarrow> wbu_desc \<Rightarrow> u32 \<Rightarrow> u32 \<Rightarrow> 'd uart_world \<Rightarrow> 'd uart_world" where
  "wbu_write_reg P u val offset w = iowrite P (mem_acc (memops u)) val (base_addr u + ucast offset) w"

definition wbu_read_reg :: "'d platform \<Rightarrow> wbu_desc \<Rightarrow> u32 \<Rightarrow> 'd uart_world \<Rightarrow> u32 \<times> 'd uart_world" where
  "wbu_read_reg P u offset w = ioread P (mem_acc (memops u)) (base_addr u + ucast offset) w"

definition wbu_check_type :: "'d platform \<Rightarrow> wbu_hw \<Rightarrow> wbu_desc \<Rightarrow> 'd uart_world \<Rightarrow> int \<times> 'd uart_world" where
  "wbu_check_type P H u w =
     (let (sr, w) = wbu_read_reg P u (UART_REG_SR H) w
      in if sr AND UART_SR_PHYSICAL_UART H \<noteq> 0 then (0, w) else (- EINVAL, w))"

definition wbu_enable_rx_interrupts :: "'d platform \<Rightarrow> wbu_hw \<Rightarrow> wbu_desc \<Rightarrow> 'd uart_world \<Rightarrow> 'd uart_world" where
  "wbu_enable_rx_interrupts P H u w =
     (let (cr, w) = wbu_read_reg P u (UART_REG_CR H) w
      in wbu_write_reg P u (cr OR UART_CR_RX_INTERRUPT_ENABLE H) (UART_REG_CR H) w)"

definition wbu_disable_rx_interrupts :: "'d platform \<Rightarrow> wbu_hw \<Rightarrow> wbu_desc \<Rightarrow> 'd uart_world \<Rightarrow> 'd uart_world" where
  "wbu_disable_rx_interrupts P H u w =
     (let (cr, w) = wbu_read_reg P u (UART_REG_CR H) w
      in wbu_write_reg P u (cr AND NOT (UART_CR_RX_INTERRUPT_ENABLE H)) (UART_REG_CR H) w)"

definition wbu_enable_tx_interrupts :: "'d platform \<Rightarrow> wbu_hw \<Rightarrow> wbu_desc \<Rightarrow> 'd uart_world \<Rightarrow> 'd uart_world" where
  "wbu_enable_tx_interrupts P H u w =
     (let (cr, w) = wbu_read_reg P u (UART_REG_CR H) w
      in wbu_write_reg P u (cr OR UART_CR_TX_INTERRUPT_ENABLE H) (UART_REG_CR H) w)"

definition wbu_disable_tx_interrupts :: "'d platform \<Rightarrow> wbu_hw \<Rightarrow> wbu_desc \<Rightarrow> 'd uart_world \<Rightarrow> 'd uart_world" where
  "wbu_disable_tx_interrupts P H u w =
     (let (cr, w) = wbu_read_reg P u (UART_REG_CR H) w
      in wbu_write_reg P u (cr AND NOT (UART_CR_TX_INTERRUPT_ENABLE H)) (UART_REG_CR H) w)"

definition wbu_port_shutdown :: "'d platform \<Rightarrow> wbu_hw \<Rightarrow> wbu_desc \<Rightarrow> 'd uart_world \<Rightarrow> 'd uart_world" where
  "wbu_port_shutdown P H u w = wbu_disable_tx_interrupts P H u (wbu_disable_rx_interrupts P H u w)"

definition wbu_port_activate :: "'d platform \<Rightarrow> wbu_hw \<Rightarrow> wbu_desc \<Rightarrow> 'd uart_world \<Rightarrow> int \<times> 'd uart_world" where
  "wbu_port_activate P H u w = (0, wbu_enable_rx_interrupts P H u w)"

definition wbu_channel_init :: "wbu_channel \<Rightarrow> wbu_channel" where
  "wbu_channel_init c = c\<lparr>open_count := 0, nb_bytes := 0, ptr_read := 0, ptr_write := 0\<rparr>"

section \<open>The ring\<close>

text \<open>
  The steps on the ring that \<open>wbu_tty_write\<close> and \<open>wbu_tty_handler_tx\<close> are made of: storing a
  byte at the write pointer, reading the one at the read pointer, moving past it.
\<close>

definition chan_put :: "wbu_hw \<Rightarrow> u8 \<Rightarrow> wbu_channel \<Rightarrow> wbu_channel" where
  "chan_put H b c = c\<lparr>xmit_buf := (xmit_buf c)[unat (ptr_write c) := b],
     ptr_write := (ptr_write c + 1) mod PAGE_SIZE H, nb_bytes := nb_bytes c + 1\<rparr>"

definition chan_peek :: "wbu_channel \<Rightarrow> c_fault + u8" where
  "chan_peek c = (if unat (ptr_read c) < length (xmit_buf c) then Inr (xmit_buf c ! unat (ptr_read c))
     else Inl (BadIndex (uint (ptr_read c))))"

definition chan_pop :: "wbu_hw \<Rightarrow> wbu_channel \<Rightarrow> wbu_channel" where
  "chan_pop H c = c\<lparr>ptr_read := (ptr_read c + 1) mod PAGE_SIZE H, nb_bytes := nb_bytes c - 1\<rparr>"

text \<open>The invariant of the ring, and the bytes it holds, oldest first.\<close>

definition chan_inv :: "wbu_hw \<Rightarrow> wbu_channel \<Rightarrow> bool" where
  "chan_inv H c \<longleftrightarrow> 0 < unat (PAGE_SIZE H) \<and> length (xmit_buf c) = unat (PAGE_SIZE H)
     \<and> unat (nb_bytes c) \<le> unat (PAGE_SIZE H) \<and> unat (ptr_read c) < unat (PAGE_SIZE H)
     \<and> unat (ptr_write c) = (unat (ptr_read c) + unat (nb_bytes c)) mod unat (PAGE_SIZE H)"

definition chan_content :: "wbu_channel \<Rightarrow> u8 list" where
  "chan_content c = map (\<lambda>k. xmit_buf c ! ((unat (ptr_read c) + k) mod length (xmit_buf c))) [0..<unat (nb_bytes c)]"

lemma length_chan_content [simp]: "length (chan_content c) = unat (nb_bytes c)"
  by (simp add: chan_content_def)

lemma chan_content_empty: "chan_content c = [] \<longleftrightarrow> nb_bytes c = 0"
  by (simp add: chan_content_def unat_eq_zero)

lemma unat_next:
  fixes p n :: u32
  assumes "unat p < unat n"
  shows "unat ((p + 1) mod n) = (unat p + 1) mod unat n"
proof -
  have "unat p + 1 \<le> unat n"
    using assms by simp
  also have "unat n < 2 ^ 32"
    using unat_u32_less [of n] by simp
  finally have "unat (p + 1) = unat p + 1"
    by (simp add: unat_word_ariths)
  then show ?thesis
    by (simp add: unat_mod)
qed


text \<open>Arithmetic on the positions of the ring.\<close>

lemma ring_distinct:
  fixes r n k N :: nat
  assumes "r < N" "n < N" "k < n"
  shows "(r + k) mod N \<noteq> (r + n) mod N"
proof
  assume e: "(r + k) mod N = (r + n) mod N"
  have "r + n < 2 * N" "r + k < 2 * N"
    using assms by linarith+
  then show False
    using assms e by (simp add: mod_less_twice split: if_splits)
qed

lemma chan_put_spec:
  assumes "chan_inv H c" "unat (nb_bytes c) < unat (PAGE_SIZE H)"
  shows "chan_inv H (chan_put H b c) \<and> chan_content (chan_put H b c) = chan_content c @ [b]"
proof -
  let ?N = "unat (PAGE_SIZE H)" and ?r = "unat (ptr_read c)" and ?n = "unat (nb_bytes c)"
  note i = assms(1) [unfolded chan_inv_def]
  have w: "unat (ptr_write c) = (?r + ?n) mod ?N" "unat (ptr_write c) < ?N"
    using i by simp_all
  have n1: "unat (nb_bytes c + 1) = ?n + 1"
    using assms(2) unat_u32_less [of "PAGE_SIZE H"] by (simp add: unat_word_ariths)
  have w1: "unat ((ptr_write c + 1) mod PAGE_SIZE H) = (?r + (?n + 1)) mod ?N"
    using unat_next [OF w(2)] w(1) by (simp add: mod_Suc_eq)
  have inv: "chan_inv H (chan_put H b c)"
    using i assms(2) n1 w1 by (simp add: chan_inv_def chan_put_def)
  have old: "(xmit_buf c)[unat (ptr_write c) := b] ! ((?r + k) mod ?N) = xmit_buf c ! ((?r + k) mod ?N)" if "k < ?n" for k
    using ring_distinct [of ?r ?N ?n k] i assms(2) that w(1) by simp
  have new: "(xmit_buf c)[unat (ptr_write c) := b] ! ((?r + ?n) mod ?N) = b"
    using i w by simp
  have "chan_content (chan_put H b c) = chan_content c @ [b]"
    using i n1 old new by (simp add: chan_content_def chan_put_def)
  then show ?thesis
    using inv by blast
qed

lemma chan_peek_spec:
  assumes "chan_inv H c" "chan_content c \<noteq> []"
  shows "chan_peek c = Inr (hd (chan_content c))"
proof -
  have "0 < unat (nb_bytes c)"
    using assms(2) by (simp add: chan_content_empty unat_gt_0)
  then have "hd (chan_content c) = xmit_buf c ! unat (ptr_read c)"
    using assms(1) by (simp add: chan_content_def chan_inv_def hd_map)
  then show ?thesis
    using assms(1) by (simp add: chan_peek_def chan_inv_def)
qed

lemma chan_pop_spec:
  assumes "chan_inv H c" "chan_content c \<noteq> []"
  shows "chan_inv H (chan_pop H c) \<and> chan_content (chan_pop H c) = tl (chan_content c)"
proof -
  let ?N = "unat (PAGE_SIZE H)" and ?r = "unat (ptr_read c)" and ?n = "unat (nb_bytes c)"
  note i = assms(1) [unfolded chan_inv_def]
  have nz: "nb_bytes c \<noteq> 0"
    using assms(2) by (simp add: chan_content_empty)
  then obtain m where m: "?n = Suc m"
    by (metis unat_eq_zero not0_implies_Suc)
  have n1: "unat (nb_bytes c - 1) = m"
    using nz m by (simp add: unat_minus_one)
  have r1: "unat ((ptr_read c + 1) mod PAGE_SIZE H) = (?r + 1) mod ?N"
    using i by (intro unat_next) simp
  have "unat (ptr_write c) = ((?r + 1) mod ?N + m) mod ?N"
    using i m by (simp add: mod_add_left_eq)
  then have inv: "chan_inv H (chan_pop H c)"
    using i m n1 r1 by (simp add: chan_inv_def chan_pop_def)
  have "tl (map f [0..<Suc m]) = map (\<lambda>k. f (Suc k)) [0..<m]" for f :: "nat \<Rightarrow> u8"
    by (simp add: map_upt_Suc del: upt_Suc)
  then have "chan_content (chan_pop H c) = tl (chan_content c)"
    using i m n1 r1 by (simp add: chan_content_def chan_pop_def mod_add_left_eq del: upt_Suc)
  then show ?thesis
    using inv by blast
qed

text \<open>The channel is a bounded buffer of one page.\<close>

interpretation chan: fifo "chan_inv H" chan_content "\<lambda>_. unat (PAGE_SIZE H)" "chan_put H" chan_peek "chan_pop H"
  for H
proof (unfold_locales, goal_cases)
  case (1 s)
  then show ?case by (simp add: chan_inv_def)
next
  case (2 s x)
  then show ?case using chan_put_spec by simp
next
  case (3 s)
  then show ?case by (rule chan_peek_spec)
next
  case (4 s)
  then show ?case using chan_pop_spec by simp
qed

end
