(* ===== verification/Uart_Tty.thy ===== *)
theory Uart_Tty
  imports Uart_Channel
begin

text \<open>
  The operations of the UART driver: sending and receiving in the interrupt handler, the tty
  operations \<open>write\<close>, \<open>write_room\<close>, \<open>chars_in_buffer\<close>, \<open>open\<close> and \<open>close\<close>. The bytes that reach
  the transmit register, followed by those still in the ring, are the bytes that were accepted.
\<close>

unbundle bit_operations_syntax

section \<open>Interrupt handler\<close>

text \<open>\<open>const char c\<close> converted to the \<open>u32\<close> the accessor takes.\<close>

definition char_val :: "wbu_hw \<Rightarrow> u8 \<Rightarrow> u32" where
  "char_val H c = (if char_signed H then scast c else ucast c)"

definition wbu_tty_tx_send :: "'d platform \<Rightarrow> wbu_hw \<Rightarrow> wbu_desc \<Rightarrow> u8 \<Rightarrow> 'd uart_world \<Rightarrow> int \<times> 'd uart_world" where
  "wbu_tty_tx_send P H u c w =
     (let (sr, w) = wbu_read_reg P u (UART_REG_SR H) w
      in if sr AND UART_SR_TX_BUSY H \<noteq> 0 then (- EBUSY, w)
         else (0, wbu_write_reg P u (char_val H c) (UART_REG_TDR H) w))"

fun tx_loop :: "'d platform \<Rightarrow> wbu_hw \<Rightarrow> nat \<Rightarrow> wbu_desc \<Rightarrow> 'd uart_world \<Rightarrow> c_fault + wbu_desc \<times> 'd uart_world" where
  "tx_loop P H 0 u w = Inr (u, w)"
| "tx_loop P H (Suc max_count) u w = ebind (chan_peek (channel u)) (\<lambda>c.
     let (ret, w) = wbu_tty_tx_send P H u c w
     in if ret < 0 then Inr (u, w)
        else
          let u = u\<lparr>channel := chan_pop H (channel u)\<rparr>
          in if nb_bytes (channel u) \<noteq> 0 \<and> max_count \<noteq> 0 then tx_loop P H max_count u w
             else Inr (u, w))"

definition wbu_tty_handler_tx :: "'d platform \<Rightarrow> wbu_hw \<Rightarrow> wbu_desc \<Rightarrow> 'd uart_world \<Rightarrow> c_fault + wbu_desc \<times> 'd uart_world" where
  "wbu_tty_handler_tx P H u w =
     (if nb_bytes (channel u) = 0 then Inr (u, w)
      else ebind (tx_loop P H MAX_NBR_OF_BYTES_PER_IRQ u w) (\<lambda>(u, w).
        if nb_bytes (channel u) = 0
        then Inr (u, kcall TtyWakeup (wbu_disable_tx_interrupts P H u w))
        else Inr (u, w)))"

fun rx_loop :: "'d platform \<Rightarrow> wbu_hw \<Rightarrow> wbu_desc \<Rightarrow> nat \<Rightarrow> 'd uart_world \<Rightarrow> 'd uart_world" where
  "rx_loop P H u 0 w = w"
| "rx_loop P H u (Suc max_count) w =
     (let (rdr, w) = wbu_read_reg P u (UART_REG_RDR H) w;
          w = kcall (FlipChar (ucast (rdr AND 0xFF))) w;
          (sr, w) = wbu_read_reg P u (UART_REG_SR H) w
      in if sr AND UART_SR_RX_RDY H \<noteq> 0 \<and> max_count \<noteq> 0 then rx_loop P H u max_count w else w)"

definition wbu_tty_handler_rx :: "'d platform \<Rightarrow> wbu_hw \<Rightarrow> wbu_desc \<Rightarrow> 'd uart_world \<Rightarrow> 'd uart_world" where
  "wbu_tty_handler_rx P H u w =
     (let (sr, w) = wbu_read_reg P u (UART_REG_SR H) w
      in if sr AND UART_SR_RX_RDY H = 0 then w
         else kcall FlipPush (rx_loop P H u MAX_NBR_OF_BYTES_PER_IRQ w))"

datatype uart_irqreturn = UIRQ_NONE | UIRQ_HANDLED

definition wbu_tty_handler :: "'d platform \<Rightarrow> wbu_hw \<Rightarrow> wbu_desc \<Rightarrow> 'd uart_world \<Rightarrow>
    c_fault + uart_irqreturn \<times> wbu_desc \<times> 'd uart_world" where
  "wbu_tty_handler P H u w =
     (let (sr, w) = wbu_read_reg P u (UART_REG_SR H) w
      in if sr AND UART_SR_RX_RDY H = 0 \<and> nb_bytes (channel u) = 0 then Inr (UIRQ_NONE, u, w)
         else ebind (wbu_tty_handler_tx P H u (wbu_tty_handler_rx P H u w))
           (\<lambda>(u, w). Inr (UIRQ_HANDLED, u, w)))"

section \<open>Terminal operations\<close>

fun write_loop :: "wbu_hw \<Rightarrow> u8 list \<Rightarrow> nat \<Rightarrow> nat \<Rightarrow> wbu_channel \<Rightarrow> c_fault + nat \<times> wbu_channel" where
  "write_loop H buf 0 buf_pos c = Inr (buf_pos, c)"
| "write_loop H buf (Suc count) buf_pos c =
     (if nb_bytes c < PAGE_SIZE H then
        (if \<not> buf_pos < length buf then Inl (BadIndex (int buf_pos))
         else if \<not> unat (ptr_write c) < length (xmit_buf c) then Inl BadPointer
         else write_loop H buf count (buf_pos + 1) (chan_put H (buf ! buf_pos) c))
      else Inr (buf_pos, c))"

definition wbu_tty_write :: "'d platform \<Rightarrow> wbu_hw \<Rightarrow> u8 list \<Rightarrow> int \<Rightarrow> wbu_desc \<Rightarrow> 'd uart_world \<Rightarrow>
    c_fault + int \<times> wbu_desc \<times> 'd uart_world" where
  "wbu_tty_write P H buf count u w = ebind (write_loop H buf (nat count) 0 (channel u)) (\<lambda>(buf_pos, c).
     let u = u\<lparr>channel := c\<rparr>;
         w = (if nb_bytes c > 0 then wbu_enable_tx_interrupts P H u w else w)
     in Inr (int buf_pos, u, w))"

definition wbu_tty_write_room :: "wbu_hw \<Rightarrow> wbu_desc \<Rightarrow> u32" where
  "wbu_tty_write_room H u = PAGE_SIZE H - nb_bytes (channel u)"

definition wbu_tty_chars_in_buffer :: "wbu_desc \<Rightarrow> u32" where
  "wbu_tty_chars_in_buffer u = nb_bytes (channel u)"

text \<open>\<open>ret\<close> is what \<open>tty_port_open\<close> returns.\<close>

definition wbu_tty_open :: "int \<Rightarrow> wbu_desc \<Rightarrow> 'd uart_world \<Rightarrow> int \<times> wbu_desc \<times> 'd uart_world" where
  "wbu_tty_open ret u w =
     (let u = u\<lparr>channel := (channel u)\<lparr>open_count := open_count (channel u) + 1\<rparr>\<rparr>
      in if open_count (channel u) > 1 then (- EBUSY, u, w) else (ret, u, kcall TtyPortOpen w))"

definition wbu_tty_close :: "wbu_desc \<Rightarrow> 'd uart_world \<Rightarrow> wbu_desc \<times> 'd uart_world" where
  "wbu_tty_close u w =
     (let u = u\<lparr>channel := (channel u)\<lparr>open_count := open_count (channel u) - 1\<rparr>\<rparr>
      in (u, if open_count (channel u) = 0 then kcall TtyPortClose w else w))"

section \<open>Accesses and the transmit register\<close>

definition reg_at :: "wbu_desc \<Rightarrow> u32 \<Rightarrow> addr" where
  "reg_at u r = base_addr u + ucast r"

lemma reg_at_inj [simp]: "reg_at u r = reg_at u q \<longleftrightarrow> r = q"
  by (simp add: reg_at_def ucast_u32_u64_inj)

lemma char_val_byte [simp]: "(ucast (char_val H c) :: u8) = c"
  by (simp add: char_val_def ucast_scast_u8)

lemma trace_write_reg [io_simps]:
  "trace (wbu_write_reg P u v r w) = trace w @ [EvWrite (mem_acc (memops u)) (reg_at u r) v]"
  by (simp add: wbu_write_reg_def trace_iowrite reg_at_def)

lemma trace_read_reg:
  "wbu_read_reg P u r w = (v, w') \<Longrightarrow> trace w' = trace w @ [EvRead (mem_acc (memops u)) (reg_at u r) v]"
  by (auto simp: wbu_read_reg_def ioread_def reg_at_def split: prod.splits)

text \<open>The bytes a stretch of a trace has sent, and those it has delivered to the line discipline.\<close>

definition sent :: "wbu_hw \<Rightarrow> wbu_desc \<Rightarrow> uart_call event list \<Rightarrow> u8 list" where
  "sent H u es = map ucast (written_at (reg_at u (UART_REG_TDR H)) es)"

definition chars :: "uart_call event list \<Rightarrow> u8 list" where
  "chars es = concat (map (\<lambda>e. case e of EvCall (FlipChar c) \<Rightarrow> [c] | _ \<Rightarrow> []) es)"

lemma sent_simps [simp]:
  "sent H u [] = []"
  "sent H u (es @ fs) = sent H u es @ sent H u fs"
  "sent H u (EvRead c a v # es) = sent H u es"
  "sent H u (EvCall k # es) = sent H u es"
  "sent H u (EvWrite c a v # es) = (if a = reg_at u (UART_REG_TDR H) then ucast v # sent H u es else sent H u es)"
  by (simp_all add: sent_def)

lemma chars_simps [simp]:
  "chars [] = []"
  "chars (es @ fs) = chars es @ chars fs"
  "chars (EvRead c a v # es) = chars es"
  "chars (EvWrite c a v # es) = chars es"
  "chars (EvCall k # es) = (case k of FlipChar c \<Rightarrow> c # chars es | _ \<Rightarrow> chars es)"
  by (simp_all add: chars_def split: uart_call.splits)

text \<open>The layout keeps the registers that are written apart, and those that are read.\<close>

definition hw_ok :: "wbu_hw \<Rightarrow> bool" where
  "hw_ok H \<longleftrightarrow> UART_REG_CR H \<noteq> UART_REG_TDR H \<and> UART_REG_SR H \<noteq> UART_REG_RDR H \<and> UART_REG_CR H \<noteq> UART_REG_RDR H"

text \<open>The low bytes of what the receive register returned.\<close>

definition arrived :: "wbu_hw \<Rightarrow> wbu_desc \<Rightarrow> uart_call event list \<Rightarrow> u8 list" where
  "arrived H u es = map ucast (reads_at (reg_at u (UART_REG_RDR H)) es)"

lemma arrived_simps [simp]:
  "arrived H u [] = []"
  "arrived H u (es @ fs) = arrived H u es @ arrived H u fs"
  "arrived H u (EvRead c a v # es) = (if a = reg_at u (UART_REG_RDR H) then ucast v # arrived H u es else arrived H u es)"
  "arrived H u (EvWrite c a v # es) = arrived H u es"
  "arrived H u (EvCall k # es) = arrived H u es"
  by (simp_all add: arrived_def)

text \<open>Neither a call nor a byte received.\<close>

definition no_rx :: "wbu_hw \<Rightarrow> wbu_desc \<Rightarrow> uart_call event list \<Rightarrow> bool" where
  "no_rx H u es \<longleftrightarrow> calls_of es = [] \<and> arrived H u es = []"

lemma irq_trace:
  assumes "hw_ok H"
  shows "\<exists>es. trace (wbu_enable_tx_interrupts P H u w) = trace w @ es \<and> sent H u es = [] \<and> no_rx H u es"
    "\<exists>es. trace (wbu_disable_tx_interrupts P H u w) = trace w @ es \<and> sent H u es = [] \<and> no_rx H u es"
proof -
  obtain cr w1 where r: "wbu_read_reg P u (UART_REG_CR H) w = (cr, w1)"
    by fastforce
  then show "\<exists>es. trace (wbu_enable_tx_interrupts P H u w) = trace w @ es \<and> sent H u es = [] \<and> no_rx H u es"
    "\<exists>es. trace (wbu_disable_tx_interrupts P H u w) = trace w @ es \<and> sent H u es = [] \<and> no_rx H u es"
    using assms trace_read_reg [OF r]
    by (simp_all add: wbu_enable_tx_interrupts_def wbu_disable_tx_interrupts_def trace_write_reg hw_ok_def no_rx_def)
qed

lemma rx_irq_trace:
  assumes "hw_ok H"
  shows "\<exists>es. trace (wbu_enable_rx_interrupts P H u w) = trace w @ es \<and> sent H u es = []"
    "\<exists>es. trace (wbu_disable_rx_interrupts P H u w) = trace w @ es \<and> sent H u es = []"
proof -
  obtain cr w1 where r: "wbu_read_reg P u (UART_REG_CR H) w = (cr, w1)"
    by fastforce
  then show "\<exists>es. trace (wbu_enable_rx_interrupts P H u w) = trace w @ es \<and> sent H u es = []"
    "\<exists>es. trace (wbu_disable_rx_interrupts P H u w) = trace w @ es \<and> sent H u es = []"
    using assms trace_read_reg [OF r]
    by (simp_all add: wbu_enable_rx_interrupts_def wbu_disable_rx_interrupts_def trace_write_reg hw_ok_def)
qed

section \<open>Sending\<close>

definition same_dev :: "wbu_desc \<Rightarrow> wbu_desc \<Rightarrow> bool" where
  "same_dev u v \<longleftrightarrow> base_addr v = base_addr u \<and> memops v = memops u"

lemma same_dev_simps [simp]: "same_dev u u" "same_dev u (u\<lparr>channel := c\<rparr>)"
  by (simp_all add: same_dev_def)

lemma same_dev_reg: "same_dev u v \<Longrightarrow> reg_at v = reg_at u"
  by (simp add: same_dev_def fun_eq_iff reg_at_def)

lemma same_dev_no_rx: "same_dev u v \<Longrightarrow> no_rx H v = no_rx H u"
  by (simp add: fun_eq_iff no_rx_def arrived_def same_dev_reg)

lemma same_dev_sent: "same_dev u v \<Longrightarrow> sent H v = sent H u"
  by (simp add: fun_eq_iff sent_def same_dev_reg)

lemma tx_send_trace:
  assumes "hw_ok H" "wbu_tty_tx_send P H u c w = (ret, w')"
  shows "\<exists>es. trace w' = trace w @ es \<and> no_rx H u es \<and>
    ((ret = 0 \<and> sent H u es = [c]) \<or> (ret = - EBUSY \<and> sent H u es = []))"
proof -
  obtain sr w1 where r: "wbu_read_reg P u (UART_REG_SR H) w = (sr, w1)"
    by fastforce
  show ?thesis
    using assms r trace_read_reg [OF r]
    by (auto simp: wbu_tty_tx_send_def trace_write_reg no_rx_def hw_ok_def split: if_splits)
qed

text \<open>\<open>n\<close> bytes have left the head of the ring for the transmit register.\<close>

definition took :: "wbu_hw \<Rightarrow> wbu_desc \<Rightarrow> 'd uart_world \<Rightarrow> nat \<Rightarrow> wbu_desc \<Rightarrow> 'd uart_world \<Rightarrow> bool" where
  "took H u w n u' w' \<longleftrightarrow> same_dev u u' \<and> chan_inv H (channel u') \<and> n \<le> length (chan_content (channel u))
     \<and> chan_content (channel u') = drop n (chan_content (channel u))
     \<and> (\<exists>es. trace w' = trace w @ es \<and> no_rx H u es \<and> sent H u es = take n (chan_content (channel u)))"

lemma no_rx_simps [simp]: "no_rx H u []" "no_rx H u (es @ fs) \<longleftrightarrow> no_rx H u es \<and> no_rx H u fs"
  by (auto simp: no_rx_def)

lemma tx_loop_took:
  assumes "hw_ok H" "chan_inv H (channel u)" "chan_content (channel u) \<noteq> []" "0 < k"
  shows "\<exists>n u' w'. tx_loop P H k u w = Inr (u', w') \<and> n \<le> k \<and> took H u w n u' w'"
  using assms(2-)
proof (induction k arbitrary: u w)
  case 0
  then show ?case by simp
next
  case (Suc k)
  let ?c = "hd (chan_content (channel u))"
  obtain ret w1 where s: "wbu_tty_tx_send P H u ?c w = (ret, w1)"
    by fastforce
  obtain es where es: "trace w1 = trace w @ es" "no_rx H u es"
      "(ret = 0 \<and> sent H u es = [?c]) \<or> (ret = - EBUSY \<and> sent H u es = [])"
    using tx_send_trace [OF assms(1) s] by blast
  let ?u = "u\<lparr>channel := chan_pop H (channel u)\<rparr>"
  have pk: "chan_peek (channel u) = Inr ?c"
    using chan.peek Suc.prems by blast
  have pp: "chan_inv H (channel ?u)" "chan_content (channel ?u) = tl (chan_content (channel u))"
    using chan.pop [OF Suc.prems(1,2)] by simp_all
  have ne: "nb_bytes (channel ?u) \<noteq> 0 \<longleftrightarrow> chan_content (channel ?u) \<noteq> []"
    by (simp add: chan_content_empty)
  obtain x xs where xs: "chan_content (channel u) = x # xs"
    using Suc.prems(2) by (cases "chan_content (channel u)") auto
  consider (busy) "ret = - EBUSY" "sent H u es = []" | (last) "ret = 0" "sent H u es = [x]" "xs = [] \<or> k = 0"
    | (more) "ret = 0" "sent H u es = [x]" "xs \<noteq> []" "0 < k"
    using es(3) xs by auto
  then show ?case
  proof cases
    case busy
    then have "tx_loop P H (Suc k) u w = Inr (u, w1)" "took H u w 0 u w1"
      using pk s es Suc.prems(1) by (simp_all add: took_def)
    then show ?thesis by blast
  next
    case last
    then have "tx_loop P H (Suc k) u w = Inr (?u, w1)" "took H u w 1 ?u w1"
      using pk s es xs pp ne by (auto simp: took_def Let_def)
    then show ?thesis by fastforce
  next
    case more
    then obtain n u' w' where n: "tx_loop P H k ?u w1 = Inr (u', w')" "n \<le> k" "took H ?u w1 n u' w'"
      using Suc.IH [of ?u w1] pp xs by auto
    have "tx_loop P H (Suc k) u w = Inr (u', w')"
      using more pk s ne pp(2) xs n(1) by (simp add: Let_def)
    moreover have "took H u w (Suc n) u' w'"
      using n(3) more es xs pp(2) same_dev_sent [of u ?u H] same_dev_no_rx [of u ?u H] by (auto simp: took_def same_dev_def)
    ultimately show ?thesis
      using n(2) by (intro exI [of _ "Suc n"]) simp
  qed
qed

lemma handler_tx_spec:
  assumes "hw_ok H" "chan_inv H (channel u)"
  shows "\<exists>n u' w' es. wbu_tty_handler_tx P H u w = Inr (u', w') \<and> n \<le> MAX_NBR_OF_BYTES_PER_IRQ
    \<and> same_dev u u' \<and> chan_inv H (channel u') \<and> chan_content (channel u') = drop n (chan_content (channel u))
    \<and> trace w' = trace w @ es \<and> sent H u es = take n (chan_content (channel u))
    \<and> calls_of es = (if chan_content (channel u) \<noteq> [] \<and> chan_content (channel u') = [] then [EvCall TtyWakeup] else [])
    \<and> arrived H u es = []"
proof (cases "nb_bytes (channel u) = 0")
  case True
  then show ?thesis
    using assms(2) chan_content_empty [of "channel u"]
    by (auto simp: wbu_tty_handler_tx_def intro!: exI [of _ 0])
next
  case False
  then have ne: "chan_content (channel u) \<noteq> []"
    by (simp add: chan_content_empty)
  then obtain n u' w1 where t: "tx_loop P H MAX_NBR_OF_BYTES_PER_IRQ u w = Inr (u', w1)"
      "n \<le> MAX_NBR_OF_BYTES_PER_IRQ" "took H u w n u' w1"
    using tx_loop_took [OF assms, of MAX_NBR_OF_BYTES_PER_IRQ P w] by auto
  obtain es where es: "trace w1 = trace w @ es" "no_rx H u es" "sent H u es = take n (chan_content (channel u))"
    using t(3) by (auto simp: took_def)
  have k: "same_dev u u'" "chan_inv H (channel u')" "chan_content (channel u') = drop n (chan_content (channel u))"
    using t(3) by (simp_all add: took_def)
  show ?thesis
  proof (cases "nb_bytes (channel u') = 0")
    case e: True
    obtain fs where fs: "trace (wbu_disable_tx_interrupts P H u' w1) = trace w1 @ fs" "sent H u' fs = []" "no_rx H u' fs"
      using irq_trace(2) [OF assms(1)] by blast
    have "wbu_tty_handler_tx P H u w = Inr (u', kcall TtyWakeup (wbu_disable_tx_interrupts P H u' w1))"
      using False t(1) e by (simp add: wbu_tty_handler_tx_def)
    moreover have "chan_content (channel u') = []"
      using e by (simp add: chan_content_empty)
    moreover have "sent H u fs = []"
      using fs(2) same_dev_sent [OF k(1)] by simp
    moreover have "no_rx H u fs"
      using fs(3) same_dev_no_rx [OF k(1)] by simp
    ultimately show ?thesis
      using t(2) k es fs ne
      by (intro exI [of _ n] exI [of _ u'] exI [of _ "kcall TtyWakeup (wbu_disable_tx_interrupts P H u' w1)"]
          exI [of _ "es @ fs @ [EvCall TtyWakeup]"]) (simp add: trace_kcall no_rx_def)
  next
    case ne2: False
    have "wbu_tty_handler_tx P H u w = Inr (u', w1)"
      using False t(1) ne2 by (simp add: wbu_tty_handler_tx_def)
    then show ?thesis
      using t(2) k es ne2 chan_content_empty [of "channel u'"] by (auto simp: no_rx_def)
  qed
qed

section \<open>Receiving\<close>

lemma ucast_low_byte [simp]: "(ucast ((v :: u32) AND 0xFF) :: u8) = ucast v"
  by (rule bit_word_eqI) (auto simp: bit_simps less_8_cases)

lemma rx_loop_spec:
  assumes "hw_ok H" "0 < k"
  shows "\<exists>es. trace (rx_loop P H u k w) = trace w @ es \<and> sent H u es = []
    \<and> calls_of es = map (\<lambda>c. EvCall (FlipChar c)) (arrived H u es)
    \<and> 0 < length (arrived H u es) \<and> length (arrived H u es) \<le> k"
  using assms(2)
proof (induction k arbitrary: w)
  case 0
  then show ?case by simp
next
  case (Suc k)
  obtain rdr w1 where r: "wbu_read_reg P u (UART_REG_RDR H) w = (rdr, w1)"
    by fastforce
  let ?w = "kcall (FlipChar (ucast (rdr AND 0xFF))) w1"
  obtain sr w2 where s: "wbu_read_reg P u (UART_REG_SR H) ?w = (sr, w2)"
    by fastforce
  let ?es = "[EvRead (mem_acc (memops u)) (reg_at u (UART_REG_RDR H)) rdr, EvCall (FlipChar (ucast rdr)),
    EvRead (mem_acc (memops u)) (reg_at u (UART_REG_SR H)) sr]"
  have t: "trace w2 = trace w @ ?es"
    using trace_read_reg [OF r] trace_read_reg [OF s] by (simp add: trace_kcall)
  have a: "arrived H u ?es = [ucast rdr]"
    using assms(1) by (simp add: arrived_def hw_ok_def)
  show ?case
  proof (cases "sr AND UART_SR_RX_RDY H \<noteq> 0 \<and> k \<noteq> 0")
    case False
    then have "rx_loop P H u (Suc k) w = w2"
      using r s by auto
    then show ?thesis
      using t a by (intro exI [of _ ?es]) simp
  next
    case True
    then obtain es where es: "trace (rx_loop P H u k w2) = trace w2 @ es" "sent H u es = []"
      "calls_of es = map (\<lambda>c. EvCall (FlipChar c)) (arrived H u es)" "length (arrived H u es) \<le> k"
      using Suc.IH [of w2] by blast
    have "rx_loop P H u (Suc k) w = rx_loop P H u k w2"
      using r s True by simp
    then show ?thesis
      using t a es by (intro exI [of _ "?es @ es"]) (auto simp: arrived_def)
  qed
qed

lemma handler_rx_spec:
  assumes "hw_ok H"
  shows "\<exists>es. trace (wbu_tty_handler_rx P H u w) = trace w @ es \<and> sent H u es = []
    \<and> calls_of es = map (\<lambda>c. EvCall (FlipChar c)) (arrived H u es) @ (if arrived H u es = [] then [] else [EvCall FlipPush])
    \<and> length (arrived H u es) \<le> MAX_NBR_OF_BYTES_PER_IRQ"
proof -
  obtain sr w1 where s: "wbu_read_reg P u (UART_REG_SR H) w = (sr, w1)"
    by fastforce
  let ?e = "EvRead (mem_acc (memops u)) (reg_at u (UART_REG_SR H)) sr"
  have a: "arrived H u [?e] = []"
    using assms by (simp add: arrived_def hw_ok_def)
  show ?thesis
  proof (cases "sr AND UART_SR_RX_RDY H = 0")
    case True
    then show ?thesis
      using s trace_read_reg [OF s] a by (intro exI [of _ "[?e]"]) (simp add: wbu_tty_handler_rx_def)
  next
    case False
    obtain es where es: "trace (rx_loop P H u MAX_NBR_OF_BYTES_PER_IRQ w1) = trace w1 @ es" "sent H u es = []"
      "calls_of es = map (\<lambda>c. EvCall (FlipChar c)) (arrived H u es)" "0 < length (arrived H u es)"
      "length (arrived H u es) \<le> MAX_NBR_OF_BYTES_PER_IRQ"
      using rx_loop_spec [OF assms, of MAX_NBR_OF_BYTES_PER_IRQ P u w1] by auto
    then show ?thesis
      using s trace_read_reg [OF s] a False
      by (intro exI [of _ "?e # es @ [EvCall FlipPush]"])
        (auto simp: wbu_tty_handler_rx_def trace_kcall arrived_def)
  qed
qed

section \<open>Writing\<close>

lemma write_loop_spec:
  assumes "chan_inv H c" "buf_pos + count \<le> length buf"
  shows "\<exists>n c'. write_loop H buf count buf_pos c = Inr (buf_pos + n, c') \<and> chan_inv H c'
    \<and> n = min count (unat (PAGE_SIZE H) - unat (nb_bytes c))
    \<and> chan_content c' = chan_content c @ take n (drop buf_pos buf)"
  using assms
proof (induction count arbitrary: buf_pos c)
  case 0
  then show ?case by simp
next
  case (Suc count)
  show ?case
  proof (cases "nb_bytes c < PAGE_SIZE H")
    case False
    then have "unat (PAGE_SIZE H) - unat (nb_bytes c) = 0"
      by (simp add: word_le_nat_alt not_less)
    then show ?thesis
      using False Suc.prems by simp
  next
    case True
    let ?c = "chan_put H (buf ! buf_pos) c"
    have lt: "unat (nb_bytes c) < unat (PAGE_SIZE H)"
      using True by (simp add: word_less_nat_alt)
    have p: "chan_inv H ?c" "chan_content ?c = chan_content c @ [buf ! buf_pos]"
      using chan_put_spec [OF Suc.prems(1) lt] by simp_all
    have w: "unat (ptr_write c) < length (xmit_buf c)"
      using Suc.prems(1) by (simp add: chan_inv_def)
    have nb: "unat (nb_bytes ?c) = Suc (unat (nb_bytes c))"
      using arg_cong [OF p(2), of length] by simp
    obtain n c' where n: "write_loop H buf count (buf_pos + 1) ?c = Inr (buf_pos + 1 + n, c')" "chan_inv H c'"
      "n = min count (unat (PAGE_SIZE H) - unat (nb_bytes ?c))"
      "chan_content c' = chan_content ?c @ take n (drop (buf_pos + 1) buf)"
      using Suc.IH [OF p(1), of "buf_pos + 1"] Suc.prems(2) by auto
    have "take (Suc n) (drop buf_pos buf) = buf ! buf_pos # take n (drop (Suc buf_pos) buf)"
      using Suc.prems(2) by (simp flip: Cons_nth_drop_Suc)
    then show ?thesis
      using True w n p(2) nb lt Suc.prems(2)
      by (intro exI [of _ "Suc n"] exI [of _ c']) (auto simp: min_def)
  qed
qed

lemma write_spec:
  assumes "hw_ok H" "chan_inv H (channel u)" "nat count \<le> length buf"
  shows "\<exists>n u' w' es. wbu_tty_write P H buf count u w = Inr (int n, u', w') \<and> same_dev u u' \<and> chan_inv H (channel u')
    \<and> n = min (nat count) (unat (PAGE_SIZE H) - unat (nb_bytes (channel u)))
    \<and> chan_content (channel u') = chan_content (channel u) @ take n buf
    \<and> trace w' = trace w @ es \<and> sent H u es = [] \<and> calls_of es = []"
proof -
  obtain n c where n: "write_loop H buf (nat count) 0 (channel u) = Inr (n, c)" "chan_inv H c"
    "n = min (nat count) (unat (PAGE_SIZE H) - unat (nb_bytes (channel u)))"
    "chan_content c = chan_content (channel u) @ take n buf"
    using write_loop_spec [OF assms(2), of 0 "nat count" buf] assms(3) by auto
  let ?u = "u\<lparr>channel := c\<rparr>"
  let ?w = "if nb_bytes c > 0 then wbu_enable_tx_interrupts P H ?u w else w"
  obtain es where es: "trace ?w = trace w @ es" "sent H ?u es = []" "no_rx H ?u es"
    using irq_trace(1) [OF assms(1), of P ?u w] by (cases "nb_bytes c > 0") auto
  have "wbu_tty_write P H buf count u w = Inr (int n, ?u, ?w)"
    using n(1) by (simp add: wbu_tty_write_def Let_def)
  then show ?thesis
    using n es same_dev_sent [of u ?u H] no_rx_def
    by (intro exI [of _ n] exI [of _ ?u] exI [of _ ?w] exI [of _ es]) simp
qed


lemma chars_append_flip: "chars es = map (\<lambda>e. case e of EvCall (FlipChar c) \<Rightarrow> c | _ \<Rightarrow> 0)
    (filter (\<lambda>e. case e of EvCall (FlipChar c) \<Rightarrow> True | _ \<Rightarrow> False) (calls_of es))"
proof (induction es)
  case Nil
  then show ?case by simp
next
  case (Cons e es)
  show ?case
  proof (cases e)
    case (EvCall k)
    then show ?thesis
      using Cons.IH by (cases k) simp_all
  qed (use Cons.IH in simp_all)
qed

lemma chars_flips:
  assumes "calls_of es = map (\<lambda>c. EvCall (FlipChar c)) cs @ fs" "fs \<in> {[], [EvCall FlipPush], [EvCall TtyWakeup]}"
  shows "chars es = cs"
proof -
  have "filter (\<lambda>e. case e of EvCall (FlipChar c) \<Rightarrow> True | _ \<Rightarrow> False) (map (\<lambda>c. EvCall (FlipChar c)) cs)
      = map (\<lambda>c. EvCall (FlipChar c) :: uart_call event) cs"
    by (induction cs) simp_all
  then show ?thesis
    using assms by (auto simp: chars_append_flip comp_def)
qed

lemma handler_spec:
  assumes "hw_ok H" "chan_inv H (channel u)"
  shows "\<exists>ret n u' w' es. wbu_tty_handler P H u w = Inr (ret, u', w') \<and> n \<le> MAX_NBR_OF_BYTES_PER_IRQ
    \<and> same_dev u u' \<and> chan_inv H (channel u') \<and> chan_content (channel u') = drop n (chan_content (channel u))
    \<and> trace w' = trace w @ es \<and> sent H u es = take n (chan_content (channel u))
    \<and> chars es = arrived H u es \<and> length (chars es) \<le> MAX_NBR_OF_BYTES_PER_IRQ"
proof -
  obtain sr w1 where s: "wbu_read_reg P u (UART_REG_SR H) w = (sr, w1)"
    by fastforce
  let ?e = "EvRead (mem_acc (memops u)) (reg_at u (UART_REG_SR H)) sr"
  have t: "trace w1 = trace w @ [?e]"
    by (rule trace_read_reg [OF s])
  have a: "arrived H u [?e] = []"
    using assms(1) by (simp add: hw_ok_def)
  show ?thesis
  proof (cases "sr AND UART_SR_RX_RDY H = 0 \<and> nb_bytes (channel u) = 0")
    case True
    then have "wbu_tty_handler P H u w = Inr (UIRQ_NONE, u, w1)"
      using s by (simp add: wbu_tty_handler_def)
    then show ?thesis
      using t a assms(2) by (intro exI [of _ UIRQ_NONE] exI [of _ 0] exI [of _ u] exI [of _ w1] exI [of _ "[?e]"]) simp
  next
    case False
    let ?w = "wbu_tty_handler_rx P H u w1"
    obtain es where es: "trace ?w = trace w1 @ es" "sent H u es = []"
      "calls_of es = map (\<lambda>c. EvCall (FlipChar c)) (arrived H u es) @ (if arrived H u es = [] then [] else [EvCall FlipPush])"
      "length (arrived H u es) \<le> MAX_NBR_OF_BYTES_PER_IRQ"
      using handler_rx_spec [OF assms(1)] by blast
    obtain n u' w' fs where fs: "wbu_tty_handler_tx P H u ?w = Inr (u', w')" "n \<le> MAX_NBR_OF_BYTES_PER_IRQ"
      "same_dev u u'" "chan_inv H (channel u')" "chan_content (channel u') = drop n (chan_content (channel u))"
      "trace w' = trace ?w @ fs" "sent H u fs = take n (chan_content (channel u))"
      "calls_of fs = (if chan_content (channel u) \<noteq> [] \<and> chan_content (channel u') = [] then [EvCall TtyWakeup] else [])"
      "arrived H u fs = []"
      using handler_tx_spec [OF assms, of P ?w] by blast
    have "chars es = arrived H u es" "chars fs = []"
      using chars_flips [OF es(3)] chars_flips [of fs "[]"] fs(8) by (auto split: if_splits)
    moreover have "wbu_tty_handler P H u w = Inr (UIRQ_HANDLED, u', w')"
      using s fs(1) False by (auto simp: wbu_tty_handler_def)
    ultimately show ?thesis
      using t a es(1,2,4) fs(2-7,9) assms(1) [unfolded hw_ok_def]
      by (intro exI [of _ UIRQ_HANDLED] exI [of _ n] exI [of _ u'] exI [of _ w'] exI [of _ "?e # es @ fs"]) simp
  qed
qed

section \<open>A session\<close>

text \<open>Writes by the terminal and interrupts, in any order: the bytes accepted, in their order.\<close>

datatype uart_op = OpWrite "u8 list" | OpIrq

fun run_ops :: "'d platform \<Rightarrow> wbu_hw \<Rightarrow> uart_op list \<Rightarrow> wbu_desc \<Rightarrow> 'd uart_world \<Rightarrow>
    c_fault + u8 list \<times> wbu_desc \<times> 'd uart_world" where
  "run_ops P H [] u w = Inr ([], u, w)"
| "run_ops P H (OpWrite buf # ops) u w = ebind (wbu_tty_write P H buf (int (length buf)) u w) (\<lambda>(n, u, w).
     ebind (run_ops P H ops u w) (\<lambda>(acc, u, w). Inr (take (nat n) buf @ acc, u, w)))"
| "run_ops P H (OpIrq # ops) u w = ebind (wbu_tty_handler P H u w) (\<lambda>(r, u, w). run_ops P H ops u w)"

lemma run_ops_spec:
  assumes "hw_ok H" "chan_inv H (channel u)"
  shows "\<exists>acc u' w' es. run_ops P H ops u w = Inr (acc, u', w') \<and> same_dev u u' \<and> chan_inv H (channel u')
    \<and> trace w' = trace w @ es \<and> sent H u es @ chan_content (channel u') = chan_content (channel u) @ acc"
  using assms(2)
proof (induction ops arbitrary: u w)
  case Nil
  then show ?case by simp
next
  case (Cons x xs)
  have tr: "same_dev a b \<Longrightarrow> same_dev b c \<Longrightarrow> same_dev a c" for a b c
    by (simp add: same_dev_def)
  show ?case
  proof (cases x)
    case (OpWrite buf)
    obtain n v w1 es where v: "wbu_tty_write P H buf (int (length buf)) u w = Inr (int n, v, w1)" "same_dev u v"
      "chan_inv H (channel v)" "chan_content (channel v) = chan_content (channel u) @ take n buf"
      "trace w1 = trace w @ es" "sent H u es = []"
      using write_spec [OF assms(1) Cons.prems, of "int (length buf)" buf P w] by auto
    obtain acc u' w' fs where u': "run_ops P H xs v w1 = Inr (acc, u', w')" "same_dev v u'" "chan_inv H (channel u')"
      "trace w' = trace w1 @ fs" "sent H v fs @ chan_content (channel u') = chan_content (channel v) @ acc"
      using Cons.IH [OF v(3), of w1] by blast
    show ?thesis
      using OpWrite v u' tr [OF v(2) u'(2)] same_dev_sent [OF v(2), of H] by auto
  next
    case OpIrq
    obtain ret n v w1 es where v: "wbu_tty_handler P H u w = Inr (ret, v, w1)" "same_dev u v"
      "chan_inv H (channel v)" "chan_content (channel v) = drop n (chan_content (channel u))"
      "trace w1 = trace w @ es" "sent H u es = take n (chan_content (channel u))"
      using handler_spec [OF assms(1) Cons.prems, of P w] by blast
    obtain acc u' w' fs where u': "run_ops P H xs v w1 = Inr (acc, u', w')" "same_dev v u'" "chan_inv H (channel u')"
      "trace w' = trace w1 @ fs" "sent H v fs @ chan_content (channel u') = chan_content (channel v) @ acc"
      using Cons.IH [OF v(3), of w1] by blast
    have "sent H u (es @ fs) @ chan_content (channel u') = chan_content (channel u) @ acc"
      using v(4,6) u'(5) same_dev_sent [OF v(2), of H] append_take_drop_id [of n "chan_content (channel u)"]
      by (metis append_assoc sent_simps(2))
    then show ?thesis
      using OpIrq v(1,2,5) u'(1-4) tr [OF v(2) u'(2)] by auto
  qed
qed

section \<open>Opening and closing\<close>

datatype open_op = OpOpen int | OpClose

fun run_open :: "open_op list \<Rightarrow> wbu_desc \<Rightarrow> 'd uart_world \<Rightarrow> wbu_desc \<times> 'd uart_world" where
  "run_open [] u w = (u, w)"
| "run_open (OpOpen ret # ops) u w = (let (r, u, w) = wbu_tty_open ret u w in run_open ops u w)"
| "run_open (OpClose # ops) u w = (let (u, w) = wbu_tty_close u w in run_open ops u w)"

text \<open>The tty core closes what it opened: never more closes than opens.\<close>

fun balanced :: "nat \<Rightarrow> open_op list \<Rightarrow> bool" where
  "balanced n [] = True"
| "balanced n (OpOpen r # ops) = balanced (Suc n) ops"
| "balanced n (OpClose # ops) = (0 < n \<and> balanced (n - 1) ops)"

definition port_opens :: "uart_call event list \<Rightarrow> int" where
  "port_opens es = int (count_list es (EvCall TtyPortOpen)) - int (count_list es (EvCall TtyPortClose))"

definition open_inv :: "wbu_desc \<Rightarrow> 'd uart_world \<Rightarrow> bool" where
  "open_inv u w \<longleftrightarrow> port_opens (trace w) = (if open_count (channel u) = 0 then 0 else 1)"

lemma open_inv_open:
  assumes "open_inv u w" "wbu_tty_open ret u w = (r, u', w')" "unat (open_count (channel u)) < 2 ^ 32 - 1"
  shows "open_inv u' w' \<and> unat (open_count (channel u')) = unat (open_count (channel u)) + 1
    \<and> (r = ret \<and> open_count (channel u) = 0 \<or> r = - EBUSY)"
proof -
  have n: "unat (open_count (channel u) + 1) = unat (open_count (channel u)) + 1"
    using assms(3) by (simp add: unat_word_ariths)
  then have "1 < open_count (channel u) + 1 \<longleftrightarrow> open_count (channel u) \<noteq> 0" "open_count (channel u) + 1 \<noteq> 0"
    by (auto simp: word_less_nat_alt unat_eq_zero simp flip: unat_gt_0)
  then show ?thesis
    using assms(1,2) n by (auto simp: wbu_tty_open_def open_inv_def port_opens_def trace_kcall Let_def split: if_splits)
qed

lemma open_inv_close:
  assumes "open_inv u w" "wbu_tty_close u w = (u', w')" "open_count (channel u) \<noteq> 0"
  shows "open_inv u' w' \<and> unat (open_count (channel u')) = unat (open_count (channel u)) - 1"
  using assms by (auto simp: wbu_tty_close_def open_inv_def port_opens_def trace_kcall Let_def unat_minus_one split: if_splits)

lemma run_open_inv:
  assumes "open_inv u w" "balanced (unat (open_count (channel u))) ops"
    "unat (open_count (channel u)) + length ops < 2 ^ 32" "run_open ops u w = (u', w')"
  shows "open_inv u' w'"
  using assms
proof (induction ops arbitrary: u w)
  case Nil
  then show ?case by simp
next
  case (Cons x xs)
  show ?case
  proof (cases x)
    case (OpOpen ret)
    obtain r v w1 where v: "wbu_tty_open ret u w = (r, v, w1)"
      using prod_cases3 by blast
    have lt: "unat (open_count (channel u)) < 2 ^ 32 - 1"
      using Cons.prems(3) by simp
    note o1 = open_inv_open [OF Cons.prems(1) v lt]
    show ?thesis
      using Cons.IH [of v w1] Cons.prems(2-4) OpOpen v o1 by simp
  next
    case OpClose
    obtain v w1 where v: "wbu_tty_close u w = (v, w1)"
      by fastforce
    have "open_count (channel u) \<noteq> 0"
      using Cons.prems(2) OpClose by (auto simp: unat_eq_zero)
    note c1 = open_inv_close [OF Cons.prems(1) v this]
    show ?thesis
      using Cons.IH [of v w1] Cons.prems(2-4) OpClose v c1 by simp
  qed
qed

section \<open>Properties\<close>

text \<open>
  C3: in any sequence of terminal writes and interrupts no operation faults, and the bytes that
  have reached the transmit register, followed by those still in the ring, are the bytes that
  were in the ring followed by those accepted since: nothing is lost, doubled or reordered,
  across the end of the page.
\<close>

theorem wbu_fifo_order:
  assumes "hw_ok H" "chan_inv H (channel u)"
  shows "\<exists>acc u' w' es. run_ops P H ops u w = Inr (acc, u', w') \<and> chan_inv H (channel u')
    \<and> trace w' = trace w @ es \<and> sent H u es @ chan_content (channel u') = chan_content (channel u) @ acc"
  using run_ops_spec [OF assms] by blast

text \<open>
  \<open>wbu_tty_write\<close> accepts exactly as many bytes as \<open>wbu_tty_write_room\<close> promised, or all of them
  if they fit, appends them to what waits, and \<open>wbu_tty_chars_in_buffer\<close> counts them.
\<close>

theorem wbu_tty_write_accepts:
  assumes "hw_ok H" "chan_inv H (channel u)" "0 \<le> count" "count \<le> int (length buf)"
  shows "\<exists>n u' w'. wbu_tty_write P H buf count u w = Inr (n, u', w')
    \<and> n = min count (uint (wbu_tty_write_room H u))
    \<and> chan_content (channel u') = chan_content (channel u) @ take (nat n) buf
    \<and> uint (wbu_tty_chars_in_buffer u') = uint (wbu_tty_chars_in_buffer u) + n
    \<and> uint (wbu_tty_write_room H u') + uint (wbu_tty_chars_in_buffer u') = uint (PAGE_SIZE H)"
proof -
  have le: "unat (nb_bytes (channel v)) \<le> unat (PAGE_SIZE H)" if "chan_inv H (channel v)" for v
    using that by (simp add: chan_inv_def)
  have room: "unat (wbu_tty_write_room H v) = unat (PAGE_SIZE H) - unat (nb_bytes (channel v))"
    if "chan_inv H (channel v)" for v
    using le [OF that] by (simp add: wbu_tty_write_room_def unat_sub word_le_nat_alt)
  obtain n u' w' where w: "wbu_tty_write P H buf count u w = Inr (int n, u', w')" "chan_inv H (channel u')"
    "n = min (nat count) (unat (PAGE_SIZE H) - unat (nb_bytes (channel u)))"
    "chan_content (channel u') = chan_content (channel u) @ take n buf"
    using write_spec [OF assms(1,2), of count buf P w] assms(3,4) by (auto simp: nat_le_iff)
  have c: "unat (nb_bytes (channel u')) = unat (nb_bytes (channel u)) + n"
    using arg_cong [OF w(4), of length] w(3) assms(3,4) by simp
  have u: "uint x = int (unat x)" for x :: u32
    by simp
  have "int n = min count (uint (wbu_tty_write_room H u))"
    using w(3) assms(3) room [OF assms(2)] by (simp only: u)
  moreover have "uint (wbu_tty_chars_in_buffer u') = uint (wbu_tty_chars_in_buffer u) + int n"
    using c by (simp only: u wbu_tty_chars_in_buffer_def)
  moreover have "uint (wbu_tty_write_room H u') + uint (wbu_tty_chars_in_buffer u') = uint (PAGE_SIZE H)"
    using room [OF w(2)] le [OF w(2)] by (simp only: u wbu_tty_chars_in_buffer_def)
  ultimately show ?thesis
    using w(1,4) by (metis nat_int)
qed

text \<open>
  One interrupt sends at most 32 bytes, the oldest ones in order, and delivers at most 32
  received bytes, each the low byte of a read of the receive register, in order; it never
  faults and keeps the ring.
\<close>

theorem wbu_tty_handler_moves:
  assumes "hw_ok H" "chan_inv H (channel u)"
  shows "\<exists>ret n u' w' es. wbu_tty_handler P H u w = Inr (ret, u', w') \<and> n \<le> MAX_NBR_OF_BYTES_PER_IRQ
    \<and> chan_inv H (channel u') \<and> chan_content (channel u') = drop n (chan_content (channel u))
    \<and> trace w' = trace w @ es \<and> sent H u es = take n (chan_content (channel u))
    \<and> chars es = arrived H u es \<and> length (chars es) \<le> MAX_NBR_OF_BYTES_PER_IRQ"
  using handler_spec [OF assms] by blast

text \<open>
  Over any balanced sequence of opens and closes, refused opens included, the tty port is
  open exactly while the open count is not zero, and never opened twice.
\<close>

theorem wbu_open_close_balanced:
  assumes "open_inv u w" "balanced (unat (open_count (channel u))) ops"
    "unat (open_count (channel u)) + length ops < 2 ^ 32" "run_open ops u w = (u', w')"
  shows "port_opens (trace w') = (if open_count (channel u') = 0 then 0 else 1)"
  using run_open_inv [OF assms] by (simp add: open_inv_def)

text \<open>
  Without a transmit page, which \<open>wbu_tty_port_init\<close> does not check for, the first byte
  written goes through a null pointer.
\<close>

theorem wbu_tty_write_no_page:
  assumes "xmit_buf (channel u) = []" "nb_bytes (channel u) < PAGE_SIZE H" "0 < count" "buf \<noteq> []"
  shows "wbu_tty_write P H buf count u w = Inl BadPointer"
proof -
  obtain k where "nat count = Suc k"
    using assms(3) by (metis gr0_implies_Suc zero_less_nat_eq)
  then show ?thesis
    using assms by (simp add: wbu_tty_write_def)
qed

section \<open>Witnesses\<close>

definition demo_hw :: wbu_hw where
  "demo_hw = \<lparr>UART_REG_SR = 0, UART_REG_CR = 0x18, UART_REG_TDR = 8, UART_REG_RDR = 12, UART_SR_TX_BUSY = 1,
     UART_SR_RX_RDY = 2, UART_SR_PHYSICAL_UART = 0x1000000, UART_CR_RX_INTERRUPT_ENABLE = 0x100,
     UART_CR_TX_INTERRUPT_ENABLE = 0x200, PAGE_SIZE = 4096, char_signed = True\<rparr>"

definition demo_uart :: wbu_desc where
  "demo_uart = \<lparr>base_addr = 0x2000, memops = MemLe, channel = \<lparr>open_count = 0, nb_bytes = 0, ptr_read = 4095,
     ptr_write = 4095, xmit_buf = replicate 4096 0\<rparr>\<rparr>"

definition idle_uart :: "unit platform" where
  "idle_uart = \<lparr>p_read = (\<lambda>c a d. (0, d)), p_write = (\<lambda>c a v d. d), p_jiffies = (\<lambda>d. (0, d)), p_msecs = of_nat\<rparr>"

definition uart_w :: "unit uart_world" where
  "uart_w = \<lparr>dev = (), trace = []\<rparr>"

lemma demo_uart_ok: "hw_ok demo_hw" "chan_inv demo_hw (channel demo_uart)" "chan_content (channel demo_uart) = []"
  by (simp_all add: hw_ok_def demo_hw_def demo_uart_def chan_inv_def chan_content_def)

lemma wbu_fifo_order_witness:
  "\<exists>acc u' w'. run_ops idle_uart demo_hw [OpWrite [1, 2, 0xFF], OpIrq, OpWrite [4]] demo_uart uart_w = Inr (acc, u', w')
    \<and> chan_inv demo_hw (channel u')"
  using wbu_fifo_order [OF demo_uart_ok(1,2), of idle_uart "[OpWrite [1, 2, 0xFF], OpIrq, OpWrite [4]]" uart_w] by blast

lemma wbu_tty_write_accepts_witness:
  "\<exists>u' w'. wbu_tty_write idle_uart demo_hw [1, 2, 0xFF] 3 demo_uart uart_w = Inr (3, u', w')
    \<and> chan_content (channel u') = [1, 2, 0xFF]"
proof -
  have "uint (wbu_tty_write_room demo_hw demo_uart) = 4096"
    by (simp add: wbu_tty_write_room_def demo_hw_def demo_uart_def)
  then show ?thesis
    using wbu_tty_write_accepts [OF demo_uart_ok(1,2), of 3 "[1, 2, 0xFF]" idle_uart uart_w] demo_uart_ok(3) by auto
qed

lemma wbu_tty_handler_moves_witness:
  "\<exists>ret u' w'. wbu_tty_handler idle_uart demo_hw demo_uart uart_w = Inr (ret, u', w') \<and> chan_content (channel u') = []"
  using wbu_tty_handler_moves [OF demo_uart_ok(1,2), of idle_uart uart_w] demo_uart_ok(3) by auto

lemma wbu_open_close_balanced_witness:
  "\<exists>u' w'. run_open [OpOpen 0, OpOpen 0, OpClose, OpClose] demo_uart uart_w = (u', w') \<and> port_opens (trace w') = 0"
proof -
  obtain u' w' where r: "run_open [OpOpen 0, OpOpen 0, OpClose, OpClose] demo_uart uart_w = (u', w')"
    by fastforce
  have "open_count (channel u') = 0"
    using r by (auto simp: wbu_tty_open_def wbu_tty_close_def demo_uart_def)
  moreover have "open_inv demo_uart uart_w"
    by (simp add: open_inv_def port_opens_def uart_w_def demo_uart_def)
  ultimately show ?thesis
    using wbu_open_close_balanced [OF _ _ _ r] r by (simp add: demo_uart_def)
qed

lemma wbu_tty_write_no_page_witness:
  "wbu_tty_write idle_uart demo_hw [7] 1 (demo_uart\<lparr>channel := (channel demo_uart)\<lparr>xmit_buf := []\<rparr>\<rparr>) uart_w = Inl BadPointer"
  by (rule wbu_tty_write_no_page) (simp_all add: demo_uart_def demo_hw_def)

end
