(* ===== verification/Uart_Hw.thy ===== *)
theory Uart_Hw
  imports Uart_Tty
begin

text \<open>
  The UART behind the registers (\<open>wb_simple_uart.vhd\<close> with its FIFOs, and the register slave
  \<open>simple_uart_wb.vhd\<close>), one step per bus access, with whatever happens on the line in between. With
  it the driver's promises are about the line: the bytes that leave are the bytes written to the
  terminal, the bytes the terminal gets are the bytes that arrived, and the interrupts the core
  raises are enough to empty the ring.
\<close>

unbundle bit_operations_syntax

section \<open>The core\<close>

text \<open>
  \<open>c_cr\<close> has the two interrupt enables, the only bits of the control register that stay. \<open>c_rdr\<close> is the
  byte fetched from the receive FIFO, valid while \<open>c_rdy\<close> is set. \<open>c_undef\<close> is what the slave drives on
  bits it leaves undefined. \<open>c_wire\<close> and \<open>c_stored\<close> keep the bytes that were transmitted and those
  the receive FIFO took; \<open>c_sched\<close> is what happens on the line before each of the next accesses.
\<close>

datatype line_event = RxByte u8 | RxNext | TxNext

record uart_core =
  c_cr :: u32
  c_txf :: "u8 list"
  c_txsize :: nat
  c_rxf :: "u8 list"
  c_rxsize :: nat
  c_rdr :: u8
  c_rdy :: bool
  c_ovf :: bool
  c_undef :: u32
  c_wire :: "u8 list"
  c_stored :: "u8 list"
  c_sched :: "line_event list list"

definition tx_full :: "uart_core \<Rightarrow> bool" where
  "tx_full c \<longleftrightarrow> c_txsize c \<le> length (c_txf c)"

definition rx_full :: "uart_core \<Rightarrow> bool" where
  "rx_full c \<longleftrightarrow> c_rxsize c \<le> length (c_rxf c)"

text \<open>A byte has been received; the state machine of the receive FIFO fetches one; that of the transmit FIFO starts one.\<close>

fun line_step :: "line_event \<Rightarrow> uart_core \<Rightarrow> uart_core" where
  "line_step (RxByte b) c =
     (if rx_full c then c\<lparr>c_ovf := True\<rparr>
      else c\<lparr>c_rxf := c_rxf c @ [b], c_stored := c_stored c @ [b], c_ovf := (c_ovf c \<or> c_rxsize c \<le> Suc (length (c_rxf c)))\<rparr>)"
| "line_step RxNext c =
     (if c_rdy c then c else (case c_rxf c of [] \<Rightarrow> c | b # bs \<Rightarrow> c\<lparr>c_rxf := bs, c_rdr := b, c_rdy := True\<rparr>))"
| "line_step TxNext c =
     (case c_txf c of [] \<Rightarrow> c | b # bs \<Rightarrow> c\<lparr>c_txf := bs, c_wire := c_wire c @ [b]\<rparr>)"

definition line_run :: "line_event list \<Rightarrow> uart_core \<Rightarrow> uart_core" where
  "line_run evs c = fold line_step evs c"

definition between :: "uart_core \<Rightarrow> uart_core" where
  "between c = (case c_sched c of [] \<Rightarrow> c | evs # sched \<Rightarrow> line_run evs (c\<lparr>c_sched := sched\<rparr>))"

text \<open>The count of the receive FIFO, which the driver does not read, is left undefined.\<close>

definition core_sr :: "uart_core \<Rightarrow> u32" where
  "core_sr c = (if tx_full c then 1 else 0) OR (if c_rdy c then 2 else 0) OR 0xC OR (if c_rdy c then 0x10 else 0)
     OR (if c_txf c = [] then 0x20 else 0) OR (if tx_full c then 0x40 else 0) OR (if c_ovf c then 0x80 else 0)
     OR 0x1000000 OR (c_undef c AND 0xFCFFFF00)"

text \<open>A read of the receive register acknowledges its byte; so does a write, which the slave does not tell apart.\<close>

definition core_read :: "addr \<Rightarrow> uart_core \<Rightarrow> u32 \<times> uart_core" where
  "core_read off c =
     (if off = 0 then (core_sr c, c)
      else if off = 0xC then (ucast (c_rdr c) OR (c_undef c AND NOT 0xFF), c\<lparr>c_rdy := False\<rparr>)
      else if off = 0x18 then (c_cr c OR (c_undef c AND NOT 0x303), c)
      else (c_undef c, c))"

definition core_write :: "addr \<Rightarrow> u32 \<Rightarrow> uart_core \<Rightarrow> uart_core" where
  "core_write off v c =
     (if off = 8 then (if tx_full c then c else c\<lparr>c_txf := c_txf c @ [ucast v]\<rparr>)
      else if off = 0xC then c\<lparr>c_rdy := False\<rparr>
      else if off = 0x18 then
        (let c = c\<lparr>c_cr := v AND 0x300\<rparr>;
             c = (if bit v 0 then c\<lparr>c_rxf := [], c_rdy := False, c_ovf := False\<rparr> else c)
         in if bit v 1 then c\<lparr>c_txf := []\<rparr> else c)
      else c)"

definition int_o :: "uart_core \<Rightarrow> bool" where
  "int_o c \<longleftrightarrow> c_rdy c \<and> bit (c_cr c) 8 \<or> \<not> tx_full c \<and> bit (c_cr c) 9"

definition uart_at :: "io_acc \<Rightarrow> addr \<Rightarrow> uart_core platform" where
  "uart_at bus base = \<lparr>
     p_read = (\<lambda>c a h. let (x, h) = core_read (a - base) (between h) in (on_bus bus c x, h)),
     p_write = (\<lambda>c a v h. core_write (a - base) (on_bus bus c v) (between h)),
     p_jiffies = (\<lambda>h. (0, h)),
     p_msecs = (\<lambda>n. of_nat n)\<rparr>"

text \<open>The layout \<open>simple_uart_wb.wb\<close> gives the registers, whatever the page and the signedness of \<open>char\<close>.\<close>

definition wb_layout :: "wbu_hw \<Rightarrow> bool" where
  "wb_layout H \<longleftrightarrow> UART_REG_SR H = 0 \<and> UART_REG_CR H = 0x18 \<and> UART_REG_TDR H = 8 \<and> UART_REG_RDR H = 0xC
     \<and> UART_SR_TX_BUSY H = 1 \<and> UART_SR_RX_RDY H = 2 \<and> UART_SR_PHYSICAL_UART H = 0x1000000
     \<and> UART_CR_RX_INTERRUPT_ENABLE H = 0x100 \<and> UART_CR_TX_INTERRUPT_ENABLE H = 0x200"

lemma wb_layout_hw_ok: "wb_layout H \<Longrightarrow> hw_ok H"
  by (simp add: wb_layout_def hw_ok_def)

section \<open>What moves through the core\<close>

text \<open>Received and not yet read, oldest first.\<close>

definition pending :: "uart_core \<Rightarrow> u8 list" where
  "pending c = (if c_rdy c then [c_rdr c] else []) @ c_rxf c"

text \<open>
  The core has taken the bytes \<open>s\<close> to transmit and given the bytes \<open>d\<close>: nothing of what it has taken
  or received is lost, doubled or reordered.
\<close>

definition moved :: "uart_core \<Rightarrow> uart_core \<Rightarrow> u8 list \<Rightarrow> u8 list \<Rightarrow> bool" where
  "moved c c' s d \<longleftrightarrow> c_wire c' @ c_txf c' = c_wire c @ c_txf c @ s
     \<and> (\<exists>new. d @ pending c' = pending c @ new \<and> c_stored c' = c_stored c @ new)
     \<and> c_txsize c' = c_txsize c \<and> c_rxsize c' = c_rxsize c
     \<and> (length (c_txf c) \<le> c_txsize c \<longrightarrow> length (c_txf c') \<le> c_txsize c)"

lemma moved_refl [simp]: "moved c c [] []"
  by (simp add: moved_def)

lemma moved_trans:
  assumes "moved a b s d" "moved b c t e"
  shows "moved a c (s @ t) (d @ e)"
proof -
  obtain m n where "d @ pending b = pending a @ m" "c_stored b = c_stored a @ m"
    "e @ pending c = pending b @ n" "c_stored c = c_stored b @ n"
    using assms by (auto simp: moved_def)
  then have "(d @ e) @ pending c = pending a @ (m @ n)" "c_stored c = c_stored a @ (m @ n)"
    by (metis append_assoc)+
  moreover have "c_wire c @ c_txf c = c_wire a @ c_txf a @ (s @ t)"
    using assms by (simp add: moved_def)
  ultimately show ?thesis
    using assms by (auto simp: moved_def)
qed

text \<open>Only the line has been at work: what was ready stays ready, what had room has room.\<close>

definition idle :: "uart_core \<Rightarrow> uart_core \<Rightarrow> bool" where
  "idle c c' \<longleftrightarrow> moved c c' [] [] \<and> c_cr c' = c_cr c \<and> (c_rdy c \<longrightarrow> c_rdy c') \<and> (\<not> tx_full c \<longrightarrow> \<not> tx_full c')"

lemma idle_refl [simp]: "idle c c"
  by (simp add: idle_def)

lemma idle_trans: "idle a b \<Longrightarrow> idle b c \<Longrightarrow> idle a c"
  using moved_trans [of a b "[]" "[]" c "[]" "[]"] by (auto simp: idle_def)

lemma idle_step: "idle c (line_step e c)"
  by (cases e) (auto simp: idle_def moved_def pending_def tx_full_def split: list.splits)

lemma idle_run: "idle c (line_run evs c)"
proof (induction evs arbitrary: c)
  case Nil
  then show ?case by (simp add: line_run_def)
next
  case (Cons e evs)
  then show ?case
    using idle_trans [OF idle_step Cons.IH [of "line_step e c"]] by (simp add: line_run_def)
qed

lemma idle_between: "idle c (between c)"
proof (cases "c_sched c")
  case (Cons evs sched)
  have "idle c (c\<lparr>c_sched := sched\<rparr>)"
    by (simp add: idle_def moved_def pending_def tx_full_def)
  then show ?thesis
    using Cons idle_trans [OF _ idle_run] by (simp add: between_def)
qed (simp add: between_def)

section \<open>The driver on the core\<close>

definition uart_on :: "wbu_desc \<Rightarrow> uart_core platform" where
  "uart_on u = uart_at (mem_acc (memops u)) (base_addr u)"

lemma uart_on_channel [simp]: "uart_on (u\<lparr>channel := c\<rparr>) = uart_on u"
  by (simp add: uart_on_def)

lemma uart_on_same: "same_dev u v \<Longrightarrow> uart_on v = uart_on u"
  by (simp add: uart_on_def same_dev_def)

lemma read_on:
  "wbu_read_reg (uart_on u) u r w = (let (x, h) = core_read (ucast r) (between (dev w))
     in (x, w\<lparr>dev := h, trace := trace w @ [EvRead (mem_acc (memops u)) (reg_at u r) x]\<rparr>))"
  by (simp add: wbu_read_reg_def ioread_def uart_on_def uart_at_def on_bus_def reg_at_def Let_def split: prod.splits)

lemma write_on:
  "wbu_write_reg (uart_on u) u x r w = w\<lparr>dev := core_write (ucast r) x (between (dev w)),
     trace := trace w @ [EvWrite (mem_acc (memops u)) (reg_at u r) x]\<rparr>"
  by (simp add: wbu_write_reg_def iowrite_def uart_on_def uart_at_def on_bus_def reg_at_def)

text \<open>What the trace shows as sent and delivered is what the core has taken and given.\<close>

definition flows :: "wbu_hw \<Rightarrow> wbu_desc \<Rightarrow> uart_core uart_world \<Rightarrow> uart_core uart_world \<Rightarrow> bool" where
  "flows H u w w' \<longleftrightarrow> (\<exists>es. trace w' = trace w @ es \<and> moved (dev w) (dev w') (sent H u es) (chars es))"

lemma flows_refl [simp]: "flows H u w w"
  by (simp add: flows_def)

lemma flows_trans:
  assumes "flows H u a b" "flows H u b c"
  shows "flows H u a c"
proof -
  obtain es fs where e: "trace b = trace a @ es" "moved (dev a) (dev b) (sent H u es) (chars es)"
    "trace c = trace b @ fs" "moved (dev b) (dev c) (sent H u fs) (chars fs)"
    using assms by (auto simp: flows_def)
  show ?thesis
    using e(1,3) moved_trans [OF e(2,4)] unfolding flows_def by (intro exI [of _ "es @ fs"]) simp
qed

lemma flows_same: "same_dev u v \<Longrightarrow> flows H v = flows H u"
  by (simp add: fun_eq_iff flows_def same_dev_sent)

lemma flows_kcall:
  assumes "flows H u a b" "\<nexists>c. k = FlipChar c"
  shows "flows H u a (kcall k b)"
  using assms by (auto simp: flows_def trace_kcall dev_kcall split: uart_call.splits)

text \<open>The status register shows what matters after the line has been at work.\<close>

lemma sr_bits: "core_sr c AND 1 \<noteq> 0 \<longleftrightarrow> tx_full c" "core_sr c AND 2 \<noteq> 0 \<longleftrightarrow> c_rdy c"
proof -
  have "core_sr c AND 1 \<noteq> 0 \<longleftrightarrow> bit (core_sr c) 0"
    using and_exp_eq_0_iff_not_bit [of "core_sr c" 0] by simp
  also have "\<dots> \<longleftrightarrow> tx_full c"
    unfolding core_sr_def by (simp add: bit_or_iff bit_and_iff bit_numeral_rec)
  finally show "core_sr c AND 1 \<noteq> 0 \<longleftrightarrow> tx_full c" .
  have "core_sr c AND 2 \<noteq> 0 \<longleftrightarrow> bit (core_sr c) 1"
    using and_exp_eq_0_iff_not_bit [of "core_sr c" 1] by simp
  also have "\<dots> \<longleftrightarrow> c_rdy c"
    unfolding core_sr_def by (simp add: bit_or_iff bit_and_iff bit_numeral_rec)
  finally show "core_sr c AND 2 \<noteq> 0 \<longleftrightarrow> c_rdy c" .
qed

lemma sr_read:
  assumes "wb_layout H" "wbu_read_reg (uart_on u) u (UART_REG_SR H) w = (x, w')"
  shows "flows H u w w'" "idle (dev w) (dev w')" "x AND UART_SR_TX_BUSY H \<noteq> 0 \<longleftrightarrow> tx_full (dev w')"
    "x AND UART_SR_RX_RDY H \<noteq> 0 \<longleftrightarrow> c_rdy (dev w')"
proof -
  have r: "x = core_sr (between (dev w))" "dev w' = between (dev w)"
    "trace w' = trace w @ [EvRead (mem_acc (memops u)) (reg_at u 0) x]"
    using assms by (auto simp: read_on wb_layout_def core_read_def)
  show "idle (dev w) (dev w')"
    using idle_between r(2) by simp
  then show "flows H u w w'"
    using r(3) by (simp add: flows_def idle_def)
  show "x AND UART_SR_TX_BUSY H \<noteq> 0 \<longleftrightarrow> tx_full (dev w')" "x AND UART_SR_RX_RDY H \<noteq> 0 \<longleftrightarrow> c_rdy (dev w')"
    using assms(1) r(1,2) sr_bits by (simp_all add: wb_layout_def)
qed

lemma rdr_read:
  assumes "wb_layout H" "wbu_read_reg (uart_on u) u (UART_REG_RDR H) w = (x, w')" "c_rdy (dev w)"
  shows "flows H u w (kcall (FlipChar (ucast (x AND 0xFF))) w')" "c_cr (dev w') = c_cr (dev w)"
    "\<not> tx_full (dev w) \<longrightarrow> \<not> tx_full (dev w')"
proof -
  let ?h = "between (dev w)"
  note i = idle_between [of "dev w", unfolded idle_def]
  have r: "x = ucast (c_rdr ?h) OR (c_undef ?h AND NOT 0xFF)" "dev w' = ?h\<lparr>c_rdy := False\<rparr>"
    "trace w' = trace w @ [EvRead (mem_acc (memops u)) (reg_at u 0xC) x]"
    using assms(1,2) by (auto simp: read_on wb_layout_def core_read_def)
  have x: "ucast x = c_rdr ?h"
    unfolding r(1) by (rule bit_word_eqI) (auto simp: bit_simps less_8_cases bit_numeral_rec)
  have "moved ?h (?h\<lparr>c_rdy := False\<rparr>) [] [c_rdr ?h]"
    using assms(3) i by (simp add: moved_def pending_def)
  then have "moved (dev w) (dev w') [] [c_rdr ?h]"
    using moved_trans [of "dev w" ?h "[]" "[]"] i r(2) by fastforce
  then show "flows H u w (kcall (FlipChar (ucast (x AND 0xFF))) w')"
    using r(3) x by (simp add: flows_def trace_kcall dev_kcall)
  show "c_cr (dev w') = c_cr (dev w)" "\<not> tx_full (dev w) \<longrightarrow> \<not> tx_full (dev w')"
    using i r(2) by (simp_all add: tx_full_def)
qed

lemma tdr_write:
  assumes "wb_layout H" "\<not> tx_full (dev w)" "w' = wbu_write_reg (uart_on u) u x (UART_REG_TDR H) w"
  shows "flows H u w w'" "c_cr (dev w') = c_cr (dev w)"
proof -
  let ?h = "between (dev w)"
  note i = idle_between [of "dev w", unfolded idle_def]
  have r: "dev w' = ?h\<lparr>c_txf := c_txf ?h @ [ucast x]\<rparr>"
    "trace w' = trace w @ [EvWrite (mem_acc (memops u)) (reg_at u 8) x]"
    using assms i by (auto simp: write_on wb_layout_def core_write_def)
  have "\<not> tx_full ?h"
    using i assms(2) by simp
  then have "moved ?h (dev w') [ucast x] []"
    using r(1) by (simp add: moved_def pending_def tx_full_def)
  then have "moved (dev w) (dev w') [ucast x] []"
    using moved_trans [of "dev w" ?h "[]" "[]"] i by fastforce
  then show "flows H u w w'"
    using r(2) assms(1) by (simp add: flows_def wb_layout_def)
  show "c_cr (dev w') = c_cr (dev w)"
    using i r(1) by simp
qed

text \<open>The control register is read and written back; the purge bits read as zero, so nothing is purged.\<close>

lemma core_cr_read:
  assumes "wb_layout H" "wbu_read_reg (uart_on u) u (UART_REG_CR H) w = (x, w')"
  shows "flows H u w w'" "c_cr (dev w') = c_cr (dev w)"
    "x = c_cr (dev w) OR (c_undef (dev w') AND NOT 0x303)"
  using assms idle_between [of "dev w"]
  by (auto simp: read_on wb_layout_def core_read_def flows_def idle_def)

lemma core_cr_write:
  assumes "wb_layout H" "\<not> bit x 0" "\<not> bit x 1" "w' = wbu_write_reg (uart_on u) u x (UART_REG_CR H) w"
  shows "flows H u w w'" "c_cr (dev w') = x AND 0x300"
proof -
  let ?h = "between (dev w)"
  note i = idle_between [of "dev w", unfolded idle_def]
  have r: "dev w' = ?h\<lparr>c_cr := x AND 0x300\<rparr>" "trace w' = trace w @ [EvWrite (mem_acc (memops u)) (reg_at u 0x18) x]"
    using assms by (simp_all add: write_on wb_layout_def core_write_def)
  have "moved ?h (dev w') [] []"
    using r(1) by (simp add: moved_def pending_def)
  then have "moved (dev w) (dev w') [] []"
    using moved_trans [of "dev w" ?h "[]" "[]"] i by fastforce
  then show "flows H u w w'"
    using r(2) assms(1) by (simp add: flows_def wb_layout_def)
  show "c_cr (dev w') = x AND 0x300"
    using r(1) by simp
qed

definition cr_ok :: "uart_core uart_world \<Rightarrow> bool" where
  "cr_ok w \<longleftrightarrow> c_cr (dev w) AND NOT 0x300 = 0"

lemma cr_masks:
  "bit (0x100 :: u32) k \<longleftrightarrow> k = 8" "bit (0x200 :: u32) k \<longleftrightarrow> k = 9"
  "bit (0x300 :: u32) k \<longleftrightarrow> k \<in> {8, 9}" "bit (0x303 :: u32) k \<longleftrightarrow> k \<in> {0, 1, 8, 9}"
proof -
  have e: "(0x100 :: u32) = push_bit 8 1" "(0x200 :: u32) = push_bit 9 1" "(0x300 :: u32) = push_bit 8 1 OR push_bit 9 1"
    "(0x303 :: u32) = push_bit 0 1 OR push_bit 1 1 OR push_bit 8 1 OR push_bit 9 1"
    by simp_all
  show "bit (0x100 :: u32) k \<longleftrightarrow> k = 8" "bit (0x200 :: u32) k \<longleftrightarrow> k = 9"
    "bit (0x300 :: u32) k \<longleftrightarrow> k \<in> {8, 9}" "bit (0x303 :: u32) k \<longleftrightarrow> k \<in> {0, 1, 8, 9}"
    unfolding e by (auto simp: bit_simps simp del: push_bit_of_1)
qed

lemma cr_ok_bits: "cr_ok w \<Longrightarrow> bit (c_cr (dev w)) k \<Longrightarrow> k = 8 \<or> k = 9"
proof -
  assume a: "cr_ok w" "bit (c_cr (dev w)) k"
  then have "\<not> bit (c_cr (dev w) AND NOT 0x300) k" "k < 32"
    using bit_imp_le_length [OF a(2)] by (simp_all add: cr_ok_def)
  then show ?thesis
    using a(2) by (auto simp: bit_simps cr_masks simp del: bit_numeral_word_iff)
qed

text \<open>One enable is set or cleared.\<close>

lemma cr_set:
  assumes "wb_layout H" "cr_ok w" "m = 0x100 \<or> m = 0x200"
    "wbu_read_reg (uart_on u) u (UART_REG_CR H) w = (x, w1)"
    "w' = wbu_write_reg (uart_on u) u (if on then x OR m else x AND NOT m) (UART_REG_CR H) w1"
  shows "flows H u w w'" "c_cr (dev w') = (if on then c_cr (dev w) OR m else c_cr (dev w) AND NOT m)"
proof -
  let ?v = "if on then x OR m else x AND NOT m" and ?c = "c_cr (dev w)"
  note r = core_cr_read [OF assms(1,4)]
  have c: "bit ?c k \<Longrightarrow> k = 8 \<or> k = 9" for k
    by (rule cr_ok_bits [OF assms(2)])
  have x: "bit x k \<longleftrightarrow> bit ?c k \<or> bit (c_undef (dev w1)) k \<and> k \<notin> {0, 1, 8, 9} \<and> k < 32" for k
    unfolding r(3) by (auto simp: bit_simps cr_masks simp del: bit_numeral_word_iff)
  have m: "bit m k \<longleftrightarrow> (if m = 0x100 then k = 8 else k = 9)" for k
    using assms(3) by (auto simp: cr_masks simp del: bit_numeral_word_iff)
  have p: "\<not> bit ?v 0" "\<not> bit ?v 1"
    using c [of 0] c [of 1] by (auto simp: bit_simps x m)
  note w = core_cr_write [OF assms(1) p assms(5)]
  show "flows H u w w'"
    by (rule flows_trans [OF r(1) w(1)])
  have "?v AND 0x300 = (if on then ?c OR m else ?c AND NOT m)"
    by (rule bit_word_eqI) (use c in \<open>auto simp: bit_simps x m cr_masks simp del: bit_numeral_word_iff\<close>)
  then show "c_cr (dev w') = (if on then ?c OR m else ?c AND NOT m)"
    using w(2) by simp
qed

lemma irq_enables:
  assumes "wb_layout H" "cr_ok w"
  shows "flows H u w (wbu_enable_tx_interrupts (uart_on u) H u w)"
    "c_cr (dev (wbu_enable_tx_interrupts (uart_on u) H u w)) = c_cr (dev w) OR 0x200"
    "flows H u w (wbu_disable_tx_interrupts (uart_on u) H u w)"
    "c_cr (dev (wbu_disable_tx_interrupts (uart_on u) H u w)) = c_cr (dev w) AND NOT 0x200"
    "flows H u w (wbu_enable_rx_interrupts (uart_on u) H u w)"
    "c_cr (dev (wbu_enable_rx_interrupts (uart_on u) H u w)) = c_cr (dev w) OR 0x100"
    "flows H u w (wbu_disable_rx_interrupts (uart_on u) H u w)"
    "c_cr (dev (wbu_disable_rx_interrupts (uart_on u) H u w)) = c_cr (dev w) AND NOT 0x100"
proof -
  obtain x w1 where r: "wbu_read_reg (uart_on u) u (UART_REG_CR H) w = (x, w1)"
    by fastforce
  have m: "UART_CR_TX_INTERRUPT_ENABLE H = 0x200" "UART_CR_RX_INTERRUPT_ENABLE H = 0x100"
    using assms(1) by (simp_all add: wb_layout_def)
  have r': "flows H u w (wbu_write_reg (uart_on u) u (if on then x OR m else x AND NOT m) (UART_REG_CR H) w1)
      \<and> c_cr (dev (wbu_write_reg (uart_on u) u (if on then x OR m else x AND NOT m) (UART_REG_CR H) w1)) =
        (if on then c_cr (dev w) OR m else c_cr (dev w) AND NOT m)" if "m = 0x100 \<or> m = 0x200" for on m
    using cr_set [OF assms that r refl] by blast
  note tx = r' [of "0x200"] and rx = r' [of "0x100"]
  show "flows H u w (wbu_enable_tx_interrupts (uart_on u) H u w)"
    "c_cr (dev (wbu_enable_tx_interrupts (uart_on u) H u w)) = c_cr (dev w) OR 0x200"
    using tx [of True] r m by (simp_all add: wbu_enable_tx_interrupts_def)
  show "flows H u w (wbu_disable_tx_interrupts (uart_on u) H u w)"
    "c_cr (dev (wbu_disable_tx_interrupts (uart_on u) H u w)) = c_cr (dev w) AND NOT 0x200"
    using tx [of False] r m by (simp_all add: wbu_disable_tx_interrupts_def)
  show "flows H u w (wbu_enable_rx_interrupts (uart_on u) H u w)"
    "c_cr (dev (wbu_enable_rx_interrupts (uart_on u) H u w)) = c_cr (dev w) OR 0x100"
    using rx [of True] r m by (simp_all add: wbu_enable_rx_interrupts_def)
  show "flows H u w (wbu_disable_rx_interrupts (uart_on u) H u w)"
    "c_cr (dev (wbu_disable_rx_interrupts (uart_on u) H u w)) = c_cr (dev w) AND NOT 0x100"
    using rx [of False] r m by (simp_all add: wbu_disable_rx_interrupts_def)
qed

lemma cr_ok_keeps:
  assumes "cr_ok w" "c_cr (dev w') = c_cr (dev w) AND NOT m \<or> c_cr (dev w') = c_cr (dev w) OR m" "m = 0x100 \<or> m = 0x200"
  shows "cr_ok w'"
proof -
  have m: "\<not> bit m k" and c: "\<not> bit (c_cr (dev w)) k" if "k \<noteq> 8" "k \<noteq> 9" for k
    using assms(3) that cr_ok_bits [OF assms(1), of k] by (auto simp: cr_masks simp del: bit_numeral_word_iff)
  show ?thesis
    using assms(2) unfolding cr_ok_def
    by (auto intro!: bit_word_eqI simp: bit_simps cr_masks m c simp del: bit_numeral_word_iff)
qed

section \<open>Sending and receiving\<close>

lemma tx_send_on:
  assumes "wb_layout H" "wbu_tty_tx_send (uart_on u) H u c w = (ret, w')"
  shows "flows H u w w'" "c_cr (dev w') = c_cr (dev w)" "\<not> tx_full (dev w) \<Longrightarrow> ret = 0"
proof -
  obtain x w1 where r: "wbu_read_reg (uart_on u) u (UART_REG_SR H) w = (x, w1)"
    by fastforce
  note s = sr_read [OF assms(1) r]
  have cr: "c_cr (dev w1) = c_cr (dev w)" "\<not> tx_full (dev w) \<Longrightarrow> \<not> tx_full (dev w1)"
    using s(2) by (simp_all add: idle_def)
  consider (busy) "tx_full (dev w1)" "ret = - EBUSY" "w' = w1"
    | (free) "\<not> tx_full (dev w1)" "ret = 0" "w' = wbu_write_reg (uart_on u) u (char_val H c) (UART_REG_TDR H) w1"
    using assms(2) r s(3) by (auto simp: wbu_tty_tx_send_def split: if_splits)
  then show "flows H u w w'" "c_cr (dev w') = c_cr (dev w)" "\<not> tx_full (dev w) \<Longrightarrow> ret = 0"
    using s(1) cr flows_trans [OF s(1)] tdr_write [OF assms(1) _ refl, of w1 u "char_val H c"]
    by (cases; simp)+
qed

lemma tx_loop_on:
  assumes "wb_layout H" "tx_loop (uart_on u) H k u w = Inr (u', w')"
  shows "flows H u w w' \<and> c_cr (dev w') = c_cr (dev w)"
  using assms(2)
proof (induction k arbitrary: u w)
  case 0
  then show ?case by simp
next
  case (Suc k)
  obtain c where c: "chan_peek (channel u) = Inr c"
    using Suc.prems by (cases "chan_peek (channel u)") auto
  obtain ret w1 where s: "wbu_tty_tx_send (uart_on u) H u c w = (ret, w1)"
    by fastforce
  note t = tx_send_on [OF assms(1) s]
  let ?u = "u\<lparr>channel := chan_pop H (channel u)\<rparr>"
  consider (stop) "w' = w1" | (more) "tx_loop (uart_on ?u) H k ?u w1 = Inr (u', w')"
    using Suc.prems c s by (auto simp: Let_def split: if_splits)
  then show ?case
  proof cases
    case stop
    then show ?thesis
      using t(1,2) by simp
  next
    case more
    then show ?thesis
      using Suc.IH [OF more] t(1,2) flows_trans [OF t(1), of w'] flows_same [of u ?u H] by simp
  qed
qed

lemma handler_tx_on:
  assumes "wb_layout H" "cr_ok w" "wbu_tty_handler_tx (uart_on u) H u w = Inr (u', w')" "chan_inv H (channel u)"
  shows "flows H u w w' \<and> cr_ok w' \<and> c_cr (dev w') =
    (if chan_content (channel u) \<noteq> [] \<and> chan_content (channel u') = [] then c_cr (dev w) AND NOT 0x200 else c_cr (dev w))"
proof (cases "nb_bytes (channel u) = 0")
  case True
  then show ?thesis
    using assms(2,3) by (simp add: wbu_tty_handler_tx_def chan_content_empty)
next
  case False
  then obtain v w1 where "tx_loop (uart_on u) H MAX_NBR_OF_BYTES_PER_IRQ u w = Inr (v, w1)"
    "(if nb_bytes (channel v) = 0 then Inr (v, kcall TtyWakeup (wbu_disable_tx_interrupts (uart_on u) H v w1))
      else Inr (v, w1) :: c_fault + _) = Inr (u', w')"
    using assms(3) unfolding wbu_tty_handler_tx_def by (fastforce simp: ebind_eq_Inr_iff)
  then have t: "tx_loop (uart_on u) H MAX_NBR_OF_BYTES_PER_IRQ u w = Inr (v, w1)"
    "u' = v" "w' = (if nb_bytes (channel v) = 0 then kcall TtyWakeup (wbu_disable_tx_interrupts (uart_on u) H v w1) else w1)"
    by (auto split: if_splits)
  have v: "same_dev u v"
    using tx_loop_took [OF wb_layout_hw_ok [OF assms(1)] assms(4), of MAX_NBR_OF_BYTES_PER_IRQ "uart_on u" w] t(1) False
    by (auto simp: took_def chan_content_empty)
  have f: "flows H u w w1" "c_cr (dev w1) = c_cr (dev w)"
    using tx_loop_on [OF assms(1) t(1)] by simp_all
  have k: "cr_ok w1"
    using assms(2) f(2) by (simp add: cr_ok_def)
  note d = irq_enables(3,4) [OF assms(1) k, of v, unfolded uart_on_same [OF v] flows_same [OF v]]
  have "flows H u w (kcall TtyWakeup (wbu_disable_tx_interrupts (uart_on u) H v w1))"
    using flows_kcall [OF flows_trans [OF f(1) d(1)]] by simp
  then show ?thesis
    using t(2,3) f k d(2) False cr_ok_keeps [OF k, of _ "0x200"] by (auto simp: chan_content_empty dev_kcall)
qed

lemma tx_loop_progress:
  assumes "wb_layout H" "chan_inv H (channel u)" "chan_content (channel u) \<noteq> []" "\<not> tx_full (dev w)"
    "tx_loop (uart_on u) H (Suc k) u w = Inr (u', w')"
  shows "length (chan_content (channel u')) < length (chan_content (channel u))"
proof -
  obtain c where c: "chan_peek (channel u) = Inr c"
    using chan.peek [OF assms(2,3)] by blast
  obtain ret w1 where s: "wbu_tty_tx_send (uart_on u) H u c w = (ret, w1)"
    by fastforce
  let ?u = "u\<lparr>channel := chan_pop H (channel u)\<rparr>"
  have ret: "ret = 0"
    by (rule tx_send_on(3) [OF assms(1) s assms(4)])
  have p: "chan_inv H (channel ?u)" "length (chan_content (channel ?u)) < length (chan_content (channel u))"
    using chan.pop [OF assms(2,3)] assms(3) by (simp_all del: length_chan_content)
  consider (stop) "u' = ?u" | (more) "tx_loop (uart_on u) H k ?u w1 = Inr (u', w')" "nb_bytes (channel ?u) \<noteq> 0" "0 < k"
    using assms(5) c s ret by (auto simp: Let_def split: if_splits)
  then show ?thesis
  proof cases
    case more
    then obtain n where "took H ?u w1 n u' w'"
      using tx_loop_took [OF wb_layout_hw_ok [OF assms(1)] p(1), of k "uart_on u" w1] by (auto simp: chan_content_empty)
    then show ?thesis
      using p(2) by (simp add: took_def)
  qed (use p in simp)
qed

definition calm :: "wbu_hw \<Rightarrow> wbu_desc \<Rightarrow> uart_core uart_world \<Rightarrow> uart_core uart_world \<Rightarrow> bool" where
  "calm H u w w' \<longleftrightarrow> flows H u w w' \<and> c_cr (dev w') = c_cr (dev w) \<and> (\<not> tx_full (dev w) \<longrightarrow> \<not> tx_full (dev w'))"

lemma calm_trans: "calm H u a b \<Longrightarrow> calm H u b c \<Longrightarrow> calm H u a c"
  using flows_trans by (auto simp: calm_def)

lemma sr_calm:
  assumes "wb_layout H" "wbu_read_reg (uart_on u) u (UART_REG_SR H) w = (x, w')"
  shows "calm H u w w'"
  using sr_read(1,2) [OF assms] by (simp add: calm_def idle_def)

lemma rx_loop_on:
  assumes "wb_layout H" "c_rdy (dev w)"
  shows "calm H u w (rx_loop (uart_on u) H u k w)"
  using assms(2)
proof (induction k arbitrary: w)
  case 0
  then show ?case by (simp add: calm_def)
next
  case (Suc k)
  obtain x w1 where r: "wbu_read_reg (uart_on u) u (UART_REG_RDR H) w = (x, w1)"
    by fastforce
  let ?w = "kcall (FlipChar (ucast (x AND 0xFF))) w1"
  obtain y w2 where s: "wbu_read_reg (uart_on u) u (UART_REG_SR H) ?w = (y, w2)"
    by fastforce
  have c: "calm H u w w2"
    using calm_trans [OF _ sr_calm [OF assms(1) s]] rdr_read [OF assms(1) r Suc.prems] by (simp add: calm_def dev_kcall)
  show ?case
  proof (cases "y AND UART_SR_RX_RDY H \<noteq> 0 \<and> k \<noteq> 0")
    case True
    then have "c_rdy (dev w2)"
      using sr_read(4) [OF assms(1) s] by simp
    then show ?thesis
      using calm_trans [OF c Suc.IH] r s True by simp
  next
    case False
    then show ?thesis
      using c r s by auto
  qed
qed

lemma handler_rx_on:
  assumes "wb_layout H"
  shows "calm H u w (wbu_tty_handler_rx (uart_on u) H u w)"
proof -
  obtain x w1 where s: "wbu_read_reg (uart_on u) u (UART_REG_SR H) w = (x, w1)"
    by fastforce
  note c = sr_calm [OF assms s]
  have "calm H u w1 (kcall FlipPush (rx_loop (uart_on u) H u k w1))" if "c_rdy (dev w1)" for k
    using rx_loop_on [OF assms that, of u k] flows_kcall by (simp add: calm_def dev_kcall)
  then show ?thesis
    using s c calm_trans [OF c] sr_read(4) [OF assms s] by (auto simp: wbu_tty_handler_rx_def)
qed

lemma handler_on:
  assumes "wb_layout H" "cr_ok w" "chan_inv H (channel u)" "wbu_tty_handler (uart_on u) H u w = Inr (ret, u', w')"
  shows "flows H u w w'" "cr_ok w'" "bit (c_cr (dev w')) 8 \<longleftrightarrow> bit (c_cr (dev w)) 8"
    "bit (c_cr (dev w')) 9 \<longleftrightarrow> bit (c_cr (dev w)) 9 \<and> (chan_content (channel u) = [] \<or> chan_content (channel u') \<noteq> [])"
    "chan_content (channel u) \<noteq> [] \<Longrightarrow> \<not> tx_full (dev w) \<Longrightarrow>
      length (chan_content (channel u')) < length (chan_content (channel u))"
proof -
  obtain x w1 where s: "wbu_read_reg (uart_on u) u (UART_REG_SR H) w = (x, w1)"
    by fastforce
  let ?w = "wbu_tty_handler_rx (uart_on u) H u w1"
  have c: "calm H u w w1" "calm H u w ?w"
    using sr_calm [OF assms(1) s] calm_trans [OF _ handler_rx_on [OF assms(1)]] by blast+
  consider (none) "chan_content (channel u) = []" "u' = u" "w' = w1"
    | (tx) "wbu_tty_handler_tx (uart_on u) H u ?w = Inr (u', w')"
    using assms(4) s by (auto simp: wbu_tty_handler_def ebind_eq_Inr_iff chan_content_empty split: if_splits)
  then have "flows H u w w' \<and> cr_ok w' \<and> c_cr (dev w') =
      (if chan_content (channel u) \<noteq> [] \<and> chan_content (channel u') = [] then c_cr (dev w) AND NOT 0x200 else c_cr (dev w))"
  proof cases
    case none
    then show ?thesis
      using c(1) assms(2) by (simp add: calm_def cr_ok_def)
  next
    case tx
    have k: "cr_ok ?w"
      using c(2) assms(2) by (simp add: calm_def cr_ok_def)
    show ?thesis
      using handler_tx_on [OF assms(1) k tx assms(3)] c(2) flows_trans [of H u w ?w w'] by (simp add: calm_def)
  qed
  then show "flows H u w w'" "cr_ok w'" "bit (c_cr (dev w')) 8 \<longleftrightarrow> bit (c_cr (dev w)) 8"
    "bit (c_cr (dev w')) 9 \<longleftrightarrow> bit (c_cr (dev w)) 9 \<and> (chan_content (channel u) = [] \<or> chan_content (channel u') \<noteq> [])"
    by (auto simp: bit_simps cr_masks simp del: bit_numeral_word_iff)
  assume ne: "chan_content (channel u) \<noteq> []" and room: "\<not> tx_full (dev w)"
  then have "\<not> tx_full (dev ?w)"
    using c(2) by (simp add: calm_def)
  moreover have "wbu_tty_handler_tx (uart_on u) H u ?w = Inr (u', w')"
    using assms(4) s ne by (auto simp: wbu_tty_handler_def ebind_eq_Inr_iff chan_content_empty split: if_splits)
  then obtain w2 where "tx_loop (uart_on u) H (Suc 31) u ?w = Inr (u', w2)"
    using ne by (fastforce simp: wbu_tty_handler_tx_def ebind_eq_Inr_iff chan_content_empty split: if_splits)
  ultimately show "length (chan_content (channel u')) < length (chan_content (channel u))"
    using tx_loop_progress [OF assms(1,3) ne] by blast
qed

section \<open>A session\<close>

lemma write_on_core:
  assumes "wb_layout H" "cr_ok w" "wbu_tty_write (uart_on u) H buf count u w = Inr (n, u', w')"
  shows "flows H u w w'" "cr_ok w'" "bit (c_cr (dev w')) 8 \<longleftrightarrow> bit (c_cr (dev w)) 8"
    "bit (c_cr (dev w')) 9 \<longleftrightarrow> bit (c_cr (dev w)) 9 \<or> chan_content (channel u') \<noteq> []"
proof -
  obtain c where u': "u' = u\<lparr>channel := c\<rparr>"
    "w' = (if nb_bytes c > 0 then wbu_enable_tx_interrupts (uart_on u') H u' w else w)"
    using assms(3) by (auto simp: wbu_tty_write_def ebind_eq_Inr_iff Let_def)
  note e = irq_enables(1,2) [OF assms(1,2), of u']
  show "flows H u w w'"
    using u' e(1) flows_same [of u u' H] by simp
  show "cr_ok w'"
    using u' e(2) assms(2) cr_ok_keeps [OF assms(2), of w' "0x200"] by auto
  show "bit (c_cr (dev w')) 8 \<longleftrightarrow> bit (c_cr (dev w)) 8"
    "bit (c_cr (dev w')) 9 \<longleftrightarrow> bit (c_cr (dev w)) 9 \<or> chan_content (channel u') \<noteq> []"
    using u' e(2) by (auto simp: bit_simps cr_masks chan_content_empty word_gt_0 simp del: bit_numeral_word_iff)
qed

text \<open>
  What happens to an open port: a write by the terminal, the interrupt handler whenever the core asks
  for it, anything on the line, and the port being activated and shut down.
\<close>

datatype port_op = PWrite "u8 list" | PIrq | PLine "line_event list" | PActivate | PShutdown

fun port_step :: "wbu_hw \<Rightarrow> port_op \<Rightarrow> wbu_desc \<Rightarrow> uart_core uart_world \<Rightarrow>
    c_fault + u8 list \<times> wbu_desc \<times> uart_core uart_world" where
  "port_step H (PWrite buf) u w = ebind (wbu_tty_write (uart_on u) H buf (int (length buf)) u w) (\<lambda>(n, u, w).
     Inr (take (nat n) buf, u, w))"
| "port_step H PIrq u w = (if int_o (dev w)
     then ebind (wbu_tty_handler (uart_on u) H u w) (\<lambda>(ret, u, w). Inr ([], u, w)) else Inr ([], u, w))"
| "port_step H (PLine evs) u w = Inr ([], u, w\<lparr>dev := line_run evs (dev w)\<rparr>)"
| "port_step H PActivate u w = Inr ([], u, snd (wbu_port_activate (uart_on u) H u w))"
| "port_step H PShutdown u w = Inr ([], u, wbu_port_shutdown (uart_on u) H u w)"

fun port_run :: "wbu_hw \<Rightarrow> port_op list \<Rightarrow> wbu_desc \<Rightarrow> uart_core uart_world \<Rightarrow>
    c_fault + u8 list \<times> wbu_desc \<times> uart_core uart_world" where
  "port_run H [] u w = Inr ([], u, w)"
| "port_run H (x # xs) u w = ebind (port_step H x u w) (\<lambda>(a, u, w).
     ebind (port_run H xs u w) (\<lambda>(b, u, w). Inr (a @ b, u, w)))"

text \<open>The ring is sound, the core has no purge pending, and the bytes accepted are on their way or wait.\<close>

definition ported :: "wbu_hw \<Rightarrow> wbu_desc \<Rightarrow> uart_core uart_world \<Rightarrow> u8 list \<Rightarrow> wbu_desc \<Rightarrow> uart_core uart_world \<Rightarrow> bool" where
  "ported H u w acc u' w' \<longleftrightarrow> same_dev u u' \<and> chan_inv H (channel u') \<and> cr_ok w'
     \<and> (\<exists>es. trace w' = trace w @ es \<and> moved (dev w) (dev w') (sent H u es) (chars es)
         \<and> sent H u es @ chan_content (channel u') = chan_content (channel u) @ acc)"

lemma ported_refl: "chan_inv H (channel u) \<Longrightarrow> cr_ok w \<Longrightarrow> ported H u w [] u w"
  by (simp add: ported_def)

lemma ported_trans:
  assumes "ported H u w a v x" "ported H v x b u' w'"
  shows "ported H u w (a @ b) u' w'"
proof -
  have s: "same_dev u v" "sent H v = sent H u"
    using assms(1) same_dev_sent by (auto simp: ported_def)
  obtain es fs where e: "trace x = trace w @ es" "moved (dev w) (dev x) (sent H u es) (chars es)"
    "sent H u es @ chan_content (channel v) = chan_content (channel u) @ a"
    "trace w' = trace x @ fs" "moved (dev x) (dev w') (sent H u fs) (chars fs)"
    "sent H u fs @ chan_content (channel u') = chan_content (channel v) @ b"
    using assms s(2) by (auto simp: ported_def)
  have "sent H u (es @ fs) @ chan_content (channel u') = chan_content (channel u) @ a @ b"
    using e(3,6) by (metis append_assoc sent_simps(2))
  moreover have "moved (dev w) (dev w') (sent H u (es @ fs)) (chars (es @ fs))"
    using moved_trans [OF e(2,5)] by simp
  moreover have "same_dev u u'"
    using assms s(1) by (auto simp: ported_def same_dev_def)
  ultimately show ?thesis
    using assms(2) e(1,4) unfolding ported_def by (intro conjI exI [of _ "es @ fs"]) simp_all
qed

lemma portedI:
  assumes "flows H u w w'" "cr_ok w'" "same_dev u u'" "chan_inv H (channel u')" "trace w' = trace w @ es"
    "sent H u es @ chan_content (channel u') = chan_content (channel u) @ acc"
  shows "ported H u w acc u' w'"
  using assms by (auto simp: ported_def flows_def)

lemma write_kept:
  assumes "wb_layout H" "chan_inv H (channel u)" "cr_ok w"
  shows "\<exists>acc u' w'. port_step H (PWrite buf) u w = Inr (acc, u', w') \<and> ported H u w acc u' w'"
proof -
  obtain n u' w' es where p: "wbu_tty_write (uart_on u) H buf (int (length buf)) u w = Inr (int n, u', w')" "same_dev u u'"
    "chan_inv H (channel u')" "chan_content (channel u') = chan_content (channel u) @ take n buf"
    "trace w' = trace w @ es" "sent H u es = []"
    using write_spec [OF wb_layout_hw_ok [OF assms(1)] assms(2), of "int (length buf)" buf "uart_on u" w] by auto
  note d = write_on_core [OF assms(1,3) p(1)]
  have "ported H u w (take n buf) u' w'"
    by (rule portedI [OF d(1,2) p(2,3,5)]) (simp add: p(4,6))
  then show ?thesis
    using p(1) by simp
qed

lemma irq_kept:
  assumes "wb_layout H" "chan_inv H (channel u)" "cr_ok w"
  shows "\<exists>acc u' w'. port_step H PIrq u w = Inr (acc, u', w') \<and> ported H u w acc u' w'"
proof (cases "int_o (dev w)")
  case True
  obtain ret n u' w' es where p: "wbu_tty_handler (uart_on u) H u w = Inr (ret, u', w')" "same_dev u u'"
    "chan_inv H (channel u')" "chan_content (channel u') = drop n (chan_content (channel u))"
    "trace w' = trace w @ es" "sent H u es = take n (chan_content (channel u))"
    using handler_spec [OF wb_layout_hw_ok [OF assms(1)] assms(2), of "uart_on u" w] by blast
  note d = handler_on [OF assms(1,3,2) p(1)]
  have "ported H u w [] u' w'"
    by (rule portedI [OF d(1,2) p(2,3,5)]) (simp add: p(4,6))
  then show ?thesis
    using True p(1) by simp
qed (use ported_refl [OF assms(2,3)] in simp)

text \<open>An update of the control register moves no byte.\<close>

lemma cr_kept:
  assumes "wb_layout H" "chan_inv H (channel u)" "cr_ok w"
    "f \<in> {wbu_enable_rx_interrupts, wbu_disable_rx_interrupts, wbu_disable_tx_interrupts}"
  shows "ported H u w [] u (f (uart_on u) H u w)"
proof -
  note h = wb_layout_hw_ok [OF assms(1)] and c = irq_enables [OF assms(1,3), of u]
  have "\<exists>es. trace (f (uart_on u) H u w) = trace w @ es \<and> sent H u es = []"
    using assms(4) rx_irq_trace [OF h, of "uart_on u" u w] irq_trace(2) [OF h, of "uart_on u" u w] by auto
  moreover have "flows H u w (f (uart_on u) H u w)" "cr_ok (f (uart_on u) H u w)"
    using assms(4) c cr_ok_keeps [OF assms(3), of _ "0x100"] cr_ok_keeps [OF assms(3), of _ "0x200"] by auto
  ultimately show ?thesis
    using assms(2) by (auto intro!: portedI)
qed

lemma port_step_kept:
  assumes "wb_layout H" "chan_inv H (channel u)" "cr_ok w"
  shows "\<exists>acc u' w'. port_step H x u w = Inr (acc, u', w') \<and> ported H u w acc u' w'"
proof (cases x)
  case (PWrite buf)
  then show ?thesis
    using write_kept [OF assms] by simp
next
  case PIrq
  then show ?thesis
    using irq_kept [OF assms] by simp
next
  case (PLine evs)
  have "ported H u w [] u (w\<lparr>dev := line_run evs (dev w)\<rparr>)"
    using idle_run [of "dev w" evs] assms(2,3) by (simp add: ported_def idle_def cr_ok_def)
  then show ?thesis
    using PLine by simp
next
  case PActivate
  then show ?thesis
    using cr_kept [OF assms, of wbu_enable_rx_interrupts] by (simp add: wbu_port_activate_def)
next
  case PShutdown
  let ?v = "wbu_disable_rx_interrupts (uart_on u) H u w"
  have v: "ported H u w [] u ?v"
    using cr_kept [OF assms] by simp
  then have "ported H u ?v [] u (wbu_disable_tx_interrupts (uart_on u) H u ?v)"
    using cr_kept [OF assms(1,2), of ?v] by (simp add: ported_def)
  then show ?thesis
    using PShutdown ported_trans [OF v] by (simp add: wbu_port_shutdown_def)
qed

lemma port_run_kept:
  assumes "wb_layout H" "chan_inv H (channel u)" "cr_ok w"
  shows "\<exists>acc u' w'. port_run H ops u w = Inr (acc, u', w') \<and> ported H u w acc u' w'"
  using assms(2,3)
proof (induction ops arbitrary: u w)
  case Nil
  then show ?case
    using ported_refl by simp
next
  case (Cons x xs)
  obtain a v x1 where a: "port_step H x u w = Inr (a, v, x1)" "ported H u w a v x1"
    using port_step_kept [OF assms(1) Cons.prems] by blast
  obtain b u' w' where b: "port_run H xs v x1 = Inr (b, u', w')" "ported H v x1 b u' w'"
    using Cons.IH [of v x1] a(2) by (auto simp: ported_def)
  show ?case
    using a(1) b(1) ported_trans [OF a(2) b(2)] by simp
qed

lemma ported_wire:
  assumes "ported H u w acc u' w'"
  shows "\<exists>es new. c_wire (dev w') @ c_txf (dev w') @ chan_content (channel u') =
        c_wire (dev w) @ c_txf (dev w) @ chan_content (channel u) @ acc
    \<and> trace w' = trace w @ es \<and> chars es @ pending (dev w') = pending (dev w) @ new
    \<and> c_stored (dev w') = c_stored (dev w) @ new"
proof -
  obtain es new where e: "trace w' = trace w @ es" "c_wire (dev w') @ c_txf (dev w') = c_wire (dev w) @ c_txf (dev w) @ sent H u es"
    "chars es @ pending (dev w') = pending (dev w) @ new" "c_stored (dev w') = c_stored (dev w) @ new"
    "sent H u es @ chan_content (channel u') = chan_content (channel u) @ acc"
    using assms by (auto simp: ported_def moved_def)
  have "c_wire (dev w') @ c_txf (dev w') @ chan_content (channel u') =
      c_wire (dev w) @ c_txf (dev w) @ chan_content (channel u) @ acc"
    using e(2,5) by (metis append_assoc)
  then show ?thesis
    using e by blast
qed

section \<open>Draining\<close>

definition core_fits :: "uart_core \<Rightarrow> bool" where
  "core_fits c \<longleftrightarrow> 0 < c_txsize c \<and> length (c_txf c) \<le> c_txsize c"

lemma moved_fits: "moved c c' s d \<Longrightarrow> core_fits c \<Longrightarrow> core_fits c'"
  by (simp add: moved_def core_fits_def)

lemma ported_fits: "ported H u w acc u' w' \<Longrightarrow> core_fits (dev w) \<Longrightarrow> core_fits (dev w')"
  using moved_fits by (auto simp: ported_def)

lemma line_run_split: "line_run (xs @ e # ys) c = line_run ys (line_step e (line_run xs c))"
  by (simp add: line_run_def)

text \<open>A byte that goes out makes room for one.\<close>

lemma room_after_tx:
  assumes "core_fits c" "TxNext \<in> set evs"
  shows "\<not> tx_full (line_run evs c)"
proof -
  obtain xs ys where xs: "evs = xs @ TxNext # ys"
    using assms(2) by (meson split_list)
  let ?c = "line_run xs c"
  have "core_fits ?c"
    using idle_run [of c xs] moved_fits assms(1) by (auto simp: idle_def)
  then have "\<not> tx_full (line_step TxNext ?c)"
    by (auto simp: core_fits_def tx_full_def split: list.splits)
  then have "\<not> tx_full (line_run ys (line_step TxNext ?c))"
    using idle_run by (simp add: idle_def)
  then show ?thesis
    unfolding xs line_run_split .
qed

lemma tx_out_all:
  assumes "length (c_txf c) \<le> n"
  shows "c_wire (line_run (replicate n TxNext) c) = c_wire c @ c_txf c"
  using assms
proof (induction n arbitrary: c)
  case 0
  then show ?case by (simp add: line_run_def)
next
  case (Suc n)
  then have "length (c_txf (line_step TxNext c)) \<le> n" "c_wire (line_step TxNext c) @ c_txf (line_step TxNext c) = c_wire c @ c_txf c"
    by (auto split: list.splits)
  then show ?case
    using Suc.IH [of "line_step TxNext c"] by (simp add: line_run_def)
qed

definition tx_armed :: "wbu_desc \<Rightarrow> uart_core uart_world \<Rightarrow> bool" where
  "tx_armed u w \<longleftrightarrow> (chan_content (channel u) \<noteq> [] \<longrightarrow> bit (c_cr (dev w)) 9)"

text \<open>One round: the line moves on, and the core interrupts if it has a reason to.\<close>

lemma drain_round:
  assumes "wb_layout H" "chan_inv H (channel u)" "cr_ok w" "core_fits (dev w)" "tx_armed u w" "TxNext \<in> set evs"
  shows "\<exists>u' w'. port_run H [PLine evs, PIrq] u w = Inr ([], u', w') \<and> ported H u w [] u' w'
    \<and> length (chan_content (channel u')) \<le> length (chan_content (channel u)) - 1
    \<and> (bit (c_cr (dev w')) 9 \<longleftrightarrow> bit (c_cr (dev w)) 9 \<and> (chan_content (channel u) = [] \<or> chan_content (channel u') \<noteq> []))"
proof -
  let ?w = "w\<lparr>dev := line_run evs (dev w)\<rparr>"
  obtain u' w' where r: "port_run H [PLine evs, PIrq] u w = Inr ([], u', w')" "ported H u w [] u' w'"
    "port_step H PIrq u ?w = Inr ([], u', w')"
    using port_run_kept [OF assms(1-3), of "[PLine evs, PIrq]"]
    by (auto simp: ebind_eq_Inr_iff split: if_splits)
  have cr: "c_cr (dev ?w) = c_cr (dev w)" "cr_ok ?w"
    using idle_run [of "dev w" evs] assms(3) by (simp_all add: idle_def cr_ok_def)
  have room: "\<not> tx_full (dev ?w)"
    using room_after_tx [OF assms(4,6)] by simp
  show ?thesis
  proof (cases "int_o (dev ?w)")
    case False
    then have "chan_content (channel u) = []" "u' = u" "w' = ?w"
      using r(3) assms(5) room cr(1) by (auto simp: tx_armed_def int_o_def)
    then show ?thesis
      using r(1,2) cr(1) by (intro exI [of _ u'] exI [of _ w']) (simp del: port_run.simps length_chan_content)
  next
    case True
    then obtain ret where h: "wbu_tty_handler (uart_on u) H u ?w = Inr (ret, u', w')"
      using r(3) by (auto simp: ebind_eq_Inr_iff)
    have "length (chan_content (channel u')) \<le> length (chan_content (channel u)) - 1"
      using handler_on(5) [OF assms(1) cr(2) assms(2) h _ room]
        handler_spec [OF wb_layout_hw_ok [OF assms(1)] assms(2), of "uart_on u" ?w] h
      by (cases "chan_content (channel u) = []") (auto simp del: length_chan_content)
    then show ?thesis
      using r(1,2) handler_on(4) [OF assms(1) cr(2) assms(2) h] cr(1) by auto
  qed
qed

lemma drain_rounds:
  assumes "wb_layout H" "chan_inv H (channel u)" "cr_ok w" "core_fits (dev w)" "tx_armed u w"
    "\<forall>evs \<in> set rounds. TxNext \<in> set evs" "length (chan_content (channel u)) \<le> length rounds"
  shows "\<exists>u' w'. port_run H (concat (map (\<lambda>evs. [PLine evs, PIrq]) rounds)) u w = Inr ([], u', w')
    \<and> ported H u w [] u' w' \<and> chan_content (channel u') = []
    \<and> (bit (c_cr (dev w')) 9 \<longleftrightarrow> bit (c_cr (dev w)) 9 \<and> chan_content (channel u) = [])"
  using assms(2-)
proof (induction rounds arbitrary: u w)
  case Nil
  then show ?case
    using ported_refl [of H u w] by (simp del: length_chan_content)
next
  case (Cons evs rounds)
  obtain v x where r: "port_run H [PLine evs, PIrq] u w = Inr ([], v, x)" "ported H u w [] v x"
    "length (chan_content (channel v)) \<le> length (chan_content (channel u)) - 1"
    "bit (c_cr (dev x)) 9 \<longleftrightarrow> bit (c_cr (dev w)) 9 \<and> (chan_content (channel u) = [] \<or> chan_content (channel v) \<noteq> [])"
    using drain_round [OF assms(1) Cons.prems(1-4), of evs] Cons.prems(5) by auto
  have v: "chan_inv H (channel v)" "cr_ok x" "core_fits (dev x)" "tx_armed v x"
    using r(2,4) ported_fits [OF r(2) Cons.prems(3)] Cons.prems(4) r(3) by (auto simp: ported_def tx_armed_def)
  obtain u' w' where t: "port_run H (concat (map (\<lambda>evs. [PLine evs, PIrq]) rounds)) v x = Inr ([], u', w')"
    "ported H v x [] u' w'" "chan_content (channel u') = []"
    "bit (c_cr (dev w')) 9 \<longleftrightarrow> bit (c_cr (dev x)) 9 \<and> chan_content (channel v) = []"
    using Cons.IH [OF v] Cons.prems(5,6) r(3) by fastforce
  have "port_run H (concat (map (\<lambda>evs. [PLine evs, PIrq]) (evs # rounds))) u w = Inr ([], u', w')"
    using r(1) t(1) by (auto simp: ebind_eq_Inr_iff simp del: port_step.simps(2) split: prod.splits)
  moreover have "chan_content (channel u) = [] \<Longrightarrow> chan_content (channel v) = []"
    using r(3) by (simp del: length_chan_content)
  then have "bit (c_cr (dev w')) 9 \<longleftrightarrow> bit (c_cr (dev w)) 9 \<and> chan_content (channel u) = []"
    using t(4) r(4) by auto
  moreover have "ported H u w [] u' w'"
    using ported_trans [OF r(2) t(2)] by simp
  ultimately show ?case
    using t(3) by blast
qed

section \<open>Properties\<close>

text \<open>
  C4: whatever the line does, also between two accesses of the driver, and for any sequence of
  writes, interrupts, activations and shutdowns: the bytes on the wire, those in the FIFO of the core
  and those in the ring, one after the other, are the bytes accepted from the terminal, in order;
  and the bytes delivered to the terminal, followed by those that wait in the core, are the bytes
  the core has received. The driver never writes to a full FIFO, never reads a byte that is not
  there, and never purges.
\<close>

theorem uart_line_order:
  assumes "wb_layout H" "chan_inv H (channel u)" "cr_ok w"
  shows "\<exists>acc u' w' es new. port_run H ops u w = Inr (acc, u', w') \<and> chan_inv H (channel u')
    \<and> c_wire (dev w') @ c_txf (dev w') @ chan_content (channel u') =
        c_wire (dev w) @ c_txf (dev w) @ chan_content (channel u) @ acc
    \<and> trace w' = trace w @ es \<and> chars es @ pending (dev w') = pending (dev w) @ new
    \<and> c_stored (dev w') = c_stored (dev w) @ new"
proof -
  obtain acc u' w' where r: "port_run H ops u w = Inr (acc, u', w')" "ported H u w acc u' w'"
    using port_run_kept [OF assms] by blast
  then show ?thesis
    using ported_wire [OF r(2)] by (auto simp: ported_def)
qed

text \<open>
  C24: the transmitter never stalls. If the transmit interrupt is enabled whenever bytes wait, and
  the core gets at least one byte out in every round, then the interrupts the core raises by itself
  empty the ring in as many rounds as it holds bytes; the interrupt is off afterwards, and once the
  FIFO has run dry every byte is on the wire, in order.
\<close>

theorem uart_ring_drains:
  assumes "wb_layout H" "chan_inv H (channel u)" "cr_ok w" "core_fits (dev w)" "tx_armed u w"
    "\<forall>evs \<in> set rounds. TxNext \<in> set evs" "length (chan_content (channel u)) \<le> length rounds"
  shows "\<exists>u' w'. port_run H (concat (map (\<lambda>evs. [PLine evs, PIrq]) rounds)) u w = Inr ([], u', w')
    \<and> chan_content (channel u') = [] \<and> (chan_content (channel u) \<noteq> [] \<longrightarrow> \<not> bit (c_cr (dev w')) 9)
    \<and> c_wire (line_run (replicate (c_txsize (dev w)) TxNext) (dev w')) =
        c_wire (dev w) @ c_txf (dev w) @ chan_content (channel u)"
proof -
  obtain u' w' where r: "port_run H (concat (map (\<lambda>evs. [PLine evs, PIrq]) rounds)) u w = Inr ([], u', w')"
    "ported H u w [] u' w'" "chan_content (channel u') = []"
    "bit (c_cr (dev w')) 9 \<longleftrightarrow> bit (c_cr (dev w)) 9 \<and> chan_content (channel u) = []"
    using drain_rounds [OF assms] by blast
  have m: "c_wire (dev w') @ c_txf (dev w') = c_wire (dev w) @ c_txf (dev w) @ chan_content (channel u)"
    "length (c_txf (dev w')) \<le> c_txsize (dev w)"
    using r(2,3) assms(4) by (auto simp: ported_def moved_def core_fits_def)
  show ?thesis
    using r(1,3,4) tx_out_all [OF m(2)] m(1) by auto
qed

section \<open>Witnesses\<close>

text \<open>FIFOs of two bytes; a byte waits to be read, and two more arrive during the next accesses.\<close>

definition demo_core :: uart_core where
  "demo_core = \<lparr>c_cr = 0x300, c_txf = [], c_txsize = 2, c_rxf = [0x41], c_rxsize = 2, c_rdr = 0, c_rdy = False,
     c_ovf = False, c_undef = 0xFFFFFFFF, c_wire = [], c_stored = [0x41],
     c_sched = [[RxNext], [], [RxByte 0x42], [RxNext], [TxNext]]\<rparr>"

definition demo_port :: "uart_core uart_world" where
  "demo_port = \<lparr>dev = demo_core, trace = []\<rparr>"

lemma demo_port_ok: "wb_layout demo_hw" "cr_ok demo_port" "core_fits (dev demo_port)" "tx_armed demo_uart demo_port"
  using demo_uart_ok(3)
  by (simp_all add: wb_layout_def demo_hw_def cr_ok_def demo_port_def demo_core_def core_fits_def tx_armed_def)

lemma uart_line_order_witness:
  "\<exists>acc u' w'. port_run demo_hw [PWrite [1, 2, 3], PIrq, PLine [TxNext, RxByte 7], PIrq, PShutdown] demo_uart demo_port = Inr (acc, u', w')
    \<and> c_wire (dev w') @ c_txf (dev w') @ chan_content (channel u') = acc"
proof -
  have "c_wire (dev demo_port) @ c_txf (dev demo_port) @ chan_content (channel demo_uart) @ acc = acc" for acc
    using demo_uart_ok(3) by (simp add: demo_port_def demo_core_def)
  then show ?thesis
    using uart_line_order [OF demo_port_ok(1) demo_uart_ok(2) demo_port_ok(2),
        of "[PWrite [1, 2, 3], PIrq, PLine [TxNext, RxByte 7], PIrq, PShutdown]"] by metis
qed

text \<open>Three bytes in the ring, more than the FIFO takes.\<close>

definition demo_ring :: wbu_desc where
  "demo_ring = demo_uart\<lparr>channel := chan_put demo_hw 3 (chan_put demo_hw 2 (chan_put demo_hw 1 (channel demo_uart)))\<rparr>"

lemma demo_ring_ok: "chan_inv demo_hw (channel demo_ring)" "chan_content (channel demo_ring) = [1, 2, 3]"
proof -
  let ?a = "chan_put demo_hw 1 (channel demo_uart)"
  let ?b = "chan_put demo_hw 2 ?a"
  note p = demo_uart_ok(2)
  have a: "chan_inv demo_hw ?a" "chan_content ?a = [1]"
    using chan_put_spec [OF p, of 1] demo_uart_ok(3) by (auto simp: demo_uart_def demo_hw_def)
  have "unat (nb_bytes ?a) = 1"
    using arg_cong [OF a(2), of length] by simp
  then have b: "chan_inv demo_hw ?b" "chan_content ?b = [1, 2]"
    using chan_put_spec [OF a(1), of 2] a(2) by (simp_all add: demo_hw_def)
  have "unat (nb_bytes ?b) = 2"
    using arg_cong [OF b(2), of length] by simp
  then show "chan_inv demo_hw (channel demo_ring)" "chan_content (channel demo_ring) = [1, 2, 3]"
    using chan_put_spec [OF b(1), of 3] b(2) by (simp_all add: demo_ring_def demo_hw_def)
qed

lemma uart_ring_drains_witness:
  "\<exists>u' w'. port_run demo_hw [PLine [TxNext], PIrq, PLine [RxNext, TxNext], PIrq, PLine [TxNext], PIrq] demo_ring demo_port = Inr ([], u', w')
    \<and> c_wire (line_run [TxNext, TxNext] (dev w')) = [1, 2, 3] \<and> \<not> bit (c_cr (dev w')) 9"
proof -
  have "tx_armed demo_ring demo_port"
    by (simp add: tx_armed_def demo_port_def demo_core_def bit_numeral_rec)
  from uart_ring_drains [OF demo_port_ok(1) demo_ring_ok(1) demo_port_ok(2,3) this, of "[[TxNext], [RxNext, TxNext], [TxNext]]"]
  show ?thesis
    using demo_ring_ok(2) by (auto simp: demo_port_def demo_core_def numeral_2_eq_2 simp del: length_chan_content port_run.simps)
qed

end
