(* ===== verification/Uart_Life.thy ===== *)
theory Uart_Life
  imports Uart_Hw
begin

text \<open>
  The UART driver as the kernel sees it: \<open>wbu_tty_ops\<close>, the operations of its terminal, and
  \<open>wbu_port_ops\<close>, those of its port, over any number of sessions on the UART core: programs that
  open the terminal, write, ask for room and close it, with interrupts and anything on the line in
  between.
\<close>

unbundle bit_operations_syntax

section \<open>The tables\<close>

datatype port_call = PortActivate | PortShutdown

fun wbu_port_ops :: "'d platform \<Rightarrow> wbu_hw \<Rightarrow> wbu_desc \<Rightarrow> port_call \<Rightarrow> 'd uart_world \<Rightarrow> int \<times> 'd uart_world" where
  "wbu_port_ops P H u PortActivate w = wbu_port_activate P H u w"
| "wbu_port_ops P H u PortShutdown w = (0, wbu_port_shutdown P H u w)"

text \<open>
  The terminal layer of the kernel, a parameter: what the \<open>n\<close>-th call returns if it reaches
  \<open>tty_port_open\<close>, and which operations of the port it and \<open>tty_port_close\<close> call. What is relied on is
  that the first activates the port and the second shuts it down.
\<close>

record tty_core =
  tc_ret :: "nat \<Rightarrow> int"
  tc_open :: "nat \<Rightarrow> port_call list"
  tc_close :: "nat \<Rightarrow> port_call list"

definition tty_port_ok :: "tty_core \<Rightarrow> bool" where
  "tty_port_ok T \<longleftrightarrow> (\<forall>n. tc_open T n = [PortActivate] \<and> tc_close T n = [PortShutdown])"

definition port_calls :: "'d platform \<Rightarrow> wbu_hw \<Rightarrow> wbu_desc \<Rightarrow> port_call list \<Rightarrow> 'd uart_world \<Rightarrow> 'd uart_world" where
  "port_calls P H u cs w = fold (\<lambda>c w. snd (wbu_port_ops P H u c w)) cs w"

datatype tty_call = TtyOpen | TtyClose | TtyWrite "u8 list" | TtyWriteRoom | TtyCharsInBuffer

fun wbu_tty_ops :: "'d platform \<Rightarrow> wbu_hw \<Rightarrow> tty_core \<Rightarrow> nat \<Rightarrow> tty_call \<Rightarrow> wbu_desc \<Rightarrow> 'd uart_world \<Rightarrow>
    c_fault + int \<times> wbu_desc \<times> 'd uart_world" where
  "wbu_tty_ops P H T n TtyOpen u w =
     (let (ret, u, w) = wbu_tty_open (tc_ret T n) u w
      in Inr (ret, u, if open_count (channel u) > 1 then w else port_calls P H u (tc_open T n) w))"
| "wbu_tty_ops P H T n TtyClose u w =
     (let (u, w) = wbu_tty_close u w
      in Inr (0, u, if open_count (channel u) = 0 then port_calls P H u (tc_close T n) w else w))"
| "wbu_tty_ops P H T n (TtyWrite buf) u w = wbu_tty_write P H buf (int (length buf)) u w"
| "wbu_tty_ops P H T n TtyWriteRoom u w = Inr (uint (wbu_tty_write_room H u), u, w)"
| "wbu_tty_ops P H T n TtyCharsInBuffer u w = Inr (uint (wbu_tty_chars_in_buffer u), u, w)"

section \<open>Sessions\<close>

datatype life_op = LCall tty_call | LIrq | LLine "line_event list"

fun life_step :: "wbu_hw \<Rightarrow> tty_core \<Rightarrow> nat \<Rightarrow> life_op \<Rightarrow> wbu_desc \<Rightarrow> uart_core uart_world \<Rightarrow>
    c_fault + int \<times> wbu_desc \<times> uart_core uart_world" where
  "life_step H T n (LCall c) u w = wbu_tty_ops (uart_on u) H T n c u w"
| "life_step H T n LIrq u w = ebind (port_step H PIrq u w) (\<lambda>(a, u, w). Inr (0, u, w))"
| "life_step H T n (LLine evs) u w = ebind (port_step H (PLine evs) u w) (\<lambda>(a, u, w). Inr (0, u, w))"

text \<open>The operations with what they return, from the \<open>n\<close>-th on.\<close>

fun life_run :: "wbu_hw \<Rightarrow> tty_core \<Rightarrow> nat \<Rightarrow> life_op list \<Rightarrow> wbu_desc \<Rightarrow> uart_core uart_world \<Rightarrow>
    c_fault + (life_op \<times> int) list \<times> wbu_desc \<times> uart_core uart_world" where
  "life_run H T n [] u w = Inr ([], u, w)"
| "life_run H T n (x # xs) u w = ebind (life_step H T n x u w) (\<lambda>(r, u, w).
     ebind (life_run H T (Suc n) xs u w) (\<lambda>(rs, u, w). Inr ((x, r) # rs, u, w)))"

text \<open>
  What the kernel calls: an open terminal is closed once for each open, also for one that was
  refused, and written to only while it is open. \<open>files k ops\<close> is the number of files open after
  \<open>ops\<close>, from \<open>k\<close>.
\<close>

fun files_step :: "life_op \<Rightarrow> nat \<Rightarrow> nat option" where
  "files_step (LCall TtyOpen) k = Some (k + 1)"
| "files_step (LCall TtyClose) k = (if k = 0 then None else Some (k - 1))"
| "files_step (LCall (TtyWrite buf)) k = (if k = 0 then None else Some k)"
| "files_step x k = Some k"

fun files :: "nat \<Rightarrow> life_op list \<Rightarrow> nat option" where
  "files k [] = Some k"
| "files k (x # xs) = (case files_step x k of None \<Rightarrow> None | Some k' \<Rightarrow> files k' xs)"

text \<open>What the calls return: only the first to open the terminal gets it.\<close>

fun ret_ok :: "wbu_hw \<Rightarrow> tty_core \<Rightarrow> nat \<Rightarrow> nat \<Rightarrow> life_op \<Rightarrow> int \<Rightarrow> bool" where
  "ret_ok H T n k (LCall TtyOpen) r \<longleftrightarrow> r = (if k = 0 then tc_ret T n else - EBUSY)"
| "ret_ok H T n k (LCall (TtyWrite buf)) r \<longleftrightarrow> 0 \<le> r \<and> r \<le> int (length buf)"
| "ret_ok H T n k (LCall TtyWriteRoom) r \<longleftrightarrow> 0 \<le> r \<and> r \<le> uint (PAGE_SIZE H)"
| "ret_ok H T n k (LCall TtyCharsInBuffer) r \<longleftrightarrow> 0 \<le> r \<and> r \<le> uint (PAGE_SIZE H)"
| "ret_ok H T n k x r \<longleftrightarrow> r = 0"

fun rets_ok :: "wbu_hw \<Rightarrow> tty_core \<Rightarrow> nat \<Rightarrow> nat \<Rightarrow> (life_op \<times> int) list \<Rightarrow> bool" where
  "rets_ok H T n k [] \<longleftrightarrow> True"
| "rets_ok H T n k ((x, r) # rs) \<longleftrightarrow> ret_ok H T n k x r \<and>
     (case files_step x k of None \<Rightarrow> False | Some k' \<Rightarrow> rets_ok H T (Suc n) k' rs)"

fun accepted :: "life_op \<times> int \<Rightarrow> u8 list" where
  "accepted (LCall (TtyWrite buf), r) = take (nat r) buf"
| "accepted (x, r) = []"

text \<open>Between two operations, with \<open>k\<close> files open.\<close>

definition life_inv :: "wbu_hw \<Rightarrow> nat \<Rightarrow> wbu_desc \<Rightarrow> uart_core uart_world \<Rightarrow> bool" where
  "life_inv H k u w \<longleftrightarrow> chan_inv H (channel u) \<and> cr_ok w \<and> unat (open_count (channel u)) = k
     \<and> (bit (c_cr (dev w)) 8 \<longleftrightarrow> k \<noteq> 0) \<and> (bit (c_cr (dev w)) 9 \<longrightarrow> k \<noteq> 0)"

lemma closed_is_quiet: "life_inv H 0 u w \<Longrightarrow> \<not> int_o (dev w)"
  by (simp add: life_inv_def int_o_def)

lemma count_kept [simp]:
  "chan_inv H (c\<lparr>open_count := n\<rparr>) = chan_inv H c" "chan_content (c\<lparr>open_count := n\<rparr>) = chan_content c"
  by (simp_all add: chan_inv_def chan_content_def)

section \<open>Each operation keeps the invariant\<close>

text \<open>Neither the handler nor a write counts the files.\<close>

lemma tx_loop_count: "tx_loop P H k u w = Inr (u', w') \<Longrightarrow> open_count (channel u') = open_count (channel u)"
proof (induction k arbitrary: u w)
  case (Suc k)
  obtain c where c: "chan_peek (channel u) = Inr c"
    using Suc.prems by (auto simp: ebind_eq_Inr_iff)
  obtain ret w1 where s: "wbu_tty_tx_send P H u c w = (ret, w1)"
    by fastforce
  have "open_count (chan_pop H (channel u)) = open_count (channel u)"
    by (simp add: chan_pop_def)
  then show ?case
    using Suc.prems c s Suc.IH [of "u\<lparr>channel := chan_pop H (channel u)\<rparr>" w1] by (auto simp: Let_def split: if_splits)
qed simp

lemma handler_count: "wbu_tty_handler P H u w = Inr (ret, u', w') \<Longrightarrow> open_count (channel u') = open_count (channel u)"
  by (auto simp: wbu_tty_handler_def wbu_tty_handler_tx_def ebind_eq_Inr_iff split: if_splits prod.splits dest!: tx_loop_count)

lemma write_loop_count: "write_loop H buf m i c = Inr (n, c') \<Longrightarrow> open_count c' = open_count c"
proof (induction m arbitrary: i c)
  case (Suc m)
  have "open_count (chan_put H b c) = open_count c" for b
    by (simp add: chan_put_def)
  then show ?case
    using Suc by (auto split: if_splits)
qed auto

lemma write_count: "wbu_tty_write P H buf m u w = Inr (n, u', w') \<Longrightarrow> open_count (channel u') = open_count (channel u)"
  by (auto simp: wbu_tty_write_def ebind_eq_Inr_iff Let_def dest: write_loop_count)

lemma activate_on:
  assumes "wb_layout H" "chan_inv H (channel u)" "cr_ok w"
  shows "ported H u w [] u (port_calls (uart_on u) H u [PortActivate] w)"
    "bit (c_cr (dev (port_calls (uart_on u) H u [PortActivate] w))) 8"
    "bit (c_cr (dev (port_calls (uart_on u) H u [PortActivate] w))) 9 \<longleftrightarrow> bit (c_cr (dev w)) 9"
  using port_step_kept [OF assms, of PActivate] irq_enables(6) [OF assms(1,3), of u]
  by (simp_all add: port_calls_def wbu_port_activate_def bit_simps cr_masks del: bit_numeral_word_iff)

lemma shutdown_on:
  assumes "wb_layout H" "chan_inv H (channel u)" "cr_ok w"
  shows "ported H u w [] u (port_calls (uart_on u) H u [PortShutdown] w)"
    "\<not> bit (c_cr (dev (port_calls (uart_on u) H u [PortShutdown] w))) 8"
    "\<not> bit (c_cr (dev (port_calls (uart_on u) H u [PortShutdown] w))) 9"
proof -
  let ?v = "wbu_disable_rx_interrupts (uart_on u) H u w"
  have k: "cr_ok ?v"
    using cr_kept [OF assms, of wbu_disable_rx_interrupts] by (simp add: ported_def)
  note c = irq_enables(8) [OF assms(1,3), of u] irq_enables(4) [OF assms(1) k, of u]
  show "ported H u w [] u (port_calls (uart_on u) H u [PortShutdown] w)"
    using port_step_kept [OF assms, of PShutdown] by (simp add: port_calls_def)
  show "\<not> bit (c_cr (dev (port_calls (uart_on u) H u [PortShutdown] w))) 8"
    "\<not> bit (c_cr (dev (port_calls (uart_on u) H u [PortShutdown] w))) 9"
    using c by (simp_all add: port_calls_def wbu_port_shutdown_def bit_simps cr_masks del: bit_numeral_word_iff)
qed

lemma ported_call:
  assumes "chan_inv H (channel u)" "cr_ok w" "\<nexists>b. c = FlipChar b" "channel u' = (channel u)\<lparr>open_count := n\<rparr>" "same_dev u u'"
  shows "ported H u w [] u' (kcall c w)" "ported H u w [] u' w"
  using assms unfolding ported_def
  by (auto simp: trace_kcall dev_kcall cr_ok_def split: uart_call.splits)

lemma open_kept:
  assumes "wb_layout H" "tty_port_ok T" "life_inv H k u w" "k < 2 ^ 32 - 1"
  shows "\<exists>r u' w'. life_step H T n (LCall TtyOpen) u w = Inr (r, u', w') \<and> ret_ok H T n k (LCall TtyOpen) r
    \<and> life_inv H (k + 1) u' w' \<and> ported H u w [] u' w'"
proof -
  let ?c = "open_count (channel u) + 1"
  let ?u = "u\<lparr>channel := (channel u)\<lparr>open_count := ?c\<rparr>\<rparr>"
  have inv: "chan_inv H (channel u)" "cr_ok w" "unat (open_count (channel u)) = k"
    "bit (c_cr (dev w)) 8 \<longleftrightarrow> k \<noteq> 0" "bit (c_cr (dev w)) 9 \<longrightarrow> k \<noteq> 0"
    using assms(3) by (simp_all add: life_inv_def)
  have n: "unat ?c = k + 1"
    using inv(3) assms(4) by (simp add: unat_word_ariths)
  then have busy: "1 < ?c \<longleftrightarrow> k \<noteq> 0"
    by (simp add: word_less_nat_alt)
  have u: "chan_inv H (channel ?u)" "uart_on ?u = uart_on u"
    using inv(1) by simp_all
  note call = ported_call [OF inv(1,2), of TtyPortOpen ?u ?c]
  show ?thesis
  proof (cases "k = 0")
    case False
    have "life_step H T n (LCall TtyOpen) u w = Inr (- EBUSY, ?u, w)"
      using busy False by (simp add: wbu_tty_open_def Let_def)
    moreover have "life_inv H (k + 1) ?u w"
      using inv n False by (simp add: life_inv_def)
    ultimately show ?thesis
      using call False by auto
  next
    case True
    let ?w = "kcall TtyPortOpen w"
    let ?x = "port_calls (uart_on ?u) H ?u [PortActivate] ?w"
    have k: "cr_ok ?w" "c_cr (dev ?w) = c_cr (dev w)"
      using inv(2) by (simp_all add: cr_ok_def dev_kcall)
    note a = activate_on [OF assms(1) u(1) k(1)]
    have "life_step H T n (LCall TtyOpen) u w = Inr (tc_ret T n, ?u, ?x)"
      using busy True assms(2) u(2) by (simp add: wbu_tty_open_def Let_def tty_port_ok_def)
    moreover have "ported H u w [] ?u ?x"
      using ported_trans [OF _ a(1)] call(1) by simp
    then have "ported H u w [] ?u ?x \<and> life_inv H (k + 1) ?u ?x"
      using a(2,3) k(2) inv n u(1) by (simp add: life_inv_def ported_def)
    ultimately show ?thesis
      using True by auto
  qed
qed

lemma close_kept:
  assumes "wb_layout H" "tty_port_ok T" "life_inv H k u w" "k \<noteq> 0"
  shows "\<exists>u' w'. life_step H T n (LCall TtyClose) u w = Inr (0, u', w') \<and> life_inv H (k - 1) u' w' \<and> ported H u w [] u' w'"
proof -
  let ?c = "open_count (channel u) - 1"
  let ?u = "u\<lparr>channel := (channel u)\<lparr>open_count := ?c\<rparr>\<rparr>"
  have inv: "chan_inv H (channel u)" "cr_ok w" "unat (open_count (channel u)) = k"
    "bit (c_cr (dev w)) 8 \<longleftrightarrow> k \<noteq> 0" "bit (c_cr (dev w)) 9 \<longrightarrow> k \<noteq> 0"
    using assms(3) by (simp_all add: life_inv_def)
  have "open_count (channel u) \<noteq> 0"
    using inv(3) assms(4) by (auto simp: unat_eq_zero)
  then have n: "unat ?c = k - 1"
    using inv(3) by (simp add: unat_minus_one)
  then have last: "?c = 0 \<longleftrightarrow> k = 1"
    using assms(4) by (auto simp flip: unat_eq_zero)
  have u: "chan_inv H (channel ?u)" "uart_on ?u = uart_on u"
    using inv(1) by simp_all
  note call = ported_call [OF inv(1,2), of TtyPortClose ?u ?c]
  show ?thesis
  proof (cases "k = 1")
    case False
    have "life_step H T n (LCall TtyClose) u w = Inr (0, ?u, w)"
      using last False by (simp add: wbu_tty_close_def Let_def)
    moreover have "life_inv H (k - 1) ?u w"
      using inv n False assms(4) by (simp add: life_inv_def)
    ultimately show ?thesis
      using call by auto
  next
    case True
    let ?w = "kcall TtyPortClose w"
    let ?x = "port_calls (uart_on ?u) H ?u [PortShutdown] ?w"
    have k: "cr_ok ?w"
      using inv(2) by (simp add: cr_ok_def dev_kcall)
    note s = shutdown_on [OF assms(1) u(1) k]
    have "life_step H T n (LCall TtyClose) u w = Inr (0, ?u, ?x)"
      using last True assms(2) u(2) by (simp add: wbu_tty_close_def Let_def tty_port_ok_def)
    moreover have "ported H u w [] ?u ?x"
      using ported_trans [OF _ s(1)] call(1) by simp
    then have "ported H u w [] ?u ?x \<and> life_inv H (k - 1) ?u ?x"
      using s(2,3) n True u(1) by (simp add: life_inv_def ported_def)
    ultimately show ?thesis
      by blast
  qed
qed

lemma counts_bounded:
  assumes "chan_inv H (channel u)"
  shows "0 \<le> uint (wbu_tty_write_room H u)" "uint (wbu_tty_write_room H u) \<le> uint (PAGE_SIZE H)"
    "0 \<le> uint (wbu_tty_chars_in_buffer u)" "uint (wbu_tty_chars_in_buffer u) \<le> uint (PAGE_SIZE H)"
    "uint (wbu_tty_write_room H u) = 0 \<longleftrightarrow> nb_bytes (channel u) = PAGE_SIZE H"
proof -
  have le: "nb_bytes (channel u) \<le> PAGE_SIZE H"
    using assms by (simp add: chan_inv_def word_le_nat_alt)
  then have "uint (PAGE_SIZE H - nb_bytes (channel u)) = uint (PAGE_SIZE H) - uint (nb_bytes (channel u))"
    by (simp add: uint_minus_simple_alt)
  then show "0 \<le> uint (wbu_tty_write_room H u)" "uint (wbu_tty_write_room H u) \<le> uint (PAGE_SIZE H)"
    "0 \<le> uint (wbu_tty_chars_in_buffer u)" "uint (wbu_tty_chars_in_buffer u) \<le> uint (PAGE_SIZE H)"
    "uint (wbu_tty_write_room H u) = 0 \<longleftrightarrow> nb_bytes (channel u) = PAGE_SIZE H"
    using le by (auto simp: wbu_tty_write_room_def wbu_tty_chars_in_buffer_def word_le_def word_uint_eq_iff)
qed

lemma life_step_kept:
  assumes "wb_layout H" "tty_port_ok T" "life_inv H k u w" "files_step x k = Some k'" "k < 2 ^ 32 - 1"
  shows "\<exists>r u' w'. life_step H T n x u w = Inr (r, u', w') \<and> ret_ok H T n k x r \<and> life_inv H k' u' w'
    \<and> ported H u w (accepted (x, r)) u' w'"
proof -
  have inv: "chan_inv H (channel u)" "cr_ok w" "unat (open_count (channel u)) = k"
    "bit (c_cr (dev w)) 8 \<longleftrightarrow> k \<noteq> 0" "bit (c_cr (dev w)) 9 \<longrightarrow> k \<noteq> 0"
    using assms(3) by (simp_all add: life_inv_def)
  show ?thesis
  proof (cases x)
    case LIrq
    obtain a u' w' where r: "port_step H PIrq u w = Inr (a, u', w')" "ported H u w a u' w'"
      using irq_kept [OF assms(1) inv(1,2)] by blast
    have "life_inv H k u' w' \<and> a = []"
    proof (cases "int_o (dev w)")
      case True
      then obtain ret where h: "wbu_tty_handler (uart_on u) H u w = Inr (ret, u', w')" "a = []"
        using r(1) by (auto simp: ebind_eq_Inr_iff)
      show ?thesis
        using handler_on(3,4) [OF assms(1) inv(2,1) h(1)] h(2) r(2) inv handler_count [OF h(1)] by (simp add: life_inv_def ported_def)
    next
      case False
      then show ?thesis
        using r assms(3) by simp
    qed
    then show ?thesis
      using LIrq r assms(4) by (auto simp del: port_step.simps)
  next
    case (LLine evs)
    let ?w = "w\<lparr>dev := line_run evs (dev w)\<rparr>"
    have p: "ported H u w [] u ?w"
      using port_step_kept [OF assms(1) inv(1,2), of "PLine evs"] by simp
    have "c_cr (dev ?w) = c_cr (dev w)"
      using idle_run [of "dev w" evs] by (simp add: idle_def)
    then have "life_inv H k u ?w"
      using inv p by (simp add: life_inv_def ported_def)
    then show ?thesis
      using LLine p assms(4) by auto
  next
    case (LCall c)
    show ?thesis
    proof (cases c)
      case TtyOpen
      then show ?thesis
        using open_kept [OF assms(1-3,5), of n] LCall assms(4) by auto
    next
      case TtyClose
      then show ?thesis
        using close_kept [OF assms(1-3), of n] LCall assms(4) by (auto split: if_splits)
    next
      case (TtyWrite buf)
      then have k: "k \<noteq> 0" "k' = k"
        using LCall assms(4) by (auto split: if_splits)
      obtain m u' w' where p: "wbu_tty_write (uart_on u) H buf (int (length buf)) u w = Inr (int m, u', w')"
        "m \<le> length buf"
        using write_spec [OF wb_layout_hw_ok [OF assms(1)] inv(1), of "int (length buf)" buf "uart_on u" w] by auto
      have "ported H u w (take m buf) u' w'"
        using write_kept [OF assms(1) inv(1,2), of buf] p(1) by simp
      moreover have "life_inv H k u' w'"
        using write_on_core(2-4) [OF assms(1) inv(2) p(1)] calculation inv k(1) write_count [OF p(1)]
        by (simp add: life_inv_def ported_def)
      ultimately show ?thesis
        using LCall TtyWrite p k(2) by simp
    qed (use LCall assms(3,4) counts_bounded [OF inv(1)] ported_refl [OF inv(1,2)] in simp_all)
  qed
qed

lemma files_step_le: "files_step x k = Some k' \<Longrightarrow> k' \<le> k + 1"
  by (cases "(x, k)" rule: files_step.cases) (auto split: if_splits)

lemma life_run_kept:
  assumes "wb_layout H" "tty_port_ok T"
  shows "life_inv H k u w \<Longrightarrow> files k ops = Some k' \<Longrightarrow> k + length ops < 2 ^ 32 \<Longrightarrow>
    \<exists>rs u' w'. life_run H T n ops u w = Inr (rs, u', w') \<and> map fst rs = ops \<and> rets_ok H T n k rs
      \<and> life_inv H k' u' w' \<and> ported H u w (concat (map accepted rs)) u' w'"
proof (induction ops arbitrary: k n u w)
  case Nil
  then show ?case
    using ported_refl [of H u w] by (simp add: life_inv_def)
next
  case (Cons x xs)
  obtain k1 where k1: "files_step x k = Some k1" "files k1 xs = Some k'"
    using Cons.prems(2) by (auto split: option.splits)
  have len: "k1 + length xs < 2 ^ 32" "k < 2 ^ 32 - 1"
    using files_step_le [OF k1(1)] Cons.prems(3) by simp_all
  obtain r u1 w1 where s: "life_step H T n x u w = Inr (r, u1, w1)" "ret_ok H T n k x r" "life_inv H k1 u1 w1"
    "ported H u w (accepted (x, r)) u1 w1"
    using life_step_kept [OF assms Cons.prems(1) k1(1) len(2)] by blast
  obtain rs u' w' where i: "life_run H T (Suc n) xs u1 w1 = Inr (rs, u', w')" "map fst rs = xs" "rets_ok H T (Suc n) k1 rs"
    "life_inv H k' u' w'" "ported H u1 w1 (concat (map accepted rs)) u' w'"
    using Cons.IH [OF s(3) k1(2) len(1)] by blast
  have "life_run H T n (x # xs) u w = Inr ((x, r) # rs, u', w')"
    using s(1) i(1) by simp
  moreover have "rets_ok H T n k ((x, r) # rs)"
    using s(2) k1(1) i(3) by simp
  ultimately show ?case
    using ported_trans [OF s(4) i(5)] i(2,4) by (intro exI [of _ "(x, r) # rs"] exI [of _ u'] exI [of _ w']) simp
qed

section \<open>A ring that is left behind\<close>

text \<open>Nothing is received, and no call writes.\<close>

definition silent :: "uart_core \<Rightarrow> bool" where
  "silent c \<longleftrightarrow> pending c = [] \<and> c_sched c = []"

fun waiting :: "life_op \<Rightarrow> bool" where
  "waiting (LCall (TtyWrite buf)) = False"
| "waiting (LLine evs) = (\<forall>b. RxByte b \<notin> set evs)"
| "waiting x = True"

lemma waiting_none: "waiting x \<Longrightarrow> accepted (x, r) = []"
  by (cases "(x, r)" rule: accepted.cases) auto

lemma silent_core:
  assumes "silent c"
  shows "between c = c" "silent (snd (core_read off c))" "silent (core_write off v c)"
  using assms by (auto simp: silent_def pending_def between_def core_read_def core_write_def Let_def)

lemma silent_line: "silent c \<Longrightarrow> \<forall>b. RxByte b \<notin> set evs \<Longrightarrow> silent (line_run evs c)"
proof (induction evs arbitrary: c)
  case (Cons e evs)
  then have "silent (line_step e c)"
    by (cases e) (auto simp: silent_def pending_def split: list.splits)
  then show ?case
    using Cons by (simp add: line_run_def)
qed (simp add: line_run_def)

lemma silent_regs:
  assumes "silent (dev w)"
  shows "wbu_read_reg (uart_on u) u r w = (x, w') \<Longrightarrow> silent (dev w')" "silent (dev (wbu_write_reg (uart_on u) u x r w))"
  using silent_core [OF assms] by (auto simp: read_on write_on split: prod.splits) (metis snd_conv)

lemma silent_port: "silent (dev w) \<Longrightarrow> silent (dev (port_calls (uart_on u) H u cs w))"
proof (induction cs arbitrary: w)
  case (Cons c cs)
  have "silent (dev (snd (wbu_port_ops (uart_on u) H u c w)))"
    using Cons.prems by (cases c)
      (auto simp: wbu_port_activate_def wbu_port_shutdown_def wbu_enable_rx_interrupts_def wbu_disable_rx_interrupts_def
        wbu_disable_tx_interrupts_def case_prod_beta intro!: silent_regs silent_regs(1) [OF _ surjective_pairing])
  then show ?case
    using Cons.IH by (simp add: port_calls_def)
qed (simp add: port_calls_def)

lemma no_tx_port:
  assumes "wb_layout H" "chan_inv H (channel u)" "cr_ok w" "\<not> bit (c_cr (dev w)) 9" "c = PortActivate \<or> c = PortShutdown"
  shows "\<not> bit (c_cr (dev (port_calls (uart_on u) H u [c] w))) 9"
  using activate_on(3) [OF assms(1-3)] shutdown_on(3) [OF assms(1-3)] assms(4,5) by auto

lemma stalled_step:
  assumes "wb_layout H" "tty_port_ok T" "chan_inv H (channel u)" "cr_ok w" "\<not> bit (c_cr (dev w)) 9" "silent (dev w)" "waiting x"
    "life_step H T n x u w = Inr (r, u', w')"
  shows "chan_content (channel u') = chan_content (channel u) \<and> nb_bytes (channel u') = nb_bytes (channel u)
    \<and> \<not> bit (c_cr (dev w')) 9 \<and> silent (dev w') \<and> (x = LCall TtyWriteRoom \<longrightarrow> r = uint (wbu_tty_write_room H u))"
proof -
  have calls: "\<not> bit (c_cr (dev (port_calls (uart_on u) H v [c] (kcall d w)))) 9 \<and> silent (dev (port_calls (uart_on u) H v [c] (kcall d w)))"
    if "v = u\<lparr>channel := (channel u)\<lparr>open_count := m\<rparr>\<rparr>" for v c d m
  proof -
    have v: "chan_inv H (channel v)" "uart_on v = uart_on u" "cr_ok (kcall d w)" "\<not> bit (c_cr (dev (kcall d w))) 9" "silent (dev (kcall d w))"
      using that assms(3-6) by (simp_all add: cr_ok_def dev_kcall)
    have "c = PortActivate \<or> c = PortShutdown"
      by (cases c) auto
    then show ?thesis
      using no_tx_port [OF assms(1) v(1,3,4)] silent_port [OF v(5), of v] v(2) by simp
  qed
  show ?thesis
  proof (cases x)
    case (LCall c)
    show ?thesis
    proof (cases c)
      case TtyOpen
      then show ?thesis
        using LCall assms(2,5,6,8) calls
        by (auto simp: wbu_tty_open_def tty_port_ok_def Let_def split: if_splits)
    next
      case TtyClose
      then show ?thesis
        using LCall assms(2,5,6,8) calls
        by (auto simp: wbu_tty_close_def tty_port_ok_def Let_def split: if_splits)
    qed (use LCall assms(5-8) in auto)
  next
    case LIrq
    have "\<not> int_o (dev w)"
      using assms(5,6) by (simp add: int_o_def silent_def pending_def split: if_splits)
    then show ?thesis
      using LIrq assms(5,6,8) by simp
  next
    case (LLine evs)
    then show ?thesis
      using assms(5-8) silent_line [OF assms(6), of evs] idle_run [of "dev w" evs] by (auto simp: idle_def)
  qed
qed

lemma stalled_run:
  assumes "wb_layout H" "tty_port_ok T"
  shows "chan_inv H (channel u) \<Longrightarrow> cr_ok w \<Longrightarrow> \<not> bit (c_cr (dev w)) 9 \<Longrightarrow> silent (dev w) \<Longrightarrow> \<forall>x \<in> set ops. waiting x \<Longrightarrow>
    life_inv H k u w \<Longrightarrow> files k ops = Some k' \<Longrightarrow> k + length ops < 2 ^ 32 \<Longrightarrow> life_run H T n ops u w = Inr (rs, u', w') \<Longrightarrow>
    chan_content (channel u') = chan_content (channel u) \<and>
    (\<forall>r. (LCall TtyWriteRoom, r) \<in> set rs \<longrightarrow> r = uint (PAGE_SIZE H - nb_bytes (channel u)))"
proof (induction ops arbitrary: k n u w rs)
  case (Cons x xs)
  obtain k1 where k1: "files_step x k = Some k1" "files k1 xs = Some k'"
    using Cons.prems(7) by (auto split: option.splits)
  have len: "k1 + length xs < 2 ^ 32" "k < 2 ^ 32 - 1"
    using files_step_le [OF k1(1)] Cons.prems(8) by simp_all
  obtain r u1 w1 where s: "life_step H T n x u w = Inr (r, u1, w1)" "life_inv H k1 u1 w1"
    using life_step_kept [OF assms Cons.prems(6) k1(1) len(2)] by blast
  obtain ts where t: "life_run H T (Suc n) xs u1 w1 = Inr (ts, u', w')" "rs = (x, r) # ts"
    using Cons.prems(9) s(1) by (auto simp: ebind_eq_Inr_iff)
  have c: "chan_inv H (channel u1)" "cr_ok w1"
    using s(2) by (simp_all add: life_inv_def)
  note st = stalled_step [OF assms Cons.prems(1-4) _ s(1)]
  show ?case
    using st Cons.IH [OF c _ _ _ s(2) k1(2) len(1) t(1)] Cons.prems(5) t(2) by (auto simp: wbu_tty_write_room_def)
qed simp

section \<open>Properties\<close>

text \<open>
  C5: sessions. Whatever the kernel calls through \<open>wbu_tty_ops\<close>, in any number of sessions, with
  interrupts and anything on the line in between: no operation faults; only the first to open the
  terminal gets it, everyone else \<open>-EBUSY\<close>, and the files are counted; the core asks for interrupts only
  while the terminal is open. The bytes accepted go to the wire in order, also from one session to
  the next, and those received are delivered in order.
\<close>

theorem uart_sessions:
  assumes "wb_layout H" "tty_port_ok T" "life_inv H k u w" "files k ops = Some k'" "k + length ops < 2 ^ 32"
  shows "\<exists>rs u' w' es new. life_run H T n ops u w = Inr (rs, u', w') \<and> map fst rs = ops \<and> rets_ok H T n k rs
    \<and> life_inv H k' u' w' \<and> (k' = 0 \<longrightarrow> \<not> int_o (dev w'))
    \<and> c_wire (dev w') @ c_txf (dev w') @ chan_content (channel u') =
        c_wire (dev w) @ c_txf (dev w) @ chan_content (channel u) @ concat (map accepted rs)
    \<and> trace w' = trace w @ es \<and> chars es @ pending (dev w') = pending (dev w) @ new
    \<and> c_stored (dev w') = c_stored (dev w) @ new"
proof -
  obtain rs u' w' where r: "life_run H T n ops u w = Inr (rs, u', w')" "map fst rs = ops" "rets_ok H T n k rs"
    "life_inv H k' u' w'" "ported H u w (concat (map accepted rs)) u' w'"
    using life_run_kept [OF assms] by blast
  show ?thesis
    using r closed_is_quiet [of H u' w'] ported_wire [OF r(5)] by blast
qed

text \<open>
  C25: what is left in the ring when the terminal is closed. Shutting the port down does not empty
  the ring, and opening it again does not enable the transmit interrupt: as long as nobody writes and
  nothing is received, however often the terminal is opened and the line moves on, the bytes stay in
  the ring. If the ring is full there is no room to write, either.
\<close>

theorem uart_reopen_stalls:
  assumes "wb_layout H" "tty_port_ok T" "life_inv H 0 u w" "pending (dev w) = []" "c_sched (dev w) = []"
    "files 0 ops = Some k'" "length ops < 2 ^ 32" "\<forall>x \<in> set ops. waiting x"
  shows "\<exists>rs u' w'. life_run H T n ops u w = Inr (rs, u', w') \<and> chan_content (channel u') = chan_content (channel u)
    \<and> c_wire (dev w') @ c_txf (dev w') = c_wire (dev w) @ c_txf (dev w)
    \<and> (nb_bytes (channel u) = PAGE_SIZE H \<longrightarrow> (\<forall>r. (LCall TtyWriteRoom, r) \<in> set rs \<longrightarrow> r = 0))"
proof -
  have len: "0 + length ops < 2 ^ 32"
    using assms(7) by simp
  obtain rs u' w' where r: "life_run H T n ops u w = Inr (rs, u', w')" "map fst rs = ops"
    "ported H u w (concat (map accepted rs)) u' w'"
    using life_run_kept [OF assms(1-3,6) len] by blast
  have i: "chan_inv H (channel u)" "cr_ok w" "\<not> bit (c_cr (dev w)) 9" "silent (dev w)"
    using assms(3-5) by (simp_all add: life_inv_def silent_def)
  have s: "chan_content (channel u') = chan_content (channel u)"
    "\<forall>r. (LCall TtyWriteRoom, r) \<in> set rs \<longrightarrow> r = uint (PAGE_SIZE H - nb_bytes (channel u))"
    using stalled_run [OF assms(1,2) i assms(8,3,6) len r(1)] by auto
  have a: "concat (map accepted rs) = []"
    using assms(8) r(2) by (force simp: concat_eq_Nil_conv dest: waiting_none)
  have "c_wire (dev w') @ c_txf (dev w') = c_wire (dev w) @ c_txf (dev w)"
    using ported_wire [OF r(3)] s(1) a by auto
  then show ?thesis
    using r(1) s by auto
qed

section \<open>Witnesses\<close>

definition demo_tty :: tty_core where
  "demo_tty = \<lparr>tc_ret = (\<lambda>n. 0), tc_open = (\<lambda>n. [PortActivate]), tc_close = (\<lambda>n. [PortShutdown])\<rparr>"

definition demo_closed :: "uart_core uart_world" where
  "demo_closed = \<lparr>dev = demo_core\<lparr>c_cr := 0, c_rxf := [], c_sched := []\<rparr>, trace = []\<rparr>"

lemma demo_closed_ok: "tty_port_ok demo_tty" "life_inv demo_hw 0 demo_uart demo_closed" "life_inv demo_hw 0 demo_ring demo_closed"
  "pending (dev demo_closed) = []" "c_sched (dev demo_closed) = []"
proof -
  have "open_count (channel demo_ring) = 0" "open_count (channel demo_uart) = 0"
    by (simp_all add: demo_ring_def chan_put_def demo_uart_def)
  then show "life_inv demo_hw 0 demo_uart demo_closed" "life_inv demo_hw 0 demo_ring demo_closed"
    using demo_uart_ok(2) demo_ring_ok(1) by (simp_all add: life_inv_def cr_ok_def demo_closed_def)
qed (simp_all add: tty_port_ok_def demo_tty_def demo_closed_def demo_core_def pending_def)

lemma uart_sessions_witness:
  "\<exists>rs u' w'. life_run demo_hw demo_tty 0 [LCall TtyOpen, LCall (TtyWrite [1, 2, 3]), LCall TtyOpen, LIrq, LCall TtyClose,
      LLine [TxNext, RxByte 7], LIrq, LCall TtyClose] demo_uart demo_closed = Inr (rs, u', w')
    \<and> rets_ok demo_hw demo_tty 0 0 rs \<and> \<not> int_o (dev w')"
  using uart_sessions [OF demo_port_ok(1) demo_closed_ok(1,2), of "[LCall TtyOpen, LCall (TtyWrite [1, 2, 3]), LCall TtyOpen, LIrq,
      LCall TtyClose, LLine [TxNext, RxByte 7], LIrq, LCall TtyClose]" 0 0] by fastforce

lemma uart_reopen_stalls_witness:
  "\<exists>rs u' w'. life_run demo_hw demo_tty 0 [LCall TtyOpen, LIrq, LLine [TxNext], LCall TtyClose, LCall TtyOpen, LIrq]
      demo_ring demo_closed = Inr (rs, u', w') \<and> chan_content (channel u') = [1, 2, 3]"
  using uart_reopen_stalls [OF demo_port_ok(1) demo_closed_ok(1,3-5), of "[LCall TtyOpen, LIrq, LLine [TxNext], LCall TtyClose,
      LCall TtyOpen, LIrq]" 1 0] demo_ring_ok(2) by fastforce

end
