(* ===== verification/Uart_Race.thy ===== *)
theory Uart_Race
  imports Uart_Hw
begin

text \<open>
  \<open>wbu_tty_write\<close> against the interrupt handler. The ring is changed under the channel's lock, but
  the control register is read and written back outside it by the writer, so the two updates of
  the register can interleave. The step relation splits both sides at their accesses. Whenever the
  writer is back, bytes do not wait with the transmit interrupt off; the interrupt can be left on
  with nothing to send. What is needed of the device is proved of the UART core.
\<close>

unbundle bit_operations_syntax

section \<open>Steps\<close>

text \<open>
  The writer: idle, past its locked section, past its test of the count, holding the control
  register it read. The handler: idle, in its locked section with the ring empty, holding the
  control register it read (still under the lock). Outside of that section the handler reads the status and the
  received bytes.
\<close>

datatype wr_pc = WIdle | WFilled | WEnable | WGot u32

datatype hd_pc = HIdle | HEmpty | HGot u32

record 'd race =
  r_dev :: wbu_desc
  r_world :: "'d uart_world"
  r_wr :: wr_pc
  r_hd :: hd_pc

inductive rstep :: "'d platform \<Rightarrow> wbu_hw \<Rightarrow> 'd race \<Rightarrow> 'd race \<Rightarrow> bool" for P H where
  fill: "r_wr s = WIdle \<Longrightarrow> r_hd s = HIdle \<Longrightarrow> write_loop H buf (length buf) 0 (channel (r_dev s)) = Inr (n, c)
    \<Longrightarrow> rstep P H s (s\<lparr>r_dev := (r_dev s)\<lparr>channel := c\<rparr>, r_wr := WFilled\<rparr>)"
| check: "r_wr s = WFilled
    \<Longrightarrow> rstep P H s (s\<lparr>r_wr := (if nb_bytes (channel (r_dev s)) > 0 then WEnable else WIdle)\<rparr>)"
| enable_read: "r_wr s = WEnable \<Longrightarrow> wbu_read_reg P (r_dev s) (UART_REG_CR H) (r_world s) = (cr, w)
    \<Longrightarrow> rstep P H s (s\<lparr>r_world := w, r_wr := WGot cr\<rparr>)"
| enable_write: "r_wr s = WGot cr
    \<Longrightarrow> rstep P H s (s\<lparr>r_world := wbu_write_reg P (r_dev s) (cr OR UART_CR_TX_INTERRUPT_ENABLE H) (UART_REG_CR H) (r_world s),
         r_wr := WIdle\<rparr>)"
| receive: "r_hd s = HIdle \<Longrightarrow> r \<in> {UART_REG_SR H, UART_REG_RDR H} \<Longrightarrow> wbu_read_reg P (r_dev s) r (r_world s) = (x, w)
    \<Longrightarrow> rstep P H s (s\<lparr>r_world := w\<rparr>)"
| send: "r_hd s = HIdle \<Longrightarrow> nb_bytes (channel (r_dev s)) \<noteq> 0
    \<Longrightarrow> tx_loop P H MAX_NBR_OF_BYTES_PER_IRQ (r_dev s) (r_world s) = Inr (u, w)
    \<Longrightarrow> rstep P H s (s\<lparr>r_dev := u, r_world := w, r_hd := (if nb_bytes (channel u) = 0 then HEmpty else HIdle)\<rparr>)"
| disable_read: "r_hd s = HEmpty \<Longrightarrow> wbu_read_reg P (r_dev s) (UART_REG_CR H) (r_world s) = (cr, w)
    \<Longrightarrow> rstep P H s (s\<lparr>r_world := w, r_hd := HGot cr\<rparr>)"
| disable_write: "r_hd s = HGot cr
    \<Longrightarrow> rstep P H s (s\<lparr>r_world := kcall TtyWakeup (wbu_write_reg P (r_dev s) (cr AND NOT (UART_CR_TX_INTERRUPT_ENABLE H))
         (UART_REG_CR H) (r_world s)), r_hd := HIdle\<rparr>)"

definition tx_on :: "wbu_hw \<Rightarrow> u32 \<Rightarrow> bool" where
  "tx_on H cr \<longleftrightarrow> cr AND UART_CR_TX_INTERRUPT_ENABLE H = UART_CR_TX_INTERRUPT_ENABLE H"

text \<open>
  The transmit interrupt of the device: a write to the control register enables or disables it as the value
  says, the other accesses of the driver leave it as it is.
\<close>

definition cr_law :: "'d platform \<Rightarrow> wbu_hw \<Rightarrow> wbu_desc \<Rightarrow> ('d \<Rightarrow> bool) \<Rightarrow> bool" where
  "cr_law P H u on \<longleftrightarrow>
     (\<forall>(w :: 'd uart_world) r v w'. r \<in> {UART_REG_SR H, UART_REG_RDR H, UART_REG_CR H}
        \<longrightarrow> wbu_read_reg P u r w = (v, w') \<longrightarrow> on (dev w') = on (dev w))
   \<and> (\<forall>(w :: 'd uart_world) v. on (dev (wbu_write_reg P u v (UART_REG_CR H) w)) = tx_on H v)
   \<and> (\<forall>(w :: 'd uart_world) v. on (dev (wbu_write_reg P u v (UART_REG_TDR H) w)) = on (dev w))"

lemma tx_on_or: "tx_on H (c OR UART_CR_TX_INTERRUPT_ENABLE H)"
  by (simp add: tx_on_def bit_eq_iff bit_simps; blast)

lemma same_dev_access:
  assumes "same_dev u v"
  shows "wbu_read_reg P v = wbu_read_reg P u" "wbu_write_reg P v = wbu_write_reg P u"
  using assms by (simp_all add: same_dev_def fun_eq_iff wbu_read_reg_def wbu_write_reg_def)

lemma cr_read:
  assumes "cr_law P H u on" "same_dev u v" "r \<in> {UART_REG_SR H, UART_REG_RDR H, UART_REG_CR H}"
    "wbu_read_reg P v r w = (x, w')"
  shows "on (dev w') = on (dev w)"
  using assms same_dev_access(1) [OF assms(2), of P] unfolding cr_law_def by metis

lemma cr_write:
  assumes "cr_law P H u on" "same_dev u v"
  shows "on (dev (wbu_write_reg P v x (UART_REG_CR H) w)) = tx_on H x"
    "on (dev (wbu_write_reg P v x (UART_REG_TDR H) w)) = on (dev w)"
  using assms same_dev_access(2) [OF assms(2), of P] by (simp_all add: cr_law_def)

lemma cr_tx_loop:
  assumes "cr_law P H u on" "same_dev u v" "tx_loop P H k v w = Inr (v', w')"
  shows "on (dev w') = on (dev w)"
  using assms(2,3)
proof (induction k arbitrary: v w)
  case 0
  then show ?case by simp
next
  case (Suc k)
  obtain c where c: "chan_peek (channel v) = Inr c"
    using Suc.prems(2) by (cases "chan_peek (channel v)") auto
  obtain ret w1 where s: "wbu_tty_tx_send P H v c w = (ret, w1)"
    by fastforce
  obtain sr w2 where r: "wbu_read_reg P v (UART_REG_SR H) w = (sr, w2)"
    by fastforce
  have w1: "on (dev w1) = on (dev w)"
    using s r cr_read [OF assms(1) Suc.prems(1) _ r] cr_write(2) [OF assms(1) Suc.prems(1)]
    by (auto simp: wbu_tty_tx_send_def split: if_splits)
  let ?v = "v\<lparr>channel := chan_pop H (channel v)\<rparr>"
  have sd: "same_dev u ?v"
    using Suc.prems(1) by (simp add: same_dev_def)
  show ?case
    using Suc.prems(2) c s w1 Suc.IH [OF sd, of w1] by (auto simp: Let_def split: if_splits)
qed

section \<open>The invariant\<close>

definition race_inv :: "wbu_hw \<Rightarrow> wbu_desc \<Rightarrow> ('d \<Rightarrow> bool) \<Rightarrow> 'd race \<Rightarrow> bool" where
  "race_inv H u on s \<longleftrightarrow> same_dev u (r_dev s) \<and> chan_inv H (channel (r_dev s))
     \<and> (r_hd s \<noteq> HIdle \<longrightarrow> nb_bytes (channel (r_dev s)) = 0)
     \<and> (nb_bytes (channel (r_dev s)) \<noteq> 0 \<longrightarrow> r_wr s \<noteq> WIdle \<or> on (dev (r_world s)))"

lemma race_inv_read:
  assumes "race_inv H u on s" "cr_law P H u on" "r \<in> {UART_REG_SR H, UART_REG_RDR H, UART_REG_CR H}"
    "wbu_read_reg P (r_dev s) r (r_world s) = (x, w)"
  shows "race_inv H u on (s\<lparr>r_world := w\<rparr>)"
  using assms(1) cr_read [OF assms(2) _ assms(3,4)] by (simp add: race_inv_def)

lemma race_inv_step:
  assumes "rstep P H s t" "race_inv H u on s" "cr_law P H u on" "hw_ok H"
  shows "race_inv H u on t"
  using assms(1)
proof cases
  case (fill buf n c)
  then have "chan_inv H c"
    using write_loop_spec [of H "channel (r_dev s)" 0 "length buf" buf] assms(2) by (auto simp: race_inv_def)
  then show ?thesis
    using fill assms(2) by (simp add: race_inv_def same_dev_def)
next
  case check
  then show ?thesis
    using assms(2) by (auto simp: race_inv_def word_gt_0)
next
  case (enable_read c w)
  then show ?thesis
    using assms(2) by (simp add: race_inv_def)
next
  case (enable_write c)
  then show ?thesis
    using assms(2) cr_write(1) [OF assms(3)] tx_on_or by (simp add: race_inv_def)
next
  case (receive r x w)
  then show ?thesis
    using race_inv_read [OF assms(2,3) _ receive(4)] by auto
next
  case (send v w)
  have c: "chan_inv H (channel (r_dev s))" "chan_content (channel (r_dev s)) \<noteq> []"
    using assms(2) send(3) by (simp_all add: race_inv_def chan_content_empty)
  obtain n where "took H (r_dev s) (r_world s) n v w"
    using tx_loop_took [OF assms(4) c, of MAX_NBR_OF_BYTES_PER_IRQ P "r_world s"] send(4) by auto
  then show ?thesis
    using send assms(2) cr_tx_loop [OF assms(3) _ send(4)] by (auto simp: race_inv_def took_def same_dev_def)
next
  case (disable_read c w)
  then show ?thesis
    using assms(2) by (simp add: race_inv_def)
next
  case (disable_write c)
  then show ?thesis
    using assms(2) by (simp add: race_inv_def)
qed

lemma race_inv_reach:
  assumes "(rstep P H)\<^sup>*\<^sup>* s t" "race_inv H u on s" "cr_law P H u on" "hw_ok H"
  shows "race_inv H u on t"
  using assms by (induction rule: rtranclp_induct) (auto intro: race_inv_step)

section \<open>Properties\<close>

text \<open>
  C11: in every interleaving of a writer with the interrupt handler, whenever the writer is back
  from \<open>wbu_tty_write\<close>, bytes that wait in the ring wait with the transmit interrupt enabled:
  transmission does not stall.
\<close>

theorem wbu_no_stall:
  assumes "hw_ok H" "cr_law P H u on" "chan_inv H (channel u)" "nb_bytes (channel u) = 0"
    "(rstep P H)\<^sup>*\<^sup>* \<lparr>r_dev = u, r_world = w, r_wr = WIdle, r_hd = HIdle\<rparr> s" "r_wr s = WIdle"
  shows "chan_inv H (channel (r_dev s)) \<and> (chan_content (channel (r_dev s)) \<noteq> [] \<longrightarrow> on (dev (r_world s)))"
proof -
  have "race_inv H u on \<lparr>r_dev = u, r_world = w, r_wr = WIdle, r_hd = HIdle\<rparr>"
    using assms(3,4) by (simp add: race_inv_def)
  from race_inv_reach [OF assms(5) this assms(2,1)] show ?thesis
    using assms(6) by (simp add: race_inv_def chan_content_empty)
qed

section \<open>The UART core\<close>

text \<open>Of the control register the core keeps the two interrupt enables; that is enough.\<close>

lemma between_cr [simp]: "c_cr (between c) = c_cr c"
  using idle_between [of c] by (simp add: idle_def)

lemma core_cr_law:
  assumes "wb_layout H"
  shows "cr_law (uart_on u) H u (\<lambda>c. bit (c_cr c) 9)"
proof -
  have on: "bit (v AND 0x300 :: u32) 9 = tx_on H v" for v
  proof -
    have p: "0x200 = (push_bit 9 1 :: u32)"
      by simp
    have b: "bit (0x200 :: u32) n \<longleftrightarrow> n = 9" for n
      unfolding p bit_push_bit_iff bit_1_iff by auto
    have "v AND 0x200 = (if bit v 9 then 0x200 else 0)"
      by (rule bit_word_eqI) (auto simp: bit_and_iff b simp del: bit_numeral_word_iff)
    then have "tx_on H v = bit v 9"
      using assms by (simp add: tx_on_def wb_layout_def)
    then show ?thesis
      by (simp add: bit_and_iff bit_numeral_rec)
  qed
  show ?thesis
    using assms on
    by (auto simp: cr_law_def read_on write_on wb_layout_def core_read_def core_write_def Let_def split: if_splits)
qed

definition race_core :: uart_core where
  "race_core = \<lparr>c_cr = 0x100, c_txf = [], c_txsize = 16, c_rxf = [], c_rxsize = 16, c_rdr = 0, c_rdy = False,
     c_ovf = False, c_undef = 0xFFFFFFFF, c_wire = [], c_stored = [], c_sched = []\<rparr>"

definition race0 :: "uart_core race" where
  "race0 = \<lparr>r_dev = demo_uart, r_world = \<lparr>dev = race_core, trace = []\<rparr>, r_wr = WIdle, r_hd = HIdle\<rparr>"

lemma race_core_sr:
  assumes "same_dev demo_uart u" "c_sched (dev w) = []" "c_rdy (dev w) = False" "\<not> tx_full (dev w)"
  shows "\<exists>x w'. wbu_read_reg (uart_on demo_uart) u (UART_REG_SR demo_hw) w = (x, w') \<and> dev w' = dev w
    \<and> x AND UART_SR_TX_BUSY demo_hw = 0 \<and> x AND UART_SR_RX_RDY demo_hw = 0"
proof -
  obtain x w' where g: "wbu_read_reg (uart_on u) u (UART_REG_SR demo_hw) w = (x, w')"
    by fastforce
  note r = sr_read [OF demo_port_ok(1) g]
  have "dev w' = dev w"
    using g assms(2) by (auto simp: read_on core_read_def between_def demo_hw_def)
  then show ?thesis
    using r(3,4) g assms(3,4) uart_on_same [OF assms(1)] by auto
qed

lemma race_core_tx:
  assumes "same_dev demo_uart u" "chan_peek (channel u) = Inr c" "nb_bytes (channel u) = 1" "dev w = race_core"
  shows "\<exists>w'. tx_loop (uart_on demo_uart) demo_hw (Suc k) u w = Inr (u\<lparr>channel := chan_pop demo_hw (channel u)\<rparr>, w')
    \<and> dev w' = race_core\<lparr>c_txf := [c]\<rparr>"
proof -
  have "c_sched (dev w) = []" "c_rdy (dev w) = False" "\<not> tx_full (dev w)"
    using assms(4) by (simp_all add: race_core_def tx_full_def)
  then obtain x w1 where r: "wbu_read_reg (uart_on demo_uart) u (UART_REG_SR demo_hw) w = (x, w1)"
      "dev w1 = dev w" "x AND UART_SR_TX_BUSY demo_hw = 0"
    using race_core_sr [OF assms(1)] by blast
  have "dev (wbu_write_reg (uart_on demo_uart) u (char_val demo_hw c) (UART_REG_TDR demo_hw) w1) = race_core\<lparr>c_txf := [c]\<rparr>"
    using assms(4) r(2) uart_on_same [OF assms(1)]
    by (simp add: write_on [of u, unfolded uart_on_same [OF assms(1)]] core_write_def between_def race_core_def demo_hw_def tx_full_def)
  then show ?thesis
    using assms r(1,3) by (simp add: wbu_tty_tx_send_def chan_pop_def Let_def)
qed

lemma spurious_reach:
  "\<exists>s. (rstep (uart_on demo_uart) demo_hw)\<^sup>*\<^sup>* race0 s \<and> r_wr s = WIdle \<and> r_hd s = HIdle \<and> same_dev demo_uart (r_dev s)
     \<and> nb_bytes (channel (r_dev s)) = 0 \<and> bit (c_cr (dev (r_world s))) 9
     \<and> c_sched (dev (r_world s)) = [] \<and> c_rdy (dev (r_world s)) = False \<and> \<not> tx_full (dev (r_world s))"
proof -
  let ?P = "uart_on demo_uart"
  let ?R = "rstep ?P demo_hw"
  let ?c = "chan_put demo_hw 1 (channel demo_uart)"
  let ?u = "demo_uart\<lparr>channel := ?c\<rparr>"
  let ?w0 = "\<lparr>dev = race_core, trace = []\<rparr> :: uart_core uart_world"
  let ?st = "\<lambda>u w a b. \<lparr>r_dev = u, r_world = w, r_wr = a, r_hd = b\<rparr>"
  have nb: "nb_bytes ?c = 1"
    by (simp add: chan_put_def demo_uart_def)
  have pk: "chan_peek ?c = Inr 1"
    by (simp add: chan_put_def demo_uart_def chan_peek_def)
  have "write_loop demo_hw [1] (length [1 :: u8]) 0 (channel demo_uart) = Inr (1, ?c)"
    by (simp add: demo_uart_def demo_hw_def)
  then have 1: "?R race0 (?st ?u ?w0 WFilled HIdle)"
    using rstep.fill [of race0 demo_hw "[1]" 1 ?c ?P] by (simp add: race0_def)
  have 2: "?R (?st ?u ?w0 WFilled HIdle) (?st ?u ?w0 WEnable HIdle)"
    using rstep.check [of "?st ?u ?w0 WFilled HIdle" ?P demo_hw] nb by simp
  let ?v = "demo_uart\<lparr>channel := chan_pop demo_hw ?c\<rparr>"
  obtain w1 where w1: "tx_loop ?P demo_hw 32 ?u ?w0 = Inr (?v, w1)" "dev w1 = race_core\<lparr>c_txf := [1]\<rparr>"
    using race_core_tx [of ?u 1 ?w0 31] nb pk by auto
  have nv: "nb_bytes (channel ?v) = 0"
    using nb by (simp add: chan_pop_def)
  have 3: "?R (?st ?u ?w0 WEnable HIdle) (?st ?v w1 WEnable HEmpty)"
    using rstep.send [of "?st ?u ?w0 WEnable HIdle" ?P demo_hw ?v w1] nb nv w1 by simp
  obtain c2 w2 where w2: "wbu_read_reg ?P ?v (UART_REG_CR demo_hw) w1 = (c2, w2)"
    by fastforce
  have 4: "?R (?st ?v w1 WEnable HEmpty) (?st ?v w2 WEnable (HGot c2))"
    using rstep.disable_read [of "?st ?v w1 WEnable HEmpty" ?P demo_hw c2 w2] w2 by simp
  let ?w3 = "kcall TtyWakeup (wbu_write_reg ?P ?v (c2 AND NOT (UART_CR_TX_INTERRUPT_ENABLE demo_hw)) (UART_REG_CR demo_hw) w2)"
  have 5: "?R (?st ?v w2 WEnable (HGot c2)) (?st ?v ?w3 WEnable HIdle)"
    using rstep.disable_write [of "?st ?v w2 WEnable (HGot c2)" c2 ?P demo_hw] by simp
  obtain cr w4 where w4: "wbu_read_reg ?P ?v (UART_REG_CR demo_hw) ?w3 = (cr, w4)"
    by fastforce
  have 6: "?R (?st ?v ?w3 WEnable HIdle) (?st ?v w4 (WGot cr) HIdle)"
    using rstep.enable_read [of "?st ?v ?w3 WEnable HIdle" ?P demo_hw cr w4] w4 by simp
  let ?w5 = "wbu_write_reg ?P ?v (cr OR UART_CR_TX_INTERRUPT_ENABLE demo_hw) (UART_REG_CR demo_hw) w4"
  have 7: "?R (?st ?v w4 (WGot cr) HIdle) (?st ?v ?w5 WIdle HIdle)"
    using rstep.enable_write [of "?st ?v w4 (WGot cr) HIdle" cr ?P demo_hw] by simp
  have p: "?P = uart_on ?v"
    by simp
  have s2: "c_sched (dev w2) = []" "c_rdy (dev w2) = False" "\<not> tx_full (dev w2)"
    using w1(2) w2 unfolding p read_on by (auto simp: core_read_def between_def race_core_def tx_full_def demo_hw_def)
  have s3: "c_sched (dev ?w3) = []" "c_rdy (dev ?w3) = False" "\<not> tx_full (dev ?w3)"
    using s2 unfolding p write_on by (simp_all add: dev_kcall core_write_def between_def tx_full_def demo_hw_def Let_def)
  have s4: "c_sched (dev w4) = []" "c_rdy (dev w4) = False" "\<not> tx_full (dev w4)"
    using s3 w4 unfolding p read_on by (auto simp: core_read_def between_def tx_full_def demo_hw_def)
  have s5: "c_sched (dev ?w5) = []" "c_rdy (dev ?w5) = False" "\<not> tx_full (dev ?w5)"
    using s4 unfolding p write_on by (simp_all add: core_write_def between_def tx_full_def demo_hw_def Let_def)
  have "bit (c_cr (dev ?w5)) 9"
    using cr_write(1) [OF core_cr_law [OF demo_port_ok(1)], of demo_uart ?v] tx_on_or [of demo_hw cr] by simp
  moreover have "?R\<^sup>*\<^sup>* race0 (?st ?v ?w5 WIdle HIdle)"
    using 1 2 3 4 5 6 7 by (meson converse_rtranclp_into_rtranclp rtranclp.rtrancl_refl)
  ultimately show ?thesis
    using nv s5 by (intro exI [of _ "?st ?v ?w5 WIdle HIdle"]) simp
qed

text \<open>
  An interleaving in which the handler empties the ring between the writer's test of the count
  and its update of the control register ends with the transmit interrupt enabled and nothing to
  send; the handler then answers \<open>IRQ_NONE\<close> and leaves the core as it is.
\<close>

theorem wbu_spurious_tx_interrupt:
  "\<exists>s w'. (rstep (uart_on demo_uart) demo_hw)\<^sup>*\<^sup>* race0 s \<and> r_wr s = WIdle \<and> r_hd s = HIdle
     \<and> chan_content (channel (r_dev s)) = [] \<and> int_o (dev (r_world s))
     \<and> wbu_tty_handler (uart_on demo_uart) demo_hw (r_dev s) (r_world s) = Inr (UIRQ_NONE, r_dev s, w')
     \<and> dev w' = dev (r_world s)"
proof -
  obtain s where s: "(rstep (uart_on demo_uart) demo_hw)\<^sup>*\<^sup>* race0 s" "r_wr s = WIdle" "r_hd s = HIdle"
     "same_dev demo_uart (r_dev s)" "nb_bytes (channel (r_dev s)) = 0" "bit (c_cr (dev (r_world s))) 9"
     "c_sched (dev (r_world s)) = []" "c_rdy (dev (r_world s)) = False" "\<not> tx_full (dev (r_world s))"
    using spurious_reach by blast
  obtain x w' where "wbu_read_reg (uart_on demo_uart) (r_dev s) (UART_REG_SR demo_hw) (r_world s) = (x, w')"
      "dev w' = dev (r_world s)" "x AND UART_SR_RX_RDY demo_hw = 0"
    using race_core_sr [OF s(4,7-9)] by blast
  then show ?thesis
    using s by (intro exI [of _ s] exI [of _ w']) (simp add: wbu_tty_handler_def chan_content_empty int_o_def)
qed

section \<open>Witnesses\<close>

lemma wbu_no_stall_witness:
  "\<exists>s. (rstep (uart_on demo_uart) demo_hw)\<^sup>*\<^sup>* race0 s \<and> chan_inv demo_hw (channel (r_dev s))"
proof -
  obtain s where s: "(rstep (uart_on demo_uart) demo_hw)\<^sup>*\<^sup>* race0 s" "r_wr s = WIdle"
    using spurious_reach by blast
  have "nb_bytes (channel demo_uart) = 0"
    by (simp add: demo_uart_def)
  from wbu_no_stall [OF demo_uart_ok(1) core_cr_law [OF demo_port_ok(1)] demo_uart_ok(2) this] s show ?thesis
    unfolding race0_def by blast
qed

end
