(* ===== verification/Uart_Probe.thy ===== *)
theory Uart_Probe
  imports Uart_Tty
begin

text \<open>
  \<open>probe\<close> and \<open>remove\<close> of the UART driver: the order in which resources are taken, the exits, and
  what each releases. The kernel's answers are a parameter.
\<close>

unbundle bit_operations_syntax

section \<open>Probe and remove\<close>

definition WB_UART_BIG_ENDIAN :: u64 where [simp]: "WB_UART_BIG_ENDIAN = push_bit 0 1"

record wb_uart_platform_data =
  pd_flags :: u64
  pd_name :: string

text \<open>
  \<open>uv_ioremap\<close> is a base or an error pointer. \<open>uv_tty_dev\<close> is what \<open>tty_port_register_device\<close>
  returns: a device (\<open>Inr True\<close>), a null pointer (\<open>Inr False\<close>) or an error pointer.
\<close>

record wbu_env =
  uv_pdata :: "wb_uart_platform_data option"
  uv_alloc :: bool
  uv_mem :: bool
  uv_ioremap :: "int + addr"
  uv_tty_alloc :: "int option"
  uv_driver_name :: bool
  uv_tty_name :: bool
  uv_tty_register :: int
  uv_page :: "u8 list"
  uv_tty_dev :: "int + bool"
  uv_irq :: "int option"
  uv_request_irq :: int

definition wbu_is_bigendian :: "wb_uart_platform_data \<Rightarrow> bool" where
  "wbu_is_bigendian pd \<longleftrightarrow> pd_flags pd AND WB_UART_BIG_ENDIAN \<noteq> 0"

definition wbu_memops_detect :: "wb_uart_platform_data \<Rightarrow> wbu_desc \<Rightarrow> wbu_desc" where
  "wbu_memops_detect pd u = u\<lparr>memops := (if wbu_is_bigendian pd then MemBe else MemLe)\<rparr>"

definition wbu_tty_driver_init :: "wbu_env \<Rightarrow> int" where
  "wbu_tty_driver_init E = (if \<not> uv_driver_name E \<or> \<not> uv_tty_name E then - ENOMEM else 0)"

definition wbu_tty_port_init :: "wbu_env \<Rightarrow> wbu_desc \<Rightarrow> 'd uart_world \<Rightarrow> int \<times> wbu_desc \<times> 'd uart_world" where
  "wbu_tty_port_init E u w =
     (let u = u\<lparr>channel := (wbu_channel_init (channel u))\<lparr>xmit_buf := uv_page E\<rparr>\<rparr>;
          w = kcall PortInit w
      in case uv_tty_dev E of
           Inr True \<Rightarrow> (0, u, kcall PortRegister w)
         | Inr False \<Rightarrow> (0, u, kcall PortPut w)
         | Inl err \<Rightarrow> (err, u, kcall PortPut w))"

definition wbu_tty_port_exit :: "'d uart_world \<Rightarrow> 'd uart_world" where
  "wbu_tty_port_exit w = kcall PortDestroy (kcall FreeXmit (kcall UnregDevice w))"

definition err_tty :: "'d uart_world \<Rightarrow> 'd uart_world" where
  "err_tty w = kcall KrefPut (kcall FreeNames w)"

definition err_port :: "'d uart_world \<Rightarrow> 'd uart_world" where
  "err_port w = err_tty (kcall TtyUnregister (wbu_tty_port_exit w))"

definition fresh_uart :: "addr \<Rightarrow> wbu_desc" where
  "fresh_uart base = \<lparr>base_addr = base, memops = MemNone, channel = \<lparr>open_count = 0, nb_bytes = 0,
     ptr_read = 0, ptr_write = 0, xmit_buf = []\<rparr>\<rparr>"

definition probe_tty :: "wbu_env \<Rightarrow> wbu_desc \<Rightarrow> 'd uart_world \<Rightarrow> int \<times> wbu_desc \<times> 'd uart_world" where
  "probe_tty E u w = (case uv_tty_alloc E of
       Some err \<Rightarrow> (err, u, w)
     | None \<Rightarrow>
         let w = kcall TtyAlloc w; err = wbu_tty_driver_init E
         in if err < 0 then (err, u, err_tty w)
            else if uv_tty_register E < 0 then (uv_tty_register E, u, err_tty w)
            else
              let w = kcall TtyRegister w; (err, u, w) = wbu_tty_port_init E u w
              in if err < 0 then (err, u, err_port w)
                 else case uv_irq E of
                     None \<Rightarrow> (- ENXIO, u, err_port (kcall DevErr w))
                   | Some irq \<Rightarrow>
                       if uv_request_irq E < 0 then (uv_request_irq E, u, err_port (kcall DevErr w))
                       else (0, u, kcall RequestIrq w))"

text \<open>The base address is not checked: the first access through an error pointer is a fault.\<close>

definition wbu_probe :: "'d platform \<Rightarrow> wbu_hw \<Rightarrow> wbu_env \<Rightarrow> 'd uart_world \<Rightarrow>
    c_fault + int \<times> wbu_desc option \<times> 'd uart_world" where
  "wbu_probe P H E w = (case uv_pdata E of
       None \<Rightarrow> Inr (- ENXIO, None, w)
     | Some pd \<Rightarrow>
         if \<not> uv_alloc E then Inr (- ENOMEM, None, w)
         else if \<not> uv_mem E then Inr (- ENXIO, None, kcall DevErr w)
         else case uv_ioremap E of
             Inl e \<Rightarrow> Inl BadPointer
           | Inr base \<Rightarrow>
               let u = wbu_memops_detect pd (fresh_uart base);
                   (err, w) = wbu_check_type P H u w
               in if err < 0 then Inr (err, None, kcall DevErr w)
                  else let (err, u, w) = probe_tty E u w
                       in Inr (err, if err = 0 then Some u else None, w))"

definition wbu_remove :: "bool \<Rightarrow> 'd uart_world \<Rightarrow> int \<times> 'd uart_world" where
  "wbu_remove has_driver w =
     (if \<not> has_driver then (0, w)
      else (0, err_port (kcall FreeIrq w)))"

section \<open>What the exits leave behind\<close>

lemma net_check_type: "wbu_check_type P H u w = (err, w') \<Longrightarrow> net a b (trace w') = net a b (trace w)"
  by (auto simp: wbu_check_type_def net_def dest!: trace_read_reg split: prod.splits if_splits)

lemmas exit_defs = err_port_def err_tty_def wbu_tty_port_exit_def wbu_tty_port_init_def

text \<open>The books: drivers allocated, drivers registered, interrupts.\<close>

lemma probe_tty_net:
  assumes "probe_tty E u w = (err, u', w')" "\<And>e. uv_tty_alloc E = Some e \<Longrightarrow> e < 0"
    "\<And>e. uv_tty_dev E = Inl e \<Longrightarrow> e < 0"
  shows "net TtyAlloc KrefPut (trace w') = net TtyAlloc KrefPut (trace w) + (if err = 0 then 1 else 0)
    \<and> net TtyRegister TtyUnregister (trace w') = net TtyRegister TtyUnregister (trace w) + (if err = 0 then 1 else 0)
    \<and> net RequestIrq FreeIrq (trace w') = net RequestIrq FreeIrq (trace w) + (if err = 0 then 1 else 0)
    \<and> err \<le> 0"
  using assms
  by (auto simp: probe_tty_def exit_defs wbu_tty_driver_init_def net_kcall Let_def
      split: option.splits if_splits sum.splits bool.splits dest!: spec)

section \<open>Properties\<close>

text \<open>
  C29: \<open>wbu_probe\<close> either succeeds, with the tty driver allocated and registered and the interrupt
  taken, or fails with all three released.
\<close>

theorem wbu_probe_balanced:
  assumes "wbu_probe P H E w = Inr (err, r, w')" "trace w = []" "\<And>e. uv_tty_alloc E = Some e \<Longrightarrow> e < 0"
    "\<And>e. uv_tty_dev E = Inl e \<Longrightarrow> e < 0"
  shows "err \<le> 0 \<and> (\<forall>(a, b) \<in> {(TtyAlloc, KrefPut), (TtyRegister, TtyUnregister), (RequestIrq, FreeIrq)}.
    net a b (trace w') = (if err = 0 then 1 else 0))"
proof -
  have z: "net a b (trace w) = 0" for a b
    using assms(2) by (simp add: net_def)
  show ?thesis
  proof (cases "uv_pdata E")
    case None
    then show ?thesis
      using assms(1) z by (auto simp: wbu_probe_def)
  next
    case (Some pd)
    show ?thesis
    proof (cases "uv_alloc E \<and> uv_mem E \<and> (\<exists>base. uv_ioremap E = Inr base)")
      case False
      then show ?thesis
        using assms(1) z Some by (cases "uv_ioremap E") (auto simp: wbu_probe_def net_kcall split: if_splits)
    next
      case True
      then obtain base where b: "uv_alloc E" "uv_mem E" "uv_ioremap E = Inr base"
        by blast
      let ?u = "wbu_memops_detect pd (fresh_uart base)"
      obtain e1 w1 where c: "wbu_check_type P H ?u w = (e1, w1)"
        by fastforce
      note n = net_check_type [OF c]
      obtain e2 u2 w2 where t: "probe_tty E ?u w1 = (e2, u2, w2)"
        using prod_cases3 by blast
      show ?thesis
        using assms(1) Some b c t n z probe_tty_net [OF t assms(3,4)]
        by (cases "e1 < 0") (auto simp: wbu_probe_def net_kcall)
    qed
  qed
qed

text \<open>
  When the port cannot be registered, \<open>wbu_tty_port_init\<close> drops its reference, and the exit
  of \<open>wbu_probe\<close> then unregisters the device that was never registered and destroys the port a
  second time.
\<close>

theorem wbu_probe_double_release:
  assumes "wbu_probe P H E w = Inr (err, r, w')" "trace w = []" "uv_tty_alloc E = None" "uv_driver_name E" "uv_tty_name E"
    "0 \<le> uv_tty_register E" "uv_tty_dev E = Inl e" "e < 0" "uv_pdata E = Some pd" "uv_alloc E" "uv_mem E"
    "uv_ioremap E = Inr base" "wbu_check_type P H (wbu_memops_detect pd (fresh_uart base)) w = (0, w1)"
  shows "calls_of (trace w') = calls_of (trace w1) @ map EvCall
    [TtyAlloc, TtyRegister, PortInit, PortPut, UnregDevice, FreeXmit, PortDestroy, TtyUnregister, FreeNames, KrefPut]"
  using assms
  by (auto simp: wbu_probe_def probe_tty_def exit_defs wbu_tty_driver_init_def trace_kcall)

text \<open>
  The result of mapping the registers is not checked: with an error pointer for a base, probe
  does not fail, it faults on its first register access.
\<close>

theorem wbu_probe_unchecked_base:
  assumes "uv_pdata E = Some pd" "uv_alloc E" "uv_mem E" "uv_ioremap E = Inl e"
  shows "wbu_probe P H E w = Inl BadPointer"
  using assms by (simp add: wbu_probe_def)

section \<open>Witnesses\<close>

definition demo_uart_env :: wbu_env where
  "demo_uart_env = \<lparr>uv_pdata = Some \<lparr>pd_flags = 1, pd_name = ''demo''\<rparr>, uv_alloc = True, uv_mem = True,
     uv_ioremap = Inr 0x2000, uv_tty_alloc = None, uv_driver_name = True, uv_tty_name = True, uv_tty_register = 0,
     uv_page = replicate 4096 0, uv_tty_dev = Inr True, uv_irq = Some 5, uv_request_irq = 0\<rparr>"

text \<open>A device whose registers read as all ones.\<close>

definition ones :: "unit platform" where
  "ones = \<lparr>p_read = (\<lambda>c a d. (0xFFFFFFFF, d)), p_write = (\<lambda>c a v d. d), p_jiffies = (\<lambda>d. (0, d)), p_msecs = of_nat\<rparr>"

lemma ones_type: "\<exists>w'. wbu_check_type ones demo_hw u w = (0, w') \<and> calls_of (trace w') = calls_of (trace w)"
  by (simp add: wbu_check_type_def wbu_read_reg_def ioread_def ones_def demo_hw_def)

lemma wbu_probe_balanced_witness:
  "\<exists>r w'. wbu_probe ones demo_hw demo_uart_env uart_w = Inr (0, r, w') \<and> net TtyRegister TtyUnregister (trace w') = 1"
proof -
  obtain w1 where "wbu_check_type ones demo_hw (wbu_memops_detect \<lparr>pd_flags = 1, pd_name = ''demo''\<rparr> (fresh_uart 0x2000)) uart_w = (0, w1)"
    using ones_type by blast
  then obtain r w' where p: "wbu_probe ones demo_hw demo_uart_env uart_w = Inr (0, r, w')"
    by (simp add: wbu_probe_def demo_uart_env_def probe_tty_def wbu_tty_driver_init_def wbu_tty_port_init_def Let_def)
  have "trace uart_w = []" "\<And>e. uv_tty_alloc demo_uart_env = Some e \<Longrightarrow> e < 0" "\<And>e. uv_tty_dev demo_uart_env = Inl e \<Longrightarrow> e < 0"
    by (simp_all add: uart_w_def demo_uart_env_def)
  from wbu_probe_balanced [OF p this] show ?thesis
    using p by auto
qed

lemma wbu_probe_double_release_witness:
  "\<exists>r w'. wbu_probe ones demo_hw (demo_uart_env\<lparr>uv_tty_dev := Inl (- ENOMEM)\<rparr>) uart_w = Inr (- ENOMEM, r, w')
    \<and> EvCall PortPut \<in> set (calls_of (trace w')) \<and> EvCall PortDestroy \<in> set (calls_of (trace w'))"
proof -
  let ?E = "demo_uart_env\<lparr>uv_tty_dev := Inl (- ENOMEM)\<rparr>"
  obtain w1 where c: "wbu_check_type ones demo_hw (wbu_memops_detect \<lparr>pd_flags = 1, pd_name = ''demo''\<rparr> (fresh_uart 0x2000)) uart_w = (0, w1)"
    using ones_type by blast
  then obtain r w' where p: "wbu_probe ones demo_hw ?E uart_w = Inr (- ENOMEM, r, w')"
    by (simp add: wbu_probe_def demo_uart_env_def probe_tty_def wbu_tty_driver_init_def wbu_tty_port_init_def Let_def)
  have "calls_of (trace w') = calls_of (trace w1) @ map EvCall
    [TtyAlloc, TtyRegister, PortInit, PortPut, UnregDevice, FreeXmit, PortDestroy, TtyUnregister, FreeNames, KrefPut]"
    by (rule wbu_probe_double_release [OF p, where e = "- ENOMEM" and base = "0x2000" and pd = "\<lparr>pd_flags = 1, pd_name = ''demo''\<rparr>"])
      (use c in \<open>simp_all add: demo_uart_env_def uart_w_def\<close>)
  then show ?thesis
    using p by simp
qed

lemma wbu_probe_unchecked_base_witness:
  "wbu_probe ones demo_hw (demo_uart_env\<lparr>uv_ioremap := Inl (- EBUSY)\<rparr>) uart_w = Inl BadPointer"
  by (rule wbu_probe_unchecked_base) (simp_all add: demo_uart_env_def)

end
