(* ===== verification/Spi_Regs.thy ===== *)
theory Spi_Regs
  imports Kernel_Io Buffers
begin

text \<open>
  The SPI master driver (\<open>spi-ocores.c\<close>), its hardware layer: the controller's registers, the
  state of the driver, the transmit and receive registers and the functions that move one word
  between them and the buffers of the current transfer.
\<close>

unbundle bit_operations_syntax

section \<open>Registers\<close>

definition SPI_OCORES_BUF_SIZE :: u32 where [simp]: "SPI_OCORES_BUF_SIZE = 4"
definition SPI_OCORES_CS_MAX_N :: u32 where [simp]: "SPI_OCORES_CS_MAX_N = 8"
definition SPI_OCORES_RX :: "u32 \<Rightarrow> u32" where [simp]: "SPI_OCORES_RX x = x * SPI_OCORES_BUF_SIZE"
definition SPI_OCORES_TX :: "u32 \<Rightarrow> u32" where [simp]: "SPI_OCORES_TX x = x * SPI_OCORES_BUF_SIZE"
definition SPI_OCORES_CTRL :: u32 where [simp]: "SPI_OCORES_CTRL = 0x10"
definition SPI_OCORES_DIV :: u32 where [simp]: "SPI_OCORES_DIV = 0x14"
definition SPI_OCORES_CS :: u32 where [simp]: "SPI_OCORES_CS = 0x18"

definition SPI_OCORES_CTRL_CHAR_LEN :: u32 where [simp]: "SPI_OCORES_CTRL_CHAR_LEN = 0x007F"
definition SPI_OCORES_CTRL_GO :: u32 where [simp]: "SPI_OCORES_CTRL_GO = 0x0100"
definition SPI_OCORES_CTRL_BUSY :: u32 where [simp]: "SPI_OCORES_CTRL_BUSY = 0x0100"
definition SPI_OCORES_CTRL_Rx_NEG :: u32 where [simp]: "SPI_OCORES_CTRL_Rx_NEG = 0x0200"
definition SPI_OCORES_CTRL_Tx_NEG :: u32 where [simp]: "SPI_OCORES_CTRL_Tx_NEG = 0x0400"
definition SPI_OCORES_CTRL_LSB :: u32 where [simp]: "SPI_OCORES_CTRL_LSB = 0x0800"
definition SPI_OCORES_CTRL_IE :: u32 where [simp]: "SPI_OCORES_CTRL_IE = 0x1000"
definition SPI_OCORES_FLAG_POLL :: u64 where [simp]: "SPI_OCORES_FLAG_POLL = 1"

text \<open>\<open>SPI_CPHA\<close> and \<open>SPI_LSB_FIRST\<close> of \<open>linux/spi/spi.h\<close>.\<close>

definition SPI_CPHA :: u32 where [simp]: "SPI_CPHA = 0x01"
definition SPI_LSB_FIRST :: u32 where [simp]: "SPI_LSB_FIRST = 0x08"

section \<open>Messages and driver state\<close>

text \<open>
  Of the SPI core's structures, the fields the driver uses. \<open>x_delay\<close> is the delay after a
  transfer (\<open>delay.value\<close>, or \<open>delay_usecs\<close> before kernel 5.13).
\<close>

record spi_transfer =
  tx_buf :: ptr
  rx_buf :: ptr
  x_len :: u32
  x_bits_per_word :: u8
  speed_hz :: u32
  x_delay :: u16
  cs_change :: bool

record spi_device =
  chip_select :: u8
  mode :: u32
  spi_bits_per_word :: u8
  max_speed_hz :: u32

record spi_message =
  transfers :: "spi_transfer list"
  spi :: spi_device
  actual_length :: u32
  status :: int

text \<open>
  The accessors and the word functions that \<open>struct spi_ocores\<close> points to. The current transfer
  is an index into the list of the current message; the buffers of the message are a heap, part
  of the state here because the driver writes to it.
\<close>

datatype spi_regfn = Spi32 | Spi32be
datatype spi_wordfn = Word8 | Word16 | Word32 | Word64 | Word128

record spi_ocores =
  sp_flags :: u64
  sp_mem :: addr
  clock_hz :: u32
  ctrl_base :: u32
  cur_xfer :: "nat option"
  cur_tx_buf :: ptr
  cur_rx_buf :: ptr
  cur_len :: u32
  cur_tx_push :: "spi_wordfn option"
  cur_rx_pop :: "spi_wordfn option"
  sp_read :: spi_regfn
  sp_write :: spi_regfn
  cur_msg :: spi_message
  sp_heap :: heap

datatype spi_call = SpiWarn | SpiDevErr | SpiDevWarn | SpiUdelay nat | SpiFinalize
  | SpiMasterAlloc | SpiMasterPut | SpiIoremap | SpiIounmap | SpiRequestIrq | SpiFreeIrq
  | SpiRegister | SpiUnregister | SpiNewDevice nat

type_synonym 'd spi_world = "('d, spi_call) world"

section \<open>Register accesses\<close>

definition spi_ocores_ioread32 :: "'d platform \<Rightarrow> spi_ocores \<Rightarrow> u32 \<Rightarrow> 'd spi_world \<Rightarrow> u32 \<times> 'd spi_world" where
  "spi_ocores_ioread32 P sp reg w = ioread P IO32 (sp_mem sp + ucast reg) w"

definition spi_ocores_iowrite32 :: "'d platform \<Rightarrow> spi_ocores \<Rightarrow> u32 \<Rightarrow> u32 \<Rightarrow> 'd spi_world \<Rightarrow> 'd spi_world" where
  "spi_ocores_iowrite32 P sp val reg w = iowrite P IO32 val (sp_mem sp + ucast reg) w"

definition spi_ocores_ioread32be :: "'d platform \<Rightarrow> spi_ocores \<Rightarrow> u32 \<Rightarrow> 'd spi_world \<Rightarrow> u32 \<times> 'd spi_world" where
  "spi_ocores_ioread32be P sp reg w = ioread P IO32BE (sp_mem sp + ucast reg) w"

definition spi_ocores_iowrite32be :: "'d platform \<Rightarrow> spi_ocores \<Rightarrow> u32 \<Rightarrow> u32 \<Rightarrow> 'd spi_world \<Rightarrow> 'd spi_world" where
  "spi_ocores_iowrite32be P sp val reg w = iowrite P IO32BE val (sp_mem sp + ucast reg) w"

definition spi_read :: "'d platform \<Rightarrow> spi_ocores \<Rightarrow> u32 \<Rightarrow> 'd spi_world \<Rightarrow> u32 \<times> 'd spi_world" where
  "spi_read P sp reg w = (case sp_read sp of
     Spi32 \<Rightarrow> spi_ocores_ioread32 P sp reg w
   | Spi32be \<Rightarrow> spi_ocores_ioread32be P sp reg w)"

definition spi_write :: "'d platform \<Rightarrow> spi_ocores \<Rightarrow> u32 \<Rightarrow> u32 \<Rightarrow> 'd spi_world \<Rightarrow> 'd spi_world" where
  "spi_write P sp val reg w = (case sp_write sp of
     Spi32 \<Rightarrow> spi_ocores_iowrite32 P sp val reg w
   | Spi32be \<Rightarrow> spi_ocores_iowrite32be P sp val reg w)"

definition spi_ocores_hw_xfer_config :: "'d platform \<Rightarrow> spi_ocores \<Rightarrow> u32 \<Rightarrow> u16 \<Rightarrow> 'd spi_world \<Rightarrow> 'd spi_world" where
  "spi_ocores_hw_xfer_config P sp ctrl divider w =
     (let ctrl = ctrl AND NOT SPI_OCORES_CTRL_GO;
          w = spi_write P sp ctrl SPI_OCORES_CTRL w
      in spi_write P sp (ucast divider) SPI_OCORES_DIV w)"

definition spi_ocores_hw_xfer_go :: "'d platform \<Rightarrow> spi_ocores \<Rightarrow> 'd spi_world \<Rightarrow> 'd spi_world" where
  "spi_ocores_hw_xfer_go P sp w =
     (let (ctrl, w) = spi_read P sp SPI_OCORES_CTRL w
      in spi_write P sp (ctrl OR SPI_OCORES_CTRL_GO) SPI_OCORES_CTRL w)"

text \<open>\<open>BIT(cs)\<close> is an \<open>unsigned long\<close>, cut to the 32 bits of the register value.\<close>

definition BIT_u32 :: "nat \<Rightarrow> u32" where
  "BIT_u32 n = ucast (push_bit n (1 :: u64))"

definition spi_ocores_hw_xfer_cs :: "'d platform \<Rightarrow> spi_ocores \<Rightarrow> u32 \<Rightarrow> u32 \<Rightarrow> 'd spi_world \<Rightarrow> 'd spi_world" where
  "spi_ocores_hw_xfer_cs P sp cs val w =
     (let (ss, w) = spi_read P sp SPI_OCORES_CS w;
          ss = (if val \<noteq> 0 then ss OR BIT_u32 (unat cs) else ss AND NOT (BIT_u32 (unat cs)))
      in spi_write P sp ss SPI_OCORES_CS w)"

definition spi_ocores_tx_set :: "'d platform \<Rightarrow> spi_ocores \<Rightarrow> u32 \<Rightarrow> u32 \<Rightarrow> 'd spi_world \<Rightarrow> 'd spi_world" where
  "spi_ocores_tx_set P sp idx val w =
     (if idx > 3 then kcall SpiWarn w else spi_write P sp val (SPI_OCORES_TX idx) w)"

definition spi_ocores_rx_get :: "'d platform \<Rightarrow> spi_ocores \<Rightarrow> u32 \<Rightarrow> 'd spi_world \<Rightarrow> u32 \<times> 'd spi_world" where
  "spi_ocores_rx_get P sp idx w =
     (if idx > 3 then (0, kcall SpiWarn w) else spi_read P sp (SPI_OCORES_RX idx) w)"

definition spi_ocores_is_busy :: "'d platform \<Rightarrow> spi_ocores \<Rightarrow> 'd spi_world \<Rightarrow> bool \<times> 'd spi_world" where
  "spi_ocores_is_busy P sp w =
     (let (ctrl, w) = spi_read P sp SPI_OCORES_CTRL w in (ctrl AND SPI_OCORES_CTRL_BUSY \<noteq> 0, w))"

section \<open>The current transfer\<close>

text \<open>The transfer \<open>cur_xfer\<close> points to: a stale index is a dangling pointer.\<close>

definition the_xfer :: "spi_ocores \<Rightarrow> c_fault + spi_transfer" where
  "the_xfer sp = (case cur_xfer sp of
     None \<Rightarrow> Inl BadPointer
   | Some k \<Rightarrow> if k < length (transfers (cur_msg sp)) then Inr (transfers (cur_msg sp) ! k) else Inl BadPointer)"

definition spi_ocores_hw_xfer_bits_per_word :: "spi_ocores \<Rightarrow> c_fault + u8" where
  "spi_ocores_hw_xfer_bits_per_word sp =
     (if cur_xfer sp = None then Inr (spi_bits_per_word (spi (cur_msg sp)))
      else ebind (the_xfer sp) (\<lambda>x.
        Inr (if x_bits_per_word x \<noteq> 0 then x_bits_per_word x else spi_bits_per_word (spi (cur_msg sp)))))"

section \<open>Words out\<close>

definition spi_ocores_hw_xfer_tx_push8 :: "'d platform \<Rightarrow> endian \<Rightarrow> spi_ocores \<Rightarrow> 'd spi_world \<Rightarrow> c_fault + nat \<times> 'd spi_world" where
  "spi_ocores_hw_xfer_tx_push8 P e sp w = ebind (load_bytes (sp_heap sp) (cur_tx_buf sp) 1) (\<lambda>bs.
     let data = cpu_word e bs :: u8;
         w = spi_ocores_tx_set P sp 0 (ucast data) w
     in Inr (1, w))"

definition spi_ocores_hw_xfer_tx_push16 :: "'d platform \<Rightarrow> endian \<Rightarrow> spi_ocores \<Rightarrow> 'd spi_world \<Rightarrow> c_fault + nat \<times> 'd spi_world" where
  "spi_ocores_hw_xfer_tx_push16 P e sp w = ebind (load_bytes (sp_heap sp) (cur_tx_buf sp) 2) (\<lambda>bs.
     let data = cpu_word e bs :: u16;
         w = spi_ocores_tx_set P sp 0 (ucast (cpu_to_be e data)) w
     in Inr (2, w))"

definition spi_ocores_hw_xfer_tx_push32 :: "'d platform \<Rightarrow> endian \<Rightarrow> spi_ocores \<Rightarrow> 'd spi_world \<Rightarrow> c_fault + nat \<times> 'd spi_world" where
  "spi_ocores_hw_xfer_tx_push32 P e sp w = ebind (load_bytes (sp_heap sp) (cur_tx_buf sp) 4) (\<lambda>bs.
     let data = cpu_word e bs :: u32;
         w = spi_ocores_tx_set P sp 0 (cpu_to_be e data) w
     in Inr (4, w))"

definition spi_ocores_hw_xfer_tx_push64 :: "'d platform \<Rightarrow> endian \<Rightarrow> spi_ocores \<Rightarrow> 'd spi_world \<Rightarrow> c_fault + nat \<times> 'd spi_world" where
  "spi_ocores_hw_xfer_tx_push64 P e sp w = ebind (load_bytes (sp_heap sp) (cur_tx_buf sp) 8) (\<lambda>bs.
     let data = cpu_to_be e (cpu_word e bs :: u64);
         w = spi_ocores_tx_set P sp 0 (ucast (data AND 0xFFFFFFFF)) w;
         data = drop_bit 32 data;
         w = spi_ocores_tx_set P sp 1 (ucast (data AND 0xFFFFFFFF)) w
     in Inr (8, w))"

definition spi_ocores_hw_xfer_tx_push128 :: "'d platform \<Rightarrow> endian \<Rightarrow> spi_ocores \<Rightarrow> 'd spi_world \<Rightarrow> c_fault + nat \<times> 'd spi_world" where
  "spi_ocores_hw_xfer_tx_push128 P e sp w = ebind (load_bytes (sp_heap sp) (cur_tx_buf sp) 8) (\<lambda>bs.
     let data = cpu_to_be e (cpu_word e bs :: u64);
         w = spi_ocores_tx_set P sp 2 (ucast (data AND 0xFFFFFFFF)) w;
         data = drop_bit 32 data;
         w = spi_ocores_tx_set P sp 3 (ucast (data AND 0xFFFFFFFF)) w
     in ebind (load_bytes (sp_heap sp) (ptr_add (cur_tx_buf sp) 8) 8) (\<lambda>bs.
     let data = cpu_to_be e (cpu_word e bs :: u64);
         w = spi_ocores_tx_set P sp 0 (ucast (data AND 0xFFFFFFFF)) w;
         data = drop_bit 32 data;
         w = spi_ocores_tx_set P sp 1 (ucast (data AND 0xFFFFFFFF)) w
     in Inr (8 * 2, w)))"

definition push_fn :: "spi_wordfn \<Rightarrow> 'd platform \<Rightarrow> endian \<Rightarrow> spi_ocores \<Rightarrow> 'd spi_world \<Rightarrow> c_fault + nat \<times> 'd spi_world" where
  "push_fn f = (case f of
     Word8 \<Rightarrow> spi_ocores_hw_xfer_tx_push8
   | Word16 \<Rightarrow> spi_ocores_hw_xfer_tx_push16
   | Word32 \<Rightarrow> spi_ocores_hw_xfer_tx_push32
   | Word64 \<Rightarrow> spi_ocores_hw_xfer_tx_push64
   | Word128 \<Rightarrow> spi_ocores_hw_xfer_tx_push128)"

definition spi_ocores_hw_xfer_tx_push :: "'d platform \<Rightarrow> endian \<Rightarrow> spi_ocores \<Rightarrow> 'd spi_world \<Rightarrow>
    c_fault + nat \<times> spi_ocores \<times> 'd spi_world" where
  "spi_ocores_hw_xfer_tx_push P e sp w =
     ebind (if cur_tx_buf sp \<noteq> Null then
              (case cur_tx_push sp of None \<Rightarrow> Inl NullCall | Some f \<Rightarrow> push_fn f P e sp w)
            else Inr (0, w))
       (\<lambda>(n, w). Inr (n, sp\<lparr>cur_tx_buf := ptr_add (cur_tx_buf sp) n\<rparr>, w))"

section \<open>Words in\<close>

definition spi_ocores_hw_xfer_rx_pop8 :: "'d platform \<Rightarrow> endian \<Rightarrow> spi_ocores \<Rightarrow> 'd spi_world \<Rightarrow>
    c_fault + nat \<times> heap \<times> 'd spi_world" where
  "spi_ocores_hw_xfer_rx_pop8 P e sp w =
     (let (v, w) = spi_ocores_rx_get P sp 0 w;
          data = ucast (v AND 0x000000FF) :: u8
      in ebind (store_bytes (sp_heap sp) (cur_rx_buf sp) (cpu_bytes e 1 data)) (\<lambda>h. Inr (1, h, w)))"

definition spi_ocores_hw_xfer_rx_pop16 :: "'d platform \<Rightarrow> endian \<Rightarrow> spi_ocores \<Rightarrow> 'd spi_world \<Rightarrow>
    c_fault + nat \<times> heap \<times> 'd spi_world" where
  "spi_ocores_hw_xfer_rx_pop16 P e sp w =
     (let (v, w) = spi_ocores_rx_get P sp 0 w;
          data = ucast (v AND 0x0000FFFF) :: u16
      in ebind (store_bytes (sp_heap sp) (cur_rx_buf sp) (cpu_bytes e 2 (cpu_to_be e data))) (\<lambda>h. Inr (2, h, w)))"

definition spi_ocores_hw_xfer_rx_pop32 :: "'d platform \<Rightarrow> endian \<Rightarrow> spi_ocores \<Rightarrow> 'd spi_world \<Rightarrow>
    c_fault + nat \<times> heap \<times> 'd spi_world" where
  "spi_ocores_hw_xfer_rx_pop32 P e sp w =
     (let (v, w) = spi_ocores_rx_get P sp 0 w;
          data = v AND 0xFFFFFFFF
      in ebind (store_bytes (sp_heap sp) (cur_rx_buf sp) (cpu_bytes e 4 (cpu_to_be e data))) (\<lambda>h. Inr (4, h, w)))"

definition spi_ocores_hw_xfer_rx_pop64 :: "'d platform \<Rightarrow> endian \<Rightarrow> spi_ocores \<Rightarrow> 'd spi_world \<Rightarrow>
    c_fault + nat \<times> heap \<times> 'd spi_world" where
  "spi_ocores_hw_xfer_rx_pop64 P e sp w =
     (let (v, w) = spi_ocores_rx_get P sp 1 w;
          data = ucast (v AND 0xFFFFFFFF) :: u64;
          data = push_bit 32 data;
          (v, w) = spi_ocores_rx_get P sp 0 w;
          data = data OR ucast (v AND 0xFFFFFFFF)
      in ebind (store_bytes (sp_heap sp) (cur_rx_buf sp) (cpu_bytes e 8 (cpu_to_be e data))) (\<lambda>h. Inr (8, h, w)))"

definition spi_ocores_hw_xfer_rx_pop128 :: "'d platform \<Rightarrow> endian \<Rightarrow> spi_ocores \<Rightarrow> 'd spi_world \<Rightarrow>
    c_fault + nat \<times> heap \<times> 'd spi_world" where
  "spi_ocores_hw_xfer_rx_pop128 P e sp w =
     (let (v, w) = spi_ocores_rx_get P sp 3 w;
          data = ucast (v AND 0xFFFFFFFF) :: u64;
          data = push_bit 32 data;
          (v, w) = spi_ocores_rx_get P sp 2 w;
          data = data OR ucast (v AND 0xFFFFFFFF)
      in ebind (store_bytes (sp_heap sp) (ptr_add (cur_rx_buf sp) 8) (cpu_bytes e 8 (cpu_to_be e data))) (\<lambda>h.
      let (v, w) = spi_ocores_rx_get P sp 1 w;
          data = ucast (v AND 0xFFFFFFFF) :: u64;
          data = push_bit 32 data;
          (v, w) = spi_ocores_rx_get P sp 0 w;
          data = data OR ucast (v AND 0xFFFFFFFF)
      in ebind (store_bytes h (cur_rx_buf sp) (cpu_bytes e 8 (cpu_to_be e data))) (\<lambda>h. Inr (8 * 2, h, w))))"

definition pop_fn :: "spi_wordfn \<Rightarrow> 'd platform \<Rightarrow> endian \<Rightarrow> spi_ocores \<Rightarrow> 'd spi_world \<Rightarrow> c_fault + nat \<times> heap \<times> 'd spi_world" where
  "pop_fn f = (case f of
     Word8 \<Rightarrow> spi_ocores_hw_xfer_rx_pop8
   | Word16 \<Rightarrow> spi_ocores_hw_xfer_rx_pop16
   | Word32 \<Rightarrow> spi_ocores_hw_xfer_rx_pop32
   | Word64 \<Rightarrow> spi_ocores_hw_xfer_rx_pop64
   | Word128 \<Rightarrow> spi_ocores_hw_xfer_rx_pop128)"

definition spi_ocores_hw_xfer_rx_pop :: "'d platform \<Rightarrow> endian \<Rightarrow> spi_ocores \<Rightarrow> 'd spi_world \<Rightarrow>
    c_fault + nat \<times> spi_ocores \<times> 'd spi_world" where
  "spi_ocores_hw_xfer_rx_pop P e sp w = ebind (spi_ocores_hw_xfer_bits_per_word sp) (\<lambda>nbits.
     let sp = sp\<lparr>cur_len := cur_len sp - ucast (nbits div 8)\<rparr>
     in ebind (if cur_rx_buf sp \<noteq> Null then
                 (case cur_rx_pop sp of None \<Rightarrow> Inl NullCall | Some f \<Rightarrow> pop_fn f P e sp w)
               else Inr (0, sp_heap sp, w))
          (\<lambda>(n, h, w). Inr (n, sp\<lparr>sp_heap := h, cur_rx_buf := ptr_add (cur_rx_buf sp) n\<rparr>, w)))"

definition spi_ocores_hw_xfer_start :: "'d platform \<Rightarrow> spi_ocores \<Rightarrow> 'd spi_world \<Rightarrow> 'd spi_world" where
  "spi_ocores_hw_xfer_start P sp w =
     (let cs = ucast (chip_select (spi (cur_msg sp)))
      in spi_ocores_hw_xfer_go P sp (spi_ocores_hw_xfer_cs P sp cs 1 w))"

section \<open>The accessors are a register file\<close>

definition spi_get :: "spi_ocores \<Rightarrow> u32 \<Rightarrow> (addr \<Rightarrow> u32) spi_world \<Rightarrow> u32" where
  "spi_get sp reg w = fst (spi_read bank sp reg w)"

lemma spi_bank_simps:
  "spi_get sp reg w = dev w (sp_mem sp + ucast reg)"
  "dev (spi_write bank sp v reg w) = (dev w)(sp_mem sp + ucast reg := v)"
  by (cases "sp_read sp"; cases "sp_write sp"; simp add: spi_get_def spi_read_def spi_write_def
      spi_ocores_ioread32_def spi_ocores_ioread32be_def spi_ocores_iowrite32_def spi_ocores_iowrite32be_def
      ioread_def iowrite_def acc_mask_def)+

interpretation spi_bank: reg_file "spi_get sp" "\<lambda>r v. spi_write bank sp v r" "\<lambda>_. True" "\<lambda>_. True"
  for sp
  by unfold_locales (simp_all add: spi_bank_simps ucast_u32_u64_inj)

end
