(* ===== verification/Spi_Xfer.thy ===== *)
theory Spi_Xfer
  imports Spi_Regs
begin

text \<open>
  The SPI master driver, its transfer layer: setting up the next transfer of a message, moving
  through its words, finishing it, and the two ways to drive this, the interrupt handler and the
  polling loop of \<open>spi_ocores_transfer_one_message\<close>.
\<close>

unbundle bit_operations_syntax

section \<open>Waiting\<close>

partial_function (option) spi_wait_loop ::
    "'d platform \<Rightarrow> spi_ocores \<Rightarrow> u32 \<Rightarrow> u32 \<Rightarrow> u32 \<Rightarrow> u64 \<Rightarrow> 'd spi_world \<Rightarrow> (int \<times> 'd spi_world) option" where
  "spi_wait_loop P sp reg msk val j w =
     (let (tmp, w1) = spi_read P sp reg w
      in if tmp AND msk = val then Some (0, w1)
         else let (now, w2) = jiffies P w1
              in if time_after now j then Some (- ETIMEDOUT, w2)
                 else spi_wait_loop P sp reg msk val j w2)"

definition spi_ocores_wait ::
    "'d platform \<Rightarrow> spi_ocores \<Rightarrow> u32 \<Rightarrow> u32 \<Rightarrow> u32 \<Rightarrow> u64 \<Rightarrow> 'd spi_world \<Rightarrow> (int \<times> 'd spi_world) option" where
  "spi_ocores_wait P sp reg msk val timeout w =
     (let (now, w) = jiffies P w in spi_wait_loop P sp reg msk val (now + timeout) w)"

definition spi_ocores_hw_xfer_wait_complete :: "'d platform \<Rightarrow> spi_ocores \<Rightarrow> u64 \<Rightarrow> 'd spi_world \<Rightarrow> (int \<times> 'd spi_world) option" where
  "spi_ocores_hw_xfer_wait_complete P sp timeout w =
     spi_ocores_wait P sp SPI_OCORES_CTRL SPI_OCORES_CTRL_BUSY 0 timeout w"

section \<open>Transfers\<close>

definition set_status :: "int \<Rightarrow> spi_ocores \<Rightarrow> spi_ocores" where
  "set_status s sp = sp\<lparr>cur_msg := (cur_msg sp)\<lparr>status := s\<rparr>\<rparr>"

definition spi_ocores_sw_xfer_finish :: "'d platform \<Rightarrow> spi_ocores \<Rightarrow> 'd spi_world \<Rightarrow>
    c_fault + int \<times> spi_ocores \<times> 'd spi_world" where
  "spi_ocores_sw_xfer_finish P sp w = ebind (the_xfer sp) (\<lambda>x.
     let w = (if x_delay x \<noteq> 0 then kcall (SpiUdelay (unat (x_delay x))) w else w);
         cs = ucast (chip_select (spi (cur_msg sp)));
         w = (if cs_change x then spi_ocores_hw_xfer_cs P sp cs 0 w else w);
         sp = sp\<lparr>cur_tx_buf := Null, cur_rx_buf := Null, cur_len := 0,
           cur_msg := (cur_msg sp)\<lparr>actual_length := actual_length (cur_msg sp) + x_len x\<rparr>\<rparr>
     in Inr (0, sp, w))"

text \<open>
  \<open>spi_ocores_sw_xfer_next_init\<close> in its three parts: moving to the next transfer of the list,
  checking it, configuring the controller for it.
\<close>

definition next_xfer :: "spi_ocores \<Rightarrow> c_fault + (nat option) option" where
  "next_xfer sp = (case cur_xfer sp of
     None \<Rightarrow> Inr (Some (if transfers (cur_msg sp) = [] then None else Some 0))
   | Some k \<Rightarrow>
       if \<not> k < length (transfers (cur_msg sp)) then Inl BadPointer
       else if k + 1 = length (transfers (cur_msg sp)) then Inr None
       else Inr (Some (Some (k + 1))))"

definition word_fn :: "u8 \<Rightarrow> spi_wordfn option" where
  "word_fn nbits =
     (if nbits \<le> 8 then Some Word8
      else if nbits \<le> 16 then Some Word16
      else if nbits \<le> 32 then Some Word32
      else if nbits \<le> 64 then Some Word64
      else if nbits \<le> 128 then Some Word128
      else None)"

definition xfer_ctrl :: "spi_ocores \<Rightarrow> u8 \<Rightarrow> u32" where
  "xfer_ctrl sp nbits =
     (let ctrl = ctrl_base sp;
          ctrl = (if mode (spi (cur_msg sp)) AND SPI_CPHA \<noteq> 0 then ctrl OR SPI_OCORES_CTRL_Rx_NEG
            else ctrl OR SPI_OCORES_CTRL_Tx_NEG);
          ctrl = (if mode (spi (cur_msg sp)) AND SPI_LSB_FIRST \<noteq> 0 then ctrl OR SPI_OCORES_CTRL_LSB else ctrl)
      in ctrl OR ucast nbits)"

definition xfer_hz :: "spi_ocores \<Rightarrow> spi_transfer \<Rightarrow> u32" where
  "xfer_hz sp x = (if speed_hz x \<noteq> 0 then speed_hz x else max_speed_hz (spi (cur_msg sp)))"

text \<open>The divider, with the kernel's warning for a divider of zero.\<close>

definition xfer_divider :: "u32 \<Rightarrow> u32 \<Rightarrow> 'd spi_world \<Rightarrow> c_fault + u16 \<times> 'd spi_world" where
  "xfer_divider clk hz w =
     (if hz * 2 = 0 then Inl DivByZero
      else let divider = ucast (clk div (hz * 2) - 1) :: u16
        in if divider = 0 then Inr (1, kcall SpiDevWarn (kcall SpiWarn w)) else Inr (divider, w))"

definition xfer_setup :: "'d platform \<Rightarrow> spi_ocores \<Rightarrow> spi_transfer \<Rightarrow> u8 \<Rightarrow> 'd spi_world \<Rightarrow>
    c_fault + int \<times> spi_ocores \<times> 'd spi_world" where
  "xfer_setup P sp x nbits w =
     ebind (xfer_divider (clock_hz sp) (xfer_hz sp x) w) (\<lambda>(divider, w).
     let w = spi_ocores_hw_xfer_config P sp (xfer_ctrl sp nbits) divider w;
         sp = sp\<lparr>cur_tx_buf := tx_buf x, cur_rx_buf := rx_buf x, cur_len := x_len x\<rparr>;
         sp = (if word_fn nbits = None then sp else sp\<lparr>cur_tx_push := word_fn nbits, cur_rx_pop := word_fn nbits\<rparr>)
     in Inr (0, sp, w))"

definition spi_ocores_sw_xfer_next_init :: "'d platform \<Rightarrow> spi_ocores \<Rightarrow> 'd spi_world \<Rightarrow>
    c_fault + int \<times> spi_ocores \<times> 'd spi_world" where
  "spi_ocores_sw_xfer_next_init P sp w = ebind (next_xfer sp) (\<lambda>nx.
     case nx of
       None \<Rightarrow> Inr (- ENODATA, sp, w)
     | Some cx \<Rightarrow>
         let sp = sp\<lparr>cur_xfer := cx\<rparr>
         in if cx = None then Inr (- EINVAL, set_status (- EINVAL) sp, kcall SpiWarn w)
            else ebind (the_xfer sp) (\<lambda>x. ebind (spi_ocores_hw_xfer_bits_per_word sp) (\<lambda>nbits.
              if (uint nbits - 1) AND NOT (uint SPI_OCORES_CTRL_CHAR_LEN) \<noteq> 0
              then Inr (- EINVAL, set_status (- EINVAL) sp, w)
              else if push_bit 3 (x_len x) < ucast nbits
              then Inr (- EINVAL, set_status (- EINVAL) sp, kcall SpiDevErr w)
              else xfer_setup P sp x nbits w)))"

definition spi_ocores_sw_xfer_next_start :: "'d platform \<Rightarrow> endian \<Rightarrow> spi_ocores \<Rightarrow> 'd spi_world \<Rightarrow>
    c_fault + int \<times> spi_ocores \<times> 'd spi_world" where
  "spi_ocores_sw_xfer_next_start P e sp w = ebind (spi_ocores_sw_xfer_next_init P sp w) (\<lambda>(err, sp, w).
     if err \<noteq> 0 then Inr (err, sp, w)
     else ebind (spi_ocores_hw_xfer_tx_push P e sp w) (\<lambda>(_, sp, w).
       Inr (0, sp, spi_ocores_hw_xfer_start P sp w)))"

definition spi_ocores_sw_xfer_has_pending :: "spi_ocores \<Rightarrow> bool" where
  "spi_ocores_sw_xfer_has_pending sp \<longleftrightarrow> cur_len sp > 0"

definition spi_ocores_finalize_current_message :: "'d platform \<Rightarrow> spi_ocores \<Rightarrow> 'd spi_world \<Rightarrow> spi_ocores \<times> 'd spi_world" where
  "spi_ocores_finalize_current_message P sp w =
     (let cs = ucast (chip_select (spi (cur_msg sp)));
          w = spi_ocores_hw_xfer_cs P sp cs 0 w;
          sp = sp\<lparr>cur_xfer := None\<rparr>;
          sp = set_status 0 sp
      in (sp, kcall SpiFinalize w))"

definition spi_ocores_hw_xfer_rxtx :: "'d platform \<Rightarrow> endian \<Rightarrow> spi_ocores \<Rightarrow> 'd spi_world \<Rightarrow>
    c_fault + int \<times> spi_ocores \<times> 'd spi_world" where
  "spi_ocores_hw_xfer_rxtx P e sp w = ebind (spi_ocores_hw_xfer_rx_pop P e sp w) (\<lambda>(_, sp, w).
     if \<not> spi_ocores_sw_xfer_has_pending sp then Inr (- ENODATA, sp, w)
     else ebind (spi_ocores_hw_xfer_tx_push P e sp w) (\<lambda>(_, sp, w).
       Inr (0, sp, spi_ocores_hw_xfer_start P sp w)))"

text \<open>When a transfer is over: finish it, start the next one or finalise the message.\<close>

definition process_next_xfer :: "'d platform \<Rightarrow> endian \<Rightarrow> spi_ocores \<Rightarrow> 'd spi_world \<Rightarrow>
    c_fault + int \<times> spi_ocores \<times> 'd spi_world" where
  "process_next_xfer P e sp w = ebind (spi_ocores_sw_xfer_finish P sp w) (\<lambda>(_, sp, w).
     ebind (spi_ocores_sw_xfer_next_start P e sp w) (\<lambda>(err, sp, w).
       if err \<noteq> 0 then
         (let (sp, w) = spi_ocores_finalize_current_message P sp w in Inr (err, sp, w))
       else Inr (err, sp, w)))"

definition spi_ocores_process :: "'d platform \<Rightarrow> endian \<Rightarrow> spi_ocores \<Rightarrow> 'd spi_world \<Rightarrow>
    c_fault + int \<times> spi_ocores \<times> 'd spi_world" where
  "spi_ocores_process P e sp w =
     (let (busy, w) = spi_ocores_is_busy P sp w
      in if busy then Inr (- EBUSY, sp, w)
         else ebind (spi_ocores_hw_xfer_rxtx P e sp w) (\<lambda>(err, sp, w).
           if err = - ENODATA then process_next_xfer P e sp w else Inr (err, sp, w)))"

section \<open>Polling and interrupts\<close>

definition spi_ocores_process_poll :: "'d platform \<Rightarrow> endian \<Rightarrow> nat \<Rightarrow> spi_ocores \<Rightarrow> 'd spi_world \<Rightarrow>
    (c_fault + int \<times> spi_ocores \<times> 'd spi_world) option" where
  "spi_ocores_process_poll P e timeout sp w =
     (case spi_ocores_hw_xfer_wait_complete P sp (p_msecs P timeout) w of
        None \<Rightarrow> None
      | Some (err, w) \<Rightarrow>
          if err \<noteq> 0 then Some (Inr (err, sp, w)) else Some (spi_ocores_process P e sp w))"

datatype spi_irqreturn = SPI_IRQ_NONE | SPI_IRQ_HANDLED

definition spi_ocores_irq_handler :: "'d platform \<Rightarrow> endian \<Rightarrow> spi_ocores \<Rightarrow> 'd spi_world \<Rightarrow>
    c_fault + spi_irqreturn \<times> spi_ocores \<times> 'd spi_world" where
  "spi_ocores_irq_handler P e sp w = ebind (spi_ocores_process P e sp w) (\<lambda>(err, sp, w).
     Inr (if err \<noteq> 0 \<and> err \<noteq> - ENODATA then SPI_IRQ_NONE else SPI_IRQ_HANDLED, sp, w))"

partial_function (option) spi_poll_loop :: "'d platform \<Rightarrow> endian \<Rightarrow> spi_ocores \<Rightarrow> 'd spi_world \<Rightarrow>
    (c_fault + spi_ocores \<times> 'd spi_world) option" where
  "spi_poll_loop P e sp w = Option.bind (spi_ocores_process_poll P e 100 sp w) (\<lambda>r.
     case r of
       Inl f \<Rightarrow> Some (Inl f)
     | Inr (err, sp, w) \<Rightarrow> if err = 0 then spi_poll_loop P e sp w else Some (Inr (sp, w)))"

text \<open>\<open>mesg\<close> is the current message of the master, so it is part of the state.\<close>

definition spi_ocores_transfer_one_message :: "'d platform \<Rightarrow> endian \<Rightarrow> spi_ocores \<Rightarrow> 'd spi_world \<Rightarrow>
    (c_fault + int \<times> spi_ocores \<times> 'd spi_world) option" where
  "spi_ocores_transfer_one_message P e sp w = (case spi_ocores_sw_xfer_next_start P e sp w of
     Inl f \<Rightarrow> Some (Inl f)
   | Inr (err, sp, w) \<Rightarrow>
       if sp_flags sp AND SPI_OCORES_FLAG_POLL \<noteq> 0
       then map_option (\<lambda>r. ebind r (\<lambda>(sp, w). Inr (0, sp, w))) (spi_poll_loop P e sp w)
       else Some (Inr (0, sp, w)))"

definition spi_ocores_unprepare_transfer_hardware :: "'d platform \<Rightarrow> spi_ocores \<Rightarrow> 'd spi_world \<Rightarrow> int \<times> 'd spi_world" where
  "spi_ocores_unprepare_transfer_hardware P sp w = (0, spi_ocores_hw_xfer_config P sp 0 0 w)"

end
