(* ===== verification/Spi_Data.thy ===== *)
theory Spi_Data
  imports Spi_Xfer
begin

text \<open>
  What the SPI driver puts on the wire and takes from it, read off a trace: the transmit
  registers at each go command are what the controller shifts out, the registers read after it
  reported to be idle again are what it shifted in. One lemma per word function says that a push
  puts the bytes of the buffer on the wire and that a pop stores the bytes of the registers.
\<close>

unbundle bit_operations_syntax

section \<open>The wire, from a trace\<close>

record shift =
  sh_out :: "addr \<Rightarrow> u32"
  sh_in :: "addr \<Rightarrow> u32"
  sh_done :: bool

record monitor =
  mo_regs :: "addr \<Rightarrow> u32"
  mo_shifts :: "shift list"

definition on_last :: "('a \<Rightarrow> 'a) \<Rightarrow> 'a list \<Rightarrow> 'a list" where
  "on_last f xs = (if xs = [] then [] else butlast xs @ [f (last xs)])"

fun mon_step :: "addr \<Rightarrow> spi_call event \<Rightarrow> monitor \<Rightarrow> monitor" where
  "mon_step ctrl (EvWrite c a v) m =
     (if a = ctrl \<and> v AND SPI_OCORES_CTRL_GO \<noteq> 0
      then m\<lparr>mo_shifts := mo_shifts m @ [\<lparr>sh_out = mo_regs m, sh_in = (\<lambda>_. 0), sh_done = False\<rparr>]\<rparr>
      else m\<lparr>mo_regs := (mo_regs m)(a := v)\<rparr>)"
| "mon_step ctrl (EvRead c a v) m =
     (if a = ctrl then
        (if v AND SPI_OCORES_CTRL_BUSY = 0 then m\<lparr>mo_shifts := on_last (sh_done_update (\<lambda>_. True)) (mo_shifts m)\<rparr> else m)
      else m\<lparr>mo_shifts := on_last (\<lambda>s. if sh_done s then s\<lparr>sh_in := (sh_in s)(a := v)\<rparr> else s) (mo_shifts m)\<rparr>)"
| "mon_step ctrl (EvCall k) m = m"

definition mon :: "addr \<Rightarrow> spi_call event list \<Rightarrow> monitor \<Rightarrow> monitor" where
  "mon mem es m = fold (mon_step (mem + ucast SPI_OCORES_CTRL)) es m"

text \<open>The bytes of a word, from the registers it is spread over, highest first.\<close>

definition wbytes :: "spi_wordfn \<Rightarrow> nat" where
  "wbytes f = (case f of Word8 \<Rightarrow> 1 | Word16 \<Rightarrow> 2 | Word32 \<Rightarrow> 4 | Word64 \<Rightarrow> 8 | Word128 \<Rightarrow> 16)"

definition wire_regs :: "spi_wordfn \<Rightarrow> u32 list" where
  "wire_regs f = (case f of Word64 \<Rightarrow> [1, 0] | Word128 \<Rightarrow> [3, 2, 1, 0] | _ \<Rightarrow> [0])"

text \<open>
  The order in which \<open>spi_ocores_hw_xfer_rx_pop128\<close> stores the registers is not the one in which
  \<open>spi_ocores_hw_xfer_tx_push128\<close> fills them.
\<close>

definition mem_regs :: "spi_wordfn \<Rightarrow> u32 list" where
  "mem_regs f = (case f of Word128 \<Rightarrow> [1, 0, 3, 2] | _ \<Rightarrow> wire_regs f)"

text \<open>So a word of 128 bits is stored with its halves exchanged.\<close>

definition swap_halves :: "'a list \<Rightarrow> 'a list" where
  "swap_halves bs = drop (length bs div 2) bs @ take (length bs div 2) bs"

definition mem_order :: "spi_wordfn \<Rightarrow> u8 list \<Rightarrow> u8 list" where
  "mem_order f bs = (if f = Word128 then swap_halves bs else bs)"

definition tx_addr :: "addr \<Rightarrow> u32 \<Rightarrow> addr" where
  "tx_addr mem r = mem + ucast (SPI_OCORES_TX r)"

definition frame :: "addr \<Rightarrow> spi_wordfn \<Rightarrow> u32 list \<Rightarrow> (addr \<Rightarrow> u32) \<Rightarrow> u8 list" where
  "frame mem f rs g = concat (map (\<lambda>r. be_bytes (min 4 (wbytes f)) (g (tx_addr mem r))) rs)"

text \<open>
  Of a monitor: the words shifted out, the words shifted in as the driver stores them, and the
  word in the transmit registers.
\<close>

definition outs :: "addr \<Rightarrow> spi_wordfn \<Rightarrow> monitor \<Rightarrow> u8 list list" where
  "outs mem f m = map (\<lambda>s. frame mem f (wire_regs f) (sh_out s)) (mo_shifts m)"

definition ins :: "addr \<Rightarrow> spi_wordfn \<Rightarrow> monitor \<Rightarrow> u8 list list" where
  "ins mem f m = map (\<lambda>s. frame mem f (mem_regs f) (sh_in s)) (mo_shifts m)"

definition tx_frame :: "addr \<Rightarrow> spi_wordfn \<Rightarrow> monitor \<Rightarrow> u8 list" where
  "tx_frame mem f m = frame mem f (wire_regs f) (mo_regs m)"

definition mon_ready :: "monitor \<Rightarrow> bool" where
  "mon_ready m \<longleftrightarrow> mo_shifts m \<noteq> [] \<and> sh_done (last (mo_shifts m))"

definition mon_init :: monitor where
  "mon_init = \<lparr>mo_regs = (\<lambda>_. 0), mo_shifts = []\<rparr>"

text \<open>The words and the bytes a stretch of a trace shifted out and in.\<close>

definition words_shifted :: "addr \<Rightarrow> spi_call event list \<Rightarrow> nat" where
  "words_shifted mem es = length (mo_shifts (mon mem es mon_init))"

definition bytes_out :: "addr \<Rightarrow> spi_wordfn \<Rightarrow> spi_call event list \<Rightarrow> u8 list" where
  "bytes_out mem f es = concat (outs mem f (mon mem es mon_init))"

definition bytes_in :: "addr \<Rightarrow> spi_wordfn \<Rightarrow> spi_call event list \<Rightarrow> u8 list" where
  "bytes_in mem f es = concat (ins mem f (mon mem es mon_init))"

lemma mon_append: "mon mem (es @ fs) m = mon mem fs (mon mem es m)"
  by (simp add: mon_def)

lemma on_last_simps [simp]:
  "on_last f [] = []" "on_last f (xs @ [x]) = xs @ [f x]" "length (on_last f xs) = length xs"
  by (simp_all add: on_last_def)

lemma length_frame: "length (frame mem f (wire_regs f) g) = wbytes f" "length (frame mem f (mem_regs f) g) = wbytes f"
  by (cases f; simp add: frame_def wire_regs_def mem_regs_def wbytes_def)+

lemma length_words [simp]: "length (outs mem f m) = length (mo_shifts m)" "length (ins mem f m) = length (mo_shifts m)"
  by (simp_all add: outs_def ins_def)

lemma length_concat_words:
  "length (concat (outs mem f m)) = wbytes f * length (mo_shifts m)"
  "length (concat (ins mem f m)) = wbytes f * length (mo_shifts m)"
  "length (concat (butlast (ins mem f m))) = wbytes f * (length (mo_shifts m) - 1)"
proof -
  have "length (concat (map g xs)) = wbytes f * length xs" if "\<And>x. length (g x) = wbytes f" for g :: "shift \<Rightarrow> u8 list" and xs
    using that by (induction xs) simp_all
  then show "length (concat (outs mem f m)) = wbytes f * length (mo_shifts m)"
    "length (concat (ins mem f m)) = wbytes f * length (mo_shifts m)"
    "length (concat (butlast (ins mem f m))) = wbytes f * (length (mo_shifts m) - 1)"
    by (simp_all add: outs_def ins_def length_frame map_butlast [symmetric] del: length_concat)
qed

lemma frame_upd [simp]:
  "a \<notin> tx_addr mem ` {0, 1, 2, 3} \<Longrightarrow> frame mem f (wire_regs f) (g(a := v)) = frame mem f (wire_regs f) g"
  "a \<notin> tx_addr mem ` {0, 1, 2, 3} \<Longrightarrow> frame mem f (mem_regs f) (g(a := v)) = frame mem f (mem_regs f) g"
  by (cases f; auto simp: frame_def wire_regs_def mem_regs_def)+

text \<open>
  Events that leave the words alone: everything but the word registers and a go command. The call
  that ends the message is not one of them.
\<close>

fun quiet_ev :: "addr \<Rightarrow> spi_call event \<Rightarrow> bool" where
  "quiet_ev mem (EvWrite c a v) \<longleftrightarrow> a \<in> (\<lambda>r. mem + ucast r) ` {SPI_OCORES_DIV, SPI_OCORES_CS}
     \<or> a = mem + ucast SPI_OCORES_CTRL \<and> v AND SPI_OCORES_CTRL_GO = 0"
| "quiet_ev mem (EvRead c a v) \<longleftrightarrow> a \<in> (\<lambda>r. mem + ucast r) ` {SPI_OCORES_CTRL, SPI_OCORES_CS}"
| "quiet_ev mem (EvCall k) \<longleftrightarrow> k \<noteq> SpiFinalize"

lemma quiet_words:
  assumes "list_all (quiet_ev mem) es"
  shows "outs mem f (mon mem es m) = outs mem f m" "ins mem f (mon mem es m) = ins mem f m"
    "tx_frame mem f (mon mem es m) = tx_frame mem f m" "length (mo_shifts (mon mem es m)) = length (mo_shifts m)"
proof -
  have step: "outs mem f (mon_step (mem + ucast SPI_OCORES_CTRL) ev m) = outs mem f m
      \<and> ins mem f (mon_step (mem + ucast SPI_OCORES_CTRL) ev m) = ins mem f m
      \<and> tx_frame mem f (mon_step (mem + ucast SPI_OCORES_CTRL) ev m) = tx_frame mem f m"
    if "quiet_ev mem ev" for ev m
    using that by (cases ev; cases "mo_shifts m" rule: rev_cases)
      (auto simp: outs_def ins_def tx_frame_def tx_addr_def split: if_splits)
  have "outs mem f (mon mem es m) = outs mem f m \<and> ins mem f (mon mem es m) = ins mem f m
      \<and> tx_frame mem f (mon mem es m) = tx_frame mem f m"
    using assms unfolding mon_def
  proof (induction es arbitrary: m)
    case (Cons ev es)
    then show ?case
      using step [of ev m] by simp
  qed simp
  then show "outs mem f (mon mem es m) = outs mem f m" "ins mem f (mon mem es m) = ins mem f m"
    "tx_frame mem f (mon mem es m) = tx_frame mem f m" "length (mo_shifts (mon mem es m)) = length (mo_shifts m)"
    by (auto dest: arg_cong [of _ _ length])
qed

lemma go_words:
  assumes "v AND SPI_OCORES_CTRL_GO \<noteq> 0"
  shows "outs mem f (mon mem [EvWrite c (mem + ucast SPI_OCORES_CTRL) v] m) = outs mem f m @ [tx_frame mem f m]"
    "butlast (ins mem f (mon mem [EvWrite c (mem + ucast SPI_OCORES_CTRL) v] m)) = ins mem f m"
    "length (mo_shifts (mon mem [EvWrite c (mem + ucast SPI_OCORES_CTRL) v] m)) = Suc (length (mo_shifts m))"
  using assms by (simp_all add: mon_def outs_def ins_def tx_frame_def)

lemma idle_ready:
  assumes "v AND SPI_OCORES_CTRL_BUSY = 0" "mo_shifts m \<noteq> []"
  shows "mon_ready (mon mem [EvRead c (mem + ucast SPI_OCORES_CTRL) v] m)"
  using assms by (simp add: mon_def mon_ready_def on_last_def)

section \<open>Words of several registers\<close>

lemma be_word_halves:
  assumes "length bs = 8"
  shows "(ucast ((be_word bs :: u64) AND 0xFFFFFFFF) :: u32) = be_word (drop 4 bs)"
    "(ucast (drop_bit 32 (be_word bs :: u64) AND 0xFFFFFFFF) :: u32) = be_word (take 4 bs)"
proof -
  have m: "(0xFFFFFFFF :: u64) = mask 32"
    by (simp add: mask_eq_exp_minus_1)
  have d: "(32 + n) div 8 = 4 + n div 8" "(32 + n) mod 8 = n mod 8" for n :: nat
    using mod_mult_self2 [of n 8 4] by (simp_all add: add.commute)
  show "(ucast ((be_word bs :: u64) AND 0xFFFFFFFF) :: u32) = be_word (drop 4 bs)"
    unfolding m using assms
    by (intro bit_word_eqI) (auto simp: be_word_def bit_simps bit_le_word rev_nth)
  show "(ucast (drop_bit 32 (be_word bs :: u64) AND 0xFFFFFFFF) :: u32) = be_word (take 4 bs)"
    unfolding m using assms
    by (intro bit_word_eqI) (auto simp: be_word_def bit_simps bit_le_word rev_nth d)
qed

lemma be_bytes_join:
  "be_bytes 8 (push_bit 32 (ucast (a :: u32) :: u64) OR ucast (b :: u32)) = be_bytes 4 a @ be_bytes 4 b"
proof -
  let ?v = "push_bit 32 (ucast a :: u64) OR ucast b"
  have "le_bytes 8 ?v ! k = (le_bytes 4 b @ le_bytes 4 a) ! k" if k: "k < 8" for k
  proof (rule bit_word_eqI)
    fix j assume "j < LENGTH(8)"
    then have "8 * k + j < 32 \<longleftrightarrow> k < 4" "\<not> k < 4 \<Longrightarrow> 8 * (k - 4) + j = 8 * k + j - 32" "8 * k + j < 64" "j < 8"
      using k by (simp_all, linarith+)
    then show "bit (le_bytes 8 ?v ! k) j = bit ((le_bytes 4 b @ le_bytes 4 a) ! k) j"
      using k bit_imp_le_length [of b "8 * k + j"]
      by (cases "k < 4") (simp_all add: nth_le_bytes nth_append bit_simps, auto)
  qed
  then have "le_bytes 8 ?v = le_bytes 4 b @ le_bytes 4 a"
    by (intro nth_equalityI) simp_all
  then show ?thesis
    by (simp add: be_bytes_def)
qed

section \<open>Accesses in the trace\<close>

definition rd_acc :: "spi_ocores \<Rightarrow> io_acc" where
  "rd_acc sp = (case sp_read sp of Spi32 \<Rightarrow> IO32 | Spi32be \<Rightarrow> IO32BE)"

definition wr_acc :: "spi_ocores \<Rightarrow> io_acc" where
  "wr_acc sp = (case sp_write sp of Spi32 \<Rightarrow> IO32 | Spi32be \<Rightarrow> IO32BE)"

lemma trace_spi_write [io_simps]:
  "trace (spi_write P sp v r w) = trace w @ [EvWrite (wr_acc sp) (sp_mem sp + ucast r) v]"
  by (cases "sp_write sp") (simp_all add: spi_write_def spi_ocores_iowrite32_def spi_ocores_iowrite32be_def wr_acc_def trace_iowrite)

lemma spi_read_io: "spi_read P sp r w = ioread P (rd_acc sp) (sp_mem sp + ucast r) w"
  by (cases "sp_read sp") (simp_all add: spi_read_def spi_ocores_ioread32_def spi_ocores_ioread32be_def rd_acc_def)

lemma trace_spi_read:
  "spi_read P sp r w = (v, w') \<Longrightarrow> trace w' = trace w @ [EvRead (rd_acc sp) (sp_mem sp + ucast r) v]"
  by (auto simp: spi_read_io ioread_def split: prod.splits)

section \<open>One word\<close>

lemma load_split:
  assumes "load_bytes h p (m + n) = Inr bs"
  shows "load_bytes h p m = Inr (take m bs)" "load_bytes h (ptr_add p m) n = Inr (drop m bs)"
  using assms by (auto simp: load_bytes_def drop_take ac_simps split: ptr.splits if_splits)

lemma length_load: "load_bytes h p n = Inr bs \<Longrightarrow> length bs = n"
  by (auto simp: load_bytes_def split: ptr.splits if_splits)

lemma ucast_be_word:
  assumes "LENGTH('a) = 8 * length bs" "LENGTH('a) \<le> 32"
  shows "ucast (be_word bs :: 'a::len word) = (be_word bs :: u32)"
  using assms by (intro bit_word_eqI) (auto simp: be_word_def bit_simps bit_le_word)

text \<open>What a push writes: the offsets of the word registers, in the order of the code, with their values.\<close>

definition word_writes :: "spi_wordfn \<Rightarrow> u8 list \<Rightarrow> (u32 \<times> u32) list" where
  "word_writes f bs = (case f of
     Word64 \<Rightarrow> [(0, be_word (drop 4 bs)), (4, be_word (take 4 bs))]
   | Word128 \<Rightarrow> [(8, be_word (take 4 (drop 4 bs))), (0xC, be_word (take 4 bs)),
       (0, be_word (drop 12 bs)), (4, be_word (take 4 (drop 8 bs)))]
   | _ \<Rightarrow> [(0, be_word bs)])"

definition write_all :: "'d platform \<Rightarrow> spi_ocores \<Rightarrow> (u32 \<times> u32) list \<Rightarrow> 'd spi_world \<Rightarrow> 'd spi_world" where
  "write_all P sp = fold (\<lambda>(r, v). spi_write P sp v r)"

lemma push_writes:
  assumes "load_bytes (sp_heap sp) (cur_tx_buf sp) (wbytes f) = Inr bs"
  shows "push_fn f P e sp w = Inr (wbytes f, write_all P sp (word_writes f bs) w)"
proof -
  note [simp] = spi_ocores_tx_set_def push_fn_def word_writes_def write_all_def wbytes_def
  have l: "length bs = wbytes f"
    using assms by (rule length_load)
  show ?thesis
  proof (cases f)
    case Word8
    then have "(ucast (cpu_word e bs :: u8) :: u32) = be_word bs"
      using l by (cases e) (auto simp: cpu_word_def be_word_def le_word_simps length_Suc_conv)
    then show ?thesis
      using Word8 assms by (simp add: spi_ocores_hw_xfer_tx_push8_def)
  next
    case Word128
    then show ?thesis
      using assms l load_split [of "sp_heap sp" "cur_tx_buf sp" 8 8 bs]
      by (simp add: spi_ocores_hw_xfer_tx_push128_def cpu_to_be_word be_word_halves min_def take_drop)
  qed (use assms l in \<open>simp_all add: spi_ocores_hw_xfer_tx_push16_def spi_ocores_hw_xfer_tx_push32_def
        spi_ocores_hw_xfer_tx_push64_def cpu_to_be_word ucast_be_word be_word_halves\<close>)
qed

text \<open>The registers hold the bytes of the word.\<close>

lemma word_writes_frame:
  assumes "length bs = wbytes f"
  shows "frame mem f (wire_regs f) (fold (\<lambda>(r, v) g. g(mem + ucast r := v)) (word_writes f bs) g) = bs"
proof -
  have q: "be_bytes 4 (be_word bs' :: u32) = bs'" if "length bs' = 4" for bs'
    using be_bytes_be_word [of bs', where 'a = 32] that by simp
  have "take 4 bs @ take 4 (drop 4 bs) @ take 4 (drop 8 bs) @ drop 12 bs = bs"
    using append_take_drop_id [of 4 bs] append_take_drop_id [of 4 "drop 4 bs"] append_take_drop_id [of 4 "drop 8 bs"]
    by simp
  then show ?thesis
    using assms be_bytes_be_word [of bs, where 'a = 32] q
    by (cases f) (simp_all add: frame_def wire_regs_def tx_addr_def word_writes_def wbytes_def)
qed

lemma write_all_trace:
  "trace (write_all P sp ws w) = trace w @ map (\<lambda>(r, v). EvWrite (wr_acc sp) (sp_mem sp + ucast r) v) ws"
  by (induction ws arbitrary: w) (auto simp: write_all_def trace_spi_write)

lemma mon_writes:
  assumes "\<forall>(r, v) \<in> set ws. r \<noteq> SPI_OCORES_CTRL"
  shows "mon mem (map (\<lambda>(r, v). EvWrite c (mem + ucast r) v) ws) m
    = m\<lparr>mo_regs := fold (\<lambda>(r, v) g. g(mem + ucast r := v)) ws (mo_regs m)\<rparr>"
  using assms
proof (induction ws arbitrary: m)
  case Nil
  then show ?case
    by (simp add: mon_def)
next
  case (Cons x ws)
  obtain r v where x: "x = (r, v)"
    by fastforce
  have "r \<noteq> SPI_OCORES_CTRL"
    using Cons.prems x by simp
  then have "mem + ucast r \<noteq> mem + ucast SPI_OCORES_CTRL"
    by (simp only: add_left_cancel ucast_u32_u64_inj not_False_eq_True)
  then show ?case
    using Cons.IH [of "m\<lparr>mo_regs := (mo_regs m)(mem + ucast r := v)\<rparr>"] Cons.prems x by (simp add: mon_def)
qed

text \<open>The accesses of a push and of a pop.\<close>

definition push_evs :: "io_acc \<Rightarrow> addr \<Rightarrow> spi_wordfn \<Rightarrow> u8 list \<Rightarrow> spi_call event list" where
  "push_evs c mem f bs = map (\<lambda>(r, v). EvWrite c (mem + ucast r) v) (word_writes f bs)"

definition pop_evs :: "io_acc \<Rightarrow> addr \<Rightarrow> spi_wordfn \<Rightarrow> u32 list \<Rightarrow> spi_call event list" where
  "pop_evs c mem f vs = map (\<lambda>(r, v). EvRead c (tx_addr mem r) v) (zip (wire_regs f) vs)"

lemma no_final_evs: "EvCall k \<notin> set (push_evs c mem f bs)" "EvCall k \<notin> set (pop_evs c mem f vs)"
  by (auto simp: push_evs_def pop_evs_def)

lemma push_word:
  assumes "load_bytes (sp_heap sp) (cur_tx_buf sp) (wbytes f) = Inr bs"
  shows "\<exists>w'. push_fn f P e sp w = Inr (wbytes f, w') \<and> trace w' = trace w @ push_evs (wr_acc sp) (sp_mem sp) f bs
    \<and> (\<forall>m. outs (sp_mem sp) f (mon (sp_mem sp) (push_evs (wr_acc sp) (sp_mem sp) f bs) m) = outs (sp_mem sp) f m
        \<and> ins (sp_mem sp) f (mon (sp_mem sp) (push_evs (wr_acc sp) (sp_mem sp) f bs) m) = ins (sp_mem sp) f m
        \<and> tx_frame (sp_mem sp) f (mon (sp_mem sp) (push_evs (wr_acc sp) (sp_mem sp) f bs) m) = bs)"
proof -
  have r: "\<forall>(r, v) \<in> set (word_writes f bs). r \<noteq> SPI_OCORES_CTRL"
    by (cases f) (simp_all add: word_writes_def)
  show ?thesis
    using push_writes [OF assms] write_all_trace [of P sp "word_writes f bs" w] mon_writes [OF r]
      word_writes_frame [OF length_load [OF assms]]
    by (intro exI conjI) (auto simp: outs_def ins_def tx_frame_def push_evs_def)
qed

lemma store_room: "room h p (length bs) \<Longrightarrow> \<exists>h'. store_bytes h p bs = Inr h'"
  by (auto simp: room_def store_bytes_def)

lemma store_split:
  assumes "room h p (length a + length b)"
  shows "ebind (store_bytes h (ptr_add p (length a)) b) (\<lambda>h. store_bytes h p a) = store_bytes h p (a @ b)"
proof -
  obtain k off where p: "p = Ptr k off" "off + length a + length b \<le> length (h k)"
    using assms by (auto simp: room_def)
  have "splice off a (splice (off + length a) b (h k)) = splice off (a @ b) (h k)"
    using p(2) by (simp add: splice_def min_absorb1 min_absorb2 ac_simps)
  then show ?thesis
    using p by (simp add: store_bytes_def)
qed

lemma and_low_masks:
  "(ucast (v AND 0xFF) :: u8) = ucast (v :: u32)" "(ucast (v AND 0xFFFF) :: u16) = ucast v"
proof -
  have m: "(0xFF :: u32) = mask 8" "(0xFFFF :: u32) = mask 16"
    by (simp_all add: mask_eq_exp_minus_1)
  show "(ucast (v AND 0xFF) :: u8) = ucast v" "(ucast (v AND 0xFFFF) :: u16) = ucast v"
    unfolding m by (rule bit_word_eqI; simp add: bit_simps)+
qed

lemma be_bytes_ucast:
  assumes "8 * n \<le> LENGTH('a)"
  shows "be_bytes n (ucast (v :: 'b::len word) :: 'a::len word) = be_bytes n v"
proof -
  have "(ucast (drop_bit (8 * k) (ucast v :: 'a word)) :: u8) = ucast (drop_bit (8 * k) v)" if "k < n" for k
    using assms that by (intro bit_word_eqI) (auto simp: bit_simps dest: bit_imp_le_length)
  then show ?thesis
    by (simp add: be_bytes_def le_bytes_def)
qed

text \<open>What a pop reads: the word registers, highest first, and what it stores of them.\<close>

fun read_all :: "'d platform \<Rightarrow> spi_ocores \<Rightarrow> u32 list \<Rightarrow> 'd spi_world \<Rightarrow> u32 list \<times> 'd spi_world" where
  "read_all P sp [] w = ([], w)"
| "read_all P sp (r # rs) w =
     (let (v, w) = spi_read P sp (SPI_OCORES_RX r) w; (vs, w) = read_all P sp rs w in (v # vs, w))"

definition stored_bytes :: "spi_wordfn \<Rightarrow> u32 list \<Rightarrow> u8 list" where
  "stored_bytes f vs = concat (map (be_bytes (min 4 (wbytes f)))
     (if f = Word128 then [vs ! 2, vs ! 3, vs ! 0, vs ! 1] else vs))"

lemma read_all_length: "read_all P sp rs w = (vs, w') \<Longrightarrow> length vs = length rs"
  by (induction rs arbitrary: w vs) (auto split: prod.splits)

lemma word_values:
  assumes "length vs = length (wire_regs f)"
  shows "f \<noteq> Word64 \<Longrightarrow> f \<noteq> Word128 \<Longrightarrow> \<exists>a. vs = [a]" "f = Word64 \<Longrightarrow> \<exists>a b. vs = [a, b]"
    "f = Word128 \<Longrightarrow> \<exists>a b c d. vs = [a, b, c, d]"
  using assms by (cases f; auto simp: wire_regs_def length_Suc_conv)+

lemma length_stored:
  assumes "length vs = length (wire_regs f)"
  shows "length (stored_bytes f vs) = wbytes f"
  using word_values [OF assms] by (cases f) (auto simp: stored_bytes_def wbytes_def)

lemma pop_reads:
  assumes "read_all P sp (wire_regs f) w = (vs, w')" "store_bytes (sp_heap sp) (cur_rx_buf sp) (stored_bytes f vs) = Inr h'"
  shows "pop_fn f P e sp w = Inr (wbytes f, h', w')"
proof -
  note [simp] = spi_ocores_rx_get_def pop_fn_def wire_regs_def cpu_bytes_to_be wbytes_def stored_bytes_def
  show ?thesis
  proof (cases f)
    case Word8
    obtain v w1 where r: "spi_read P sp 0 w = (v, w1)"
      by fastforce
    have "cpu_bytes e (Suc 0) (ucast v :: u8) = be_bytes 1 v"
      using be_bytes_ucast [of 1, where 'a = 8, of v]
      by (cases e) (simp_all add: cpu_bytes_def be_bytes_def le_bytes_def)
    then show ?thesis
      using Word8 r assms by (auto simp: spi_ocores_hw_xfer_rx_pop8_def and_low_masks)
  next
    case Word16
    have "be_bytes 2 (ucast v :: u16) = be_bytes 2 v" for v :: u32
      using be_bytes_ucast [of 2, where 'a = 16, of v] by simp
    then show ?thesis
      using Word16 assms by (auto simp: spi_ocores_hw_xfer_rx_pop16_def and_low_masks split: prod.splits)
  next
    case Word32
    then show ?thesis
      using assms by (auto simp: spi_ocores_hw_xfer_rx_pop32_def split: prod.splits)
  next
    case Word64
    then show ?thesis
      using assms by (auto simp: spi_ocores_hw_xfer_rx_pop64_def be_bytes_join split: prod.splits)
  next
    case Word128
    obtain v3 w3 where r3: "spi_read P sp 0xC w = (v3, w3)" by fastforce
    obtain v2 w2 where r2: "spi_read P sp 8 w3 = (v2, w2)" by fastforce
    obtain v1 w1 where r1: "spi_read P sp 4 w2 = (v1, w1)" by fastforce
    obtain v0 w0 where r0: "spi_read P sp 0 w1 = (v0, w0)" by fastforce
    let ?a = "be_bytes 4 v1 @ be_bytes 4 v0" and ?b = "be_bytes 4 v3 @ be_bytes 4 v2"
    have vs: "vs = [v3, v2, v1, v0]" "w' = w0"
      using Word128 assms(1) r3 r2 r1 r0 by simp_all
    then have h: "store_bytes (sp_heap sp) (cur_rx_buf sp) (?a @ ?b) = Inr h'"
      using Word128 assms(2) by simp
    then have "room (sp_heap sp) (cur_rx_buf sp) (length ?a + length ?b)"
      by (auto simp: store_bytes_def room_def split: ptr.splits if_splits)
    then obtain h1 where h1: "store_bytes (sp_heap sp) (ptr_add (cur_rx_buf sp) 8) ?b = Inr h1"
        "store_bytes h1 (cur_rx_buf sp) ?a = Inr h'"
      using store_split [of "sp_heap sp" "cur_rx_buf sp" ?a ?b] h by (auto simp: ebind_eq_Inr_iff)
    show ?thesis
      using Word128 vs r3 r2 r1 r0 h1 by (simp add: spi_ocores_hw_xfer_rx_pop128_def be_bytes_join)
  qed
qed

lemma mon_reads:
  assumes "read_all P sp rs w = (vs, w')" "0x10 \<notin> set (map SPI_OCORES_RX rs)"
  shows "\<exists>es. trace w' = trace w @ es \<and> EvCall SpiFinalize \<notin> set es
    \<and> (\<forall>m ss s. mo_shifts m = ss @ [s] \<longrightarrow> sh_done s \<longrightarrow> mon (sp_mem sp) es m
        = m\<lparr>mo_shifts := ss @ [s\<lparr>sh_in := fold (\<lambda>(r, v) g. g(tx_addr (sp_mem sp) r := v)) (zip rs vs) (sh_in s)\<rparr>]\<rparr>)"
  using assms
proof (induction rs arbitrary: w vs)
  case Nil
  then show ?case
    by (intro exI [of _ "[]"]) (auto simp: mon_def)
next
  case (Cons r rs)
  obtain v w1 vs' where r: "spi_read P sp (SPI_OCORES_RX r) w = (v, w1)" "read_all P sp rs w1 = (vs', w')" "vs = v # vs'"
    using Cons.prems(1) by (auto split: prod.splits)
  obtain es where es: "trace w' = trace w1 @ es" "EvCall SpiFinalize \<notin> set es"
    "\<forall>m ss s. mo_shifts m = ss @ [s] \<longrightarrow> sh_done s \<longrightarrow> mon (sp_mem sp) es m
        = m\<lparr>mo_shifts := ss @ [s\<lparr>sh_in := fold (\<lambda>(r, v) g. g(tx_addr (sp_mem sp) r := v)) (zip rs vs') (sh_in s)\<rparr>]\<rparr>"
    using Cons.IH [OF r(2)] Cons.prems(2) unfolding list.map set_simps insert_iff by blast
  let ?a = "sp_mem sp + ucast (SPI_OCORES_RX r)"
  have "SPI_OCORES_RX r \<noteq> SPI_OCORES_CTRL"
    using Cons.prems(2) by auto
  then have ne: "?a \<noteq> sp_mem sp + ucast SPI_OCORES_CTRL"
    by (simp only: add_left_cancel ucast_u32_u64_inj not_False_eq_True)
  have k: "mon (sp_mem sp) (EvRead (rd_acc sp) ?a v # es) m
      = m\<lparr>mo_shifts := ss @ [s\<lparr>sh_in := fold (\<lambda>(r, v) g. g(tx_addr (sp_mem sp) r := v)) (zip (r # rs) vs) (sh_in s)\<rparr>]\<rparr>"
    if m: "mo_shifts m = ss @ [s]" "sh_done s" for m ss s
  proof -
    let ?s = "s\<lparr>sh_in := (sh_in s)(?a := v)\<rparr>"
    have "mon_step (sp_mem sp + ucast SPI_OCORES_CTRL) (EvRead (rd_acc sp) ?a v) m = m\<lparr>mo_shifts := ss @ [?s]\<rparr>"
      unfolding mon_step.simps if_not_P [OF ne] m(1) on_last_simps if_P [OF m(2)] ..
    then have "mon (sp_mem sp) (EvRead (rd_acc sp) ?a v # es) m = mon (sp_mem sp) es (m\<lparr>mo_shifts := ss @ [?s]\<rparr>)"
      by (simp only: mon_def fold_simps)
    also have "\<dots> = m\<lparr>mo_shifts := ss @ [?s\<lparr>sh_in := fold (\<lambda>(r, v) g. g(tx_addr (sp_mem sp) r := v)) (zip rs vs') (sh_in ?s)\<rparr>]\<rparr>"
      using es(3) [rule_format, of "m\<lparr>mo_shifts := ss @ [?s]\<rparr>" ss ?s] m(2) by simp
    finally show ?thesis
      by (simp add: r(3) tx_addr_def)
  qed
  show ?case
    by (intro exI [of _ "EvRead (rd_acc sp) ?a v # es"] conjI allI impI)
      (rule k | use es(1,2) trace_spi_read [OF r(1)] in simp)+
qed

lemma stored_frame:
  assumes "length vs = length (wire_regs f)"
  shows "frame mem f (mem_regs f) (fold (\<lambda>(r, v) g. g(tx_addr mem r := v)) (zip (wire_regs f) vs) g) = stored_bytes f vs"
  using word_values [OF assms]
  by (cases f) (auto simp: frame_def mem_regs_def wire_regs_def stored_bytes_def tx_addr_def wbytes_def)

lemma read_all_trace:
  "read_all P sp rs w = (vs, w') \<Longrightarrow> trace w' = trace w @ map (\<lambda>(r, v). EvRead (rd_acc sp) (tx_addr (sp_mem sp) r) v) (zip rs vs)"
proof (induction rs arbitrary: w vs)
  case (Cons r rs)
  obtain v w1 vs' where r: "spi_read P sp (SPI_OCORES_RX r) w = (v, w1)" "read_all P sp rs w1 = (vs', w')" "vs = v # vs'"
    using Cons.prems by (auto split: prod.splits)
  show ?case
    using Cons.IH [OF r(2)] trace_spi_read [OF r(1)] r(3) by (simp add: tx_addr_def)
qed simp

lemma pop_shift:
  assumes "room (sp_heap sp) (cur_rx_buf sp) (wbytes f)"
  shows "\<exists>vs h' w'. pop_fn f P e sp w = Inr (wbytes f, h', w') \<and> length vs = length (wire_regs f)
    \<and> trace w' = trace w @ pop_evs (rd_acc sp) (sp_mem sp) f vs
    \<and> store_bytes (sp_heap sp) (cur_rx_buf sp) (stored_bytes f vs) = Inr h'
    \<and> (\<forall>m ss s. mo_shifts m = ss @ [s] \<longrightarrow> sh_done s
        \<longrightarrow> (\<exists>s'. mo_shifts (mon (sp_mem sp) (pop_evs (rd_acc sp) (sp_mem sp) f vs) m) = ss @ [s']
        \<and> sh_out s' = sh_out s \<and> mo_regs (mon (sp_mem sp) (pop_evs (rd_acc sp) (sp_mem sp) f vs) m) = mo_regs m
        \<and> frame (sp_mem sp) f (mem_regs f) (sh_in s') = stored_bytes f vs))"
proof -
  obtain vs w' where r: "read_all P sp (wire_regs f) w = (vs, w')"
    by fastforce
  note l = read_all_length [OF r]
  obtain h' where h: "store_bytes (sp_heap sp) (cur_rx_buf sp) (stored_bytes f vs) = Inr h'"
    using store_room [of "sp_heap sp" "cur_rx_buf sp" "stored_bytes f vs"] assms length_stored [OF l] by auto
  have "0x10 \<notin> set (map SPI_OCORES_RX (wire_regs f))"
    by (cases f) (simp_all add: wire_regs_def)
  from mon_reads [OF r this] obtain es where "trace w' = trace w @ es"
    and m: "\<forall>m ss s. mo_shifts m = ss @ [s] \<longrightarrow> sh_done s \<longrightarrow> mon (sp_mem sp) es m
        = m\<lparr>mo_shifts := ss @ [s\<lparr>sh_in := fold (\<lambda>(r, v) g. g(tx_addr (sp_mem sp) r := v)) (zip (wire_regs f) vs) (sh_in s)\<rparr>]\<rparr>"
    by blast
  then have es: "es = pop_evs (rd_acc sp) (sp_mem sp) f vs" "trace w' = trace w @ es"
    using read_all_trace [OF r] by (simp_all add: pop_evs_def)
  show ?thesis
    using pop_reads [OF r h] h l m stored_frame [OF l] es(2) unfolding es(1)
    by (intro exI [of _ vs] exI [of _ h'] exI [of _ w']) fastforce
qed

text \<open>A pop after the controller was seen idle: the last word shifted in is what it stores.\<close>

lemma pop_word:
  assumes "room (sp_heap sp) (cur_rx_buf sp) (wbytes f)"
  shows "\<exists>vs h' w'. pop_fn f P e sp w = Inr (wbytes f, h', w') \<and> length vs = length (wire_regs f)
    \<and> trace w' = trace w @ pop_evs (rd_acc sp) (sp_mem sp) f vs
    \<and> store_bytes (sp_heap sp) (cur_rx_buf sp) (stored_bytes f vs) = Inr h'
    \<and> (\<forall>m. mon_ready m \<longrightarrow> outs (sp_mem sp) f (mon (sp_mem sp) (pop_evs (rd_acc sp) (sp_mem sp) f vs) m) = outs (sp_mem sp) f m
        \<and> ins (sp_mem sp) f (mon (sp_mem sp) (pop_evs (rd_acc sp) (sp_mem sp) f vs) m)
          = butlast (ins (sp_mem sp) f m) @ [stored_bytes f vs])"
proof -
  obtain vs h' w' where p: "pop_fn f P e sp w = Inr (wbytes f, h', w')" "length vs = length (wire_regs f)"
      "trace w' = trace w @ pop_evs (rd_acc sp) (sp_mem sp) f vs"
      "store_bytes (sp_heap sp) (cur_rx_buf sp) (stored_bytes f vs) = Inr h'"
    and q: "\<forall>m ss s. mo_shifts m = ss @ [s] \<longrightarrow> sh_done s
        \<longrightarrow> (\<exists>s'. mo_shifts (mon (sp_mem sp) (pop_evs (rd_acc sp) (sp_mem sp) f vs) m) = ss @ [s']
        \<and> sh_out s' = sh_out s \<and> mo_regs (mon (sp_mem sp) (pop_evs (rd_acc sp) (sp_mem sp) f vs) m) = mo_regs m
        \<and> frame (sp_mem sp) f (mem_regs f) (sh_in s') = stored_bytes f vs)"
    using pop_shift [OF assms, of P e w] by blast
  have "outs (sp_mem sp) f (mon (sp_mem sp) (pop_evs (rd_acc sp) (sp_mem sp) f vs) m) = outs (sp_mem sp) f m
        \<and> ins (sp_mem sp) f (mon (sp_mem sp) (pop_evs (rd_acc sp) (sp_mem sp) f vs) m)
          = butlast (ins (sp_mem sp) f m) @ [stored_bytes f vs]" if r: "mon_ready m" for m
  proof -
    obtain ss s where s: "mo_shifts m = ss @ [s]" "sh_done s"
      using r by (cases "mo_shifts m" rule: rev_cases) (auto simp: mon_ready_def)
    show ?thesis
      using q [rule_format, OF s] s by (auto simp: outs_def ins_def)
  qed
  then show ?thesis
    using p by blast
qed

section \<open>The accesses of a transfer\<close>

text \<open>
  The accesses that neither touch the word registers nor configure the controller: what the driver
  does while it waits, and the chip select.
\<close>

fun still_ev :: "addr \<Rightarrow> spi_call event \<Rightarrow> bool" where
  "still_ev mem (EvWrite c a v) \<longleftrightarrow> a = mem + ucast SPI_OCORES_CS"
| "still_ev mem (EvRead c a v) \<longleftrightarrow> a \<in> (\<lambda>r. mem + ucast r) ` {SPI_OCORES_CTRL, SPI_OCORES_CS}"
| "still_ev mem (EvCall k) \<longleftrightarrow> k \<noteq> SpiFinalize"

lemma still_quiet: "list_all (still_ev mem) es \<Longrightarrow> list_all (quiet_ev mem) es"
proof -
  have "still_ev mem ev \<Longrightarrow> quiet_ev mem ev" for ev
    by (cases ev) auto
  then show "list_all (still_ev mem) es \<Longrightarrow> list_all (quiet_ev mem) es"
    by (auto simp: list_all_iff)
qed

text \<open>
  What a transfer looks like on the bus: the configuration, then, for each word, the word registers
  (with \<open>t\<close>, there is something to send), the chip select and the go command, and the registers
  read back (with \<open>r\<close>, there is room for it). \<open>k\<close> is the configuration, \<open>b\<close> tells whether a word
  is on the wire, \<open>bss\<close> are the words sent, \<open>vss\<close> the register values read.
\<close>

definition go_evs :: "io_acc \<Rightarrow> io_acc \<Rightarrow> addr \<Rightarrow> u32 \<Rightarrow> u32 \<Rightarrow> u32 \<Rightarrow> spi_call event list" where
  "go_evs rc wc mem s s' v = [EvRead rc (mem + ucast SPI_OCORES_CS) s, EvWrite wc (mem + ucast SPI_OCORES_CS) s',
     EvRead rc (mem + ucast SPI_OCORES_CTRL) v, EvWrite wc (mem + ucast SPI_OCORES_CTRL) (v OR SPI_OCORES_CTRL_GO)]"

inductive xfer_accs :: "addr \<Rightarrow> spi_wordfn \<Rightarrow> bool \<Rightarrow> bool \<Rightarrow> u32 \<Rightarrow> bool \<Rightarrow> spi_call event list \<Rightarrow> u8 list list
    \<Rightarrow> u32 list list \<Rightarrow> bool" for mem f t r k where
  accs_config: "SpiFinalize \<notin> set ks \<Longrightarrow> xfer_accs mem f t r k False
    (map EvCall ks @ [EvWrite c (mem + ucast SPI_OCORES_CTRL) k, EvWrite c (mem + ucast SPI_OCORES_DIV) d]) [] []"
| accs_word: "xfer_accs mem f t r k False es bss vss \<Longrightarrow> length bs = wbytes f
    \<Longrightarrow> xfer_accs mem f t r k True (es @ (if t then push_evs wc mem f bs else []) @ go_evs rc wc mem s s' v) (bss @ [bs]) vss"
| accs_still: "xfer_accs mem f t r k b es bss vss \<Longrightarrow> list_all (still_ev mem) qs
    \<Longrightarrow> xfer_accs mem f t r k b (es @ qs) bss vss"
| accs_read: "xfer_accs mem f t r k True es bss vss \<Longrightarrow> length vs = length (wire_regs f)
    \<Longrightarrow> xfer_accs mem f t r k False (es @ (if r then pop_evs c mem f vs else [])) bss (vss @ [vs])"

lemma accs_lengths:
  "xfer_accs mem f t r k b es bss vss \<Longrightarrow> length bss = length vss + (if b then 1 else 0)
    \<and> (\<forall>bs \<in> set bss. length bs = wbytes f) \<and> (\<forall>vs \<in> set vss. length vs = length (wire_regs f))"
  by (induction rule: xfer_accs.induct) auto

end
