(* ===== verification/Spi_Order.thy ===== *)
theory Spi_Order
  imports Spi_Data Clock
begin

text \<open>
  The order of the accesses to the SPI controller. While it shifts a word, \<open>spi_top.v\<close> ignores what
  is written to its registers and its data register is neither the word that goes out nor the one
  that comes in. Whatever the messages are and however the controller answers, the driver writes
  a register or reads a data register only when the controller was last seen at rest.
\<close>

unbundle bit_operations_syntax

section \<open>The controller as the driver knows it\<close>

datatype bus_state = Resting | Shifting | Broken

fun bus_step :: "addr \<Rightarrow> spi_call event \<Rightarrow> bus_state \<Rightarrow> bus_state" where
  "bus_step mem (EvWrite c a v) s =
     (if s \<noteq> Resting then Broken
      else if a = mem + ucast SPI_OCORES_CTRL \<and> v AND SPI_OCORES_CTRL_GO \<noteq> 0 then Shifting else Resting)"
| "bus_step mem (EvRead c a v) s =
     (if a = mem + ucast SPI_OCORES_CTRL then (if s = Shifting \<and> v AND SPI_OCORES_CTRL_BUSY = 0 then Resting else s)
      else if a = mem + ucast SPI_OCORES_CS then s
      else if s = Resting then Resting else Broken)"
| "bus_step mem (EvCall k) s = s"

text \<open>The state after a trace that extends \<open>t0\<close>, at whose end the controller was at rest.\<close>

definition bus_at :: "addr \<Rightarrow> spi_call event list \<Rightarrow> 'd spi_world \<Rightarrow> bus_state \<Rightarrow> bool" where
  "bus_at mem t0 w s \<longleftrightarrow> (\<exists>es. trace w = t0 @ es \<and> fold (bus_step mem) es Resting = s)"

lemma bus_at_start: "bus_at mem (trace w) w Resting"
  by (simp add: bus_at_def)

lemma bus_at_ext:
  assumes "bus_at mem t0 w s" "trace w' = trace w @ es"
  shows "bus_at mem t0 w' (fold (bus_step mem) es s)"
proof -
  obtain fs where "trace w = t0 @ fs" "fold (bus_step mem) fs Resting = s"
    using assms(1) by (auto simp: bus_at_def)
  then show ?thesis
    using assms(2) unfolding bus_at_def by (intro exI [of _ "fs @ es"]) simp
qed

lemma bus_call: "bus_at mem t0 w s \<Longrightarrow> bus_at mem t0 (kcall k w) s"
  using bus_at_ext [of mem t0 w s "kcall k w" "[EvCall k]"] by (simp add: trace_kcall)

lemma bus_clock: "bus_at mem t0 w s \<Longrightarrow> bus_at mem t0 (snd (jiffies P w)) s"
  by (simp add: bus_at_def trace_jiffies)

lemma ucast_reg: "(ucast (r :: u32) :: u64) = 0x10 \<longleftrightarrow> r = 0x10" "(ucast (r :: u32) :: u64) = 0x18 \<longleftrightarrow> r = 0x18"
  using ucast_u32_u64_inj [of r "0x10"] ucast_u32_u64_inj [of r "0x18"] by simp_all

lemma bus_write:
  assumes "bus_at mem t0 w Resting" "sp_mem sp = mem"
  shows "bus_at mem t0 (spi_write P sp v r w)
    (if r = SPI_OCORES_CTRL \<and> v AND SPI_OCORES_CTRL_GO \<noteq> 0 then Shifting else Resting)"
  using bus_at_ext [OF assms(1) trace_spi_write [of P sp v r w]] assms(2) by (auto simp: ucast_reg split: if_splits)

lemma bus_read:
  assumes "bus_at mem t0 w s" "sp_mem sp = mem" "spi_read P sp r w = (v, w')"
  shows "s = Resting \<Longrightarrow> bus_at mem t0 w' Resting" "r = SPI_OCORES_CS \<Longrightarrow> bus_at mem t0 w' s"
    "r = SPI_OCORES_CTRL \<Longrightarrow> bus_at mem t0 w' (if s = Shifting \<and> v AND SPI_OCORES_CTRL_BUSY = 0 then Resting else s)"
  using bus_at_ext [OF assms(1) trace_spi_read [OF assms(3)]] assms(2) by (auto simp: ucast_reg split: if_splits)

section \<open>At rest\<close>

text \<open>What the driver does between two words leaves the controller at rest.\<close>

lemma bus_cs:
  assumes "bus_at mem t0 w Resting" "sp_mem sp = mem"
  shows "bus_at mem t0 (spi_ocores_hw_xfer_cs P sp cs val w) Resting"
proof -
  obtain v w1 where r: "spi_read P sp SPI_OCORES_CS w = (v, w1)"
    by fastforce
  then show ?thesis
    using bus_write [OF bus_read(1) [OF assms r refl] assms(2), where r = SPI_OCORES_CS]
    by (simp add: spi_ocores_hw_xfer_cs_def)
qed

lemma bus_config:
  assumes "bus_at mem t0 w Resting" "sp_mem sp = mem"
  shows "bus_at mem t0 (spi_ocores_hw_xfer_config P sp ctrl divider w) Resting"
proof -
  have "(ctrl AND NOT SPI_OCORES_CTRL_GO) AND SPI_OCORES_CTRL_GO = 0"
    by (rule bit_word_eqI) (simp add: bit_simps)
  then have "bus_at mem t0 (spi_write P sp (ctrl AND NOT SPI_OCORES_CTRL_GO) SPI_OCORES_CTRL w) Resting"
    using bus_write [OF assms, of P "ctrl AND NOT SPI_OCORES_CTRL_GO" SPI_OCORES_CTRL] by (simp split: if_splits)
  from bus_write [OF this assms(2), of P _ SPI_OCORES_DIV] show ?thesis
    by (simp add: spi_ocores_hw_xfer_config_def)
qed

lemma bus_go:
  assumes "bus_at mem t0 w Resting" "sp_mem sp = mem"
  shows "bus_at mem t0 (spi_ocores_hw_xfer_start P sp w) Shifting"
proof -
  let ?w = "spi_ocores_hw_xfer_cs P sp (ucast (chip_select (spi (cur_msg sp)))) 1 w"
  obtain v w1 where r: "spi_read P sp SPI_OCORES_CTRL ?w = (v, w1)"
    by fastforce
  have "bit ((v OR SPI_OCORES_CTRL_GO) AND SPI_OCORES_CTRL_GO) 8"
    by (simp add: bit_simps)
  then have "(v OR SPI_OCORES_CTRL_GO) AND SPI_OCORES_CTRL_GO \<noteq> 0"
    by (metis bit_0_eq bot_apply bot_bool_def)
  then show ?thesis
    using bus_write [OF bus_read(1) [OF bus_cs [OF assms] assms(2) r refl] assms(2), of P "v OR SPI_OCORES_CTRL_GO" SPI_OCORES_CTRL] r
    unfolding spi_ocores_hw_xfer_start_def spi_ocores_hw_xfer_go_def Let_def by (simp split: if_splits)
qed

lemma bus_tx_set:
  assumes "bus_at mem t0 w Resting" "sp_mem sp = mem" "i \<in> {0, 1, 2, 3}"
  shows "bus_at mem t0 (spi_ocores_tx_set P sp i v w) Resting"
  using bus_write [OF assms(1,2), of P v "SPI_OCORES_TX i"] assms(3)
  by (auto simp: spi_ocores_tx_set_def split: if_splits)

lemma bus_rx_get:
  assumes "bus_at mem t0 w Resting" "sp_mem sp = mem"
  shows "bus_at mem t0 (snd (spi_ocores_rx_get P sp i w)) Resting"
  using bus_read(1) [OF assms surjective_pairing refl, of P "SPI_OCORES_RX i"] bus_call [OF assms(1)]
  by (simp add: spi_ocores_rx_get_def)

lemma bus_push:
  assumes "bus_at mem t0 w Resting" "sp_mem sp = mem" "spi_ocores_hw_xfer_tx_push P e sp w = Inr (n, sp', w')"
  shows "bus_at mem t0 w' Resting \<and> sp_mem sp' = mem"
proof -
  have "bus_at mem t0 w1 Resting" if "push_fn f P e sp w = Inr (n, w1)" for f n w1
    using that assms(1,2)
    by (cases f) (auto simp: push_fn_def spi_ocores_hw_xfer_tx_push8_def spi_ocores_hw_xfer_tx_push16_def
        spi_ocores_hw_xfer_tx_push32_def spi_ocores_hw_xfer_tx_push64_def spi_ocores_hw_xfer_tx_push128_def
        ebind_eq_Inr_iff Let_def intro!: bus_tx_set)
  then show ?thesis
    using assms by (auto simp: spi_ocores_hw_xfer_tx_push_def ebind_eq_Inr_iff split: if_splits option.splits)
qed

lemma bus_pop:
  assumes "bus_at mem t0 w Resting" "sp_mem sp = mem" "spi_ocores_hw_xfer_rx_pop P e sp w = Inr (n, sp', w')"
  shows "bus_at mem t0 w' Resting \<and> sp_mem sp' = mem"
proof -
  have "bus_at mem t0 w1 Resting" if "pop_fn f P e sq w = Inr (n, h, w1)" "sp_mem sq = mem" for f sq n h w1
    using that assms(1)
    by (cases f) (auto simp: pop_fn_def spi_ocores_hw_xfer_rx_pop8_def spi_ocores_hw_xfer_rx_pop16_def
        spi_ocores_hw_xfer_rx_pop32_def spi_ocores_hw_xfer_rx_pop64_def spi_ocores_hw_xfer_rx_pop128_def
        ebind_eq_Inr_iff Let_def case_prod_beta intro!: bus_rx_get)
  then show ?thesis
    using assms by (auto simp: spi_ocores_hw_xfer_rx_pop_def ebind_eq_Inr_iff Let_def split: if_splits option.splits)
qed

section \<open>Words and transfers\<close>

text \<open>\<open>err\<close> tells whether a word went out.\<close>

definition bus_after :: "addr \<Rightarrow> spi_call event list \<Rightarrow> int \<Rightarrow> spi_ocores \<Rightarrow> 'd spi_world \<Rightarrow> bool" where
  "bus_after mem t0 err sp w \<longleftrightarrow> sp_mem sp = mem \<and> bus_at mem t0 w (if err = 0 then Shifting else Resting)"

lemma bus_word_out:
  assumes "bus_at mem t0 w Resting" "sp_mem sp = mem"
    "ebind (spi_ocores_hw_xfer_tx_push P e sp w) (\<lambda>(_, sp, w). Inr (0, sp, spi_ocores_hw_xfer_start P sp w)) = Inr (err, sp', w')"
  shows "bus_after mem t0 err sp' w'"
  using assms(3) bus_push [OF assms(1,2)] bus_go by (fastforce simp: ebind_eq_Inr_iff bus_after_def)

lemma bus_rxtx:
  assumes "bus_at mem t0 w Resting" "sp_mem sp = mem" "spi_ocores_hw_xfer_rxtx P e sp w = Inr (err, sp', w')"
  shows "bus_after mem t0 err sp' w'"
proof -
  obtain n sp1 w1 where p: "spi_ocores_hw_xfer_rx_pop P e sp w = Inr (n, sp1, w1)"
    "(if \<not> spi_ocores_sw_xfer_has_pending sp1 then Inr (- ENODATA, sp1, w1)
      else ebind (spi_ocores_hw_xfer_tx_push P e sp1 w1) (\<lambda>(_, sp, w). Inr (0, sp, spi_ocores_hw_xfer_start P sp w)))
      = Inr (err, sp', w')"
    using assms(3) by (auto simp: spi_ocores_hw_xfer_rxtx_def ebind_eq_Inr_iff)
  have b: "bus_at mem t0 w1 Resting" "sp_mem sp1 = mem"
    using bus_pop [OF assms(1,2) p(1)] by simp_all
  show ?thesis
  proof (cases "spi_ocores_sw_xfer_has_pending sp1")
    case True
    then show ?thesis
      using p(2) by (intro bus_word_out [OF b, of P e err]) simp
  qed (use p(2) b in \<open>auto simp: bus_after_def\<close>)
qed

lemma bus_next_init:
  assumes "bus_at mem t0 w Resting" "sp_mem sp = mem" "spi_ocores_sw_xfer_next_init P sp w = Inr (err, sp', w')"
  shows "bus_at mem t0 w' Resting \<and> sp_mem sp' = mem"
proof -
  have s: "bus_at mem t0 w' Resting \<and> sp_mem sp' = mem"
    if "xfer_setup P sq x n w = Inr (err, sp', w')" "sp_mem sq = mem" for sq x n
    using that assms(1)
    by (auto simp: xfer_setup_def xfer_divider_def ebind_eq_Inr_iff Let_def intro!: bus_config bus_call split: if_splits)
  obtain nx where nx: "next_xfer sp = Inr nx"
    using assms(3) by (auto simp: spi_ocores_sw_xfer_next_init_def ebind_eq_Inr_iff)
  note d = assms(3) [unfolded spi_ocores_sw_xfer_next_init_def nx ebind_simps]
  consider (over) "nx = None" | (empty) "nx = Some None" | (xfer) k where "nx = Some (Some k)"
    by (cases nx) auto
  then show ?thesis
  proof cases
    case over
    then show ?thesis
      using d assms(1,2) by simp
  next
    case empty
    then show ?thesis
      using d assms(1,2) by (auto simp: set_status_def intro: bus_call)
  next
    case (xfer k)
    then show ?thesis
      using d assms(1,2)
      by (auto simp: ebind_eq_Inr_iff Let_def set_status_def intro: bus_call dest: s split: if_splits)
  qed
qed

lemma bus_next_start:
  assumes "bus_at mem t0 w Resting" "sp_mem sp = mem" "spi_ocores_sw_xfer_next_start P e sp w = Inr (err, sp', w')"
  shows "bus_after mem t0 err sp' w'"
proof -
  obtain err1 sp1 w1 where p: "spi_ocores_sw_xfer_next_init P sp w = Inr (err1, sp1, w1)"
    "(if err1 \<noteq> 0 then Inr (err1, sp1, w1)
      else ebind (spi_ocores_hw_xfer_tx_push P e sp1 w1) (\<lambda>(_, sp, w). Inr (0, sp, spi_ocores_hw_xfer_start P sp w)))
      = Inr (err, sp', w')"
    using assms(3) by (auto simp: spi_ocores_sw_xfer_next_start_def ebind_eq_Inr_iff)
  have b: "bus_at mem t0 w1 Resting" "sp_mem sp1 = mem"
    using bus_next_init [OF assms(1,2) p(1)] by simp_all
  show ?thesis
  proof (cases "err1 = 0")
    case True
    then show ?thesis
      using p(2) by (intro bus_word_out [OF b, of P e err]) simp
  qed (use p(2) b in \<open>auto simp: bus_after_def\<close>)
qed

lemma bus_finish:
  assumes "bus_at mem t0 w Resting" "sp_mem sp = mem" "spi_ocores_sw_xfer_finish P sp w = Inr (err, sp', w')"
  shows "bus_at mem t0 w' Resting \<and> sp_mem sp' = mem"
  using assms by (auto simp: spi_ocores_sw_xfer_finish_def ebind_eq_Inr_iff Let_def intro!: bus_cs bus_call split: if_splits)

lemma bus_finalize:
  assumes "bus_at mem t0 w Resting" "sp_mem sp = mem" "spi_ocores_finalize_current_message P sp w = (sp', w')"
  shows "bus_at mem t0 w' Resting \<and> sp_mem sp' = mem"
  using assms by (auto simp: spi_ocores_finalize_current_message_def set_status_def intro!: bus_cs bus_call)

lemma bus_process_next:
  assumes "bus_at mem t0 w Resting" "sp_mem sp = mem" "process_next_xfer P e sp w = Inr (err, sp', w')"
  shows "bus_after mem t0 err sp' w'"
proof -
  obtain n sp1 w1 err2 sp2 w2 where p: "spi_ocores_sw_xfer_finish P sp w = Inr (n, sp1, w1)"
    "spi_ocores_sw_xfer_next_start P e sp1 w1 = Inr (err2, sp2, w2)"
    "(if err2 \<noteq> 0 then (let (sp, w) = spi_ocores_finalize_current_message P sp2 w2 in Inr (err2, sp, w)) else Inr (err2, sp2, w2))
      = (Inr (err, sp', w') :: c_fault + _)"
    using assms(3) by (auto simp: process_next_xfer_def ebind_eq_Inr_iff)
  have "bus_at mem t0 w1 Resting" "sp_mem sp1 = mem"
    using bus_finish [OF assms(1,2) p(1)] by simp_all
  then have b: "bus_after mem t0 err2 sp2 w2"
    using bus_next_start p(2) by blast
  then show ?thesis
    using p(3) bus_finalize [of mem t0 w2 sp2 P sp' w'] by (auto simp: bus_after_def split: if_splits prod.splits)
qed

section \<open>Driving a message\<close>

definition orderly :: "addr \<Rightarrow> spi_call event list \<Rightarrow> 'd spi_world \<Rightarrow> bool" where
  "orderly mem t0 w \<longleftrightarrow> (\<exists>s. bus_at mem t0 w s \<and> s \<noteq> Broken)"

lemma bus_after_orderly: "bus_after mem t0 err sp w \<Longrightarrow> orderly mem t0 w \<and> sp_mem sp = mem"
  by (auto simp: bus_after_def orderly_def split: if_splits)

lemma orderly_status:
  assumes "orderly mem t0 w" "sp_mem sp = mem" "spi_read P sp SPI_OCORES_CTRL w = (v, w')"
  shows "orderly mem t0 w'" "v AND SPI_OCORES_CTRL_BUSY = 0 \<Longrightarrow> bus_at mem t0 w' Resting"
proof -
  obtain s where s: "bus_at mem t0 w s" "s = Resting \<or> s = Shifting"
    using assms(1) by (auto simp: orderly_def intro: bus_state.exhaust)
  show "orderly mem t0 w'" "v AND SPI_OCORES_CTRL_BUSY = 0 \<Longrightarrow> bus_at mem t0 w' Resting"
    using bus_read(3) [OF s(1) assms(2,3) refl] s(2) by (auto simp: orderly_def split: if_splits)
qed

lemma orderly_process:
  assumes "orderly mem t0 w" "sp_mem sp = mem" "spi_ocores_process P e sp w = Inr (err, sp', w')"
  shows "orderly mem t0 w' \<and> sp_mem sp' = mem"
proof -
  obtain v w1 where r: "spi_read P sp SPI_OCORES_CTRL w = (v, w1)"
    by fastforce
  note o = orderly_status [OF assms(1,2) r]
  show ?thesis
  proof (cases "v AND SPI_OCORES_CTRL_BUSY = 0")
    case False
    then show ?thesis
      using assms(2,3) r o(1) by (auto simp: spi_ocores_process_def spi_ocores_is_busy_def)
  next
    case True
    then obtain err1 sp1 w2 where p: "spi_ocores_hw_xfer_rxtx P e sp w1 = Inr (err1, sp1, w2)"
      "(if err1 = - ENODATA then process_next_xfer P e sp1 w2 else Inr (err1, sp1, w2)) = Inr (err, sp', w')"
      using assms(3) r by (auto simp: spi_ocores_process_def spi_ocores_is_busy_def ebind_eq_Inr_iff)
    have b: "bus_after mem t0 err1 sp1 w2"
      by (rule bus_rxtx [OF o(2) [OF True] assms(2) p(1)])
    then have "bus_after mem t0 err sp' w'"
      using p(2) bus_process_next [of mem t0 w2 sp1 P e err sp' w'] by (auto simp: bus_after_def split: if_splits)
    then show ?thesis
      by (rule bus_after_orderly)
  qed
qed

lemma orderly_wait_loop:
  assumes "spi_wait_loop P sp reg msk val j w = Some (err, w')" "reg = SPI_OCORES_CTRL" "orderly (sp_mem sp) t0 w"
  shows "orderly (sp_mem sp) t0 w'"
proof -
  let ?Q = "\<lambda>((((((P, sp), reg), msk), val), j), w) (err, w').
    reg = SPI_OCORES_CTRL \<longrightarrow> orderly (sp_mem sp) t0 w \<longrightarrow> orderly (sp_mem sp) t0 w'"
  have "?Q ((((((P, sp), reg), msk), val), j), w) (err, w')"
  proof (rule spi_wait_loop.raw_induct [OF _ assms(1)])
    fix wl and P :: "'a platform" and sp reg msk val j w and y :: "int \<times> 'a spi_world"
    assume IH: "\<And>P sp reg msk val j w y. wl P sp reg msk val j w = Some y \<Longrightarrow>
        ?Q ((((((P, sp), reg), msk), val), j), w) y"
      and e: "(let (tmp, w1) = spi_read P sp reg w
        in if tmp AND msk = val then Some (0, w1)
           else let (now, w2) = jiffies P w1
                in if time_after now j then Some (- ETIMEDOUT, w2) else wl P sp reg msk val j w2) = Some y"
    obtain v w1 now w2 where r: "spi_read P sp reg w = (v, w1)" "jiffies P w1 = (now, w2)"
      by fastforce
    consider "snd y = w1" | "snd y = w2" | "wl P sp reg msk val j w2 = Some y"
      using e r by (auto split: if_splits)
    moreover have "orderly (sp_mem sp) t0 w1 \<and> orderly (sp_mem sp) t0 w2"
      if "reg = SPI_OCORES_CTRL" "orderly (sp_mem sp) t0 w"
      using orderly_status(1) [OF that(2) refl] r that(1) bus_clock [of "sp_mem sp" t0 w1 _ P]
      by (fastforce simp: orderly_def)
    ultimately show "?Q ((((((P, sp), reg), msk), val), j), w) y"
      using IH [of P sp reg msk val j w2 y] by cases (auto simp: case_prod_beta)
  qed
  then show ?thesis
    using assms(2,3) by simp
qed

lemma orderly_poll:
  assumes "spi_ocores_process_poll P e timeout sp w = Some (Inr (err, sp', w'))" "orderly mem t0 w" "sp_mem sp = mem"
  shows "orderly mem t0 w' \<and> sp_mem sp' = mem"
proof -
  obtain now w1 where j: "jiffies P w = (now, w1)"
    by fastforce
  obtain err1 w2 where p: "spi_wait_loop P sp SPI_OCORES_CTRL SPI_OCORES_CTRL_BUSY 0 (now + p_msecs P timeout) w1 = Some (err1, w2)"
    "(if err1 \<noteq> 0 then Inr (err1, sp, w2) else spi_ocores_process P e sp w2) = Inr (err, sp', w')"
    using assms(1) j by (auto simp: spi_ocores_process_poll_def spi_ocores_hw_xfer_wait_complete_def spi_ocores_wait_def
        split: option.splits if_splits)
  have "orderly mem t0 w1"
    using assms(2) bus_clock [of mem t0 w _ P] j by (fastforce simp: orderly_def)
  then have "orderly mem t0 w2"
    using orderly_wait_loop [OF p(1) refl] assms(3) by blast
  then show ?thesis
    using p(2) orderly_process [of mem t0 w2 sp P e err sp' w'] assms(3) by (auto split: if_splits)
qed

lemma orderly_poll_loop:
  assumes "spi_poll_loop P e sp w = Some (Inr (sp', w'))" "orderly mem t0 w" "sp_mem sp = mem"
  shows "orderly mem t0 w'"
proof -
  define Q where "Q = (\<lambda>(((P :: 'a platform, e :: endian), sp :: spi_ocores), w :: 'a spi_world) r.
    sp_mem sp = mem \<longrightarrow> orderly mem t0 w \<longrightarrow> (\<forall>sp' w'. r = (Inr (sp', w') :: c_fault + spi_ocores \<times> 'a spi_world) \<longrightarrow> orderly mem t0 w'))"
  have "Q (((P, e), sp), w) (Inr (sp', w'))"
  proof (rule spi_poll_loop.raw_induct [OF _ assms(1)])
    fix pl and P :: "'a platform" and e sp w and y :: "c_fault + spi_ocores \<times> 'a spi_world"
    assume IH: "\<And>P e sp w y. pl P e sp w = Some y \<Longrightarrow> Q (((P, e), sp), w) y"
      and body: "Option.bind (spi_ocores_process_poll P e 100 sp w) (\<lambda>r. case r of
         Inl f \<Rightarrow> Some (Inl f)
       | Inr (err, sp, w) \<Rightarrow> if err = 0 then pl P e sp w else Some (Inr (sp, w))) = Some y"
    show "Q (((P, e), sp), w) y"
      unfolding Q_def
    proof (simp only: prod.case, intro impI allI)
      fix sp' w' assume o: "sp_mem sp = mem" "orderly mem t0 w" "y = Inr (sp', w')"
      then obtain err sp1 w1 where p: "spi_ocores_process_poll P e 100 sp w = Some (Inr (err, sp1, w1))"
        "(if err = 0 then pl P e sp1 w1 else Some (Inr (sp1, w1))) = Some (Inr (sp', w'))"
        using body by (cases "spi_ocores_process_poll P e 100 sp w"; cases "the (spi_ocores_process_poll P e 100 sp w)") auto
      then show "orderly mem t0 w'"
        using orderly_poll [OF p(1) o(2,1)] IH [of P e sp1 w1 y] o(3) by (auto simp: Q_def split: if_splits)
    qed
  qed
  then show ?thesis
    using assms(2,3) by (simp add: Q_def)
qed

text \<open>The bus is in order through a message, however it is driven.\<close>

lemma orderly_message:
  assumes "spi_ocores_transfer_one_message P e sp w = Some (Inr (r, sp', w'))"
  shows "orderly (sp_mem sp) (trace w) w'"
proof -
  obtain err sp1 w1 where s: "spi_ocores_sw_xfer_next_start P e sp w = Inr (err, sp1, w1)"
    using assms by (auto simp: spi_ocores_transfer_one_message_def split: sum.splits)
  note b = bus_after_orderly [OF bus_next_start [OF bus_at_start refl s]]
  consider "w' = w1" | "spi_poll_loop P e sp1 w1 = Some (Inr (sp', w'))"
    using assms s
    by (auto simp: spi_ocores_transfer_one_message_def ebind_eq_Inr_iff split: if_splits)
  then show ?thesis
    using b orderly_poll_loop [of P e sp1 w1 sp' w' "sp_mem sp" "trace w"] by cases simp_all
qed

lemma orderly_irq:
  assumes "spi_ocores_irq_handler P e sp w = Inr (r, sp', w')" "orderly mem t0 w" "sp_mem sp = mem"
  shows "orderly mem t0 w' \<and> sp_mem sp' = mem"
  using assms orderly_process [of mem t0 w sp P e] by (auto simp: spi_ocores_irq_handler_def ebind_eq_Inr_iff)

end
