(* ===== verification/Spi_Transfer.thy ===== *)
theory Spi_Transfer
  imports Spi_Data Clock
begin

text \<open>
  One transfer of the SPI driver: what it has to do with its buffers, the invariant of a transfer
  in progress, and the steps of the word loop, from setting the transfer up to its last word.
\<close>

unbundle bit_operations_syntax

section \<open>What a transfer promises\<close>

text \<open>
  The accesses \<open>es\<close> are those of a transfer (\<open>xfer_accs\<close>), \<open>k\<close> being what the control register is set to
  before the first word and \<open>b\<close> whether a word is on the wire: \<open>n\<close> words went out and came in, and
  they are the words the monitor sees.
\<close>

definition accs_ok :: "addr \<Rightarrow> u32 \<Rightarrow> spi_wordfn \<Rightarrow> spi_transfer \<Rightarrow> bool \<Rightarrow> spi_call event list \<Rightarrow> nat \<Rightarrow> bool" where
  "accs_ok mem k f x b es n \<longleftrightarrow> (\<exists>bss vss. xfer_accs mem f (tx_buf x \<noteq> Null) (rx_buf x \<noteq> Null) k b es bss vss
     \<and> length bss = n
     \<and> (tx_buf x \<noteq> Null \<longrightarrow> outs mem f (mon mem es mon_init) = bss)
     \<and> (rx_buf x \<noteq> Null \<longrightarrow> (if b then butlast (ins mem f (mon mem es mon_init)) else ins mem f (mon mem es mon_init))
         = map (stored_bytes f) vss))"

text \<open>
  A transfer, seen from its caller: one word is shifted for each of the words of the length, the
  bytes of the transmit buffer go out in order, and the bytes that came in are in the receive
  buffer, the rest of the memory being as it was.
\<close>

definition xfer_spec :: "addr \<Rightarrow> u32 \<Rightarrow> spi_wordfn \<Rightarrow> spi_transfer \<Rightarrow> spi_call event list \<Rightarrow> heap \<Rightarrow> heap \<Rightarrow> bool" where
  "xfer_spec mem k f x es h h' \<longleftrightarrow>
     words_shifted mem es = unat (x_len x) div wbytes f
     \<and> (tx_buf x \<noteq> Null \<longrightarrow> load_bytes h (tx_buf x) (unat (x_len x)) = Inr (bytes_out mem f es))
     \<and> (if rx_buf x = Null then h' = h else store_bytes h (rx_buf x) (bytes_in mem f es) = Inr h')
     \<and> accs_ok mem k f x False es (unat (x_len x) div wbytes f)"

definition ptr_apart :: "ptr \<Rightarrow> ptr \<Rightarrow> nat \<Rightarrow> bool" where
  "ptr_apart p q n = (case (p, q) of
     (Ptr b i, Ptr c j) \<Rightarrow> b \<noteq> c \<or> i + n \<le> j \<or> j + n \<le> i
   | _ \<Rightarrow> True)"

text \<open>
  The transfers the driver handles: words of 8, 16, 32, 64 or 128 bits, a length of a whole
  number of words, buffers of that length that are the same or do not overlap, a clock rate the
  divider can be computed from.
\<close>

definition xfer_bits :: "spi_device \<Rightarrow> spi_transfer \<Rightarrow> u8" where
  "xfer_bits d x = (if x_bits_per_word x \<noteq> 0 then x_bits_per_word x else spi_bits_per_word d)"

definition xfer_ok :: "(nat \<Rightarrow> nat) \<Rightarrow> spi_device \<Rightarrow> spi_wordfn \<Rightarrow> spi_transfer \<Rightarrow> bool" where
  "xfer_ok sz d f x \<longleftrightarrow> unat (xfer_bits d x) = 8 * wbytes f
     \<and> 0 < unat (x_len x) \<and> unat (x_len x) < 2 ^ 29 \<and> wbytes f dvd unat (x_len x)
     \<and> (if speed_hz x \<noteq> 0 then speed_hz x else max_speed_hz d) * 2 \<noteq> 0
     \<and> (\<forall>b i. tx_buf x = Ptr b i \<longrightarrow> i + unat (x_len x) \<le> sz b)
     \<and> (\<forall>b i. rx_buf x = Ptr b i \<longrightarrow> i + unat (x_len x) \<le> sz b)
     \<and> (tx_buf x = rx_buf x \<or> ptr_apart (tx_buf x) (rx_buf x) (unat (x_len x)))"

definition sizes :: "heap \<Rightarrow> nat \<Rightarrow> nat" where
  "sizes h b = length (h b)"

section \<open>Memory\<close>

lemma store_sizes: "store_bytes h p bs = Inr h' \<Longrightarrow> sizes h' = sizes h"
  by (cases p) (auto simp: store_bytes_def sizes_def split: if_splits)

lemma store_append:
  assumes "store_bytes h p a = Inr h1" "store_bytes h1 (ptr_add p (length a)) b = Inr h2"
  shows "store_bytes h p (a @ b) = Inr h2"
  using assms by (auto simp: store_bytes_def splice_splice split: ptr.splits if_splits)

lemma load_append:
  assumes "load_bytes h p m = Inr a" "load_bytes h (ptr_add p m) n = Inr b"
  shows "load_bytes h p (m + n) = Inr (a @ b)"
  using assms by (auto simp: load_bytes_def take_add ac_simps split: ptr.splits if_splits)

lemma load_store_apart:
  assumes "store_bytes h (Ptr b i) bs = Inr h'" "b \<noteq> c \<or> i + length bs \<le> j \<or> j + n \<le> i"
  shows "load_bytes h' (Ptr c j) n = load_bytes h (Ptr c j) n"
proof (cases "b = c")
  case False
  then show ?thesis
    using assms by (auto simp: store_bytes_def load_bytes_def split: if_splits)
next
  case True
  have l: "i + length bs \<le> length (h b)" "h' = h(b := splice i bs (h b))"
    using assms(1) by (auto simp: store_bytes_def split: if_splits)
  have "take n (drop j (splice i bs (h b))) = take n (drop j (h b))"
    if "i + length bs \<le> j \<or> j + n \<le> i"
  proof (cases "j + n \<le> i")
    case True
    then have "take n (drop j (splice i bs (h b))) = take n (drop j (take i (h b)))"
      using l by (simp add: splice_def min_def)
    also have "\<dots> = take n (drop j (h b))"
      using True by (simp add: drop_take min_def)
    finally show ?thesis .
  next
    case False
    then obtain k where "j = i + length bs + k"
      using \<open>i + length bs \<le> j \<or> j + n \<le> i\<close> le_Suc_ex by blast
    then show ?thesis
      using l drop_splice [of i bs "h b" k] by simp
  qed
  then show ?thesis
    using True assms(2) l by (auto simp: load_bytes_def)
qed

lemma room_sizes: "room h p n \<longleftrightarrow> (\<exists>b i. p = Ptr b i \<and> i + n \<le> sizes h b)"
  by (simp add: room_def sizes_def)

lemma room_add: "room h p n \<Longrightarrow> m + k \<le> n \<Longrightarrow> room h (ptr_add p m) k"
  by (auto simp: room_def)

lemma load_room: "room h p n \<Longrightarrow> \<exists>bs. load_bytes h p n = Inr bs"
  by (auto simp: room_def load_bytes_def)

section \<open>One word out, one word in\<close>

lemma quiet_no_final: "list_all (quiet_ev mem) es \<Longrightarrow> EvCall SpiFinalize \<notin> set es"
  by (auto simp: list_all_iff)

lemma start_events:
  "\<exists>s s' v. trace (spi_ocores_hw_xfer_start P sp w) = trace w @ go_evs (rd_acc sp) (wr_acc sp) (sp_mem sp) s s' v"
proof -
  obtain ss w1 where r1: "spi_read P sp SPI_OCORES_CS w = (ss, w1)"
    by fastforce
  let ?ss = "ss OR BIT_u32 (unat (ucast (chip_select (spi (cur_msg sp))) :: u32))"
  obtain c w3 where r2: "spi_read P sp SPI_OCORES_CTRL (spi_write P sp ?ss SPI_OCORES_CS w1) = (c, w3)"
    by fastforce
  have s: "spi_ocores_hw_xfer_start P sp w = spi_write P sp (c OR SPI_OCORES_CTRL_GO) SPI_OCORES_CTRL w3"
    using r1 r2 by (simp add: spi_ocores_hw_xfer_start_def spi_ocores_hw_xfer_cs_def spi_ocores_hw_xfer_go_def)
  have "trace (spi_ocores_hw_xfer_start P sp w) = trace w @ go_evs (rd_acc sp) (wr_acc sp) (sp_mem sp) ss ?ss c"
    unfolding s trace_spi_write trace_spi_read [OF r2] trace_spi_read [OF r1] by (simp add: go_evs_def)
  then show ?thesis
    by blast
qed

lemma go_evs_quiet:
  "\<exists>es. go_evs rc wc mem s s' v = es @ [EvWrite wc (mem + ucast SPI_OCORES_CTRL) (v OR SPI_OCORES_CTRL_GO)]
    \<and> list_all (quiet_ev mem) es"
  by (simp add: go_evs_def)

lemma go_set: "(v OR SPI_OCORES_CTRL_GO) AND SPI_OCORES_CTRL_GO \<noteq> 0"
proof -
  have "bit ((v OR SPI_OCORES_CTRL_GO) AND SPI_OCORES_CTRL_GO) 8"
    by (simp add: bit_simps)
  then show ?thesis
    by (metis bit_0_eq bot_apply bot_bool_def)
qed

lemma mon_init_empty: "outs mem f mon_init = []" "ins mem f mon_init = []"
  by (simp_all add: outs_def ins_def mon_init_def)

text \<open>The accesses of a transfer, one piece after the other.\<close>

lemma accs_ok_still:
  assumes "accs_ok mem k f x b es n" "list_all (still_ev mem) fs"
  shows "accs_ok mem k f x b (es @ fs) n"
  using assms accs_still [OF _ assms(2)] quiet_words [OF still_quiet [OF assms(2)]]
  unfolding accs_ok_def mon_append by metis

lemma accs_ok_word:
  assumes "accs_ok mem k f x False es n"
    "gs = (if tx_buf x \<noteq> Null then push_evs wc mem f bs else []) @ go_evs rc wc mem s s' v"
    "tx_buf x \<noteq> Null \<Longrightarrow> length bs = wbytes f \<and> outs mem f (mon mem (es @ gs) mon_init) = outs mem f (mon mem es mon_init) @ [bs]"
    "butlast (ins mem f (mon mem (es @ gs) mon_init)) = ins mem f (mon mem es mon_init)"
  shows "accs_ok mem k f x True (es @ gs) (Suc n)"
proof -
  let ?bs = "if tx_buf x \<noteq> Null then bs else replicate (wbytes f) 0"
  obtain bss vss where a: "xfer_accs mem f (tx_buf x \<noteq> Null) (rx_buf x \<noteq> Null) k False es bss vss" "length bss = n"
     "tx_buf x \<noteq> Null \<longrightarrow> outs mem f (mon mem es mon_init) = bss"
     "rx_buf x \<noteq> Null \<longrightarrow> ins mem f (mon mem es mon_init) = map (stored_bytes f) vss"
    using assms(1) by (auto simp: accs_ok_def)
  have "xfer_accs mem f (tx_buf x \<noteq> Null) (rx_buf x \<noteq> Null) k True (es @ gs) (bss @ [?bs]) vss"
    using accs_word [OF a(1), of ?bs wc rc s s' v] assms(2,3) by (cases "tx_buf x = Null") simp_all
  then show ?thesis
    using a(2-4) assms(3,4) unfolding accs_ok_def
    by (intro exI [of _ "bss @ [?bs]"] exI [of _ vss]) simp
qed

lemma accs_ok_read:
  assumes "accs_ok mem k f x True es n" "length vs = length (wire_regs f)"
    "outs mem f (mon mem (es @ fs) mon_init) = outs mem f (mon mem es mon_init)"
    "fs = (if rx_buf x \<noteq> Null then pop_evs c mem f vs else [])"
    "rx_buf x \<noteq> Null \<Longrightarrow> ins mem f (mon mem (es @ fs) mon_init) = butlast (ins mem f (mon mem es mon_init)) @ [stored_bytes f vs]"
  shows "accs_ok mem k f x False (es @ fs) n"
proof -
  obtain bss vss where a: "xfer_accs mem f (tx_buf x \<noteq> Null) (rx_buf x \<noteq> Null) k True es bss vss" "length bss = n"
     "tx_buf x \<noteq> Null \<longrightarrow> outs mem f (mon mem es mon_init) = bss"
     "rx_buf x \<noteq> Null \<longrightarrow> butlast (ins mem f (mon mem es mon_init)) = map (stored_bytes f) vss"
    using assms(1) by (auto simp: accs_ok_def)
  then show ?thesis
    using accs_read [OF a(1) assms(2), of c] assms(3-5) unfolding accs_ok_def
    by (intro exI [of _ bss] exI [of _ "vss @ [vs]"]) simp
qed

lemma word_out:
  assumes "cur_tx_push sp = Some f"
    "cur_tx_buf sp \<noteq> Null \<longrightarrow> load_bytes (sp_heap sp) (cur_tx_buf sp) (wbytes f) = Inr bs"
  shows "\<exists>es w' s s' v. ebind (spi_ocores_hw_xfer_tx_push P e sp w) (\<lambda>(_, sp, w). Inr (0, sp, spi_ocores_hw_xfer_start P sp w))
        = Inr (0 :: int, sp\<lparr>cur_tx_buf := ptr_add (cur_tx_buf sp) (wbytes f)\<rparr>, w')
    \<and> trace w' = trace w @ es
    \<and> es = (if cur_tx_buf sp \<noteq> Null then push_evs (wr_acc sp) (sp_mem sp) f bs else [])
        @ go_evs (rd_acc sp) (wr_acc sp) (sp_mem sp) s s' v
    \<and> (\<forall>m. \<exists>ob. outs (sp_mem sp) f (mon (sp_mem sp) es m) = outs (sp_mem sp) f m @ [ob]
        \<and> (cur_tx_buf sp \<noteq> Null \<longrightarrow> ob = bs)
        \<and> butlast (ins (sp_mem sp) f (mon (sp_mem sp) es m)) = ins (sp_mem sp) f m)"
proof -
  let ?mem = "sp_mem sp" and ?sp = "sp\<lparr>cur_tx_buf := ptr_add (cur_tx_buf sp) (wbytes f)\<rparr>"
  let ?es1 = "if cur_tx_buf sp \<noteq> Null then push_evs (wr_acc sp) ?mem f bs else []"
  obtain w1 where p: "ebind (spi_ocores_hw_xfer_tx_push P e sp w) (\<lambda>(_, sp, w). Inr (0, sp, spi_ocores_hw_xfer_start P sp w))
      = Inr (0 :: int, ?sp, spi_ocores_hw_xfer_start P ?sp w1)" "trace w1 = trace w @ ?es1"
    "\<And>m. outs ?mem f (mon ?mem ?es1 m) = outs ?mem f m \<and> ins ?mem f (mon ?mem ?es1 m) = ins ?mem f m
      \<and> (cur_tx_buf sp \<noteq> Null \<longrightarrow> tx_frame ?mem f (mon ?mem ?es1 m) = bs)"
  proof (cases "cur_tx_buf sp = Null")
    case True
    show ?thesis
      by (rule that [of w]) (use True in \<open>simp_all add: spi_ocores_hw_xfer_tx_push_def mon_def\<close>)
  next
    case False
    then obtain w1 where q: "push_fn f P e sp w = Inr (wbytes f, w1)" "trace w1 = trace w @ ?es1"
      "\<And>m. outs ?mem f (mon ?mem ?es1 m) = outs ?mem f m \<and> ins ?mem f (mon ?mem ?es1 m) = ins ?mem f m
        \<and> tx_frame ?mem f (mon ?mem ?es1 m) = bs"
      using push_word [of sp f bs P e w] assms(2) by auto
    show ?thesis
      by (rule that [of w1]) (use q assms(1) False in \<open>simp_all add: spi_ocores_hw_xfer_tx_push_def\<close>)
  qed
  obtain s s' v where s: "trace (spi_ocores_hw_xfer_start P ?sp w1) = trace w1 @ go_evs (rd_acc sp) (wr_acc sp) ?mem s s' v"
    using start_events [of P ?sp w1] by (auto simp: rd_acc_def wr_acc_def)
  obtain es2 where g: "go_evs (rd_acc sp) (wr_acc sp) ?mem s s' v
      = es2 @ [EvWrite (wr_acc sp) (?mem + ucast SPI_OCORES_CTRL) (v OR SPI_OCORES_CTRL_GO)]" "list_all (quiet_ev ?mem) es2"
    using go_evs_quiet by blast
  have m: "\<exists>ob. outs ?mem f (mon ?mem (?es1 @ go_evs (rd_acc sp) (wr_acc sp) ?mem s s' v) m) = outs ?mem f m @ [ob]
        \<and> (cur_tx_buf sp \<noteq> Null \<longrightarrow> ob = bs)
        \<and> butlast (ins ?mem f (mon ?mem (?es1 @ go_evs (rd_acc sp) (wr_acc sp) ?mem s s' v) m)) = ins ?mem f m" for m
    unfolding g(1) mon_append using p(3) [of m] quiet_words [OF g(2)] go_words [OF go_set]
    by (simp del: SPI_OCORES_CTRL_def SPI_OCORES_CTRL_GO_def)
  show ?thesis
    by (rule exI [of _ "?es1 @ go_evs (rd_acc sp) (wr_acc sp) ?mem s s' v"], rule exI [of _ "spi_ocores_hw_xfer_start P ?sp w1"],
        intro exI [of _ s] exI [of _ s'] exI [of _ v] conjI allI) (use p(1,2) s m in simp_all)
qed

lemma word_out_no_final:
  "EvCall SpiFinalize \<notin> set ((if t then push_evs wc mem f bs else []) @ go_evs rc wc mem s s' v)"
  by (simp add: no_final_evs go_evs_def)

lemma wbytes_bounds: "0 < wbytes f" "wbytes f \<le> 16"
  by (cases f; simp add: wbytes_def)+

lemma nbits_bytes:
  assumes "unat (nbits :: u8) = 8 * wbytes f"
  shows "(ucast (nbits div 8) :: u32) = of_nat (wbytes f)"
proof -
  have "unat (nbits div 8) = wbytes f"
    using assms by (simp add: unat_div)
  then show ?thesis
    by (metis of_nat_unat)
qed

lemma word_in:
  assumes "spi_ocores_hw_xfer_bits_per_word sp = Inr nbits" "unat nbits = 8 * wbytes f"
    "cur_rx_pop sp = Some f" "cur_rx_buf sp \<noteq> Null \<longrightarrow> room (sp_heap sp) (cur_rx_buf sp) (wbytes f)"
  shows "\<exists>es vs h' w' n. spi_ocores_hw_xfer_rx_pop P e sp w = Inr (n, sp\<lparr>cur_len := cur_len sp - of_nat (wbytes f),
        sp_heap := h', cur_rx_buf := ptr_add (cur_rx_buf sp) (wbytes f)\<rparr>, w')
    \<and> trace w' = trace w @ es \<and> es = (if cur_rx_buf sp \<noteq> Null then pop_evs (rd_acc sp) (sp_mem sp) f vs else [])
    \<and> length vs = length (wire_regs f)
    \<and> (if cur_rx_buf sp = Null then h' = sp_heap sp else store_bytes (sp_heap sp) (cur_rx_buf sp) (stored_bytes f vs) = Inr h')
    \<and> (\<forall>m. mon_ready m \<longrightarrow> (\<exists>bs. outs (sp_mem sp) f (mon (sp_mem sp) es m) = outs (sp_mem sp) f m
        \<and> ins (sp_mem sp) f (mon (sp_mem sp) es m) = butlast (ins (sp_mem sp) f m) @ [bs]
        \<and> (cur_rx_buf sp \<noteq> Null \<longrightarrow> bs = stored_bytes f vs)))"
proof (cases "cur_rx_buf sp = Null")
  case True
  have "\<exists>bs. ins (sp_mem sp) f m = butlast (ins (sp_mem sp) f m) @ [bs]" if "mon_ready m" for m
    using that by (cases "mo_shifts m" rule: rev_cases) (auto simp: mon_ready_def ins_def)
  then show ?thesis
    using True assms(1) nbits_bytes [OF assms(2)]
    by (intro exI [of _ "[]"] exI [of _ "replicate (length (wire_regs f)) 0"] exI [of _ "sp_heap sp"] exI [of _ w] exI [of _ 0])
      (simp add: spi_ocores_hw_xfer_rx_pop_def mon_def)
next
  case False
  let ?sp = "sp\<lparr>cur_len := cur_len sp - of_nat (wbytes f)\<rparr>"
  have "rd_acc ?sp = rd_acc sp"
    by (simp add: rd_acc_def)
  then obtain vs h' w' where "pop_fn f P e ?sp w = Inr (wbytes f, h', w')" "length vs = length (wire_regs f)"
    "trace w' = trace w @ pop_evs (rd_acc sp) (sp_mem sp) f vs"
    "store_bytes (sp_heap sp) (cur_rx_buf sp) (stored_bytes f vs) = Inr h'"
    "\<forall>m. mon_ready m \<longrightarrow> outs (sp_mem sp) f (mon (sp_mem sp) (pop_evs (rd_acc sp) (sp_mem sp) f vs) m) = outs (sp_mem sp) f m
        \<and> ins (sp_mem sp) f (mon (sp_mem sp) (pop_evs (rd_acc sp) (sp_mem sp) f vs) m)
          = butlast (ins (sp_mem sp) f m) @ [stored_bytes f vs]"
    using pop_word [of ?sp f P e w] assms(4) False by auto
  then show ?thesis
    using False assms(1,3) nbits_bytes [OF assms(2)]
    by (intro exI [of _ "pop_evs (rd_acc sp) (sp_mem sp) f vs"] exI [of _ vs] exI [of _ h'] exI [of _ w'] exI [of _ "wbytes f"])
      (auto simp: spi_ocores_hw_xfer_rx_pop_def)
qed

section \<open>A transfer in progress\<close>

text \<open>What the word loop leaves alone.\<close>

definition same_ctx :: "spi_ocores \<Rightarrow> spi_ocores \<Rightarrow> bool" where
  "same_ctx sp sp' \<longleftrightarrow> sp_flags sp' = sp_flags sp \<and> sp_mem sp' = sp_mem sp \<and> clock_hz sp' = clock_hz sp
     \<and> ctrl_base sp' = ctrl_base sp \<and> cur_xfer sp' = cur_xfer sp \<and> sp_read sp' = sp_read sp
     \<and> sp_write sp' = sp_write sp \<and> cur_msg sp' = cur_msg sp"

text \<open>
  After \<open>j\<close> words: the word \<open>j\<close> is on the wire, the words before it have been received and
  stored, the pointers and the count stand accordingly. \<open>h\<close> is the memory at the start of the
  transfer, \<open>es\<close> the accesses since then.
\<close>

definition in_xfer :: "addr \<Rightarrow> u32 \<Rightarrow> spi_wordfn \<Rightarrow> spi_transfer \<Rightarrow> heap \<Rightarrow> nat \<Rightarrow> spi_call event list \<Rightarrow> spi_ocores \<Rightarrow> bool" where
  "in_xfer mem k f x h j es sp \<longleftrightarrow>
     sp_mem sp = mem \<and> wbytes f * (j + 1) \<le> unat (x_len x) \<and> words_shifted mem es = j + 1
     \<and> EvCall SpiFinalize \<notin> set es \<and> accs_ok mem k f x True es (j + 1)
     \<and> (tx_buf x \<noteq> Null \<longrightarrow> load_bytes h (tx_buf x) (wbytes f * (j + 1)) = Inr (bytes_out mem f es))
     \<and> (if rx_buf x = Null then sp_heap sp = h
        else store_bytes h (rx_buf x) (concat (butlast (ins mem f (mon mem es mon_init)))) = Inr (sp_heap sp))
     \<and> cur_tx_buf sp = ptr_add (tx_buf x) (wbytes f * (j + 1)) \<and> cur_rx_buf sp = ptr_add (rx_buf x) (wbytes f * j)
     \<and> cur_tx_push sp = Some f \<and> cur_rx_pop sp = Some f
     \<and> unat (cur_len sp) = unat (x_len x) - wbytes f * j"

lemma in_xfer_still:
  assumes "in_xfer mem k f x h j es sp" "list_all (still_ev mem) fs"
  shows "in_xfer mem k f x h j (es @ fs) sp"
proof -
  note q = still_quiet [OF assms(2)]
  show ?thesis
    using assms(1) quiet_words [OF q] quiet_no_final [OF q] accs_ok_still [OF _ assms(2)]
    by (simp add: in_xfer_def words_shifted_def bytes_out_def mon_append)
qed

lemma rx_stored:
  assumes "rx_buf x \<noteq> Null" "in_xfer mem k f x h j es sp"
    "store_bytes (sp_heap sp) (cur_rx_buf sp) bs = Inr h2"
  shows "store_bytes h (rx_buf x) (concat (butlast (ins mem f (mon mem es mon_init)) @ [bs])) = Inr h2"
proof -
  have "length (concat (butlast (ins mem f (mon mem es mon_init)))) = wbytes f * j"
    using assms(2) length_concat_words(3) [of mem f "mon mem es mon_init"] by (simp add: in_xfer_def words_shifted_def)
  then show ?thesis
    using assms store_append [of h "rx_buf x" "concat (butlast (ins mem f (mon mem es mon_init)))" "sp_heap sp" bs h2]
    by (simp add: in_xfer_def)
qed

lemma tx_after_store:
  assumes "xfer_ok (sizes h) d f x" "tx_buf x \<noteq> Null" "wbytes f * (j + 2) \<le> unat (x_len x)"
    "rx_buf x = Null \<and> h2 = h \<or> store_bytes h (rx_buf x) B = Inr h2 \<and> length B = wbytes f * (j + 1)"
  shows "load_bytes h2 (ptr_add (tx_buf x) (wbytes f * (j + 1))) (wbytes f)
    = load_bytes h (ptr_add (tx_buf x) (wbytes f * (j + 1))) (wbytes f)"
proof (cases "rx_buf x = Null")
  case True
  then show ?thesis
    using assms(4) by (auto simp: store_bytes_def)
next
  case False
  then obtain b i c k where p: "rx_buf x = Ptr b i" "tx_buf x = Ptr c k"
    using assms(2) by (metis ptr.exhaust)
  have n: "wbytes f * (j + 2) = wbytes f * (j + 1) + wbytes f"
    by simp
  have "b \<noteq> c \<or> i + length B \<le> k + wbytes f * (j + 1) \<or> k + wbytes f * (j + 1) + wbytes f \<le> i"
    using assms(1,3,4) False p n by (auto simp: xfer_ok_def ptr_apart_def)
  then show ?thesis
    using load_store_apart [of h b i B h2 c] assms(4) False p by simp
qed

text \<open>Bits per word, word function, memory: what the word loop needs to know of its transfer.\<close>

definition xfer_at :: "spi_wordfn \<Rightarrow> spi_transfer \<Rightarrow> heap \<Rightarrow> spi_ocores \<Rightarrow> bool" where
  "xfer_at f x h sp \<longleftrightarrow> xfer_ok (sizes h) (spi (cur_msg sp)) f x \<and> the_xfer sp = Inr x \<and> cur_xfer sp \<noteq> None"

lemma xfer_at_same: "xfer_at f x h sp \<Longrightarrow> same_ctx sp sp' \<Longrightarrow> xfer_at f x h sp'"
  by (auto simp: xfer_at_def same_ctx_def the_xfer_def split: option.splits if_splits)

lemma bits_at:
  "cur_xfer sp \<noteq> None \<Longrightarrow> the_xfer sp = Inr x
    \<Longrightarrow> spi_ocores_hw_xfer_bits_per_word sp = Inr (xfer_bits (spi (cur_msg sp)) x)"
  by (auto simp: spi_ocores_hw_xfer_bits_per_word_def xfer_bits_def)

lemma in_xfer_room:
  assumes "xfer_at f x h sp" "in_xfer mem k f x h j es sp"
  shows "cur_rx_buf sp \<noteq> Null \<longrightarrow> room (sp_heap sp) (cur_rx_buf sp) (wbytes f)"
proof
  assume "cur_rx_buf sp \<noteq> Null"
  then obtain b i where p: "rx_buf x = Ptr b i" "cur_rx_buf sp = Ptr b (i + wbytes f * j)"
    using assms(2) by (cases "rx_buf x") (auto simp: in_xfer_def)
  then have "sizes (sp_heap sp) = sizes h"
    using assms(2) by (auto simp: in_xfer_def dest: store_sizes)
  then show "room (sp_heap sp) (cur_rx_buf sp) (wbytes f)"
    using assms p by (auto simp: room_sizes xfer_at_def xfer_ok_def in_xfer_def)
qed

text \<open>The word that is on the wire comes in.\<close>

lemma rx_step:
  assumes "xfer_at f x h sp" "in_xfer mem k f x h j es sp" "mon_ready (mon mem es mon_init)"
  shows "\<exists>fs sp' w' n. spi_ocores_hw_xfer_rx_pop P e sp w = Inr (n, sp', w') \<and> trace w' = trace w @ fs
    \<and> EvCall SpiFinalize \<notin> set fs \<and> accs_ok mem k f x False (es @ fs) (j + 1)
    \<and> same_ctx sp sp' \<and> sp_mem sp' = mem \<and> words_shifted mem (es @ fs) = j + 1
    \<and> bytes_out mem f (es @ fs) = bytes_out mem f es
    \<and> (if rx_buf x = Null then sp_heap sp' = h
       else store_bytes h (rx_buf x) (bytes_in mem f (es @ fs)) = Inr (sp_heap sp'))
    \<and> cur_tx_buf sp' = cur_tx_buf sp \<and> cur_rx_buf sp' = ptr_add (rx_buf x) (wbytes f * (j + 1))
    \<and> cur_tx_push sp' = Some f \<and> cur_rx_pop sp' = Some f
    \<and> unat (cur_len sp') = unat (x_len x) - wbytes f * (j + 1)"
proof -
  note a = assms(2) [unfolded in_xfer_def]
  have N: "cur_rx_buf sp = Null \<longleftrightarrow> rx_buf x = Null" and mem: "sp_mem sp = mem" and rxp: "cur_rx_pop sp = Some f"
    using a by simp_all
  have b: "spi_ocores_hw_xfer_bits_per_word sp = Inr (xfer_bits (spi (cur_msg sp)) x)" "unat (xfer_bits (spi (cur_msg sp)) x) = 8 * wbytes f"
    using assms(1) bits_at [of sp x] by (simp_all add: xfer_at_def xfer_ok_def)
  note room = in_xfer_room [OF assms(1,2)]
  obtain fs vs h2 w2 n where r: "spi_ocores_hw_xfer_rx_pop P e sp w = Inr (n, sp\<lparr>cur_len := cur_len sp - of_nat (wbytes f),
        sp_heap := h2, cur_rx_buf := ptr_add (cur_rx_buf sp) (wbytes f)\<rparr>, w2)" "trace w2 = trace w @ fs"
      "fs = (if rx_buf x \<noteq> Null then pop_evs (rd_acc sp) mem f vs else [])" "length vs = length (wire_regs f)"
      "if rx_buf x = Null then h2 = sp_heap sp else store_bytes (sp_heap sp) (cur_rx_buf sp) (stored_bytes f vs) = Inr h2"
    and m: "\<forall>m. mon_ready m \<longrightarrow> (\<exists>bs. outs mem f (mon mem fs m) = outs mem f m
        \<and> ins mem f (mon mem fs m) = butlast (ins mem f m) @ [bs]
        \<and> (rx_buf x \<noteq> Null \<longrightarrow> bs = stored_bytes f vs))"
    using word_in [OF b rxp room, of P e w] unfolding N mem by blast
  have nf: "EvCall SpiFinalize \<notin> set fs"
    by (simp add: r(3) no_final_evs)
  obtain bs where b: "outs mem f (mon mem (es @ fs) mon_init) = outs mem f (mon mem es mon_init)"
    "ins mem f (mon mem (es @ fs) mon_init) = butlast (ins mem f (mon mem es mon_init)) @ [bs]"
    "rx_buf x \<noteq> Null \<longrightarrow> bs = stored_bytes f vs"
    using m assms(3) by (auto simp: mon_append)
  have acc: "accs_ok mem k f x False (es @ fs) (j + 1)"
    using accs_ok_read [OF _ r(4) b(1) r(3)] b(2,3) a by auto
  have k: "words_shifted mem (es @ fs) = words_shifted mem es"
    using arg_cong [OF b(1), of length] by (simp add: words_shifted_def)
  have l: "unat (of_nat (wbytes f) :: u32) = wbytes f"
    using wbytes_bounds(2) [of f] by (simp add: unsigned_of_nat take_bit_nat_eq_self)
  have "wbytes f + wbytes f * j \<le> unat (x_len x)"
    using a by simp
  then have "wbytes f \<le> unat (cur_len sp)"
    using a by linarith
  then have "of_nat (wbytes f) \<le> cur_len sp"
    using l by (simp add: word_le_nat_alt)
  then have "unat (cur_len sp - of_nat (wbytes f)) = unat (cur_len sp) - wbytes f"
    using l by (simp add: unat_sub)
  then have c: "unat (cur_len sp - of_nat (wbytes f)) = unat (x_len x) - wbytes f * (j + 1)"
    using a by simp
  show ?thesis
    by (intro exI [of _ fs] exI [of _ w2] exI [of _ n] exI conjI, rule r(1))
      (use a b k c r(2,5) nf acc rx_stored [OF _ assms(2), of bs h2] in \<open>simp_all add: same_ctx_def bytes_out_def bytes_in_def
        add.commute split: if_splits\<close>)
qed

lemma next_word_there:
  assumes "xfer_at f x h sp" "in_xfer mem k f x h j es sp" "wbytes f * (j + 2) \<le> unat (x_len x)"
    "if rx_buf x = Null then h2 = h else store_bytes h (rx_buf x) B = Inr h2" "length B = wbytes f * (j + 1)"
  shows "\<exists>bs. cur_tx_buf sp \<noteq> Null \<longrightarrow> load_bytes h2 (cur_tx_buf sp) (wbytes f) = Inr bs
    \<and> load_bytes h (tx_buf x) (wbytes f * (j + 2)) = Inr (bytes_out mem f es @ bs)"
proof (cases "tx_buf x = Null")
  case True
  then show ?thesis
    using assms(2) by (simp add: in_xfer_def)
next
  case False
  let ?p = "ptr_add (tx_buf x) (wbytes f * (j + 1))"
  note a = assms(2) [unfolded in_xfer_def]
  have "room h (tx_buf x) (unat (x_len x))"
    using assms(1) False by (cases "tx_buf x") (auto simp: xfer_at_def xfer_ok_def room_sizes)
  then have "room h ?p (wbytes f)"
    using assms(3) by (intro room_add) (simp_all add: algebra_simps)
  then obtain bs where bs: "load_bytes h ?p (wbytes f) = Inr bs"
    using load_room by blast
  have "load_bytes h2 ?p (wbytes f) = load_bytes h ?p (wbytes f)"
    using tx_after_store [of h _ f x j h2 B] assms(1,3,4,5) False
    by (auto simp: xfer_at_def split: if_splits)
  moreover have "load_bytes h (tx_buf x) (wbytes f * (j + 1) + wbytes f) = Inr (bytes_out mem f es @ bs)"
    using a bs False by (intro load_append) auto
  ultimately show ?thesis
    using a bs by (intro exI [of _ bs]) (simp add: algebra_simps)
qed

lemma rxtx_more:
  assumes "xfer_at f x h sp" "in_xfer mem k f x h j es sp" "mon_ready (mon mem es mon_init)"
    "wbytes f * (j + 2) \<le> unat (x_len x)"
  shows "\<exists>fs sp' w'. spi_ocores_hw_xfer_rxtx P e sp w = Inr (0, sp', w') \<and> trace w' = trace w @ fs
    \<and> same_ctx sp sp' \<and> in_xfer mem k f x h (j + 1) (es @ fs) sp'"
proof -
  note a = assms(2) [unfolded in_xfer_def]
  obtain fs sp1 w1 n where r: "spi_ocores_hw_xfer_rx_pop P e sp w = Inr (n, sp1, w1)" "trace w1 = trace w @ fs \<and> EvCall SpiFinalize \<notin> set fs"
      "same_ctx sp sp1" "sp_mem sp1 = mem" "words_shifted mem (es @ fs) = j + 1"
      "bytes_out mem f (es @ fs) = bytes_out mem f es"
      "if rx_buf x = Null then sp_heap sp1 = h
       else store_bytes h (rx_buf x) (bytes_in mem f (es @ fs)) = Inr (sp_heap sp1)"
      "cur_tx_buf sp1 = cur_tx_buf sp" "cur_rx_buf sp1 = ptr_add (rx_buf x) (wbytes f * (j + 1))"
      "cur_tx_push sp1 = Some f" "cur_rx_pop sp1 = Some f"
      "unat (cur_len sp1) = unat (x_len x) - wbytes f * (j + 1)" "accs_ok mem k f x False (es @ fs) (j + 1)"
    using rx_step [OF assms(1-3), of P e w] by blast
  have pend: "spi_ocores_sw_xfer_has_pending sp1"
    using r(12) assms(4) wbytes_bounds(1) [of f]
    by (simp add: spi_ocores_sw_xfer_has_pending_def word_less_nat_alt)
  have B: "length (bytes_in mem f (es @ fs)) = wbytes f * (j + 1)"
    using r(5) by (simp add: bytes_in_def words_shifted_def length_concat_words)
  from next_word_there [OF assms(1,2,4) r(7) B, unfolded r(8) [symmetric]]
  obtain bs where bs: "cur_tx_buf sp1 \<noteq> Null \<Longrightarrow> load_bytes (sp_heap sp1) (cur_tx_buf sp1) (wbytes f) = Inr bs"
      "cur_tx_buf sp1 \<noteq> Null \<Longrightarrow> load_bytes h (tx_buf x) (wbytes f * (j + 2)) = Inr (bytes_out mem f es @ bs)"
    by blast
  have tx: "cur_tx_buf sp1 \<noteq> Null \<longrightarrow> load_bytes (sp_heap sp1) (cur_tx_buf sp1) (wbytes f) = Inr bs"
    using bs(1) by blast
  obtain gs w2 s s' v where g: "ebind (spi_ocores_hw_xfer_tx_push P e sp1 w1) (\<lambda>(_, sp, w). Inr (0, sp, spi_ocores_hw_xfer_start P sp w))
        = Inr (0 :: int, sp1\<lparr>cur_tx_buf := ptr_add (cur_tx_buf sp1) (wbytes f)\<rparr>, w2)" "trace w2 = trace w1 @ gs"
      "gs = (if cur_tx_buf sp1 \<noteq> Null then push_evs (wr_acc sp1) mem f bs else []) @ go_evs (rd_acc sp1) (wr_acc sp1) mem s s' v"
    and m: "\<forall>m. \<exists>ob. outs mem f (mon mem gs m) = outs mem f m @ [ob] \<and> (cur_tx_buf sp1 \<noteq> Null \<longrightarrow> ob = bs)
        \<and> butlast (ins mem f (mon mem gs m)) = ins mem f m"
    using word_out [OF r(10) tx, of P e w1, unfolded r(4)] by blast
  have nf: "EvCall SpiFinalize \<notin> set gs" and N: "cur_tx_buf sp1 = Null \<longleftrightarrow> tx_buf x = Null"
    using word_out_no_final g(3) r(8) a by simp_all
  let ?sp = "sp1\<lparr>cur_tx_buf := ptr_add (cur_tx_buf sp1) (wbytes f)\<rparr>"
  obtain ob where o: "outs mem f (mon mem (es @ fs @ gs) mon_init) = outs mem f (mon mem (es @ fs) mon_init) @ [ob]"
      "cur_tx_buf sp1 \<noteq> Null \<longrightarrow> ob = bs"
      "butlast (ins mem f (mon mem (es @ fs @ gs) mon_init)) = ins mem f (mon mem (es @ fs) mon_init)"
    using m by (metis mon_append append_assoc)
  have k: "words_shifted mem (es @ fs @ gs) = j + 2"
    using arg_cong [OF o(1), of length] r(5) by (simp add: words_shifted_def)
  have tx: "tx_buf x \<noteq> Null \<longrightarrow> load_bytes h (tx_buf x) (wbytes f * (j + 2)) = Inr (bytes_out mem f (es @ fs @ gs))"
    using bs(2) o(1,2) r(6,8) a by (auto simp: bytes_out_def)
  have rx: "rx_buf x \<noteq> Null \<Longrightarrow> store_bytes h (rx_buf x)
      (concat (butlast (ins mem f (mon mem (es @ fs @ gs) mon_init)))) = Inr (sp_heap sp1)"
    using r(7) o(3) by (simp add: bytes_in_def)
  have "tx_buf x \<noteq> Null \<Longrightarrow> length bs = wbytes f"
    using bs(1) N length_load by auto
  then have acc: "accs_ok mem k f x True ((es @ fs) @ gs) (Suc (j + 1))"
    using g(3) o unfolding N by (intro accs_ok_word [OF r(13)]) simp_all
  have "in_xfer mem k f x h (j + 1) (es @ fs @ gs) ?sp"
    unfolding in_xfer_def using a assms(4) r k tx rx g(2) nf acc
    by (simp add: algebra_simps)
  moreover have "spi_ocores_hw_xfer_rxtx P e sp w = Inr (0, ?sp, w2)"
    using r(1) pend g(1) by (simp add: spi_ocores_hw_xfer_rxtx_def)
  ultimately show ?thesis
    using r(2,3) g(2) nf by (intro exI [of _ "fs @ gs"]) (auto simp: same_ctx_def)
qed

lemma rxtx_last:
  assumes "xfer_at f x h sp" "in_xfer mem k f x h j es sp" "mon_ready (mon mem es mon_init)"
    "\<not> wbytes f * (j + 2) \<le> unat (x_len x)"
  shows "\<exists>fs sp' w'. spi_ocores_hw_xfer_rxtx P e sp w = Inr (- ENODATA, sp', w') \<and> trace w' = trace w @ fs
    \<and> EvCall SpiFinalize \<notin> set fs \<and> same_ctx sp sp' \<and> xfer_spec mem k f x (es @ fs) h (sp_heap sp')"
proof -
  note a = assms(2) [unfolded in_xfer_def]
  obtain fs sp1 w1 n where r: "spi_ocores_hw_xfer_rx_pop P e sp w = Inr (n, sp1, w1)" "trace w1 = trace w @ fs \<and> EvCall SpiFinalize \<notin> set fs"
      "same_ctx sp sp1" "words_shifted mem (es @ fs) = j + 1"
      "bytes_out mem f (es @ fs) = bytes_out mem f es"
      "if rx_buf x = Null then sp_heap sp1 = h
       else store_bytes h (rx_buf x) (bytes_in mem f (es @ fs)) = Inr (sp_heap sp1)"
      "unat (cur_len sp1) = unat (x_len x) - wbytes f * (j + 1)" "accs_ok mem k f x False (es @ fs) (j + 1)"
    using rx_step [OF assms(1-3), of P e w] by blast
  obtain q where q: "unat (x_len x) = wbytes f * q"
    using assms(1) by (auto simp: xfer_at_def xfer_ok_def elim: dvdE)
  have "wbytes f * (j + 1) \<le> wbytes f * q" "\<not> wbytes f * (j + 2) \<le> wbytes f * q"
    using a assms(4) q by simp_all
  then have "j + 1 \<le> q" "\<not> j + 2 \<le> q"
    using nat_mult_le_cancel1 [OF wbytes_bounds(1) [of f]] by blast+
  then have len: "unat (x_len x) = wbytes f * (j + 1)"
    using q by (metis add_2_eq_Suc' Suc_eq_plus1 le_antisym not_less_eq_eq)
  have "\<not> spi_ocores_sw_xfer_has_pending sp1"
    using r(7) len by (simp add: spi_ocores_sw_xfer_has_pending_def word_less_nat_alt)
  then have "spi_ocores_hw_xfer_rxtx P e sp w = Inr (- ENODATA, sp1, w1)"
    using r(1) by (simp add: spi_ocores_hw_xfer_rxtx_def)
  moreover have "xfer_spec mem k f x (es @ fs) h (sp_heap sp1)"
    using a r len wbytes_bounds(1) [of f] by (auto simp: xfer_spec_def split: if_splits)
  ultimately show ?thesis
    using r(2,3) by blast
qed

section \<open>Setting a transfer up\<close>

lemma nbits_word:
  assumes "unat (nbits :: u8) = 8 * wbytes f"
  shows "nbits = of_nat (8 * wbytes f)" "word_fn nbits = Some f"
    "(uint nbits - 1) AND NOT (uint SPI_OCORES_CTRL_CHAR_LEN) = 0"
proof -
  show n: "nbits = of_nat (8 * wbytes f)"
  proof -
    have "of_nat (unat nbits) = nbits"
      by simp
    then show ?thesis
      using assms by metis
  qed
  show "word_fn nbits = Some f"
    unfolding n by (cases f) (simp_all add: wbytes_def word_fn_def)
  show "(uint nbits - 1) AND NOT (uint SPI_OCORES_CTRL_CHAR_LEN) = 0"
    unfolding n by (cases f) (simp_all add: wbytes_def)
qed

lemma len_enough:
  assumes "unat (nbits :: u8) = 8 * wbytes f" "wbytes f \<le> unat (len :: u32)" "unat len < 2 ^ 29"
  shows "\<not> push_bit 3 len < (ucast nbits :: u32)"
proof -
  have "unat (push_bit 3 len) = take_bit 32 (unat len * 8)"
    by (simp only: unsigned_push_bit_eq) (simp add: push_bit_eq_mult)
  also have "\<dots> = unat len * 8"
    using assms(3) by (intro take_bit_nat_eq_self) simp
  finally have "unat (push_bit 3 len) = unat len * 8" .
  moreover have "unat (ucast nbits :: u32) = 8 * wbytes f"
    using assms(1) wbytes_bounds(2) [of f] by (simp add: unsigned_ucast_eq take_bit_nat_eq_self)
  ultimately show ?thesis
    using assms(2) by (simp add: word_less_nat_alt)
qed

lemma divider_ok:
  assumes "hz * 2 \<noteq> 0"
  shows "\<exists>d ks w'. xfer_divider clk hz w = Inr (d, w') \<and> trace w' = trace w @ map EvCall ks \<and> SpiFinalize \<notin> set ks"
proof (cases "(ucast (clk div (hz * 2) - 1) :: u16) = 0")
  case True
  then show ?thesis
    using assms by (intro exI [of _ 1] exI [of _ "[SpiWarn, SpiDevWarn]"]) (simp add: xfer_divider_def trace_kcall)
next
  case False
  then show ?thesis
    using assms by (intro exI [of _ "ucast (clk div (hz * 2) - 1)"] exI [of _ "[]"]) (simp add: xfer_divider_def)
qed

lemma go_clear: "(ctrl AND NOT SPI_OCORES_CTRL_GO) AND SPI_OCORES_CTRL_GO = 0"
  by (simp add: and.assoc)

text \<open>What the control register is set to for a transfer, the go bit apart.\<close>

definition ctrl_word :: "u32 \<Rightarrow> spi_device \<Rightarrow> spi_transfer \<Rightarrow> u32" where
  "ctrl_word base d x = (base OR (if mode d AND SPI_CPHA \<noteq> 0 then SPI_OCORES_CTRL_Rx_NEG else SPI_OCORES_CTRL_Tx_NEG)
     OR (if mode d AND SPI_LSB_FIRST \<noteq> 0 then SPI_OCORES_CTRL_LSB else 0) OR ucast (xfer_bits d x)) AND NOT SPI_OCORES_CTRL_GO"

lemma xfer_ctrl_word:
  "xfer_ctrl sp (xfer_bits (spi (cur_msg sp)) x) AND NOT SPI_OCORES_CTRL_GO = ctrl_word (ctrl_base sp) (spi (cur_msg sp)) x"
  by (simp add: xfer_ctrl_def ctrl_word_def Let_def or.assoc)

lemma setup_ok:
  assumes "unat nbits = 8 * wbytes f" "xfer_hz sp x * 2 \<noteq> 0"
  shows "\<exists>ks d w'. xfer_setup P sp x nbits w = Inr (0, sp\<lparr>cur_tx_buf := tx_buf x, cur_rx_buf := rx_buf x,
      cur_len := x_len x, cur_tx_push := Some f, cur_rx_pop := Some f\<rparr>, w')
    \<and> trace w' = trace w @ map EvCall ks @ [EvWrite (wr_acc sp) (sp_mem sp + ucast SPI_OCORES_CTRL) (xfer_ctrl sp nbits AND NOT SPI_OCORES_CTRL_GO),
          EvWrite (wr_acc sp) (sp_mem sp + ucast SPI_OCORES_DIV) d] \<and> SpiFinalize \<notin> set ks"
proof -
  obtain d ks w1 where d: "xfer_divider (clock_hz sp) (xfer_hz sp x) w = Inr (d, w1)" "trace w1 = trace w @ map EvCall ks" "SpiFinalize \<notin> set ks"
    using divider_ok [OF assms(2)] by blast
  show ?thesis
    using d nbits_word(2) [OF assms(1)]
    by (intro exI [of _ ks] exI [of _ "ucast d"] exI [of _ "spi_ocores_hw_xfer_config P sp (xfer_ctrl sp nbits) d w1"])
      (simp add: xfer_setup_def spi_ocores_hw_xfer_config_def trace_spi_write)
qed

lemma next_start_ok:
  assumes "next_xfer sp = Inr (Some (Some k))" "k < length (transfers (cur_msg sp))"
    "x = transfers (cur_msg sp) ! k" "xfer_ok (sizes (sp_heap sp)) (spi (cur_msg sp)) f x"
  shows "\<exists>es sp' w'. spi_ocores_sw_xfer_next_start P e sp w = Inr (0, sp', w') \<and> trace w' = trace w @ es
    \<and> same_ctx (sp\<lparr>cur_xfer := Some k\<rparr>) sp' \<and> xfer_at f x (sp_heap sp) sp'
    \<and> in_xfer (sp_mem sp) (ctrl_word (ctrl_base sp) (spi (cur_msg sp)) x) f x (sp_heap sp) 0 es sp'"
proof -
  let ?sp = "sp\<lparr>cur_xfer := Some k\<rparr>" and ?b = "xfer_bits (spi (cur_msg sp)) x"
  let ?sp1 = "?sp\<lparr>cur_tx_buf := tx_buf x, cur_rx_buf := rx_buf x, cur_len := x_len x,
      cur_tx_push := Some f, cur_rx_pop := Some f\<rparr>"
  have x: "the_xfer ?sp = Inr x"
    using assms(2,3) by (simp add: the_xfer_def)
  have b: "spi_ocores_hw_xfer_bits_per_word ?sp = Inr ?b" "unat ?b = 8 * wbytes f"
    using bits_at [of ?sp x] x assms(4) by (simp_all add: xfer_ok_def)
  have hz: "xfer_hz ?sp x * 2 \<noteq> 0"
    using assms(4) by (auto simp: xfer_hz_def xfer_ok_def split: if_splits)
  have n: "wbytes f \<le> unat (x_len x)" "unat (x_len x) < 2 ^ 29"
    using assms(4) by (auto simp: xfer_ok_def dest: dvd_imp_le)
  let ?K = "ctrl_word (ctrl_base sp) (spi (cur_msg sp)) x"
  obtain ks d w1 es where s: "xfer_setup P ?sp x ?b w = Inr (0, ?sp1, w1)" "trace w1 = trace w @ es" "SpiFinalize \<notin> set ks"
      "es = map EvCall ks @ [EvWrite (wr_acc ?sp) (sp_mem sp + ucast SPI_OCORES_CTRL) ?K, EvWrite (wr_acc ?sp) (sp_mem sp + ucast SPI_OCORES_DIV) d]"
    using setup_ok [OF b(2) hz, of P w] xfer_ctrl_word [of ?sp x] by auto
  have q: "list_all (quiet_ev (sp_mem sp)) es"
    using s(3,4) by (auto simp: list_all_iff ctrl_word_def and.assoc)
  have acc: "accs_ok (sp_mem sp) ?K f x False es 0"
    unfolding accs_ok_def s(4) using accs_config [OF s(3)] quiet_words(1,2) [OF q [unfolded s(4)], where f = f and m = mon_init]
    by (intro exI [of _ "[]"] conjI) (auto simp: mon_init_empty)
  have i: "spi_ocores_sw_xfer_next_init P sp w = Inr (0, ?sp1, w1)"
    using assms(1) x b s(1) nbits_word(3) [OF b(2)] len_enough [OF b(2) n]
    by (simp add: spi_ocores_sw_xfer_next_init_def)
  have "\<exists>bs. tx_buf x \<noteq> Null \<longrightarrow> load_bytes (sp_heap sp) (tx_buf x) (wbytes f) = Inr bs"
  proof (cases "tx_buf x")
    case (Ptr c j)
    then have "room (sp_heap sp) (tx_buf x) (wbytes f)"
      using assms(4) n by (auto simp: xfer_ok_def room_sizes)
    then show ?thesis
      using load_room by blast
  qed simp
  then obtain bs where bs: "tx_buf x \<noteq> Null \<longrightarrow> load_bytes (sp_heap sp) (tx_buf x) (wbytes f) = Inr bs"
    by blast
  have tx: "cur_tx_push ?sp1 = Some f" "cur_tx_buf ?sp1 \<noteq> Null \<longrightarrow> load_bytes (sp_heap ?sp1) (cur_tx_buf ?sp1) (wbytes f) = Inr bs"
    using bs by simp_all
  have sp1: "cur_tx_buf ?sp1 = tx_buf x" "sp_mem ?sp1 = sp_mem sp"
    by simp_all
  obtain gs w2 s s' v where g: "ebind (spi_ocores_hw_xfer_tx_push P e ?sp1 w1) (\<lambda>(_, sp, w). Inr (0, sp, spi_ocores_hw_xfer_start P sp w))
        = Inr (0 :: int, ?sp1\<lparr>cur_tx_buf := ptr_add (tx_buf x) (wbytes f)\<rparr>, w2)" "trace w2 = trace w1 @ gs"
      "gs = (if tx_buf x \<noteq> Null then push_evs (wr_acc ?sp1) (sp_mem sp) f bs else []) @ go_evs (rd_acc ?sp1) (wr_acc ?sp1) (sp_mem sp) s s' v"
    and m: "\<forall>m. \<exists>ob. outs (sp_mem sp) f (mon (sp_mem sp) gs m) = outs (sp_mem sp) f m @ [ob] \<and> (tx_buf x \<noteq> Null \<longrightarrow> ob = bs)
        \<and> butlast (ins (sp_mem sp) f (mon (sp_mem sp) gs m)) = ins (sp_mem sp) f m"
    using word_out [OF tx, of P e w1, unfolded sp1] by blast
  have nf: "EvCall SpiFinalize \<notin> set es" "EvCall SpiFinalize \<notin> set gs"
    using word_out_no_final g(3) quiet_no_final [OF q] by simp_all
  obtain ob where o: "outs (sp_mem sp) f (mon (sp_mem sp) (es @ gs) mon_init) = [ob]" "tx_buf x \<noteq> Null \<longrightarrow> ob = bs"
      "butlast (ins (sp_mem sp) f (mon (sp_mem sp) (es @ gs) mon_init)) = []"
    using m quiet_words(1,2) [OF q, where f = f and m = mon_init] mon_init_empty [of "sp_mem sp" f]
    by (metis append_Nil mon_append)
  have k: "words_shifted (sp_mem sp) (es @ gs) = 1"
    using arg_cong [OF o(1), of length] by (simp add: words_shifted_def)
  have nil: "store_bytes (sp_heap sp) (rx_buf x) [] = Inr (sp_heap sp)" if "rx_buf x \<noteq> Null"
    using that assms(4) by (cases "rx_buf x") (auto simp: store_bytes_def xfer_ok_def sizes_def)
  have "tx_buf x \<noteq> Null \<Longrightarrow> length bs = wbytes f"
    using bs length_load by auto
  then have "accs_ok (sp_mem sp) ?K f x True (es @ gs) (Suc 0)"
    using g(3) o quiet_words(1,2) [OF q, where f = f and m = mon_init] mon_init_empty [of "sp_mem sp" f]
    by (intro accs_ok_word [OF acc]) simp_all
  then have "in_xfer (sp_mem sp) ?K f x (sp_heap sp) 0 (es @ gs) (?sp1\<lparr>cur_tx_buf := ptr_add (tx_buf x) (wbytes f)\<rparr>)"
    using n k o bs nil nf by (auto simp: in_xfer_def bytes_out_def)
  moreover have "spi_ocores_sw_xfer_next_start P e sp w = Inr (0, ?sp1\<lparr>cur_tx_buf := ptr_add (tx_buf x) (wbytes f)\<rparr>, w2)"
    using i g(1) by (simp add: spi_ocores_sw_xfer_next_start_def)
  ultimately show ?thesis
    using s(2) g(2) x assms(2,4)
    by (intro exI [of _ "es @ gs"]) (auto simp: same_ctx_def xfer_at_def the_xfer_def)
qed

end
