(* ===== verification/Spi_Message.thy ===== *)
theory Spi_Message
  imports Spi_Transfer
begin

text \<open>
  Messages of the SPI driver: the passage of a list of transfers through \<open>spi_ocores_process\<close>,
  driven by interrupts or by polling. A message in progress satisfies \<open>msg_mid\<close>; a step that
  finds the controller idle moves it one word on, and after as many steps as it has words it
  satisfies \<open>msg_end\<close>.
\<close>

unbundle bit_operations_syntax

section \<open>What a message promises\<close>

text \<open>
  The transfers of a message, one stretch of the trace each, every one working on the memory the
  one before it left. \<open>base\<close> are the bits of the control register that all transfers share.
\<close>

inductive msg_spec :: "addr \<Rightarrow> u32 \<Rightarrow> spi_device \<Rightarrow> heap \<Rightarrow> spi_transfer list \<Rightarrow> spi_call event list list \<Rightarrow> heap \<Rightarrow> bool"
  for mem base d h where
  msg_nil: "msg_spec mem base d h [] [] h"
| msg_snoc: "msg_spec mem base d h xs ess h1 \<Longrightarrow> unat (xfer_bits d x) = 8 * wbytes f
    \<Longrightarrow> xfer_spec mem (ctrl_word base d x) f x es h1 h2 \<Longrightarrow> msg_spec mem base d h (xs @ [x]) (ess @ [es]) h2"

definition msg_ok :: "spi_ocores \<Rightarrow> bool" where
  "msg_ok sp \<longleftrightarrow> transfers (cur_msg sp) \<noteq> []
     \<and> (\<forall>x \<in> set (transfers (cur_msg sp)). \<exists>f. xfer_ok (sizes (sp_heap sp)) (spi (cur_msg sp)) f x)"

definition same_msg :: "spi_ocores \<Rightarrow> spi_ocores \<Rightarrow> bool" where
  "same_msg sp0 sp \<longleftrightarrow> sp_flags sp = sp_flags sp0 \<and> sp_mem sp = sp_mem sp0 \<and> clock_hz sp = clock_hz sp0
     \<and> ctrl_base sp = ctrl_base sp0 \<and> sp_read sp = sp_read sp0 \<and> sp_write sp = sp_write sp0
     \<and> transfers (cur_msg sp) = transfers (cur_msg sp0) \<and> spi (cur_msg sp) = spi (cur_msg sp0)"

definition xfer_words :: "spi_device \<Rightarrow> spi_transfer \<Rightarrow> nat" where
  "xfer_words d x = unat (x_len x) div (unat (xfer_bits d x) div 8)"

definition msg_words :: "spi_ocores \<Rightarrow> nat" where
  "msg_words sp = sum_list (map (xfer_words (spi (cur_msg sp))) (transfers (cur_msg sp)))"

text \<open>In progress, with \<open>n\<close> words to go, the one on the wire included.\<close>

definition msg_mid :: "spi_ocores \<Rightarrow> spi_call event list \<Rightarrow> nat \<Rightarrow> spi_ocores \<Rightarrow> spi_call event list \<Rightarrow> bool" where
  "msg_mid sp0 t0 n sp t \<longleftrightarrow> (\<exists>k j f x h ess es. let xs = transfers (cur_msg sp0); d = spi (cur_msg sp0) in
     same_msg sp0 sp \<and> cur_xfer sp = Some k
     \<and> msg_spec (sp_mem sp0) (ctrl_base sp0) d (sp_heap sp0) (take k xs) ess h
     \<and> t = t0 @ concat ess @ es \<and> EvCall SpiFinalize \<notin> set (concat ess)
     \<and> xfer_at f x h sp \<and> in_xfer (sp_mem sp0) (ctrl_word (ctrl_base sp0) d x) f x h j es sp
     \<and> status (cur_msg sp) = status (cur_msg sp0)
     \<and> actual_length (cur_msg sp) = actual_length (cur_msg sp0) + sum_list (map x_len (take k xs))
     \<and> n + j = sum_list (map (xfer_words d) (drop k xs)))"

text \<open>
  Over: every transfer did what it promises, then the chip was deselected and the message
  finalised, once.
\<close>

definition msg_end :: "spi_ocores \<Rightarrow> spi_call event list \<Rightarrow> spi_ocores \<Rightarrow> spi_call event list \<Rightarrow> bool" where
  "msg_end sp0 t0 sp t \<longleftrightarrow> (\<exists>ess v. let xs = transfers (cur_msg sp0); d = spi (cur_msg sp0) in
     same_msg sp0 sp \<and> cur_xfer sp = None
     \<and> msg_spec (sp_mem sp0) (ctrl_base sp0) d (sp_heap sp0) xs ess (sp_heap sp)
     \<and> t = t0 @ concat ess @ [EvRead (rd_acc sp0) (sp_mem sp0 + ucast SPI_OCORES_CS) v,
         EvWrite (wr_acc sp0) (sp_mem sp0 + ucast SPI_OCORES_CS) (v AND NOT (BIT_u32 (unat (chip_select d)))),
         EvCall SpiFinalize]
     \<and> EvCall SpiFinalize \<notin> set (concat ess)
     \<and> status (cur_msg sp) = 0
     \<and> actual_length (cur_msg sp) = actual_length (cur_msg sp0) + sum_list (map x_len xs))"

section \<open>Steps\<close>

lemma xfer_spec_sizes: "xfer_spec mem k f x es h h' \<Longrightarrow> sizes h' = sizes h"
  by (auto simp: xfer_spec_def dest: store_sizes split: if_splits)

lemma msg_spec_sizes: "msg_spec mem base d h xs ess h' \<Longrightarrow> sizes h' = sizes h"
  by (induction rule: msg_spec.induct) (auto dest: xfer_spec_sizes)

lemma xfer_spec_still:
  assumes "xfer_spec mem k f x es h h'" "list_all (still_ev mem) fs"
  shows "xfer_spec mem k f x (es @ fs) h h'"
proof -
  have "words_shifted mem (es @ fs) = words_shifted mem es" "bytes_out mem f (es @ fs) = bytes_out mem f es"
    "bytes_in mem f (es @ fs) = bytes_in mem f es"
    using quiet_words [OF still_quiet [OF assms(2)]] by (simp_all add: words_shifted_def bytes_out_def bytes_in_def mon_append)
  then show ?thesis
    using assms(1) accs_ok_still [OF _ assms(2)] by (simp add: xfer_spec_def)
qed

lemma words_eq:
  assumes "xfer_ok sz d f x"
  shows "xfer_words d x * wbytes f = unat (x_len x)" "0 < xfer_words d x"
proof -
  have "unat (xfer_bits d x) div 8 = wbytes f" "wbytes f dvd unat (x_len x)" "0 < unat (x_len x)"
    using assms by (auto simp: xfer_ok_def)
  then show "xfer_words d x * wbytes f = unat (x_len x)" "0 < xfer_words d x"
    using wbytes_bounds(1) [of f] by (auto simp: xfer_words_def dvd_imp_le div_greater_zero_iff)
qed

lemma cs_read_write:
  "spi_read P sp SPI_OCORES_CS w = (v, w1) \<Longrightarrow> trace (spi_ocores_hw_xfer_cs P sp cs 0 w)
    = trace w @ [EvRead (rd_acc sp) (sp_mem sp + ucast SPI_OCORES_CS) v,
        EvWrite (wr_acc sp) (sp_mem sp + ucast SPI_OCORES_CS) (v AND NOT (BIT_u32 (unat cs)))]"
  by (simp add: spi_ocores_hw_xfer_cs_def trace_spi_write trace_spi_read)

lemma finish_ok:
  assumes "the_xfer sp = Inr x"
  shows "\<exists>es w'. spi_ocores_sw_xfer_finish P sp w = Inr (0, sp\<lparr>cur_tx_buf := Null, cur_rx_buf := Null, cur_len := 0,
      cur_msg := (cur_msg sp)\<lparr>actual_length := actual_length (cur_msg sp) + x_len x\<rparr>\<rparr>, w')
    \<and> trace w' = trace w @ es \<and> list_all (still_ev (sp_mem sp)) es"
proof -
  let ?w = "if x_delay x \<noteq> 0 then kcall (SpiUdelay (unat (x_delay x))) w else w"
  obtain v w1 where "spi_read P sp SPI_OCORES_CS ?w = (v, w1)"
    by fastforce
  then have "trace (spi_ocores_hw_xfer_cs P sp cs 0 ?w)
    = trace ?w @ [EvRead (rd_acc sp) (sp_mem sp + ucast SPI_OCORES_CS) v,
        EvWrite (wr_acc sp) (sp_mem sp + ucast SPI_OCORES_CS) (v AND NOT (BIT_u32 (unat cs)))]" for cs
    by (rule cs_read_write)
  moreover have "trace ?w = trace w @ (if x_delay x \<noteq> 0 then [EvCall (SpiUdelay (unat (x_delay x)))] else [])"
    by (simp add: trace_kcall)
  ultimately obtain es where "trace (if cs_change x then spi_ocores_hw_xfer_cs P sp (ucast (chip_select (spi (cur_msg sp)))) 0 ?w else ?w)
      = trace w @ es" "list_all (still_ev (sp_mem sp)) es"
    by (cases "cs_change x"; simp)
  then show ?thesis
    unfolding spi_ocores_sw_xfer_finish_def assms ebind_simps Let_def by blast
qed

lemma idle_read:
  assumes "spi_ocores_is_busy P sp w = (b, w1)"
  shows "\<exists>v. trace w1 = trace w @ [EvRead (rd_acc sp) (sp_mem sp + ucast SPI_OCORES_CTRL) v]
    \<and> (b \<longleftrightarrow> v AND SPI_OCORES_CTRL_BUSY \<noteq> 0)"
  using assms by (auto simp: spi_ocores_is_busy_def dest: trace_spi_read split: prod.splits)

lemma mid_start:
  assumes "msg_ok sp" "cur_xfer sp = None"
  shows "\<exists>sp' w'. spi_ocores_sw_xfer_next_start P e sp w = Inr (0, sp', w')
    \<and> msg_mid sp (trace w) (msg_words sp) sp' (trace w')"
proof -
  let ?xs = "transfers (cur_msg sp)"
  have "0 < length ?xs"
    using assms(1) by (simp add: msg_ok_def)
  then obtain f where f: "xfer_ok (sizes (sp_heap sp)) (spi (cur_msg sp)) f (?xs ! 0)" "0 < length ?xs"
    using assms(1) nth_mem by (metis msg_ok_def)
  then have "next_xfer sp = Inr (Some (Some 0))"
    using assms(2) by (simp add: next_xfer_def)
  from next_start_ok [OF this f(2) refl f(1), of P e w]
  obtain es sp' w' where s: "spi_ocores_sw_xfer_next_start P e sp w = Inr (0, sp', w')" "trace w' = trace w @ es"
    "same_ctx (sp\<lparr>cur_xfer := Some 0\<rparr>) sp'" "xfer_at f (?xs ! 0) (sp_heap sp) sp'"
    "in_xfer (sp_mem sp) (ctrl_word (ctrl_base sp) (spi (cur_msg sp)) (?xs ! 0)) f (?xs ! 0) (sp_heap sp) 0 es sp'"
    by blast
  have "msg_mid sp (trace w) (msg_words sp) sp' (trace w')"
    unfolding msg_mid_def Let_def
    by (rule exI [of _ 0], rule exI [of _ 0], rule exI [of _ f], rule exI [of _ "?xs ! 0"], rule exI [of _ "sp_heap sp"],
        rule exI [of _ "[]"], rule exI [of _ es])
      (use s in \<open>simp add: same_ctx_def same_msg_def msg_words_def msg_spec.msg_nil\<close>)
  then show ?thesis
    using s(1) by blast
qed

lemma mid_still:
  assumes "msg_mid sp0 t0 n sp t" "list_all (still_ev (sp_mem sp0)) fs"
  shows "msg_mid sp0 t0 n sp (t @ fs)"
proof -
  from assms(1) obtain k j f x h ess es where "same_msg sp0 sp" "cur_xfer sp = Some k"
    "msg_spec (sp_mem sp0) (ctrl_base sp0) (spi (cur_msg sp0)) (sp_heap sp0) (take k (transfers (cur_msg sp0))) ess h"
    "t = t0 @ concat ess @ es" "EvCall SpiFinalize \<notin> set (concat ess)"
    "xfer_at f x h sp" "in_xfer (sp_mem sp0) (ctrl_word (ctrl_base sp0) (spi (cur_msg sp0)) x) f x h j es sp"
    "status (cur_msg sp) = status (cur_msg sp0)"
    "actual_length (cur_msg sp) = actual_length (cur_msg sp0) + sum_list (map x_len (take k (transfers (cur_msg sp0))))"
    "n + j = sum_list (map (xfer_words (spi (cur_msg sp0))) (drop k (transfers (cur_msg sp0))))"
    unfolding msg_mid_def Let_def by blast
  then show ?thesis
    unfolding msg_mid_def Let_def using in_xfer_still [OF _ assms(2), where f = f and x = x and h = h and j = j and es = es]
    by (intro exI [of _ k] exI [of _ j] exI [of _ f] exI [of _ x] exI [of _ h] exI [of _ ess] exI [of _ "es @ fs"]) auto
qed

text \<open>A word that is not the last of its transfer.\<close>

lemma mid_word:
  assumes "xfer_at f x h sp" "in_xfer mem k f x h j es sp" "spi_ocores_is_busy P sp w = (False, w1)"
    "wbytes f * (j + 2) \<le> unat (x_len x)"
  shows "\<exists>fs sp' w'. spi_ocores_process P e sp w = Inr (0, sp', w') \<and> trace w' = trace w @ fs
    \<and> same_ctx sp sp' \<and> in_xfer mem k f x h (j + 1) (es @ fs) sp'"
proof -
  have mem: "sp_mem sp = mem" "words_shifted mem es = j + 1"
    using assms(2) by (simp_all add: in_xfer_def)
  obtain v where v: "trace w1 = trace w @ [EvRead (rd_acc sp) (mem + ucast SPI_OCORES_CTRL) v]" "v AND SPI_OCORES_CTRL_BUSY = 0"
    using idle_read [OF assms(3)] mem by auto
  let ?es = "es @ [EvRead (rd_acc sp) (mem + ucast SPI_OCORES_CTRL) v]"
  have "mon_ready (mon mem ?es mon_init)"
    unfolding mon_append using v(2) mem(2) by (intro idle_ready) (auto simp: words_shifted_def)
  moreover have "in_xfer mem k f x h j ?es sp"
    using assms(2) by (intro in_xfer_still) simp_all
  ultimately obtain fs sp' w' where "spi_ocores_hw_xfer_rxtx P e sp w1 = Inr (0, sp', w')" "trace w' = trace w1 @ fs"
    "same_ctx sp sp'" "in_xfer mem k f x h (j + 1) (?es @ fs) sp'"
    using rxtx_more [OF assms(1) _ _ assms(4)] by blast
  then show ?thesis
    using assms(3) v(1) by (simp add: spi_ocores_process_def)
qed

text \<open>The last word of a transfer, up to the end of the transfer.\<close>

lemma mid_last:
  assumes "xfer_at f x h sp" "in_xfer mem k f x h j es sp" "spi_ocores_is_busy P sp w = (False, w1)"
    "\<not> wbytes f * (j + 2) \<le> unat (x_len x)"
  shows "\<exists>fs sp1 sp2 w2. spi_ocores_process P e sp w = ebind (spi_ocores_sw_xfer_next_start P e sp2 w2) (\<lambda>(err, sp, w).
        if err \<noteq> 0 then
          (let (sp, w) = spi_ocores_finalize_current_message P sp w in Inr (err, sp, w))
        else Inr (err, sp, w))
    \<and> trace w2 = trace w @ fs \<and> EvCall SpiFinalize \<notin> set fs
    \<and> xfer_spec mem k f x (es @ fs) h (sp_heap sp2) \<and> same_ctx sp sp1
    \<and> sp2 = sp1\<lparr>cur_tx_buf := Null, cur_rx_buf := Null, cur_len := 0,
      cur_msg := (cur_msg sp1)\<lparr>actual_length := actual_length (cur_msg sp1) + x_len x\<rparr>\<rparr>"
proof -
  have mem: "sp_mem sp = mem" "words_shifted mem es = j + 1"
    using assms(2) by (simp_all add: in_xfer_def)
  obtain v where v: "trace w1 = trace w @ [EvRead (rd_acc sp) (mem + ucast SPI_OCORES_CTRL) v]" "v AND SPI_OCORES_CTRL_BUSY = 0"
    using idle_read [OF assms(3)] mem by auto
  let ?e = "[EvRead (rd_acc sp) (mem + ucast SPI_OCORES_CTRL) v]"
  have "mon_ready (mon mem (es @ ?e) mon_init)"
    unfolding mon_append using v(2) mem(2) by (intro idle_ready) (auto simp: words_shifted_def)
  moreover have "in_xfer mem k f x h j (es @ ?e) sp"
    using assms(2) by (intro in_xfer_still) simp_all
  ultimately obtain fs sp1 w' where r: "spi_ocores_hw_xfer_rxtx P e sp w1 = Inr (- ENODATA, sp1, w')" "trace w' = trace w1 @ fs"
    "EvCall SpiFinalize \<notin> set fs" "same_ctx sp sp1" "xfer_spec mem k f x ((es @ ?e) @ fs) h (sp_heap sp1)"
    using rxtx_last [OF assms(1) _ _ assms(4)] by blast
  let ?sp2 = "sp1\<lparr>cur_tx_buf := Null, cur_rx_buf := Null, cur_len := 0,
      cur_msg := (cur_msg sp1)\<lparr>actual_length := actual_length (cur_msg sp1) + x_len x\<rparr>\<rparr>"
  have "the_xfer sp1 = Inr x" "sp_mem sp1 = mem"
    using xfer_at_same [OF assms(1) r(4)] r(4) mem by (simp_all add: xfer_at_def same_ctx_def)
  then obtain gs w2 where g: "spi_ocores_sw_xfer_finish P sp1 w' = Inr (0, ?sp2, w2)"
    "trace w2 = trace w' @ gs" "list_all (still_ev mem) gs"
    using finish_ok [of sp1 x P w'] by auto
  have "spi_ocores_process P e sp w = ebind (spi_ocores_sw_xfer_next_start P e ?sp2 w2) (\<lambda>(err, sp, w).
        if err \<noteq> 0 then
          (let (sp, w) = spi_ocores_finalize_current_message P sp w in Inr (err, sp, w))
        else Inr (err, sp, w))"
    using assms(3) r(1) g(1) by (simp add: spi_ocores_process_def process_next_xfer_def)
  moreover have "xfer_spec mem k f x (es @ ?e @ fs @ gs) h (sp_heap ?sp2)"
    using xfer_spec_still [OF r(5) g(3)] by simp
  ultimately show ?thesis
    using v(1) r(2-4) g(2) quiet_no_final [OF still_quiet [OF g(3)]]
    by (intro exI [of _ "?e @ fs @ gs"] exI [of _ sp1] exI [of _ ?sp2] exI [of _ w2]) simp
qed

lemma words_left:
  assumes "xfer_ok sz d f x" "wbytes f * (j + 1) \<le> unat (x_len x)"
  shows "wbytes f * (j + 2) \<le> unat (x_len x) \<longleftrightarrow> j + 2 \<le> xfer_words d x" "j + 1 \<le> xfer_words d x"
proof -
  have l: "wbytes f * m \<le> unat (x_len x) \<longleftrightarrow> m \<le> xfer_words d x" for m
    using words_eq(1) [OF assms(1)] nat_mult_le_cancel1 [OF wbytes_bounds(1) [of f], of m "xfer_words d x"]
    by (simp add: mult.commute)
  show "wbytes f * (j + 2) \<le> unat (x_len x) \<longleftrightarrow> j + 2 \<le> xfer_words d x" "j + 1 \<le> xfer_words d x"
    using l [of "j + 2"] l [of "j + 1"] assms(2) by blast+
qed

lemma next_xfer_last:
  assumes "cur_xfer sp = Some k" "Suc k = length (transfers (cur_msg sp))"
  shows "spi_ocores_sw_xfer_next_start P e sp w = Inr (- ENODATA, sp, w)"
  using assms by (simp add: spi_ocores_sw_xfer_next_start_def spi_ocores_sw_xfer_next_init_def next_xfer_def)

lemma finalize_trace:
  "\<exists>v. trace (snd (spi_ocores_finalize_current_message P sp w)) = trace w @
     [EvRead (rd_acc sp) (sp_mem sp + ucast SPI_OCORES_CS) v,
      EvWrite (wr_acc sp) (sp_mem sp + ucast SPI_OCORES_CS) (v AND NOT (BIT_u32 (unat (chip_select (spi (cur_msg sp)))))),
      EvCall SpiFinalize]"
proof -
  obtain v w1 where "spi_read P sp SPI_OCORES_CS w = (v, w1)"
    by fastforce
  moreover have "unat (ucast c :: u32) = unat c" for c :: u8
    by (simp add: unsigned_ucast_eq take_bit_nat_eq_self less_le_trans [OF unsigned_less])
  ultimately show ?thesis
    by (simp add: spi_ocores_finalize_current_message_def cs_read_write [of P sp w v w1] trace_kcall)
qed

text \<open>Between two transfers: transfer \<open>k\<close> and those before it are over.\<close>

definition msg_done :: "spi_ocores \<Rightarrow> spi_call event list \<Rightarrow> nat \<Rightarrow> spi_ocores \<Rightarrow> spi_call event list \<Rightarrow> bool" where
  "msg_done sp0 t0 k sp t \<longleftrightarrow> (\<exists>ess. let xs = transfers (cur_msg sp0); d = spi (cur_msg sp0) in
     same_msg sp0 sp \<and> cur_xfer sp = Some k \<and> k < length xs
     \<and> msg_spec (sp_mem sp0) (ctrl_base sp0) d (sp_heap sp0) (take (Suc k) xs) ess (sp_heap sp)
     \<and> t = t0 @ concat ess \<and> EvCall SpiFinalize \<notin> set (concat ess)
     \<and> status (cur_msg sp) = status (cur_msg sp0)
     \<and> actual_length (cur_msg sp) = actual_length (cur_msg sp0) + sum_list (map x_len (take (Suc k) xs)))"

abbreviation words_from :: "spi_ocores \<Rightarrow> nat \<Rightarrow> nat" where
  "words_from sp0 k \<equiv> sum_list (map (xfer_words (spi (cur_msg sp0))) (drop k (transfers (cur_msg sp0))))"

text \<open>With the controller idle, the next word goes out, or the transfer is over.\<close>

lemma mid_idle:
  assumes "msg_mid sp0 t0 n sp (trace w)" "spi_ocores_is_busy P sp w = (False, w1)"
  shows "1 < n \<and> (\<exists>sp' w'. spi_ocores_process P e sp w = Inr (0, sp', w') \<and> msg_mid sp0 t0 (n - 1) sp' (trace w'))
    \<or> (\<exists>k sp2 w2. spi_ocores_process P e sp w = ebind (spi_ocores_sw_xfer_next_start P e sp2 w2) (\<lambda>(err, sp, w).
          if err \<noteq> 0 then
            (let (sp, w) = spi_ocores_finalize_current_message P sp w in Inr (err, sp, w))
          else Inr (err, sp, w))
        \<and> msg_done sp0 t0 k sp2 (trace w2) \<and> n = Suc (words_from sp0 (Suc k)))"
proof -
  let ?mem = "sp_mem sp0" and ?d = "spi (cur_msg sp0)" and ?xs = "transfers (cur_msg sp0)"
  obtain k j f x h ess es where m: "same_msg sp0 sp" "cur_xfer sp = Some k"
    "msg_spec ?mem (ctrl_base sp0) ?d (sp_heap sp0) (take k ?xs) ess h"
    "trace w = t0 @ concat ess @ es" "EvCall SpiFinalize \<notin> set (concat ess)"
    "xfer_at f x h sp" "in_xfer ?mem (ctrl_word (ctrl_base sp0) ?d x) f x h j es sp"
    "status (cur_msg sp) = status (cur_msg sp0)"
    "actual_length (cur_msg sp) = actual_length (cur_msg sp0) + sum_list (map x_len (take k ?xs))"
    "n + j = words_from sp0 k"
    using assms(1) unfolding msg_mid_def Let_def by blast
  have x: "k < length ?xs" "x = ?xs ! k" "xfer_ok (sizes h) ?d f x"
    using m(1,2,6) by (auto simp: same_msg_def xfer_at_def the_xfer_def split: if_splits)
  have jx: "wbytes f * (j + 1) \<le> unat (x_len x)" "EvCall SpiFinalize \<notin> set es"
    using m(7) by (simp_all add: in_xfer_def)
  note l = words_left [OF x(3) jx(1)]
  have W: "words_from sp0 k = xfer_words ?d x + words_from sp0 (Suc k)"
    using x(1,2) by (simp add: Cons_nth_drop_Suc [symmetric])
  show ?thesis
  proof (cases "wbytes f * (j + 2) \<le> unat (x_len x)")
    case True
    obtain fs sp' w' where p: "spi_ocores_process P e sp w = Inr (0, sp', w')" "trace w' = trace w @ fs"
      "same_ctx sp sp'" "in_xfer ?mem (ctrl_word (ctrl_base sp0) ?d x) f x h (j + 1) (es @ fs) sp'"
      using mid_word [OF m(6,7) assms(2) True] by blast
    have "msg_mid sp0 t0 (n - 1) sp' (trace w')"
      unfolding msg_mid_def Let_def
      by (rule exI [of _ k], rule exI [of _ "j + 1"], rule exI [of _ f], rule exI [of _ x], rule exI [of _ h],
          rule exI [of _ ess], rule exI [of _ "es @ fs"])
        (use m p l True W xfer_at_same [OF m(6) p(3)] in \<open>simp add: same_ctx_def same_msg_def\<close>)
    then show ?thesis
      using p(1) l(1) True m(10) W by auto
  next
    case False
    obtain fs sp1 sp2 w2 where p: "spi_ocores_process P e sp w = ebind (spi_ocores_sw_xfer_next_start P e sp2 w2) (\<lambda>(err, sp, w).
        if err \<noteq> 0 then
          (let (sp, w) = spi_ocores_finalize_current_message P sp w in Inr (err, sp, w))
        else Inr (err, sp, w))"
      "trace w2 = trace w @ fs" "EvCall SpiFinalize \<notin> set fs"
      "xfer_spec ?mem (ctrl_word (ctrl_base sp0) ?d x) f x (es @ fs) h (sp_heap sp2)" "same_ctx sp sp1"
      "sp2 = sp1\<lparr>cur_tx_buf := Null, cur_rx_buf := Null, cur_len := 0,
        cur_msg := (cur_msg sp1)\<lparr>actual_length := actual_length (cur_msg sp1) + x_len x\<rparr>\<rparr>"
      using mid_last [OF m(6,7) assms(2) False] by blast
    have "msg_spec ?mem (ctrl_base sp0) ?d (sp_heap sp0) (take (Suc k) ?xs) (ess @ [es @ fs]) (sp_heap sp2)"
      using msg_snoc [OF m(3) _ p(4)] x by (simp add: take_Suc_conv_app_nth xfer_ok_def)
    then have "msg_done sp0 t0 k sp2 (trace w2)"
      using m(1,2,4,5,8,9) p(2,3,5,6) x jx(2) unfolding msg_done_def Let_def
      by (intro exI [of _ "ess @ [es @ fs]"]) (simp add: same_msg_def same_ctx_def take_Suc_conv_app_nth)
    moreover have "n = Suc (words_from sp0 (Suc k))"
      using l False m(10) W by linarith
    ultimately show ?thesis
      using p(1) by blast
  qed
qed

text \<open>There is another transfer: it is set up, and its first word goes out.\<close>

lemma done_next:
  assumes "msg_ok sp0" "msg_done sp0 t0 k sp (trace w)" "Suc k < length (transfers (cur_msg sp0))"
  shows "\<exists>sp' w'. spi_ocores_sw_xfer_next_start P e sp w = Inr (0, sp', w')
    \<and> msg_mid sp0 t0 (words_from sp0 (Suc k)) sp' (trace w') \<and> 0 < words_from sp0 (Suc k)"
proof -
  let ?d = "spi (cur_msg sp0)" and ?xs = "transfers (cur_msg sp0)"
  obtain ess where m: "same_msg sp0 sp" "cur_xfer sp = Some k"
    "msg_spec (sp_mem sp0) (ctrl_base sp0) ?d (sp_heap sp0) (take (Suc k) ?xs) ess (sp_heap sp)"
    "trace w = t0 @ concat ess" "EvCall SpiFinalize \<notin> set (concat ess)" "status (cur_msg sp) = status (cur_msg sp0)"
    "actual_length (cur_msg sp) = actual_length (cur_msg sp0) + sum_list (map x_len (take (Suc k) ?xs))"
    using assms(2) unfolding msg_done_def Let_def by blast
  have nx: "next_xfer sp = Inr (Some (Some (Suc k)))"
    using m(1,2) assms(3) by (simp add: next_xfer_def same_msg_def)
  obtain f where f: "xfer_ok (sizes (sp_heap sp)) ?d f (?xs ! Suc k)"
    using assms(1) nth_mem [OF assms(3)] msg_spec_sizes [OF m(3)] by (metis msg_ok_def)
  have "Suc k < length (transfers (cur_msg sp))" "?xs ! Suc k = transfers (cur_msg sp) ! Suc k"
    "xfer_ok (sizes (sp_heap sp)) (spi (cur_msg sp)) f (?xs ! Suc k)"
    using assms(3) f m(1) by (simp_all add: same_msg_def)
  from next_start_ok [OF nx this, of P e w]
  obtain gs sp' w' where g: "spi_ocores_sw_xfer_next_start P e sp w = Inr (0, sp', w')" "trace w' = trace w @ gs"
    "same_ctx (sp\<lparr>cur_xfer := Some (Suc k)\<rparr>) sp'" "xfer_at f (?xs ! Suc k) (sp_heap sp) sp'"
    "in_xfer (sp_mem sp) (ctrl_word (ctrl_base sp) (spi (cur_msg sp)) (?xs ! Suc k)) f (?xs ! Suc k) (sp_heap sp) 0 gs sp'"
    by blast
  have "msg_mid sp0 t0 (words_from sp0 (Suc k)) sp' (trace w')"
    unfolding msg_mid_def Let_def
    by (rule exI [of _ "Suc k"], rule exI [of _ 0], rule exI [of _ f], rule exI [of _ "?xs ! Suc k"],
        rule exI [of _ "sp_heap sp"], rule exI [of _ ess], rule exI [of _ gs])
      (use m g in \<open>simp add: same_ctx_def same_msg_def\<close>)
  moreover have "0 < words_from sp0 (Suc k)"
    using assms(3) words_eq(2) [OF f] by (simp add: Cons_nth_drop_Suc [symmetric])
  ultimately show ?thesis
    using g(1) by blast
qed

text \<open>There is none: the message is finalised.\<close>

lemma done_end:
  assumes "msg_done sp0 t0 k sp (trace w)" "\<not> Suc k < length (transfers (cur_msg sp0))"
  shows "spi_ocores_sw_xfer_next_start P e sp w = Inr (- ENODATA, sp, w) \<and> words_from sp0 (Suc k) = 0
    \<and> (\<exists>sp' w'. spi_ocores_finalize_current_message P sp w = (sp', w') \<and> msg_end sp0 t0 sp' (trace w'))"
proof -
  let ?d = "spi (cur_msg sp0)" and ?xs = "transfers (cur_msg sp0)"
  obtain ess where m: "same_msg sp0 sp" "cur_xfer sp = Some k" "k < length ?xs"
    "msg_spec (sp_mem sp0) (ctrl_base sp0) ?d (sp_heap sp0) (take (Suc k) ?xs) ess (sp_heap sp)"
    "trace w = t0 @ concat ess" "EvCall SpiFinalize \<notin> set (concat ess)" "status (cur_msg sp) = status (cur_msg sp0)"
    "actual_length (cur_msg sp) = actual_length (cur_msg sp0) + sum_list (map x_len (take (Suc k) ?xs))"
    using assms(1) unfolding msg_done_def Let_def by blast
  have e: "Suc k = length ?xs"
    using m(3) assms(2) by simp
  then have nx: "spi_ocores_sw_xfer_next_start P e sp w = Inr (- ENODATA, sp, w)"
    using m(1,2) by (intro next_xfer_last [of _ k]) (simp_all add: same_msg_def)
  obtain sp' w' where z: "spi_ocores_finalize_current_message P sp w = (sp', w')"
    by fastforce
  have sp': "sp' = set_status 0 (sp\<lparr>cur_xfer := None\<rparr>)"
    using z by (auto simp: spi_ocores_finalize_current_message_def)
  obtain v where v: "trace w' = trace w @
     [EvRead (rd_acc sp) (sp_mem sp + ucast SPI_OCORES_CS) v,
      EvWrite (wr_acc sp) (sp_mem sp + ucast SPI_OCORES_CS) (v AND NOT (BIT_u32 (unat (chip_select (spi (cur_msg sp)))))),
      EvCall SpiFinalize]"
    using finalize_trace [of P sp w] z by auto
  have "rd_acc sp = rd_acc sp0" "wr_acc sp = wr_acc sp0" "sp_mem sp = sp_mem sp0" "spi (cur_msg sp) = ?d"
    using m(1) by (simp_all add: same_msg_def rd_acc_def wr_acc_def)
  note v' = v [unfolded this]
  have "msg_end sp0 t0 sp' (trace w')"
    unfolding msg_end_def Let_def
    by (rule exI [of _ ess], rule exI [of _ v]) (use m v' e in \<open>simp add: sp' set_status_def same_msg_def\<close>)
  then show ?thesis
    using nx z e by simp
qed

lemma mid_step:
  assumes "msg_ok sp0" "msg_mid sp0 t0 n sp (trace w)" "spi_ocores_is_busy P sp w = (False, w1)"
  shows "1 < n \<and> (\<exists>sp' w'. spi_ocores_process P e sp w = Inr (0, sp', w') \<and> msg_mid sp0 t0 (n - 1) sp' (trace w'))
    \<or> n = 1 \<and> (\<exists>sp' w'. spi_ocores_process P e sp w = Inr (- ENODATA, sp', w') \<and> msg_end sp0 t0 sp' (trace w'))"
  using mid_idle [OF assms(2,3), of e]
proof (elim disjE conjE exE)
  fix k sp2 w2
  assume p: "spi_ocores_process P e sp w = ebind (spi_ocores_sw_xfer_next_start P e sp2 w2) (\<lambda>(err, sp, w).
      if err \<noteq> 0 then
        (let (sp, w) = spi_ocores_finalize_current_message P sp w in Inr (err, sp, w))
      else Inr (err, sp, w))"
    and d: "msg_done sp0 t0 k sp2 (trace w2)" and n: "n = Suc (words_from sp0 (Suc k))"
  show ?thesis
  proof (cases "Suc k < length (transfers (cur_msg sp0))")
    case True
    then show ?thesis
      using done_next [OF assms(1) d True, of P e] p n by auto
  next
    case False
    then show ?thesis
      using done_end [OF d False, of P e] p n by auto
  qed
qed blast

end
