(* ===== verification/Spi_Drive.thy ===== *)
theory Spi_Drive
  imports Spi_Message Spi_Order
begin

text \<open>
  What drives an SPI message: the interrupt handler, called once for every word and perhaps in
  between, and the polling loop of \<open>spi_ocores_transfer_one_message\<close>. With the properties of the
  data path: what a caller of the SPI core gets.
\<close>

unbundle bit_operations_syntax

section \<open>Polling\<close>

interpretation spi_poll: poll_loop P "spi_read P sp reg" "\<lambda>tmp. tmp AND msk = val" "spi_wait_loop P sp reg msk val"
  for P sp reg msk val
proof
  show "\<exists>c a. dev (snd (spi_read P sp reg w)) = snd (p_read P c a (dev w))" for w
    by (simp add: spi_read_io dev_ioread) blast
qed (rule spi_wait_loop.simps)

lemma mid_pos: "msg_mid sp0 t0 n sp t \<Longrightarrow> 0 < n \<and> sp_mem sp = sp_mem sp0"
proof -
  assume "msg_mid sp0 t0 n sp t"
  then obtain k j f x h es where m: "same_msg sp0 sp" "cur_xfer sp = Some k" "xfer_at f x h sp"
    "in_xfer (sp_mem sp0) (ctrl_word (ctrl_base sp0) (spi (cur_msg sp0)) x) f x h j es sp"
    "n + j = sum_list (map (xfer_words (spi (cur_msg sp0))) (drop k (transfers (cur_msg sp0))))"
    unfolding msg_mid_def Let_def by blast
  then have "k < length (transfers (cur_msg sp0))" "x = transfers (cur_msg sp0) ! k"
      "xfer_ok (sizes h) (spi (cur_msg sp0)) f x"
    by (auto simp: same_msg_def xfer_at_def the_xfer_def split: if_splits)
  moreover have "wbytes f * (j + 1) \<le> unat (x_len x)"
    using m(4) by (simp add: in_xfer_def)
  ultimately show ?thesis
    using words_left(2) [of "sizes h" "spi (cur_msg sp0)" f x j] m(1,5)
    by (simp add: Cons_nth_drop_Suc [symmetric] same_msg_def)
qed

text \<open>\<open>busy_last\<close>: the last access found the controller busy.\<close>

definition busy_last :: "spi_ocores \<Rightarrow> spi_call event list \<Rightarrow> bool" where
  "busy_last sp t \<longleftrightarrow> (\<exists>c v. t \<noteq> [] \<and> last t = EvRead c (sp_mem sp + ucast SPI_OCORES_CTRL) v
     \<and> v AND SPI_OCORES_CTRL_BUSY \<noteq> 0)"

lemma wait_complete:
  assumes "clock_ok P clk K" "msg_mid sp0 t0 n sp (trace w)"
  shows "\<exists>err w'. spi_ocores_hw_xfer_wait_complete P sp tmo w = Some (err, w') \<and> msg_mid sp0 t0 n sp (trace w')
    \<and> (err = 0 \<or> err = - ETIMEDOUT \<and> busy_last sp (trace w'))"
proof -
  let ?Q = "\<lambda>w. msg_mid sp0 t0 n sp (trace w)"
  have mem: "sp_mem sp = sp_mem sp0"
    using mid_pos [OF assms(2)] by simp
  obtain now w1 where j: "jiffies P w = (now, w1)"
    by fastforce
  have Qj: "?Q w \<Longrightarrow> ?Q (snd (jiffies P w))" for w
    by (simp add: trace_jiffies)
  have Qr: "?Q w \<Longrightarrow> ?Q (snd (spi_read P sp SPI_OCORES_CTRL w))" for w
    using trace_spi_read [of P sp SPI_OCORES_CTRL w] mid_still [of sp0 t0 n sp "trace w"] mem
    by (cases "spi_read P sp SPI_OCORES_CTRL w") auto
  have Q1: "?Q w1"
    using Qj [OF assms(2)] j by simp
  have b: "busy_last sp (trace (snd (jiffies P (snd (spi_read P sp SPI_OCORES_CTRL w0)))))"
    if "fst (spi_read P sp SPI_OCORES_CTRL w0) AND SPI_OCORES_CTRL_BUSY \<noteq> 0" for w0
    using that trace_spi_read [of P sp SPI_OCORES_CTRL w0]
    by (cases "spi_read P sp SPI_OCORES_CTRL w0") (simp add: trace_jiffies busy_last_def)
  obtain err w' where "spi_wait_loop P sp SPI_OCORES_CTRL SPI_OCORES_CTRL_BUSY 0 (now + tmo) w1 = Some (err, w')"
    "?Q w'" "err = 0 \<or> err = - ETIMEDOUT \<and> (\<exists>w0. ?Q w0 \<and> w' = snd (jiffies P (snd (spi_read P sp SPI_OCORES_CTRL w0)))
      \<and> \<not> fst (spi_read P sp SPI_OCORES_CTRL w0) AND SPI_OCORES_CTRL_BUSY = 0)"
    using spi_poll.deadline_returns [OF assms(1) j, of ?Q sp SPI_OCORES_CTRL SPI_OCORES_CTRL_BUSY 0 tmo] Q1 Qr Qj by blast
  then show ?thesis
    using b j by (auto simp: spi_ocores_hw_xfer_wait_complete_def spi_ocores_wait_def)
qed

lemma poll_loop_ends:
  assumes "clock_ok P clk K" "msg_ok sp0" "msg_mid sp0 t0 n sp (trace w)"
  shows "\<exists>sp' w'. spi_poll_loop P e sp w = Some (Inr (sp', w'))
    \<and> (msg_end sp0 t0 sp' (trace w') \<or> (\<exists>m. msg_mid sp0 t0 m sp' (trace w')) \<and> busy_last sp' (trace w'))"
  using assms(3)
proof (induction n arbitrary: sp w rule: less_induct)
  case (less n)
  obtain err w1 where w: "spi_ocores_hw_xfer_wait_complete P sp (p_msecs P 100) w = Some (err, w1)"
    "msg_mid sp0 t0 n sp (trace w1)" "err = 0 \<or> err = - ETIMEDOUT \<and> busy_last sp (trace w1)"
    using wait_complete [OF assms(1) less.prems] by blast
  obtain b w2 where b: "spi_ocores_is_busy P sp w1 = (b, w2)"
    by fastforce
  consider "err \<noteq> 0" | "err = 0" "b" | "err = 0" "\<not> b"
    by blast
  then show ?case
  proof cases
    case 1
    then show ?thesis
      using w by (subst spi_poll_loop.simps) (auto simp: spi_ocores_process_poll_def)
  next
    case 2
    obtain v where v: "trace w2 = trace w1 @ [EvRead (rd_acc sp) (sp_mem sp + ucast SPI_OCORES_CTRL) v]"
      "v AND SPI_OCORES_CTRL_BUSY \<noteq> 0"
      using idle_read [OF b] 2 by auto
    have "msg_mid sp0 t0 n sp (trace w2)"
      unfolding v(1) using w(2) mid_pos [OF w(2)] by (intro mid_still) simp_all
    moreover have "busy_last sp (trace w2)"
      using v by (simp add: busy_last_def)
    moreover have "spi_poll_loop P e sp w = Some (Inr (sp, w2))"
      using w 2 b by (subst spi_poll_loop.simps) (simp add: spi_ocores_process_poll_def spi_ocores_process_def)
    ultimately show ?thesis
      by blast
  next
    case 3
    then have p: "spi_ocores_process_poll P e 100 sp w = Some (spi_ocores_process P e sp w1)"
      using w by (simp add: spi_ocores_process_poll_def)
    have idle: "spi_ocores_is_busy P sp w1 = (False, w2)"
      using b 3 by simp
    from mid_step [OF assms(2) w(2) idle, of e] show ?thesis
    proof (elim disjE conjE exE)
      fix sp' w' assume s: "1 < n" "spi_ocores_process P e sp w1 = Inr (0, sp', w')" "msg_mid sp0 t0 (n - 1) sp' (trace w')"
      then have "spi_poll_loop P e sp w = spi_poll_loop P e sp' w'"
        using p by (subst spi_poll_loop.simps) simp
      then show ?thesis
        using less.IH [of "n - 1" sp' w'] s by simp
    next
      fix sp' w' assume "n = 1" "spi_ocores_process P e sp w1 = Inr (- ENODATA, sp', w')" "msg_end sp0 t0 sp' (trace w')"
      then show ?thesis
        using p by (subst spi_poll_loop.simps) simp
    qed
  qed
qed

lemma wait_busy:
  assumes "clock_ok P clk K" "msg_mid sp0 t0 n sp (trace w)"
    "\<forall>d. fst (p_read P (rd_acc sp) (sp_mem sp + ucast SPI_OCORES_CTRL) d) AND SPI_OCORES_CTRL_BUSY \<noteq> 0"
  shows "\<exists>w'. spi_ocores_hw_xfer_wait_complete P sp tmo w = Some (- ETIMEDOUT, w') \<and> msg_mid sp0 t0 n sp (trace w')"
proof -
  obtain err w' where w: "spi_ocores_hw_xfer_wait_complete P sp tmo w = Some (err, w')" "msg_mid sp0 t0 n sp (trace w')"
      "err = 0 \<or> err = - ETIMEDOUT"
    using wait_complete [OF assms(1,2)] by blast
  obtain now w1 where j: "jiffies P w = (now, w1)"
    by fastforce
  have "fst (spi_read P sp SPI_OCORES_CTRL w0) AND SPI_OCORES_CTRL_BUSY \<noteq> 0" for w0
    using assms(3) [rule_format, of "dev w0"]
    by (cases "p_read P (rd_acc sp) (sp_mem sp + ucast SPI_OCORES_CTRL) (dev w0)") (simp add: spi_read_io ioread_def)
  then have "err \<noteq> 0"
    using spi_poll.deadline_returns [OF assms(1) j, of "\<lambda>_. True" sp SPI_OCORES_CTRL SPI_OCORES_CTRL_BUSY 0 tmo] w(1) j
    by (auto simp: spi_ocores_hw_xfer_wait_complete_def spi_ocores_wait_def)
  then show ?thesis
    using w by blast
qed

lemma mid_not_final:
  assumes "msg_mid sp0 t0 n sp t"
  shows "\<exists>es. t = t0 @ es \<and> EvCall SpiFinalize \<notin> set es"
  using assms by (auto simp: msg_mid_def Let_def in_xfer_def)

section \<open>Interrupts\<close>

text \<open>
  The controller interrupts \<open>n\<close> times while a message is in progress, and the handler answers each
  time. \<open>found_idle\<close> says of each interrupt whether it finds the controller idle.
\<close>

fun spi_irqs :: "'d platform \<Rightarrow> endian \<Rightarrow> nat \<Rightarrow> spi_ocores \<Rightarrow> 'd spi_world \<Rightarrow>
    c_fault + spi_irqreturn list \<times> spi_ocores \<times> 'd spi_world" where
  "spi_irqs P e 0 sp w = Inr ([], sp, w)"
| "spi_irqs P e (Suc n) sp w =
     (if cur_xfer sp = None then Inr ([], sp, w)
      else ebind (spi_ocores_irq_handler P e sp w) (\<lambda>(r, sp, w).
        ebind (spi_irqs P e n sp w) (\<lambda>(rs, sp, w). Inr (r # rs, sp, w))))"

fun found_idle :: "'d platform \<Rightarrow> endian \<Rightarrow> nat \<Rightarrow> spi_ocores \<Rightarrow> 'd spi_world \<Rightarrow> bool list" where
  "found_idle P e 0 sp w = []"
| "found_idle P e (Suc n) sp w =
     (if cur_xfer sp = None then []
      else (\<not> fst (spi_ocores_is_busy P sp w))
        # (case spi_ocores_irq_handler P e sp w of Inl f \<Rightarrow> [] | Inr (r, sp, w) \<Rightarrow> found_idle P e n sp w))"

definition idle_irqs :: "'d platform \<Rightarrow> endian \<Rightarrow> nat \<Rightarrow> spi_ocores \<Rightarrow> 'd spi_world \<Rightarrow> nat" where
  "idle_irqs P e n sp w = length (filter id (found_idle P e n sp w))"

definition irq_answer :: "bool \<Rightarrow> spi_irqreturn" where
  "irq_answer idle = (if idle then SPI_IRQ_HANDLED else SPI_IRQ_NONE)"

lemma mid_cur: "msg_mid sp0 t0 n sp t \<Longrightarrow> cur_xfer sp \<noteq> None"
  by (auto simp: msg_mid_def Let_def)

lemma irqs_run:
  assumes "msg_ok sp0" "msg_mid sp0 t0 m sp (trace w)"
  shows "\<exists>sp' w'. spi_irqs P e n sp w = Inr (map irq_answer (found_idle P e n sp w), sp', w') \<and> idle_irqs P e n sp w \<le> m
    \<and> (if idle_irqs P e n sp w = m then msg_end sp0 t0 sp' (trace w')
       else msg_mid sp0 t0 (m - idle_irqs P e n sp w) sp' (trace w'))"
  using assms(2)
proof (induction n arbitrary: m sp w)
  case 0
  then show ?case
    using mid_pos by (fastforce simp: idle_irqs_def)
next
  case (Suc n)
  obtain k where c: "cur_xfer sp = Some k"
    using mid_cur [OF Suc.prems] by blast
  obtain b w1 where b: "spi_ocores_is_busy P sp w = (b, w1)"
    by fastforce
  show ?case
  proof (cases b)
    case True
    obtain v where v: "trace w1 = trace w @ [EvRead (rd_acc sp) (sp_mem sp + ucast SPI_OCORES_CTRL) v]"
      using idle_read [OF b] by auto
    have mid: "msg_mid sp0 t0 m sp (trace w1)"
      unfolding v using Suc.prems mid_pos [OF Suc.prems] by (intro mid_still) simp_all
    have h: "spi_ocores_irq_handler P e sp w = Inr (SPI_IRQ_NONE, sp, w1)"
      using b True by (simp add: spi_ocores_irq_handler_def spi_ocores_process_def)
    then have f: "found_idle P e (Suc n) sp w = False # found_idle P e n sp w1"
      using b True c by simp
    then have "idle_irqs P e (Suc n) sp w = idle_irqs P e n sp w1"
      by (simp add: idle_irqs_def)
    moreover obtain sp' w' where "spi_irqs P e n sp w1 = Inr (map irq_answer (found_idle P e n sp w1), sp', w')"
        "idle_irqs P e n sp w1 \<le> m" "if idle_irqs P e n sp w1 = m then msg_end sp0 t0 sp' (trace w')
         else msg_mid sp0 t0 (m - idle_irqs P e n sp w1) sp' (trace w')"
      using Suc.IH [OF mid] by blast
    ultimately show ?thesis
      unfolding f using h c by (simp add: irq_answer_def)
  next
    case False
    then have idle: "spi_ocores_is_busy P sp w = (False, w1)"
      using b by simp
    from mid_step [OF assms(1) Suc.prems idle, of e] show ?thesis
    proof (elim disjE conjE exE)
      fix sp2 w2 assume s: "1 < m" "spi_ocores_process P e sp w = Inr (0, sp2, w2)" "msg_mid sp0 t0 (m - 1) sp2 (trace w2)"
      have h: "spi_ocores_irq_handler P e sp w = Inr (SPI_IRQ_HANDLED, sp2, w2)"
        using s(2) by (simp add: spi_ocores_irq_handler_def)
      then have f: "found_idle P e (Suc n) sp w = True # found_idle P e n sp2 w2"
        using idle c by simp
      then have i: "idle_irqs P e (Suc n) sp w = Suc (idle_irqs P e n sp2 w2)"
        by (simp add: idle_irqs_def)
      obtain sp' w' where r: "spi_irqs P e n sp2 w2 = Inr (map irq_answer (found_idle P e n sp2 w2), sp', w')"
          "idle_irqs P e n sp2 w2 \<le> m - 1" "if idle_irqs P e n sp2 w2 = m - 1 then msg_end sp0 t0 sp' (trace w')
           else msg_mid sp0 t0 (m - 1 - idle_irqs P e n sp2 w2) sp' (trace w')"
        using Suc.IH [OF s(3)] by blast
      let ?k = "idle_irqs P e n sp2 w2"
      have k: "(Suc ?k = m) = (?k = m - 1)" "(Suc ?k \<le> m) = (?k \<le> m - 1)" "m - Suc ?k = m - 1 - ?k"
        using s(1) by auto
      have "spi_irqs P e (Suc n) sp w = Inr (map irq_answer (True # found_idle P e n sp2 w2), sp', w')"
        using h c r(1) by (simp add: irq_answer_def)
      then show ?thesis
        unfolding f i k using r(2,3) by blast
    next
      fix sp2 w2 assume s: "m = 1" "spi_ocores_process P e sp w = Inr (- ENODATA, sp2, w2)" "msg_end sp0 t0 sp2 (trace w2)"
      have h: "spi_ocores_irq_handler P e sp w = Inr (SPI_IRQ_HANDLED, sp2, w2)" "cur_xfer sp2 = None"
        using s(2,3) by (auto simp: spi_ocores_irq_handler_def msg_end_def Let_def)
      then have n: "spi_irqs P e n sp2 w2 = Inr ([], sp2, w2)" "found_idle P e n sp2 w2 = []"
        by (cases n; simp)+
      then show ?thesis
        using s(1,3) idle c h by (simp add: idle_irqs_def irq_answer_def)
    qed
  qed
qed

lemma irqs_orderly:
  assumes "spi_irqs P e n sp w = Inr (rs, sp', w')" "orderly mem t0 w" "sp_mem sp = mem"
  shows "orderly mem t0 w'"
  using assms
proof (induction n arbitrary: rs sp w)
  case 0
  then show ?case by simp
next
  case (Suc n)
  show ?case
  proof (cases "cur_xfer sp = None")
    case False
    then obtain r rs1 sp1 w1 where h: "spi_ocores_irq_handler P e sp w = Inr (r, sp1, w1)"
        "spi_irqs P e n sp1 w1 = Inr (rs1, sp', w')"
      using Suc.prems(1) by (auto simp: ebind_eq_Inr_iff)
    then show ?thesis
      using Suc.IH [OF h(2)] orderly_irq [OF h(1) Suc.prems(2,3)] by simp
  qed (use Suc.prems in simp)
qed

text \<open>A polled message.\<close>

lemma polled_runs:
  assumes "msg_ok sp" "cur_xfer sp = None" "sp_flags sp AND SPI_OCORES_FLAG_POLL \<noteq> 0" "clock_ok P clk K"
  shows "\<exists>sp' w'. spi_ocores_transfer_one_message P e sp w = Some (Inr (0, sp', w'))
    \<and> (msg_end sp (trace w) sp' (trace w')
      \<or> (\<exists>n. msg_mid sp (trace w) n sp' (trace w')) \<and> busy_last sp' (trace w'))"
proof -
  obtain sp1 w1 where s: "spi_ocores_sw_xfer_next_start P e sp w = Inr (0, sp1, w1)"
    "msg_mid sp (trace w) (msg_words sp) sp1 (trace w1)"
    using mid_start [OF assms(1,2)] by blast
  have "sp_flags sp1 = sp_flags sp"
    using s(2) by (auto simp: msg_mid_def Let_def same_msg_def)
  moreover obtain sp' w' where p: "spi_poll_loop P e sp1 w1 = Some (Inr (sp', w'))"
    "msg_end sp (trace w) sp' (trace w')
      \<or> (\<exists>m. msg_mid sp (trace w) m sp' (trace w')) \<and> busy_last sp' (trace w')"
    using poll_loop_ends [OF assms(4,1) s(2)] by blast
  ultimately have "spi_ocores_transfer_one_message P e sp w = Some (Inr (0, sp', w'))"
    using s(1) assms(3) by (simp add: spi_ocores_transfer_one_message_def)
  then show ?thesis
    using p(2) by blast
qed

text \<open>A message driven by interrupts: the first word goes out.\<close>

lemma interrupt_starts:
  assumes "msg_ok sp" "cur_xfer sp = None" "sp_flags sp AND SPI_OCORES_FLAG_POLL = 0"
  shows "\<exists>sp1 w1. spi_ocores_sw_xfer_next_start P e sp w = Inr (0, sp1, w1)
    \<and> spi_ocores_transfer_one_message P e sp w = Some (Inr (0, sp1, w1))
    \<and> msg_mid sp (trace w) (msg_words sp) sp1 (trace w1) \<and> sp_mem sp1 = sp_mem sp"
proof -
  obtain sp1 w1 where s: "spi_ocores_sw_xfer_next_start P e sp w = Inr (0, sp1, w1)"
    "msg_mid sp (trace w) (msg_words sp) sp1 (trace w1)"
    using mid_start [OF assms(1,2)] by blast
  then have "sp_flags sp1 = sp_flags sp" "sp_mem sp1 = sp_mem sp"
    by (auto simp: msg_mid_def Let_def same_msg_def)
  then show ?thesis
    using s assms(3) by (simp add: spi_ocores_transfer_one_message_def)
qed

section \<open>Properties\<close>

text \<open>
  C2: a polled message. For every message of transfers the driver handles,
  \<open>spi_ocores_transfer_one_message\<close> returns, without a fault, on any controller whose clock
  advances. Either the message is over: for each transfer in turn one word was shifted per word
  of its length, the bytes of the transmit buffer went out in order, the bytes that came in are
  in the receive buffer and nothing else in memory has changed, the actual length is the sum of
  the lengths, the chip was deselected and the message finalised exactly once. Or the driver gave
  up after it saw the controller busy, and the message was not finalised. Registers are written and
  words read only while the controller, as last seen, is at rest.
\<close>

theorem spi_polled_message:
  assumes "msg_ok sp" "cur_xfer sp = None" "sp_flags sp AND SPI_OCORES_FLAG_POLL \<noteq> 0" "clock_ok P clk K"
  shows "\<exists>sp' w'. spi_ocores_transfer_one_message P e sp w = Some (Inr (0, sp', w')) \<and> orderly (sp_mem sp) (trace w) w'
    \<and> (msg_end sp (trace w) sp' (trace w')
      \<or> (\<exists>n. msg_mid sp (trace w) n sp' (trace w')) \<and> busy_last sp' (trace w'))"
  using polled_runs [OF assms] orderly_message by blast

text \<open>
  C8: a message driven by interrupts. \<open>spi_ocores_transfer_one_message\<close> starts the first word and
  returns. Whatever interrupts follow until the message is over, none of them faults. Those that
  find the controller busy change nothing and are answered as not handled; each of the others is
  answered as handled and moves the message one word on, and the one that completes
  its last word ends it, as above, exactly once. Here too, registers are written and words read only
  while the controller is at rest.
\<close>

theorem spi_interrupt_message:
  assumes "msg_ok sp" "cur_xfer sp = None" "sp_flags sp AND SPI_OCORES_FLAG_POLL = 0"
  shows "\<exists>sp1 w1. spi_ocores_transfer_one_message P e sp w = Some (Inr (0, sp1, w1))
    \<and> (\<forall>n. \<exists>rs sp' w'. spi_irqs P e n sp1 w1 = Inr (rs, sp', w')
      \<and> rs = map (\<lambda>idle. if idle then SPI_IRQ_HANDLED else SPI_IRQ_NONE) (found_idle P e n sp1 w1)
      \<and> idle_irqs P e n sp1 w1 \<le> msg_words sp
      \<and> orderly (sp_mem sp) (trace w) w'
      \<and> (if idle_irqs P e n sp1 w1 = msg_words sp then msg_end sp (trace w) sp' (trace w')
         else msg_mid sp (trace w) (msg_words sp - idle_irqs P e n sp1 w1) sp' (trace w')))"
proof -
  obtain sp1 w1 where s: "spi_ocores_transfer_one_message P e sp w = Some (Inr (0, sp1, w1))"
    "msg_mid sp (trace w) (msg_words sp) sp1 (trace w1)" "sp_mem sp1 = sp_mem sp"
    using interrupt_starts [OF assms] by blast
  have "orderly (sp_mem sp) (trace w) w'" if "spi_irqs P e n sp1 w1 = Inr (rs, sp', w')" for n rs sp' w'
    by (rule irqs_orderly [OF that orderly_message [OF s(1)] s(3)])
  moreover have "irq_answer = (\<lambda>idle. if idle then SPI_IRQ_HANDLED else SPI_IRQ_NONE)"
    by (simp add: fun_eq_iff irq_answer_def)
  ultimately show ?thesis
    using s(1) irqs_run [OF assms(1) s(2), of P e] by metis
qed

text \<open>
  A controller that stays busy. The polled transfer returns 0 all the same, and the message
  is never finalised: the time out is dropped, its caller waits for it.
\<close>

theorem spi_stuck_controller:
  assumes "msg_ok sp" "cur_xfer sp = None" "sp_flags sp AND SPI_OCORES_FLAG_POLL \<noteq> 0" "clock_ok P clk K"
    "\<forall>d. fst (p_read P (rd_acc sp) (sp_mem sp + ucast SPI_OCORES_CTRL) d) AND SPI_OCORES_CTRL_BUSY \<noteq> 0"
  shows "\<exists>sp' w' es. spi_ocores_transfer_one_message P e sp w = Some (Inr (0, sp', w'))
    \<and> trace w' = trace w @ es \<and> EvCall SpiFinalize \<notin> set es \<and> cur_xfer sp' \<noteq> None"
proof -
  obtain sp1 w1 where s: "spi_ocores_sw_xfer_next_start P e sp w = Inr (0, sp1, w1)"
    "msg_mid sp (trace w) (msg_words sp) sp1 (trace w1)"
    using mid_start [OF assms(1,2)] by blast
  have same: "sp_flags sp1 = sp_flags sp" "rd_acc sp1 = rd_acc sp" "sp_mem sp1 = sp_mem sp"
    using s(2) by (auto simp: msg_mid_def Let_def same_msg_def rd_acc_def)
  then obtain w2 where w: "spi_ocores_hw_xfer_wait_complete P sp1 (p_msecs P 100) w1 = Some (- ETIMEDOUT, w2)"
    "msg_mid sp (trace w) (msg_words sp) sp1 (trace w2)"
    using wait_busy [OF assms(4) s(2)] assms(5) by metis
  then have "spi_poll_loop P e sp1 w1 = Some (Inr (sp1, w2))"
    by (subst spi_poll_loop.simps) (simp add: spi_ocores_process_poll_def)
  then show ?thesis
    using s(1) same(1) assms(3) mid_not_final [OF w(2)] mid_cur [OF w(2)]
    by (auto simp: spi_ocores_transfer_one_message_def)
qed

section \<open>Witnesses\<close>

text \<open>Two words of 16 bits, from block 0 to block 1, on a controller that polls or interrupts.\<close>

definition demo_spi :: "u64 \<Rightarrow> spi_ocores" where
  "demo_spi flags = \<lparr>sp_flags = flags, sp_mem = 0x1000, clock_hz = 100000000, ctrl_base = 0, cur_xfer = None,
     cur_tx_buf = Null, cur_rx_buf = Null, cur_len = 0, cur_tx_push = None, cur_rx_pop = None,
     sp_read = Spi32, sp_write = Spi32,
     cur_msg = \<lparr>transfers = [\<lparr>tx_buf = Ptr 0 0, rx_buf = Ptr 1 0, x_len = 4, x_bits_per_word = 16,
         speed_hz = 1000000, x_delay = 0, cs_change = False\<rparr>],
       spi = \<lparr>chip_select = 2, mode = 0, spi_bits_per_word = 8, max_speed_hz = 1000000\<rparr>,
       actual_length = 0, status = 0\<rparr>,
     sp_heap = (\<lambda>_. [1, 2, 3, 4])\<rparr>"

lemma demo_spi_ok: "msg_ok (demo_spi n)" "cur_xfer (demo_spi n) = None" "sp_flags (demo_spi n) = n"
proof -
  show "msg_ok (demo_spi n)"
    unfolding msg_ok_def by (rule conjI) (simp_all add: demo_spi_def xfer_ok_def xfer_bits_def ptr_apart_def sizes_def
        wbytes_def exI [of _ Word16])
  show "cur_xfer (demo_spi n) = None" "sp_flags (demo_spi n) = n"
    by (simp_all add: demo_spi_def)
qed

definition stuck :: "nat platform" where
  "stuck = ticking\<lparr>p_read := (\<lambda>c a d. (0x100, d))\<rparr>"

lemma stuck_ok: "clock_ok stuck id 1"
    "\<forall>d. fst (p_read stuck c a d) AND SPI_OCORES_CTRL_BUSY \<noteq> 0"
  by (simp_all add: clock_ok_def stuck_def ticking_def)

lemma spi_polled_message_witness:
  "\<exists>sp' w'. spi_ocores_transfer_one_message ticking LittleEndian (demo_spi 1) \<lparr>dev = 0, trace = []\<rparr> = Some (Inr (0, sp', w'))"
  using spi_polled_message [OF demo_spi_ok(1,2) _ ticking_clock, of 1] by (fastforce simp: demo_spi_ok(3))

lemma spi_interrupt_message_witness:
  "\<exists>sp1 w1. spi_ocores_transfer_one_message ticking BigEndian (demo_spi 0) \<lparr>dev = 0, trace = []\<rparr> = Some (Inr (0, sp1, w1))"
  using spi_interrupt_message [OF demo_spi_ok(1,2), of 0] by (fastforce simp: demo_spi_ok(3))

lemma spi_stuck_controller_witness:
  "\<exists>sp' w'. spi_ocores_transfer_one_message stuck LittleEndian (demo_spi 1) \<lparr>dev = 0, trace = []\<rparr> = Some (Inr (0, sp', w'))
    \<and> cur_xfer sp' \<noteq> None"
  using spi_stuck_controller [OF demo_spi_ok(1,2) _ stuck_ok(1) stuck_ok(2), of 1] by (fastforce simp: demo_spi_ok(3))

end
