(* ===== verification/Spi_Core.thy ===== *)
theory Spi_Core
  imports Spi_Order Spi_Transfer
begin

text \<open>
  The SPI core behind the registers (\<open>spi_top.v\<close>, \<open>spi_shift.v\<close>), one step per bus access, with any
  number of bits shifted in between. There is one data register of 128 bits: what is written to the
  transmit registers goes out of it while what comes in takes its place, and the receive registers
  read it. The model is of a core with 128 bits and eight chip selects that drives and samples its
  lines on opposite clock edges, as the driver sets it up; the divider and the polarity only matter
  for the timing and are kept as registers.
\<close>

unbundle bit_operations_syntax

section \<open>The core\<close>

text \<open>
  \<open>k_left\<close> is the number of bits to go, 0 at rest; the go bit of the control register reads as a word
  being shifted and is not part of \<open>k_ctrl\<close>. \<open>k_line\<close> keeps the words of the line: for each bit of
  a word, in the order they are shifted, what the core sent and what it received.
\<close>

record spi_core =
  k_data :: "128 word"
  k_ctrl :: u32
  k_div :: u32
  k_ss :: u32
  k_left :: nat
  k_int :: bool
  k_line :: "(bool \<times> bool) list list"

definition char_len :: "u32 \<Rightarrow> nat" where
  "char_len k = (let n = unat (k AND 0x7F) in if n = 0 then 128 else n)"

definition lsb_first :: "u32 \<Rightarrow> bool" where
  "lsb_first k \<longleftrightarrow> bit k 11"

text \<open>The position in the data register of bit \<open>i\<close> of a word; \<open>slave f i\<close> is bit \<open>i\<close> of the answer to word \<open>f\<close>.\<close>

definition bit_pos :: "u32 \<Rightarrow> nat \<Rightarrow> nat" where
  "bit_pos k i = (if lsb_first k then i else char_len k - 1 - i)"

definition put_bit :: "nat \<Rightarrow> bool \<Rightarrow> 'a::len word \<Rightarrow> 'a word" where
  "put_bit n b x = (if b then Bit_Operations.set_bit n x else unset_bit n x)"

definition core_tick :: "(nat \<Rightarrow> nat \<Rightarrow> bool) \<Rightarrow> spi_core \<Rightarrow> spi_core" where
  "core_tick slave h =
     (if k_left h = 0 then h
      else let i = char_len (k_ctrl h) - k_left h;
               p = bit_pos (k_ctrl h) i;
               s = slave (length (k_line h) - 1) i
        in h\<lparr>k_data := put_bit p s (k_data h), k_left := k_left h - 1,
             k_line := butlast (k_line h) @ [last (k_line h) @ [(bit (k_data h) p, s)]],
             k_int := (k_int h \<or> k_left h = 1 \<and> bit (k_ctrl h) 12)\<rparr>)"

definition ticks :: "(nat \<Rightarrow> nat \<Rightarrow> bool) \<Rightarrow> nat \<Rightarrow> spi_core \<Rightarrow> spi_core" where
  "ticks slave n h = (core_tick slave ^^ n) h"

text \<open>Registers. An access acknowledges the interrupt; writes are ignored while a word is shifted.\<close>

definition data_reg :: "128 word \<Rightarrow> addr \<Rightarrow> u32" where
  "data_reg d off = ucast (drop_bit (8 * unat off) d)"

definition put_reg :: "128 word \<Rightarrow> addr \<Rightarrow> u32 \<Rightarrow> 128 word" where
  "put_reg d off v = (d AND NOT (push_bit (8 * unat off) (mask 32))) OR push_bit (8 * unat off) (ucast v)"

definition spi_core_read :: "addr \<Rightarrow> spi_core \<Rightarrow> u32" where
  "spi_core_read off h =
     (if off \<in> {0, 4, 8, 0xC} then data_reg (k_data h) off
      else if off = 0x10 then k_ctrl h OR (if k_left h > 0 then 0x100 else 0)
      else if off = 0x14 then k_div h
      else if off = 0x18 then k_ss h
      else 0)"

definition spi_core_write :: "addr \<Rightarrow> u32 \<Rightarrow> spi_core \<Rightarrow> spi_core" where
  "spi_core_write off v h =
     (if k_left h > 0 then h
      else if off \<in> {0, 4, 8, 0xC} then h\<lparr>k_data := put_reg (k_data h) off v\<rparr>
      else if off = 0x10 then
        (let h = h\<lparr>k_ctrl := v AND 0x3EFF\<rparr>
         in if bit v 8 then h\<lparr>k_left := char_len v, k_line := k_line h @ [[]]\<rparr> else h)
      else if off = 0x14 then h\<lparr>k_div := v AND 0xFFFF\<rparr>
      else if off = 0x18 then h\<lparr>k_ss := v AND 0xFF\<rparr>
      else h)"

definition acked :: "spi_core \<Rightarrow> spi_core" where
  "acked h = h\<lparr>k_int := False\<rparr>"

text \<open>
  The core at an address, on a bus of a byte order. \<open>pace n\<close> bits are shifted before access \<open>n\<close>; the
  clock counts the accesses to the core and to the clock itself.
\<close>

type_synonym spi_dev = "spi_core \<times> nat"

definition spi_at :: "io_acc \<Rightarrow> addr \<Rightarrow> (nat \<Rightarrow> nat \<Rightarrow> bool) \<Rightarrow> (nat \<Rightarrow> nat) \<Rightarrow> spi_dev platform" where
  "spi_at bus base slave pace = \<lparr>
     p_read = (\<lambda>c a (h, n). let h = ticks slave (pace n) h
       in (on_bus bus c (spi_core_read (a - base) h), acked h, Suc n)),
     p_write = (\<lambda>c a v (h, n). let h = ticks slave (pace n) h
       in (spi_core_write (a - base) (on_bus bus c v) (acked h), Suc n)),
     p_jiffies = (\<lambda>(h, n). (of_nat (Suc n), h, Suc n)),
     p_msecs = (\<lambda>n. of_nat n)\<rparr>"

lemma spi_at_clock: "clock_ok (spi_at bus base slave pace) snd 1"
  by (auto simp: clock_ok_def spi_at_def Let_def)

section \<open>One word\<close>

text \<open>The first \<open>n\<close> bits of word \<open>f\<close>, shifted from the data \<open>D\<close> with the control register \<open>k\<close>.\<close>

definition frame_bits :: "(nat \<Rightarrow> nat \<Rightarrow> bool) \<Rightarrow> u32 \<Rightarrow> nat \<Rightarrow> 128 word \<Rightarrow> nat \<Rightarrow> (bool \<times> bool) list" where
  "frame_bits slave k f D n = map (\<lambda>i. (bit D (bit_pos k i), slave f i)) [0..<n]"

fun shifted :: "(nat \<Rightarrow> nat \<Rightarrow> bool) \<Rightarrow> u32 \<Rightarrow> nat \<Rightarrow> 128 word \<Rightarrow> nat \<Rightarrow> 128 word" where
  "shifted slave k f D 0 = D"
| "shifted slave k f D (Suc n) = put_bit (bit_pos k n) (slave f n) (shifted slave k f D n)"

abbreviation whole_frame :: "(nat \<Rightarrow> nat \<Rightarrow> bool) \<Rightarrow> u32 \<Rightarrow> nat \<Rightarrow> 128 word \<Rightarrow> (bool \<times> bool) list" where
  "whole_frame slave k f D \<equiv> frame_bits slave k f D (char_len k)"

abbreviation received :: "(nat \<Rightarrow> nat \<Rightarrow> bool) \<Rightarrow> u32 \<Rightarrow> nat \<Rightarrow> 128 word \<Rightarrow> 128 word" where
  "received slave k f D \<equiv> shifted slave k f D (char_len k)"

lemma char_len_bounds: "0 < char_len k" "char_len k \<le> 128"
proof -
  have "unat (k AND 0x7F) \<le> unat (0x7F :: u32)"
    using word_and_le1 [of k "0x7F"] by (simp only: word_le_nat_alt)
  then show "0 < char_len k" "char_len k \<le> 128"
    by (simp_all add: char_len_def Let_def)
qed

lemma bit_put_bit: "bit (put_bit n b (x :: 'a::len word)) m \<longleftrightarrow> (if m = n \<and> n < LENGTH('a) then b else bit x m)"
  by (auto simp: put_bit_def bit_simps dest: bit_imp_le_length)

lemma bit_pos_bounds: "i < char_len k \<Longrightarrow> bit_pos k i < 128"
  using char_len_bounds [of k] by (auto simp: bit_pos_def)

lemma bit_pos_inj: "i < char_len k \<Longrightarrow> j < char_len k \<Longrightarrow> bit_pos k i = bit_pos k j \<longleftrightarrow> i = j"
  by (auto simp: bit_pos_def)

lemma bit_shifted_later:
  "n \<le> i \<Longrightarrow> i < char_len k \<Longrightarrow> bit (shifted slave k f D n) (bit_pos k i) = bit D (bit_pos k i)"
  by (induction n) (auto simp: bit_put_bit bit_pos_inj)

lemma bit_shifted_before:
  "n \<le> char_len k \<Longrightarrow> i < n \<Longrightarrow> bit (shifted slave k f D n) (bit_pos k i) = slave f i"
proof (induction n)
  case (Suc n)
  then show ?case
    using bit_pos_bounds [of n k] by (auto simp: bit_put_bit bit_pos_inj less_Suc_eq)
qed simp

text \<open>A word on its way: what is on the line and in the data register.\<close>

definition in_word :: "(nat \<Rightarrow> nat \<Rightarrow> bool) \<Rightarrow> u32 \<Rightarrow> 128 word \<Rightarrow> (bool \<times> bool) list list \<Rightarrow> spi_core \<Rightarrow> bool" where
  "in_word slave k D L h \<longleftrightarrow> k_ctrl h = k \<and> k_left h \<le> char_len k
     \<and> k_line h = L @ [frame_bits slave k (length L) D (char_len k - k_left h)]
     \<and> k_data h = shifted slave k (length L) D (char_len k - k_left h)"

lemma in_word_tick:
  assumes "in_word slave k D L h"
  shows "in_word slave k D L (core_tick slave h)"
proof (cases "k_left h = 0")
  case False
  let ?i = "char_len k - k_left h"
  have i: "?i < char_len k" "char_len k - (k_left h - 1) = Suc ?i"
    using False assms by (auto simp: in_word_def)
  then show ?thesis
    using assms False bit_shifted_later [of ?i ?i k slave "length L" D]
    by (auto simp: in_word_def core_tick_def Let_def frame_bits_def)
qed (use assms in \<open>simp add: core_tick_def\<close>)

lemma ticks_simps [simp]:
  "ticks slave 0 h = h" "ticks slave (Suc n) h = core_tick slave (ticks slave n h)"
  "ticks slave m (ticks slave n h) = ticks slave (m + n) h"
  by (simp_all add: ticks_def funpow_add)

lemma in_word_ticks: "in_word slave k D L h \<Longrightarrow> in_word slave k D L (ticks slave n h)"
  by (induction n) (simp_all add: in_word_tick)

lemma in_word_done:
  assumes "in_word slave k D L h" "k_left h = 0"
  shows "k_line h = L @ [whole_frame slave k (length L) D]" "k_data h = received slave k (length L) D"
  using assms by (simp_all add: in_word_def)

lemma tick_fields:
  "k_left h = 0 \<Longrightarrow> core_tick slave h = h" "k_left (core_tick slave h) = k_left h - 1" "k_ctrl (core_tick slave h) = k_ctrl h"
  "k_int h \<Longrightarrow> k_int (core_tick slave h)" "k_left h = 1 \<Longrightarrow> bit (k_ctrl h) 12 \<Longrightarrow> k_int (core_tick slave h)"
  by (auto simp: core_tick_def Let_def)

lemma ticks_rest: "k_left h = 0 \<Longrightarrow> ticks slave n h = h"
  by (induction n) (simp_all add: tick_fields)

lemma ticks_left: "k_left (ticks slave n h) = k_left h - n" "k_ctrl (ticks slave n h) = k_ctrl h"
  by (induction n) (simp_all add: tick_fields)

text \<open>The end of a word raises the interrupt, if it is enabled.\<close>

lemma ticks_int:
  assumes "0 < k_left h" "bit (k_ctrl h) 12"
  shows "k_left h \<le> n \<Longrightarrow> k_int (ticks slave n h)"
proof (induction n)
  case (Suc n)
  let ?h = "ticks slave n h"
  have "core_tick slave ?h = ticks slave (Suc n) h"
    by simp
  moreover have "k_left ?h = 1" "bit (k_ctrl ?h) 12" if "\<not> k_left h \<le> n"
    using that Suc.prems assms by (auto simp: ticks_left)
  ultimately show ?case
    using tick_fields(4,5) [of ?h slave] Suc.IH by metis
qed (use assms in simp)

section \<open>Accesses\<close>

text \<open>
  A stretch of a trace on the core: what the accesses read is what the core gives, and any number of
  bits is shifted in between.
\<close>

fun core_ev :: "io_acc \<Rightarrow> addr \<Rightarrow> spi_call event \<Rightarrow> spi_core \<Rightarrow> spi_core \<Rightarrow> bool" where
  "core_ev bus mem (EvRead c a v) h h' \<longleftrightarrow> c = bus \<and> v = spi_core_read (a - mem) h \<and> h' = acked h"
| "core_ev bus mem (EvWrite c a v) h h' \<longleftrightarrow> c = bus \<and> h' = spi_core_write (a - mem) v (acked h)"
| "core_ev bus mem (EvCall k) h h' \<longleftrightarrow> h' = h"

fun core_run :: "io_acc \<Rightarrow> addr \<Rightarrow> (nat \<Rightarrow> nat \<Rightarrow> bool) \<Rightarrow> spi_call event list \<Rightarrow> spi_core \<Rightarrow> spi_core \<Rightarrow> bool" where
  "core_run bus mem slave [] h h' \<longleftrightarrow> (\<exists>n. h' = ticks slave n h)"
| "core_run bus mem slave (e # es) h h' \<longleftrightarrow>
     (\<exists>n h1. core_ev bus mem e (ticks slave n h) h1 \<and> core_run bus mem slave es h1 h')"

lemma run_ticks: "core_run bus mem slave es (ticks slave n h) h' \<Longrightarrow> core_run bus mem slave es h h'"
  by (cases es) auto

lemma run_refl: "core_run bus mem slave [] h h"
  by (simp add: exI [of _ 0])

lemma run_append:
  "core_run bus mem slave (es @ fs) h h' \<longleftrightarrow> (\<exists>h1. core_run bus mem slave es h h1 \<and> core_run bus mem slave fs h1 h')"
proof (induction es arbitrary: h)
  case Nil
  show ?case
    using run_ticks [of bus mem slave fs _ h h'] run_refl [of bus mem slave h] by auto
qed auto

lemma run_one: "core_ev bus mem e (ticks slave n h) h' \<Longrightarrow> core_run bus mem slave [e] h h'"
  using run_refl [of bus mem slave h'] by auto

section \<open>At rest\<close>

lemma bus_broken [simp]: "fold (bus_step mem) es Broken = Broken"
proof (induction es)
  case (Cons e es)
  then show ?case
    by (cases e) auto
qed simp

lemma bus_prefix: "fold (bus_step mem) (es @ fs) s \<noteq> Broken \<Longrightarrow> fold (bus_step mem) es s \<noteq> Broken"
  by auto

lemma off_mem: "(mem :: addr) + x - mem = x" "a - mem = x \<longleftrightarrow> a = mem + (x :: addr)"
  by (auto simp: algebra_simps)

lemma go_bit: "v AND SPI_OCORES_CTRL_GO \<noteq> 0 \<longleftrightarrow> bit (v :: u32) 8"
  using and_exp_eq_0_iff_not_bit [of v 8] by simp

lemma core_read_ctrl: "spi_core_read 0x10 h = k_ctrl h OR (if k_left h > 0 then 0x100 else 0)"
  by (simp add: spi_core_read_def)

lemma core_read_busy: "spi_core_read 0x10 h AND SPI_OCORES_CTRL_BUSY = 0 \<Longrightarrow> k_left h = 0"
  using go_bit [of "spi_core_read 0x10 h"] by (auto simp: core_read_ctrl bit_simps split: if_splits)

text \<open>What the driver takes for rest is rest.\<close>

lemma ev_rest:
  assumes "core_ev bus mem e h h'" "bus_step mem e s \<noteq> Broken" "s = Resting \<longrightarrow> k_left h = 0" "bus_step mem e s = Resting"
  shows "k_left h' = 0"
proof (cases e)
  case (EvRead c a v)
  then show ?thesis
    using assms core_read_busy [of h] by (auto simp: acked_def off_mem split: if_splits)
next
  case (EvWrite c a v)
  then have "s = Resting" "\<not> (a - mem = 0x10 \<and> bit v 8)"
    using assms(2,4) go_bit [of v] by (auto simp: off_mem split: if_splits)
  then show ?thesis
    using assms(1,3) EvWrite by (auto simp: spi_core_write_def acked_def Let_def)
qed (use assms in simp)

lemma run_rest:
  assumes "core_run bus mem slave es h h'" "fold (bus_step mem) es s \<noteq> Broken" "s = Resting \<longrightarrow> k_left h = 0"
  shows "fold (bus_step mem) es s = Resting \<longrightarrow> k_left h' = 0"
  using assms
proof (induction es arbitrary: h s)
  case Nil
  then show ?case
    by (auto simp: ticks_left)
next
  case (Cons e es)
  obtain n h1 where r: "core_ev bus mem e (ticks slave n h) h1" "core_run bus mem slave es h1 h'"
    using Cons.prems(1) by auto
  have "bus_step mem e s \<noteq> Broken"
    using Cons.prems(2) by auto
  moreover have "s = Resting \<longrightarrow> k_left (ticks slave n h) = 0"
    using Cons.prems(3) by (simp add: ticks_left)
  ultimately have "bus_step mem e s = Resting \<longrightarrow> k_left h1 = 0"
    using ev_rest [OF r(1)] by blast
  then show ?case
    using Cons.IH [OF r(2)] Cons.prems(2) by simp
qed

text \<open>What matters of a core for the words: all but the interrupt, the divider and the chip selects.\<close>

definition same_word :: "spi_core \<Rightarrow> spi_core \<Rightarrow> bool" where
  "same_word h h' \<longleftrightarrow> k_data h' = k_data h \<and> k_ctrl h' = k_ctrl h \<and> k_left h' = k_left h \<and> k_line h' = k_line h"

definition at_rest :: "u32 \<Rightarrow> 128 word \<Rightarrow> (bool \<times> bool) list list \<Rightarrow> spi_core \<Rightarrow> bool" where
  "at_rest k D L h \<longleftrightarrow> k_ctrl h = k \<and> k_left h = 0 \<and> k_data h = D \<and> k_line h = L"

lemma same_word_tick: "same_word a b \<Longrightarrow> same_word (ticks slave n a) (ticks slave n b)"
  by (induction n) (auto simp: same_word_def core_tick_def Let_def)

lemma same_word_kept:
  "same_word h h' \<Longrightarrow> in_word slave k D L h \<Longrightarrow> in_word slave k D L h'"
  "same_word h h' \<Longrightarrow> at_rest k D L h \<Longrightarrow> at_rest k D L h'"
  by (simp_all add: same_word_def in_word_def at_rest_def)

lemma at_rest_ticks: "at_rest k D L h \<Longrightarrow> at_rest k D L (ticks slave n h)"
  by (simp add: at_rest_def ticks_rest)

lemma still_ev_same:
  assumes "core_ev bus mem e h h'" "still_ev mem e"
  shows "same_word h h'"
  using assms by (cases e) (auto simp: same_word_def acked_def spi_core_write_def off_mem)

lemma still_run:
  assumes "core_run bus mem slave es h h'" "list_all (still_ev mem) es"
  shows "\<exists>n. same_word (ticks slave n h) h'"
  using assms
proof (induction es arbitrary: h)
  case Nil
  then show ?case
    by (auto simp: same_word_def)
next
  case (Cons e es)
  then obtain n h1 m where "same_word (ticks slave n h) h1" "same_word (ticks slave m h1) h'"
    using still_ev_same by fastforce
  then have "same_word (ticks slave m (ticks slave n h)) h'"
    using same_word_tick [of "ticks slave n h" h1 slave m] by (simp add: same_word_def)
  then show ?case
    unfolding ticks_simps by blast
qed

lemma still_kept:
  assumes "core_run bus mem slave es h h'" "list_all (still_ev mem) es"
  shows "in_word slave k D L h \<Longrightarrow> in_word slave k D L h'" "at_rest k D L h \<Longrightarrow> at_rest k D L h'"
proof -
  obtain n where n: "same_word (ticks slave n h) h'"
    using still_run [OF assms] by blast
  show "in_word slave k D L h \<Longrightarrow> in_word slave k D L h'"
    by (rule same_word_kept(1) [OF n in_word_ticks])
  show "at_rest k D L h \<Longrightarrow> at_rest k D L h'"
    by (rule same_word_kept(2) [OF n at_rest_ticks])
qed

text \<open>One access to a core at rest.\<close>

lemma rest_step:
  assumes "core_run bus mem slave (e # es) h h'" "at_rest k D L h"
  shows "\<exists>h1 h2. at_rest k D L h1 \<and> core_ev bus mem e h1 h2 \<and> core_run bus mem slave es h2 h'"
proof -
  obtain n h2 where "core_ev bus mem e (ticks slave n h) h2" "core_run bus mem slave es h2 h'"
    using assms(1) by auto
  then show ?thesis
    using at_rest_ticks [OF assms(2)] by blast
qed

lemma rest_end: "core_run bus mem slave [] h h' \<Longrightarrow> at_rest k D L h \<Longrightarrow> at_rest k D L h'"
  using at_rest_ticks by auto

lemma rest_ev:
  assumes "at_rest k D L h" "core_ev bus mem e h h'"
  shows "e = EvCall c \<Longrightarrow> at_rest k D L h'" "e = EvRead a b v \<Longrightarrow> at_rest k D L h'"
    "e = EvWrite a (mem + 0x14) v \<Longrightarrow> at_rest k D L h'" "e = EvWrite a (mem + 0x18) v \<Longrightarrow> at_rest k D L h'"
    "e = EvWrite a (mem + 0x10) v \<Longrightarrow> \<not> bit v 8 \<Longrightarrow> at_rest (v AND 0x3EFF) D L h'"
    "e = EvWrite a (mem + off) v \<Longrightarrow> off \<in> {0, 4, 8, 0xC} \<Longrightarrow> at_rest k (put_reg D off v) L h'"
    "e = EvRead a (mem + off) v \<Longrightarrow> off \<in> {0, 4, 8, 0xC} \<Longrightarrow> v = data_reg D off"
    "e = EvRead a (mem + 0x10) v \<Longrightarrow> v = k"
  using assms by (auto simp: at_rest_def acked_def spi_core_write_def spi_core_read_def off_mem)

section \<open>The pieces of a transfer on the core\<close>

lemma run_config:
  assumes "core_run bus mem slave (map EvCall ks @ [EvWrite c (mem + ucast SPI_OCORES_CTRL) k, EvWrite c (mem + ucast SPI_OCORES_DIV) d]) h h'"
    "k_left h = 0" "\<not> bit k 8"
  shows "at_rest (k AND 0x3EFF) (k_data h) (k_line h) h'"
proof -
  have "core_run bus mem slave (map EvCall ks @ es) h h' \<Longrightarrow> at_rest j D L h
    \<Longrightarrow> \<exists>h1. at_rest j D L h1 \<and> core_run bus mem slave es h1 h'" for es j D L h
  proof (induction ks arbitrary: h)
    case (Cons a ks)
    have "core_run bus mem slave (EvCall a # map EvCall ks @ es) h h'"
      using Cons.prems(1) by simp
    from rest_step [OF this Cons.prems(2)] obtain h1 h2 where "at_rest j D L h1" "core_ev bus mem (EvCall a) h1 h2"
      "core_run bus mem slave (map EvCall ks @ es) h2 h'"
      by blast
    then show ?case
      using rest_ev(1) Cons.IH by blast
  qed auto
  moreover have "at_rest (k_ctrl h) (k_data h) (k_line h) h"
    using assms(2) by (simp add: at_rest_def)
  ultimately obtain h1 where h1: "at_rest (k_ctrl h) (k_data h) (k_line h) h1"
    "core_run bus mem slave [EvWrite c (mem + 0x10) k, EvWrite c (mem + 0x14) d] h1 h'"
    using assms(1) by (simp del: core_run.simps) blast
  from rest_step [OF h1(2,1)] obtain h2 h3 where h2: "at_rest (k_ctrl h) (k_data h) (k_line h) h2"
    "core_ev bus mem (EvWrite c (mem + 0x10) k) h2 h3" "core_run bus mem slave [EvWrite c (mem + 0x14) d] h3 h'"
    by blast
  note h3 = rest_ev(5) [OF h2(1,2) refl assms(3)]
  from rest_step [OF h2(3) h3] obtain h4 h5 where h4: "at_rest (k AND 0x3EFF) (k_data h) (k_line h) h4"
    "core_ev bus mem (EvWrite c (mem + 0x14) d) h4 h5" "core_run bus mem slave [] h5 h'"
    by blast
  then show ?thesis
    using rest_end rest_ev(3) [OF h4(1,2) refl] by blast
qed

text \<open>A word that is written to the registers is in the data register.\<close>

lemma run_writes:
  fixes ws :: "(u32 \<times> u32) list"
  assumes "core_run bus mem slave (map (\<lambda>(r, v). EvWrite c (mem + ucast r) v) ws) h h'" "at_rest k D L h"
    "\<forall>(r, v) \<in> set ws. r \<in> {0, 4, 8, 0xC}"
  shows "at_rest k (fold (\<lambda>(r, v) d. put_reg d (ucast r) v) ws D) L h'"
  using assms
proof (induction ws arbitrary: h D)
  case Nil
  then show ?case
    using rest_end by (simp del: core_run.simps)
next
  case (Cons x ws)
  obtain r v where x: "x = (r, v)"
    by fastforce
  obtain h1 h2 where h: "at_rest k D L h1" "core_ev bus mem (EvWrite c (mem + ucast r) v) h1 h2"
    "core_run bus mem slave (map (\<lambda>(r, v). EvWrite c (mem + ucast r) v) ws) h2 h'"
    using rest_step [of bus mem slave "EvWrite c (mem + ucast r) v" _ h h' k D L] Cons.prems(1,2) x
    by (auto simp del: core_run.simps)
  have "(ucast r :: addr) \<in> {0, 4, 8, 0xC}"
    using Cons.prems(3) x by auto
  from rest_ev(6) [OF h(1,2) refl this] show ?case
    using Cons.IH [OF h(3)] Cons.prems(3) x by simp
qed

lemma bit_put_reg:
  "bit (put_reg d off v) p \<longleftrightarrow> (if 8 * unat off \<le> p \<and> p < 8 * unat off + 32 \<and> p < 128 then bit v (p - 8 * unat off) else bit d p)"
  by (auto simp: put_reg_def bit_simps dest: bit_imp_le_length)

lemma bit_be_word:
  "bit (be_word bs :: 'a::len word) p \<longleftrightarrow> p < LENGTH('a) \<and> p < 8 * length bs \<and> bit (bs ! (length bs - 1 - p div 8)) (p mod 8)"
  by (auto simp: be_word_def bit_le_word rev_nth div_less_iff_less_mult mult.commute)

lemma be_word_chunk:
  assumes "length bs = n" "4 * (i + 1) \<le> n" "32 * i \<le> p" "p < 32 * i + 32" "p < LENGTH('a)"
  shows "bit (be_word (take 4 (drop (n - 4 * (i + 1)) bs)) :: u32) (p - 32 * i) = bit (be_word bs :: 'a::len word) p"
proof -
  obtain m where m: "p = 32 * i + m" "m < 32"
    using assms(3,4) le_Suc_ex by (metis add_less_cancel_left)
  have e: "32 * i + m = m + 4 * i * 8"
    by simp
  have q: "(32 * i + m) div 8 = 4 * i + m div 8" "(32 * i + m) mod 8 = m mod 8" "m div 8 < 4"
    unfolding e using m(2) div_mult_self1 [of 8 m "4 * i"] mod_mult_self1 [of m "4 * i" 8]
    by (simp_all only: div_less_iff_less_mult)
  have n: "n - 4 * (i + 1) + (3 - m div 8) = n - 1 - (4 * i + m div 8)"
  proof -
    obtain d where d: "n = 4 * (i + 1) + d"
      using assms(2) le_Suc_ex by blast
    have "m div 8 \<le> 3"
      using q(3) by simp
    then obtain e where "3 = m div 8 + e"
      using le_Suc_ex by blast
    then show ?thesis
      unfolding d by simp
  qed
  have l: "32 * i + m < 8 * n"
    using mult_le_mono2 [OF assms(2), of 8] m(2) by simp
  have "(take 4 (drop (n - 4 * (i + 1)) bs)) ! (3 - m div 8) = bs ! (n - 1 - (4 * i + m div 8))"
    using n assms(1,2) by simp
  then show ?thesis
    using assms m l q by (simp add: bit_be_word)
qed

lemma be_bytes_cong:
  assumes "\<And>p. p < 8 * n \<Longrightarrow> bit (a :: 'a::len word) p = bit (b :: 'b::len word) p"
  shows "be_bytes n a = be_bytes n b"
proof -
  have "(ucast (drop_bit (8 * k) a) :: u8) = ucast (drop_bit (8 * k) b)" if "k < n" for k
    using assms that by (intro bit_word_eqI) (simp add: bit_simps)
  then show ?thesis
    by (simp add: be_bytes_def le_bytes_def)
qed

lemma written_word:
  assumes "length bs = wbytes f"
  shows "be_bytes (wbytes f) (fold (\<lambda>(r, v) d. put_reg d (ucast r) v) (word_writes f bs) D) = bs"
proof -
  let ?D = "fold (\<lambda>(r, v) d. put_reg d (ucast r) v) (word_writes f bs) D"
  note c = be_word_chunk [OF assms, where 'a = 128, simplified]
  have "bit ?D p = bit (be_word bs :: 128 word) p" if p: "p < 8 * wbytes f" for p
  proof (cases "f \<in> {Word64, Word128}")
    case False
    then show ?thesis
      using assms p by (cases f) (auto simp: word_writes_def bit_put_reg wbytes_def bit_be_word)
  next
    case True
    have "p < 32 \<or> 32 \<le> p \<and> p < 64 \<or> 64 \<le> p \<and> p < 96 \<or> 96 \<le> p"
      by linarith
    then show ?thesis
      using True p c [of 0 p] c [of 1 p] c [of 2 p] c [of 3 p]
      by (auto simp: word_writes_def bit_put_reg wbytes_def assms)
  qed
  then have "be_bytes (wbytes f) ?D = be_bytes (wbytes f) (be_word bs :: 128 word)"
    by (rule be_bytes_cong)
  also have "\<dots> = bs"
    using be_bytes_be_word [of bs, where 'a = 128] wbytes_bounds(2) [of f] assms by simp
  finally show ?thesis .
qed

lemma run_push:
  assumes "core_run bus mem slave (push_evs c mem f bs) h h'" "at_rest k D L h" "length bs = wbytes f"
  shows "\<exists>D'. at_rest k D' L h' \<and> be_bytes (wbytes f) D' = bs"
proof -
  have "\<forall>(r, v) \<in> set (word_writes f bs). r \<in> {0, 4, 8, 0xC}"
    by (cases f) (simp_all add: word_writes_def)
  from run_writes [OF assms(1) [unfolded push_evs_def] assms(2) this] show ?thesis
    using written_word [OF assms(3)] by blast
qed

lemma ctrl_go:
  fixes k :: u32
  assumes "k AND 0x3EFF = k"
  shows "(k OR 0x100) AND 0x3EFF = k" "char_len (k OR 0x100) = char_len k"
proof -
  have "(0x100 AND 0x3EFF :: u32) = 0" "(0x100 AND 0x7F :: u32) = 0"
    by simp_all
  then show "(k OR 0x100) AND 0x3EFF = k" "char_len (k OR 0x100) = char_len k"
    using assms by (simp_all add: bit.conj_disj_distrib2 char_len_def)
qed

text \<open>The go command: the word in the data register goes out.\<close>

lemma run_go:
  assumes "core_run bus mem slave (go_evs rc wc mem s s' v) h h'" "at_rest k D L h" "k AND 0x3EFF = k"
  shows "in_word slave k D L h'"
proof -
  have "core_run bus mem slave (EvRead rc (mem + 0x18) s # EvWrite wc (mem + 0x18) s' # EvRead rc (mem + 0x10) v
      # [EvWrite wc (mem + 0x10) (v OR 0x100)]) h h'"
    using assms(1) by (simp add: go_evs_def del: core_run.simps)
  from rest_step [OF this assms(2)] obtain h1 h2 where h: "at_rest k D L h1" "core_ev bus mem (EvRead rc (mem + 0x18) s) h1 h2"
    "core_run bus mem slave (EvWrite wc (mem + 0x18) s' # EvRead rc (mem + 0x10) v # [EvWrite wc (mem + 0x10) (v OR 0x100)]) h2 h'"
    by blast
  from rest_step [OF h(3) rest_ev(2) [OF h(1,2) refl]] obtain h3 h4 where i: "at_rest k D L h3"
    "core_ev bus mem (EvWrite wc (mem + 0x18) s') h3 h4"
    "core_run bus mem slave (EvRead rc (mem + 0x10) v # [EvWrite wc (mem + 0x10) (v OR 0x100)]) h4 h'"
    by blast
  from rest_step [OF i(3) rest_ev(4) [OF i(1,2) refl]] obtain h5 h6 where j: "at_rest k D L h5"
    "core_ev bus mem (EvRead rc (mem + 0x10) v) h5 h6" "core_run bus mem slave [EvWrite wc (mem + 0x10) (v OR 0x100)] h6 h'"
    by blast
  have v: "v = k"
    by (rule rest_ev(8) [OF j(1,2) refl])
  from rest_step [OF j(3) rest_ev(2) [OF j(1,2) refl]] obtain h7 h8 where l: "at_rest k D L h7"
    "core_ev bus mem (EvWrite wc (mem + 0x10) (k OR 0x100)) h7 h8" "core_run bus mem slave [] h8 h'"
    unfolding v by blast
  have "bit (k OR 0x100) 8"
    by (simp add: bit_simps)
  then have "h8 = acked h7\<lparr>k_ctrl := k, k_left := char_len k, k_line := L @ [[]]\<rparr>"
    using l(1,2) ctrl_go [OF assms(3)] by (auto simp: off_mem spi_core_write_def at_rest_def acked_def Let_def)
  then have "in_word slave k D L h8"
    using l(1) by (simp add: in_word_def frame_bits_def acked_def at_rest_def)
  then show ?thesis
    using l(3) in_word_ticks by auto
qed

lemma run_reads:
  assumes "core_run bus mem slave (map (\<lambda>(r, v). EvRead c (tx_addr mem r) v) (zip rs vs)) h h'" "at_rest k D L h"
    "length vs = length rs" "set rs \<subseteq> {0, 1, 2, 3}"
  shows "at_rest k D L h' \<and> vs = map (\<lambda>r. data_reg D (ucast (SPI_OCORES_RX r))) rs"
  using assms
proof (induction rs arbitrary: h vs)
  case Nil
  then show ?case
    using rest_end by (simp del: core_run.simps)
next
  case (Cons r rs)
  then obtain v vs' where v: "vs = v # vs'"
    by (cases vs) auto
  obtain h1 h2 where h: "at_rest k D L h1" "core_ev bus mem (EvRead c (mem + ucast (r * 4)) v) h1 h2"
    "core_run bus mem slave (map (\<lambda>(r, v). EvRead c (tx_addr mem r) v) (zip rs vs')) h2 h'"
    using rest_step [of bus mem slave "EvRead c (mem + ucast (r * 4)) v" _ h h' k D L] Cons.prems(1,2) v
    by (auto simp: tx_addr_def simp del: core_run.simps)
  have "(ucast (r * 4) :: addr) \<in> {0, 4, 8, 0xC}"
    using Cons.prems(4) by auto
  then show ?case
    using rest_ev(7) [OF h(1,2) refl] Cons.IH [OF h(3) rest_ev(2) [OF h(1,2) refl]] Cons.prems(3,4) v by simp
qed

lemma run_pop:
  assumes "core_run bus mem slave (pop_evs c mem f vs) h h'" "at_rest k D L h" "length vs = length (wire_regs f)"
  shows "at_rest k D L h'" "stored_bytes f vs = concat (map (\<lambda>r. be_bytes (min 4 (wbytes f)) (data_reg D (ucast (SPI_OCORES_RX r)))) (mem_regs f))"
proof -
  have "set (wire_regs f) \<subseteq> {0, 1, 2, 3}"
    by (cases f) (auto simp: wire_regs_def)
  note r = run_reads [OF assms(1) [unfolded pop_evs_def] assms(2,3) this]
  show "at_rest k D L h'"
    using r by blast
  show "stored_bytes f vs = concat (map (\<lambda>r. be_bytes (min 4 (wbytes f)) (data_reg D (ucast (SPI_OCORES_RX r)))) (mem_regs f))"
    using conjunct2 [OF r] by (cases f) (simp_all add: stored_bytes_def wire_regs_def mem_regs_def)
qed

lemma be_bytes_split: "be_bytes (m + n) v = be_bytes m (drop_bit (8 * n) v) @ be_bytes n v"
proof -
  have "map (\<lambda>k. ucast (drop_bit (8 * k) v) :: u8) [n..<n + m] = map (\<lambda>k. ucast (drop_bit (8 * k) (drop_bit (8 * n) v))) [0..<m]"
    by (rule nth_equalityI) (simp_all add: algebra_simps)
  then have "le_bytes (n + m) v = le_bytes n v @ le_bytes m (drop_bit (8 * n) v)"
    by (simp add: le_bytes_def upt_add_eq_append [of 0 n m, simplified])
  then show ?thesis
    by (simp add: be_bytes_def add.commute)
qed

lemma data_reg_bytes:
  "concat (map (\<lambda>r. be_bytes (min 4 (wbytes f)) (data_reg D (ucast (SPI_OCORES_RX r)))) (mem_regs f)) = mem_order f (be_bytes (wbytes f) D)"
proof -
  have r: "be_bytes n (data_reg D off) = be_bytes n (drop_bit (8 * unat off) D)" if "n \<le> 4" for n off
    using that by (intro be_bytes_cong) (auto simp: data_reg_def bit_simps)
  have s8: "be_bytes 8 E = be_bytes 4 (drop_bit 32 E) @ be_bytes 4 E" for E :: "128 word"
    using be_bytes_split [of 4 4 E] by simp
  have s16: "be_bytes 16 E = be_bytes 8 (drop_bit 64 E) @ be_bytes 8 E" for E :: "128 word"
    using be_bytes_split [of 8 8 E] by simp
  show ?thesis
    by (cases f) (simp_all add: mem_regs_def wire_regs_def wbytes_def mem_order_def swap_halves_def r s8 s16)
qed

end
