(* ===== verification/Spi_Line.thy ===== *)
theory Spi_Line
  imports Spi_Core Spi_Message
begin

text \<open>
  What the accesses of the SPI driver do on the line of the core: a transfer, a message, seen from
  the device at the other end of the wires.
\<close>

unbundle bit_operations_syntax

section \<open>The words of a transfer\<close>

text \<open>
  The data register at each go command is \<open>Ds\<close>: the words sent, if there is something to send, and
  what came in with the word before otherwise. \<open>f0\<close> words were on the line before.
\<close>

definition line_words :: "(nat \<Rightarrow> nat \<Rightarrow> bool) \<Rightarrow> u32 \<Rightarrow> nat \<Rightarrow> spi_wordfn \<Rightarrow> bool \<Rightarrow> u8 list list \<Rightarrow> 128 word list \<Rightarrow> bool" where
  "line_words slave k f0 f t bss Ds \<longleftrightarrow> length Ds = length bss
     \<and> (t \<longrightarrow> map (be_bytes (wbytes f)) Ds = bss)
     \<and> (\<not> t \<longrightarrow> (\<forall>i. Suc i < length Ds \<longrightarrow> Ds ! Suc i = received slave k (f0 + i) (Ds ! i)))"

definition frames :: "(nat \<Rightarrow> nat \<Rightarrow> bool) \<Rightarrow> u32 \<Rightarrow> nat \<Rightarrow> 128 word list \<Rightarrow> (bool \<times> bool) list list" where
  "frames slave k f0 Ds = map (\<lambda>i. whole_frame slave k (f0 + i) (Ds ! i)) [0..<length Ds]"

definition gots :: "(nat \<Rightarrow> nat \<Rightarrow> bool) \<Rightarrow> u32 \<Rightarrow> nat \<Rightarrow> 128 word list \<Rightarrow> 128 word list" where
  "gots slave k f0 Ds = map (\<lambda>i. received slave k (f0 + i) (Ds ! i)) [0..<length Ds]"

lemma frames_snoc:
  "frames slave k f0 [] = []" "frames slave k f0 (Ds @ [D]) = frames slave k f0 Ds @ [whole_frame slave k (f0 + length Ds) D]"
  "gots slave k f0 [] = []" "gots slave k f0 (Ds @ [D]) = gots slave k f0 Ds @ [received slave k (f0 + length Ds) D]"
  "length (frames slave k f0 Ds) = length Ds" "length (gots slave k f0 Ds) = length Ds"
  by (simp_all add: frames_def gots_def nth_append)

lemma line_words_snoc:
  assumes "line_words slave k f0 f t bss Ds" "t \<Longrightarrow> be_bytes (wbytes f) D = bs"
    "\<not> t \<Longrightarrow> Ds \<noteq> [] \<Longrightarrow> D = received slave k (f0 + (length Ds - 1)) (last Ds)"
  shows "line_words slave k f0 f t (bss @ [bs]) (Ds @ [D])"
proof -
  have "(Ds @ [D]) ! Suc i = received slave k (f0 + i) ((Ds @ [D]) ! i)" if "\<not> t" "Suc i < length (Ds @ [D])" for i
  proof (cases "Suc i < length Ds")
    case True
    then show ?thesis
      using assms(1) that by (simp add: line_words_def nth_append)
  next
    case False
    then have "Suc i = length Ds"
      using that(2) by simp
    then show ?thesis
      using assms(3) [OF that(1)] by (cases Ds rule: rev_cases) (auto simp: nth_append)
  qed
  then show ?thesis
    using assms(1,2) by (auto simp: line_words_def)
qed

lemma in_word_rest:
  "in_word slave k D L h \<Longrightarrow> k_left h = 0 \<Longrightarrow> at_rest k (received slave k (length L) D) (L @ [whole_frame slave k (length L) D]) h"
  "at_rest k (received slave k (length L) D) (L @ [whole_frame slave k (length L) D]) h \<Longrightarrow> in_word slave k D L h"
  by (simp_all add: in_word_def at_rest_def)

text \<open>Writing a word or reading one, the driver takes the controller to be at rest.\<close>

lemma word_needs_rest:
  "fold (bus_step mem) ((if t then push_evs wc mem f bs else []) @ go_evs rc wc mem s s' v) st \<noteq> Broken \<Longrightarrow> st = Resting"
proof (rule ccontr)
  assume "st \<noteq> Resting"
  moreover have "bus_step mem (EvRead rc (mem + 0x18) s) st = st"
    by simp
  ultimately have "fold (bus_step mem) (go_evs rc wc mem s s' v) st = Broken"
    by (simp add: go_evs_def del: bus_step.simps(2)) (simp add: go_evs_def)
  moreover have "fold (bus_step mem) (push_evs wc mem f bs) st = Broken"
    using \<open>st \<noteq> Resting\<close> by (cases f) (simp_all add: push_evs_def word_writes_def)
  ultimately have "fold (bus_step mem) ((if t then push_evs wc mem f bs else []) @ go_evs rc wc mem s s' v) st = Broken"
    by simp
  then show "fold (bus_step mem) ((if t then push_evs wc mem f bs else []) @ go_evs rc wc mem s s' v) st \<noteq> Broken \<Longrightarrow> False"
    by blast
qed

lemma pop_needs_rest:
  assumes "fold (bus_step mem) (pop_evs c mem f vs) st \<noteq> Broken" "length vs = length (wire_regs f)"
  shows "st = Resting"
proof (rule ccontr)
  assume "st \<noteq> Resting"
  then have "fold (bus_step mem) (pop_evs c mem f vs) st = Broken"
    using word_values [OF assms(2)] by (cases f) (auto simp: pop_evs_def wire_regs_def tx_addr_def)
  then show False
    using assms(1) by simp
qed

lemma accs_need_rest:
  "xfer_accs mem f t r k b es bss vss \<Longrightarrow> fold (bus_step mem) es st \<noteq> Broken \<Longrightarrow> st = Resting"
proof (induction rule: xfer_accs.induct)
  case (accs_config ks c d)
  have "fold (bus_step mem) (map EvCall ks) st = st"
    by (induction ks) simp_all
  then show ?case
    using accs_config.prems by (auto split: if_splits)
qed (metis bus_prefix)+

section \<open>A transfer on the core\<close>

definition xfer_sim :: "(nat \<Rightarrow> nat \<Rightarrow> bool) \<Rightarrow> u32 \<Rightarrow> spi_wordfn \<Rightarrow> bool \<Rightarrow> bool \<Rightarrow> u8 list list \<Rightarrow> u32 list list
    \<Rightarrow> (bool \<times> bool) list list \<Rightarrow> 128 word list \<Rightarrow> spi_core \<Rightarrow> bool" where
  "xfer_sim slave k f t r bss vss L Ds h \<longleftrightarrow> line_words slave k (length L) f t bss Ds
     \<and> (r \<longrightarrow> map (stored_bytes f) vss = map (\<lambda>E. mem_order f (be_bytes (wbytes f) E)) (take (length vss) (gots slave k (length L) Ds)))
     \<and> (if Ds = [] then \<exists>D. at_rest k D L h
        else in_word slave k (last Ds) (L @ frames slave k (length L) (butlast Ds)) h)"

lemma sim_rest:
  assumes "xfer_sim slave k f t r bss vss L Ds h" "k_left h = 0"
  shows "\<exists>D. at_rest k D (L @ frames slave k (length L) Ds) h \<and> (Ds \<noteq> [] \<longrightarrow> D = received slave k (length L + (length Ds - 1)) (last Ds))"
proof (cases Ds rule: rev_cases)
  case Nil
  then show ?thesis
    using assms by (auto simp: xfer_sim_def frames_snoc)
next
  case (snoc Es D)
  then have "in_word slave k D (L @ frames slave k (length L) Es) h"
    using assms(1) by (simp add: xfer_sim_def)
  from in_word_rest(1) [OF this assms(2)] show ?thesis
    using snoc by (auto simp: frames_snoc)
qed

lemma sim_word:
  assumes "xfer_sim slave k f t r bss vss L Ds h" "k_left h = 0" "length bs = wbytes f" "k AND 0x3EFF = k"
    "core_run bus mem slave ((if t then push_evs wc mem f bs else []) @ go_evs rc wc mem s s' v) h h'"
    "length vss = length bss"
  shows "\<exists>D. xfer_sim slave k f t r (bss @ [bs]) vss L (Ds @ [D]) h'"
proof -
  let ?L = "L @ frames slave k (length L) Ds"
  obtain D0 where D0: "at_rest k D0 ?L h" "Ds \<noteq> [] \<longrightarrow> D0 = received slave k (length L + (length Ds - 1)) (last Ds)"
    using sim_rest [OF assms(1,2)] by blast
  obtain h1 where h1: "core_run bus mem slave (if t then push_evs wc mem f bs else []) h h1"
    "core_run bus mem slave (go_evs rc wc mem s s' v) h1 h'"
    using assms(5) by (auto simp: run_append simp del: core_run.simps)
  obtain D where D: "at_rest k D ?L h1" "t \<Longrightarrow> be_bytes (wbytes f) D = bs" "\<not> t \<Longrightarrow> D = D0"
  proof (cases t)
    case True
    then show ?thesis
      using run_push [of bus mem slave wc f bs h h1, OF _ D0(1) assms(3)] h1(1) that by auto
  next
    case False
    then show ?thesis
      using rest_end [OF _ D0(1)] h1(1) that by (simp del: core_run.simps)
  qed
  have l: "length Ds = length bss" and w: "line_words slave k (length L) f t bss Ds"
    using assms(1) by (auto simp: xfer_sim_def line_words_def)
  have "line_words slave k (length L) f t (bss @ [bs]) (Ds @ [D])"
    using D(2,3) D0(2) by (intro line_words_snoc [OF w]) simp_all
  moreover have "in_word slave k D ?L h'"
    by (rule run_go [OF h1(2) D(1) assms(4)])
  ultimately show ?thesis
    using assms(1,6) l by (intro exI [of _ D]) (simp add: xfer_sim_def frames_snoc)
qed

lemma sim_read:
  assumes "xfer_sim slave k f t True bss vss L Ds h" "k_left h = 0" "length vs = length (wire_regs f)"
    "core_run bus mem slave (pop_evs c mem f vs) h h'" "length bss = Suc (length vss)"
  shows "xfer_sim slave k f t True bss (vss @ [vs]) L Ds h'"
proof -
  have "length Ds = Suc (length vss)"
    using assms(1,5) by (auto simp: xfer_sim_def line_words_def)
  then obtain Es D where Ds: "Ds = Es @ [D]" "length Es = length vss"
    by (cases Ds rule: rev_cases) auto
  let ?L = "L @ frames slave k (length L) Es"
  have w: "in_word slave k D ?L h"
    using assms(1) Ds(1) by (simp add: xfer_sim_def)
  note rest = in_word_rest(1) [OF w assms(2)]
  have "in_word slave k D ?L h'"
    by (rule in_word_rest(2) [OF run_pop(1) [OF assms(4) rest assms(3)]])
  moreover have "stored_bytes f vs = mem_order f (be_bytes (wbytes f) (received slave k (length ?L) D))"
    using run_pop(2) [OF assms(4) rest assms(3)] by (simp only: data_reg_bytes)
  ultimately show ?thesis
    using assms(1) Ds by (simp add: xfer_sim_def frames_snoc)
qed

lemma sim_still:
  assumes "xfer_sim slave k f t r bss vss L Ds h" "core_run bus mem slave es h h'" "list_all (still_ev mem) es"
  shows "xfer_sim slave k f t r bss vss L Ds h'"
proof (cases "Ds = []")
  case True
  then obtain D where "at_rest k D L h"
    using assms(1) by (auto simp: xfer_sim_def)
  from still_kept(2) [OF assms(2,3) this] show ?thesis
    using assms(1) True by (auto simp: xfer_sim_def)
next
  case False
  then show ?thesis
    using assms(1) still_kept(1) [OF assms(2,3)] by (auto simp: xfer_sim_def)
qed

lemma xfer_on_core:
  assumes "xfer_accs mem f t r k b es bss vss" "core_run bus mem slave es h h'" "k_left h = 0"
    "fold (bus_step mem) es Resting \<noteq> Broken" "\<not> bit k 8"
  shows "\<exists>Ds. xfer_sim slave (k AND 0x3EFF) f t r bss vss (k_line h) Ds h'"
  using assms(1,2,4)
proof (induction arbitrary: h' rule: xfer_accs.induct)
  case (accs_config ks c d)
  have "at_rest (k AND 0x3EFF) (k_data h) (k_line h) h'"
    by (rule run_config [OF accs_config.prems(1) assms(3,5)])
  then show ?case
    by (intro exI [of _ "[]"]) (auto simp: xfer_sim_def line_words_def gots_def)
next
  case (accs_word es bss vss bs wc rc s s' v)
  obtain h1 where h1: "core_run bus mem slave es h h1"
    "core_run bus mem slave ((if t then push_evs wc mem f bs else []) @ go_evs rc wc mem s s' v) h1 h'"
    using accs_word.prems(1) run_append by blast
  note nb = bus_prefix [OF accs_word.prems(2)]
  obtain Ds where Ds: "xfer_sim slave (k AND 0x3EFF) f t r bss vss (k_line h) Ds h1"
    using accs_word.IH [OF h1(1) nb] by blast
  have "fold (bus_step mem) es Resting = Resting"
    using accs_word.prems(2) by (intro word_needs_rest [of mem t wc f bs rc s s' v]) (simp only: fold_append comp_apply not_False_eq_True)
  then have "k_left h1 = 0"
    using run_rest [OF h1(1) nb] assms(3) by blast
  moreover have "length vss = length bss" "(k AND 0x3EFF) AND 0x3EFF = k AND 0x3EFF"
    using accs_lengths [OF accs_word.hyps(1)] by (simp_all add: and.assoc)
  ultimately show ?case
    using sim_word [OF Ds _ accs_word.hyps(2) _ h1(2)] by blast
next
  case (accs_still b es bss vss qs)
  obtain h1 where h1: "core_run bus mem slave es h h1" "core_run bus mem slave qs h1 h'"
    using accs_still.prems(1) run_append by blast
  show ?case
    using accs_still.IH [OF h1(1) bus_prefix [OF accs_still.prems(2)]] sim_still [OF _ h1(2) accs_still.hyps(2)] by blast
next
  case (accs_read es bss vss vs c)
  obtain h1 where h1: "core_run bus mem slave es h h1" "core_run bus mem slave (if r then pop_evs c mem f vs else []) h1 h'"
    using accs_read.prems(1) run_append by blast
  note nb = bus_prefix [OF accs_read.prems(2)]
  obtain Ds where Ds: "xfer_sim slave (k AND 0x3EFF) f t r bss vss (k_line h) Ds h1"
    using accs_read.IH [OF h1(1) nb] by blast
  show ?case
  proof (cases r)
    case True
    then have "fold (bus_step mem) (pop_evs c mem f vs) (fold (bus_step mem) es Resting) \<noteq> Broken"
      using accs_read.prems(2) by (simp only: if_True fold_append comp_apply not_False_eq_True)
    then have "fold (bus_step mem) es Resting = Resting"
      using accs_read.hyps(2) by (rule pop_needs_rest)
    then have "k_left h1 = 0"
      using run_rest [OF h1(1) nb] assms(3) by blast
    moreover have "length bss = Suc (length vss)"
      using accs_lengths [OF accs_read.hyps(1)] by simp
    moreover have "xfer_sim slave (k AND 0x3EFF) f t True bss vss (k_line h) Ds h1" "core_run bus mem slave (pop_evs c mem f vs) h1 h'"
      using Ds h1(2) True by simp_all
    ultimately have "xfer_sim slave (k AND 0x3EFF) f t True bss (vss @ [vs]) (k_line h) Ds h'"
      using accs_read.hyps(2) by (intro sim_read [of slave _ f t bss vss _ Ds h1])
    then show ?thesis
      using True by (intro exI [of _ Ds]) simp
  next
    case False
    then have "core_run bus mem slave [] h1 h'"
      using h1(2) by simp
    then have "xfer_sim slave (k AND 0x3EFF) f t r bss vss (k_line h) Ds h'"
      by (rule sim_still [OF Ds]) simp
    then have "xfer_sim slave (k AND 0x3EFF) f t r bss (vss @ [vs]) (k_line h) Ds h'"
      unfolding xfer_sim_def using False by blast
    then show ?thesis
      using False by (intro exI [of _ Ds]) simp
  qed
qed

section \<open>The line\<close>

text \<open>
  The bytes of a word on the line, most significant bit first: the first bit of the word is the most
  significant one, or the least significant one (\<open>lsb\<close>).
\<close>

definition line_bytes :: "bool \<Rightarrow> nat \<Rightarrow> bool list \<Rightarrow> u8 list" where
  "line_bytes lsb n bits = be_bytes n (horner_sum of_bool 2 (if lsb then bits else rev bits) :: 128 word)"

text \<open>
  What a transfer is for the device on the line: as many words as the length has, of the right
  size; what the core sends are the bytes of the transmit buffer in order, what it receives ends up in
  the receive buffer. With nothing to send, each word sent is the word received before it.
\<close>

definition xfer_line :: "bool \<Rightarrow> spi_wordfn \<Rightarrow> spi_transfer \<Rightarrow> (bool \<times> bool) list list \<Rightarrow> heap \<Rightarrow> heap \<Rightarrow> bool" where
  "xfer_line lsb f x frs h h' \<longleftrightarrow> length frs = unat (x_len x) div wbytes f \<and> (\<forall>fr \<in> set frs. length fr = 8 * wbytes f)
     \<and> (tx_buf x \<noteq> Null \<longrightarrow> load_bytes h (tx_buf x) (unat (x_len x))
         = Inr (concat (map (\<lambda>fr. line_bytes lsb (wbytes f) (map fst fr)) frs)))
     \<and> (tx_buf x = Null \<longrightarrow> (\<forall>i. Suc i < length frs \<longrightarrow> map fst (frs ! Suc i) = map snd (frs ! i)))
     \<and> (if rx_buf x = Null then h' = h
        else store_bytes h (rx_buf x) (concat (map (\<lambda>fr. mem_order f (line_bytes lsb (wbytes f) (map snd fr))) frs)) = Inr h')"

lemma frame_bytes:
  assumes "char_len k = 8 * n"
  shows "line_bytes (lsb_first k) n (map fst (whole_frame slave k f D)) = be_bytes n D"
    "line_bytes (lsb_first k) n (map snd (whole_frame slave k f D)) = be_bytes n (received slave k f D)"
proof -
  have i: "line_bytes (lsb_first k) n (map g [0..<8 * n]) = be_bytes n E"
    if "\<And>i. i < 8 * n \<Longrightarrow> g i = bit E (bit_pos k i)" for g and E :: "128 word"
    unfolding line_bytes_def
  proof (rule be_bytes_cong)
    fix p assume "p < 8 * n"
    then show "bit (horner_sum of_bool 2 (if lsb_first k then map g [0..<8 * n] else rev (map g [0..<8 * n])) :: 128 word) p = bit E p"
      using that [of "if lsb_first k then p else 8 * n - 1 - p"] char_len_bounds [of k] assms
      by (auto simp: bit_simps rev_nth bit_pos_def)
  qed
  show "line_bytes (lsb_first k) n (map fst (whole_frame slave k f D)) = be_bytes n D"
    "line_bytes (lsb_first k) n (map snd (whole_frame slave k f D)) = be_bytes n (received slave k f D)"
    using i [of "\<lambda>i. bit D (bit_pos k i)" D] i [of "slave f" "received slave k f D"]
    by (simp_all add: frame_bits_def assms comp_def bit_shifted_before)
qed

lemma ctrl_masked: "char_len (k AND 0x3EFF) = char_len k" "lsb_first (k AND 0x3EFF) = lsb_first k"
  by (simp_all add: char_len_def lsb_first_def and.assoc bit_simps)

text \<open>A transfer that is over, with the controller at rest.\<close>

lemma xfer_line:
  assumes "xfer_spec mem k f x es hp hp'" "core_run bus mem slave es h h'" "k_left h = 0"
    "fold (bus_step mem) es Resting = Resting" "\<not> bit k 8" "char_len k = 8 * wbytes f"
  shows "\<exists>frs. k_line h' = k_line h @ frs \<and> xfer_line (lsb_first k) f x frs hp hp'"
proof -
  let ?K = "k AND 0x3EFF" and ?n = "unat (x_len x) div wbytes f" and ?f0 = "length (k_line h)"
  obtain bss vss where a: "xfer_accs mem f (tx_buf x \<noteq> Null) (rx_buf x \<noteq> Null) k False es bss vss" "length bss = ?n"
    "tx_buf x \<noteq> Null \<longrightarrow> outs mem f (mon mem es mon_init) = bss"
    "rx_buf x \<noteq> Null \<longrightarrow> ins mem f (mon mem es mon_init) = map (stored_bytes f) vss"
    using assms(1) by (auto simp: xfer_spec_def accs_ok_def)
  have nb: "fold (bus_step mem) es Resting \<noteq> Broken"
    using assms(4) by simp
  obtain Ds where Ds: "xfer_sim slave ?K f (tx_buf x \<noteq> Null) (rx_buf x \<noteq> Null) bss vss (k_line h) Ds h'"
    using xfer_on_core [OF a(1) assms(2,3) nb assms(5)] by blast
  have "k_left h' = 0"
    using run_rest [OF assms(2) nb] assms(3,4) by blast
  then have line: "k_line h' = k_line h @ frames slave ?K ?f0 Ds"
    using sim_rest [OF Ds] by (auto simp: at_rest_def)
  have K: "char_len ?K = 8 * wbytes f" "lsb_first ?K = lsb_first k"
    using assms(6) by (simp_all add: ctrl_masked)
  note fb = frame_bytes [OF K(1), unfolded K(2)]
  have l: "length Ds = ?n" "length vss = ?n"
    using Ds a(2) accs_lengths [OF a(1)] by (auto simp: xfer_sim_def line_words_def)
  have out: "map (\<lambda>fr. line_bytes (lsb_first k) (wbytes f) (map fst fr)) (frames slave ?K ?f0 Ds) = map (be_bytes (wbytes f)) Ds"
    by (rule nth_equalityI) (simp_all add: frames_def fb)
  have inn: "map (\<lambda>fr. mem_order f (line_bytes (lsb_first k) (wbytes f) (map snd fr))) (frames slave ?K ?f0 Ds)
      = map (\<lambda>E. mem_order f (be_bytes (wbytes f) E)) (gots slave ?K ?f0 Ds)"
    by (rule nth_equalityI) (simp_all add: frames_def gots_def fb)
  have echo: "map fst (frames slave ?K ?f0 Ds ! Suc i) = map snd (frames slave ?K ?f0 Ds ! i)"
    if "tx_buf x = Null" "Suc i < length Ds" for i
    using Ds that by (auto simp: xfer_sim_def line_words_def frames_def frame_bits_def bit_shifted_before)
  have tx: "load_bytes hp (tx_buf x) (unat (x_len x)) = Inr (concat (map (be_bytes (wbytes f)) Ds))" if "tx_buf x \<noteq> Null"
    using assms(1) a(3) Ds that by (auto simp: xfer_spec_def bytes_out_def xfer_sim_def line_words_def)
  have rx: "store_bytes hp (rx_buf x) (concat (map (\<lambda>E. mem_order f (be_bytes (wbytes f) E)) (gots slave ?K ?f0 Ds))) = Inr hp'"
    if "rx_buf x \<noteq> Null"
    using assms(1) a(4) Ds l that by (auto simp: xfer_spec_def bytes_in_def xfer_sim_def frames_snoc)
  have "xfer_line (lsb_first k) f x (frames slave ?K ?f0 Ds) hp hp'"
    unfolding xfer_line_def out inn using tx rx echo l assms(1) K(1)
    by (auto simp: frames_snoc frames_def frame_bits_def xfer_spec_def)
  then show ?thesis
    using line by blast
qed

section \<open>A message on the line\<close>

text \<open>\<open>frss\<close> are the words of the transfers of a message, in order.\<close>

inductive msg_line :: "spi_device \<Rightarrow> heap \<Rightarrow> spi_transfer list \<Rightarrow> (bool \<times> bool) list list list \<Rightarrow> heap \<Rightarrow> bool" for d h where
  line_nil: "msg_line d h [] [] h"
| line_snoc: "msg_line d h xs frss h1 \<Longrightarrow> unat (xfer_bits d x) = 8 * wbytes f
    \<Longrightarrow> xfer_line (mode d AND SPI_LSB_FIRST \<noteq> 0) f x frs h1 h2 \<Longrightarrow> msg_line d h (xs @ [x]) (frss @ [frs]) h2"

lemma ctrl_word_fields:
  assumes "base = 0 \<or> base = SPI_OCORES_CTRL_IE" "unat (xfer_bits d x) = 8 * wbytes f"
  shows "char_len (ctrl_word base d x) = 8 * wbytes f" "lsb_first (ctrl_word base d x) \<longleftrightarrow> mode d AND SPI_LSB_FIRST \<noteq> 0"
    "\<not> bit (ctrl_word base d x) 8" "base = SPI_OCORES_CTRL_IE \<Longrightarrow> bit (ctrl_word base d x) 12"
proof -
  have b: "xfer_bits d x = of_nat (8 * wbytes f)"
    by (rule nbits_word(1) [OF assms(2)])
  have n: "(ucast (xfer_bits d x) :: u32) = of_nat (8 * wbytes f)"
    unfolding b by (cases f) (simp_all add: wbytes_def)
  show "char_len (ctrl_word base d x) = 8 * wbytes f"
    using assms(1) by (cases f) (auto simp: ctrl_word_def char_len_def n wbytes_def)
  show "lsb_first (ctrl_word base d x) \<longleftrightarrow> mode d AND SPI_LSB_FIRST \<noteq> 0"
    "\<not> bit (ctrl_word base d x) 8" "base = SPI_OCORES_CTRL_IE \<Longrightarrow> bit (ctrl_word base d x) 12"
    using assms(1) by (cases f; auto simp: ctrl_word_def lsb_first_def n wbytes_def)+
qed

lemma msg_on_core:
  assumes "msg_spec mem base d hp xs ess hp'" "base = 0 \<or> base = SPI_OCORES_CTRL_IE"
    "core_run bus mem slave (concat ess) h h'" "k_left h = 0" "fold (bus_step mem) (concat ess) Resting = Resting"
  shows "\<exists>frss. msg_line d hp xs frss hp' \<and> k_line h' = k_line h @ concat frss"
  using assms(1,3,5)
proof (induction arbitrary: h' rule: msg_spec.induct)
  case msg_nil
  then show ?case
    using assms(4) by (intro exI [of _ "[]"]) (auto simp: line_nil ticks_rest)
next
  case (msg_snoc xs ess h1 x f es h2)
  obtain c where c: "core_run bus mem slave (concat ess) h c" "core_run bus mem slave es c h'"
    using msg_snoc.prems(1) run_append by (simp del: core_run.simps) blast
  let ?k = "ctrl_word base d x" and ?s = "fold (bus_step mem) (concat ess) Resting"
  have e: "fold (bus_step mem) es ?s = Resting"
    using msg_snoc.prems(2) by simp
  obtain bss vss where "xfer_accs mem f (tx_buf x \<noteq> Null) (rx_buf x \<noteq> Null) ?k False es bss vss"
    using msg_snoc.hyps(3) by (auto simp: xfer_spec_def accs_ok_def)
  then have s: "?s = Resting"
    by (rule accs_need_rest) (simp add: e)
  obtain frss where f: "msg_line d hp xs frss h1" "k_line c = k_line h @ concat frss"
    using msg_snoc.IH [OF c(1) s] by blast
  have left: "k_left c = 0"
    using run_rest [OF c(1), of Resting] s assms(4) by simp
  note k = ctrl_word_fields [OF assms(2) msg_snoc.hyps(2)]
  obtain frs where "k_line h' = k_line c @ frs" "xfer_line (mode d AND SPI_LSB_FIRST \<noteq> 0) f x frs h1 h2"
    using xfer_line [OF msg_snoc.hyps(3) c(2) left _ k(3,1)] e s k(2) by auto
  then show ?case
    using line_snoc [OF f(1) msg_snoc.hyps(2)] f(2) by (intro exI [of _ "frss @ [frs]"]) simp
qed

end
