(* ===== verification/Spi_Hw.thy ===== *)
theory Spi_Hw
  imports Spi_Line Spi_Drive
begin

text \<open>
  The SPI driver on the core: every access it makes is a step of the core, so a message is what the
  device on the line sees, and the interrupts the core raises are enough to move it through to its end.
\<close>

unbundle bit_operations_syntax

section \<open>What accesses preserve\<close>

text \<open>
  The state of the machine as the driver changes it: whatever its accesses to the controller, its
  calls and its readings of the clock preserve holds after each of its functions.
\<close>

definition io_at :: "addr \<Rightarrow> io_acc \<Rightarrow> io_acc \<Rightarrow> spi_ocores \<Rightarrow> bool" where
  "io_at mem rc wc sp \<longleftrightarrow> sp_mem sp = mem \<and> rd_acc sp = rc \<and> wr_acc sp = wc"

lemma io_at_upd [simp]:
  "io_at mem rc wc (sp\<lparr>cur_tx_buf := a\<rparr>) = io_at mem rc wc sp" "io_at mem rc wc (sp\<lparr>cur_rx_buf := a\<rparr>) = io_at mem rc wc sp"
  "io_at mem rc wc (sp\<lparr>cur_len := l\<rparr>) = io_at mem rc wc sp" "io_at mem rc wc (sp\<lparr>cur_tx_push := f\<rparr>) = io_at mem rc wc sp"
  "io_at mem rc wc (sp\<lparr>cur_rx_pop := f\<rparr>) = io_at mem rc wc sp" "io_at mem rc wc (sp\<lparr>cur_msg := m\<rparr>) = io_at mem rc wc sp"
  "io_at mem rc wc (sp\<lparr>cur_xfer := x\<rparr>) = io_at mem rc wc sp" "io_at mem rc wc (sp\<lparr>sp_heap := h\<rparr>) = io_at mem rc wc sp"
  "io_at mem rc wc (set_status s sp) = io_at mem rc wc sp"
  by (simp_all add: io_at_def rd_acc_def wr_acc_def set_status_def)

lemma spi_write_io: "spi_write P sp v r w = iowrite P (wr_acc sp) v (sp_mem sp + ucast r) w"
  by (cases "sp_write sp") (simp_all add: spi_write_def spi_ocores_iowrite32_def spi_ocores_iowrite32be_def wr_acc_def)

locale spi_io =
  fixes P :: "'d platform" and mem :: addr and rc wc :: io_acc and Q :: "'d spi_world \<Rightarrow> bool"
  assumes Q_read: "Q w \<Longrightarrow> Q (snd (ioread P rc (mem + ucast (r :: u32)) w))"
    and Q_write: "Q w \<Longrightarrow> Q (iowrite P wc v (mem + ucast (r :: u32)) w)"
    and Q_call: "Q w \<Longrightarrow> Q (kcall k w)"
    and Q_clock: "Q w \<Longrightarrow> Q (snd (jiffies P w))"
begin

lemma wr: "Q w \<Longrightarrow> io_at mem rc wc sp \<Longrightarrow> Q (spi_write P sp v r w)"
  by (simp add: spi_write_io io_at_def Q_write)

lemma rd: "Q w \<Longrightarrow> io_at mem rc wc sp \<Longrightarrow> spi_read P sp r w = (v, w') \<Longrightarrow> Q w'"
  using Q_read [of w r] by (simp add: spi_read_io io_at_def)

lemma cs: "Q w \<Longrightarrow> io_at mem rc wc sp \<Longrightarrow> Q (spi_ocores_hw_xfer_cs P sp c v w)"
  by (auto simp: spi_ocores_hw_xfer_cs_def case_prod_beta intro: wr rd [OF _ _ surjective_pairing])

lemma start: "Q w \<Longrightarrow> io_at mem rc wc sp \<Longrightarrow> Q (spi_ocores_hw_xfer_start P sp w)"
  by (auto simp: spi_ocores_hw_xfer_start_def spi_ocores_hw_xfer_go_def case_prod_beta Let_def
      intro!: wr rd [OF _ _ surjective_pairing] cs)

lemma config: "Q w \<Longrightarrow> io_at mem rc wc sp \<Longrightarrow> Q (spi_ocores_hw_xfer_config P sp c d w)"
  by (simp add: spi_ocores_hw_xfer_config_def wr)

lemma tx_set: "Q w \<Longrightarrow> io_at mem rc wc sp \<Longrightarrow> Q (spi_ocores_tx_set P sp i v w)"
  by (simp add: spi_ocores_tx_set_def wr Q_call)

lemma rx_get: "Q w \<Longrightarrow> io_at mem rc wc sp \<Longrightarrow> Q (snd (spi_ocores_rx_get P sp i w))"
  by (auto simp: spi_ocores_rx_get_def Q_call intro: rd [OF _ _ surjective_pairing])

lemma push:
  assumes "Q w" "io_at mem rc wc sp" "spi_ocores_hw_xfer_tx_push P e sp w = Inr (n, sp', w')"
  shows "Q w' \<and> io_at mem rc wc sp'"
proof -
  have "Q w1" if "push_fn f P e sp w = Inr (n, w1)" for f n w1
    using that assms(1,2)
    by (cases f) (auto simp: push_fn_def spi_ocores_hw_xfer_tx_push8_def spi_ocores_hw_xfer_tx_push16_def
        spi_ocores_hw_xfer_tx_push32_def spi_ocores_hw_xfer_tx_push64_def spi_ocores_hw_xfer_tx_push128_def
        ebind_eq_Inr_iff Let_def intro!: tx_set)
  then show ?thesis
    using assms by (auto simp: spi_ocores_hw_xfer_tx_push_def ebind_eq_Inr_iff split: if_splits option.splits)
qed

lemma pop:
  assumes "Q w" "io_at mem rc wc sp" "spi_ocores_hw_xfer_rx_pop P e sp w = Inr (n, sp', w')"
  shows "Q w' \<and> io_at mem rc wc sp'"
proof -
  have "Q w1" if "pop_fn f P e sq w = Inr (n, h, w1)" "io_at mem rc wc sq" for f sq n h w1
    using that assms(1)
    by (cases f) (auto simp: pop_fn_def spi_ocores_hw_xfer_rx_pop8_def spi_ocores_hw_xfer_rx_pop16_def
        spi_ocores_hw_xfer_rx_pop32_def spi_ocores_hw_xfer_rx_pop64_def spi_ocores_hw_xfer_rx_pop128_def
        ebind_eq_Inr_iff Let_def case_prod_beta intro!: rx_get)
  then show ?thesis
    using assms by (auto simp: spi_ocores_hw_xfer_rx_pop_def ebind_eq_Inr_iff Let_def split: if_splits option.splits)
qed

lemma push_start:
  assumes "Q w" "io_at mem rc wc sp"
    "ebind (spi_ocores_hw_xfer_tx_push P e sp w) (\<lambda>(_, sp, w). Inr (0, sp, spi_ocores_hw_xfer_start P sp w)) = Inr (err, sp', w')"
  shows "Q w' \<and> io_at mem rc wc sp'"
proof -
  obtain n w1 where "spi_ocores_hw_xfer_tx_push P e sp w = Inr (n, sp', w1)" "w' = spi_ocores_hw_xfer_start P sp' w1"
    using assms(3) by (auto simp: ebind_eq_Inr_iff)
  then show ?thesis
    using push [OF assms(1,2)] start by blast
qed

lemma rxtx:
  assumes "Q w" "io_at mem rc wc sp" "spi_ocores_hw_xfer_rxtx P e sp w = Inr (err, sp', w')"
  shows "Q w' \<and> io_at mem rc wc sp'"
proof -
  obtain n sp1 w1 where p: "spi_ocores_hw_xfer_rx_pop P e sp w = Inr (n, sp1, w1)"
    "(if \<not> spi_ocores_sw_xfer_has_pending sp1 then Inr (- ENODATA, sp1, w1)
      else ebind (spi_ocores_hw_xfer_tx_push P e sp1 w1) (\<lambda>(_, sp, w). Inr (0, sp, spi_ocores_hw_xfer_start P sp w)))
      = Inr (err, sp', w')"
    using assms(3) by (auto simp: spi_ocores_hw_xfer_rxtx_def ebind_eq_Inr_iff)
  have b: "Q w1" "io_at mem rc wc sp1"
    using pop [OF assms(1,2) p(1)] by simp_all
  show ?thesis
    using p(2) b push_start [OF b, of e err sp' w'] by (cases "spi_ocores_sw_xfer_has_pending sp1") auto
qed

lemma set_up:
  assumes "Q w" "io_at mem rc wc sp" "xfer_setup P sp x n w = Inr (err, sp', w')"
  shows "Q w' \<and> io_at mem rc wc sp'"
  using assms by (auto simp: xfer_setup_def xfer_divider_def ebind_eq_Inr_iff Let_def intro!: config Q_call split: if_splits)

lemma next_init:
  assumes "Q w" "io_at mem rc wc sp" "spi_ocores_sw_xfer_next_init P sp w = Inr (err, sp', w')"
  shows "Q w' \<and> io_at mem rc wc sp'"
proof -
  obtain nx where nx: "next_xfer sp = Inr nx"
    using assms(3) by (auto simp: spi_ocores_sw_xfer_next_init_def ebind_eq_Inr_iff)
  note d = assms(3) [unfolded spi_ocores_sw_xfer_next_init_def nx ebind_simps]
  consider (over) "nx = None" | (empty) "nx = Some None" | (xfer) k where "nx = Some (Some k)"
    by (cases nx) auto
  then show ?thesis
  proof cases
    case over
    then show ?thesis
      using d assms(1,2) by simp
  next
    case empty
    then show ?thesis
      using d assms(1,2) by (auto intro: Q_call)
  next
    case (xfer k)
    have "io_at mem rc wc (sp\<lparr>cur_xfer := Some k\<rparr>)"
      using assms(2) by simp
    then show ?thesis
      using d xfer assms(1) set_up [OF assms(1), of "sp\<lparr>cur_xfer := Some k\<rparr>"]
      by (auto simp: ebind_eq_Inr_iff Let_def intro: Q_call split: if_splits)
  qed
qed

lemma next_start:
  assumes "Q w" "io_at mem rc wc sp" "spi_ocores_sw_xfer_next_start P e sp w = Inr (err, sp', w')"
  shows "Q w' \<and> io_at mem rc wc sp'"
proof -
  obtain err1 sp1 w1 where p: "spi_ocores_sw_xfer_next_init P sp w = Inr (err1, sp1, w1)"
    "(if err1 \<noteq> 0 then Inr (err1, sp1, w1)
      else ebind (spi_ocores_hw_xfer_tx_push P e sp1 w1) (\<lambda>(_, sp, w). Inr (0, sp, spi_ocores_hw_xfer_start P sp w)))
      = Inr (err, sp', w')"
    using assms(3) by (auto simp: spi_ocores_sw_xfer_next_start_def ebind_eq_Inr_iff)
  have b: "Q w1" "io_at mem rc wc sp1"
    using next_init [OF assms(1,2) p(1)] by simp_all
  show ?thesis
    using p(2) b push_start [OF b, of e err sp' w'] by (cases "err1 = 0") auto
qed

lemma finish:
  assumes "Q w" "io_at mem rc wc sp" "spi_ocores_sw_xfer_finish P sp w = Inr (err, sp', w')"
  shows "Q w' \<and> io_at mem rc wc sp'"
  using assms by (auto simp: spi_ocores_sw_xfer_finish_def ebind_eq_Inr_iff Let_def intro!: cs Q_call split: if_splits)

lemma finalize:
  assumes "Q w" "io_at mem rc wc sp" "spi_ocores_finalize_current_message P sp w = (sp', w')"
  shows "Q w' \<and> io_at mem rc wc sp'"
  using assms by (auto simp: spi_ocores_finalize_current_message_def intro!: cs Q_call)

lemma process_next:
  assumes "Q w" "io_at mem rc wc sp" "process_next_xfer P e sp w = Inr (err, sp', w')"
  shows "Q w' \<and> io_at mem rc wc sp'"
proof -
  obtain n sp1 w1 err2 sp2 w2 where p: "spi_ocores_sw_xfer_finish P sp w = Inr (n, sp1, w1)"
    "spi_ocores_sw_xfer_next_start P e sp1 w1 = Inr (err2, sp2, w2)"
    "(if err2 \<noteq> 0 then (let (sp, w) = spi_ocores_finalize_current_message P sp2 w2 in Inr (err2, sp, w)) else Inr (err2, sp2, w2))
      = (Inr (err, sp', w') :: c_fault + _)"
    using assms(3) by (auto simp: process_next_xfer_def ebind_eq_Inr_iff)
  have "Q w1" "io_at mem rc wc sp1"
    using finish [OF assms(1,2) p(1)] by simp_all
  then have b: "Q w2" "io_at mem rc wc sp2"
    using next_start [OF _ _ p(2)] by simp_all
  then show ?thesis
    using p(3) finalize [OF b, of sp' w'] by (auto split: if_splits prod.splits)
qed

lemma process:
  assumes "Q w" "io_at mem rc wc sp" "spi_ocores_process P e sp w = Inr (err, sp', w')"
  shows "Q w' \<and> io_at mem rc wc sp'"
proof -
  obtain v w1 where r: "spi_read P sp SPI_OCORES_CTRL w = (v, w1)"
    by fastforce
  have Q1: "Q w1"
    by (rule rd [OF assms(1,2) r])
  show ?thesis
  proof (cases "v AND SPI_OCORES_CTRL_BUSY = 0")
    case False
    then show ?thesis
      using assms(2,3) r Q1 by (auto simp: spi_ocores_process_def spi_ocores_is_busy_def)
  next
    case True
    then obtain err1 sp1 w2 where p: "spi_ocores_hw_xfer_rxtx P e sp w1 = Inr (err1, sp1, w2)"
      "(if err1 = - ENODATA then process_next_xfer P e sp1 w2 else Inr (err1, sp1, w2)) = Inr (err, sp', w')"
      using assms(3) r by (auto simp: spi_ocores_process_def spi_ocores_is_busy_def ebind_eq_Inr_iff)
    have b: "Q w2" "io_at mem rc wc sp1"
      using rxtx [OF Q1 assms(2) p(1)] by simp_all
    then show ?thesis
      using p(2) process_next [OF b, of e err sp' w'] by (auto split: if_splits)
  qed
qed

lemma irq:
  assumes "Q w" "io_at mem rc wc sp" "spi_ocores_irq_handler P e sp w = Inr (r, sp', w')"
  shows "Q w' \<and> io_at mem rc wc sp'"
  using assms process [of w sp e] by (auto simp: spi_ocores_irq_handler_def ebind_eq_Inr_iff)

lemma wait_loop:
  assumes "spi_wait_loop P sp reg msk val j w = Some (err, w')" "Q w" "io_at mem rc wc sp"
  shows "Q w'"
proof -
  let ?Q = "\<lambda>((((((P', sp), reg), msk), val), j), w) (err, w'). P' = P \<longrightarrow> io_at mem rc wc sp \<longrightarrow> Q w \<longrightarrow> Q w'"
  have "?Q ((((((P, sp), reg), msk), val), j), w) (err, w')"
  proof (rule spi_wait_loop.raw_induct [OF _ assms(1)])
    fix wl and P' :: "'d platform" and sp reg msk val j w and y :: "int \<times> 'd spi_world"
    assume IH: "\<And>P' sp reg msk val j w y. wl P' sp reg msk val j w = Some y \<Longrightarrow>
        ?Q ((((((P', sp), reg), msk), val), j), w) y"
      and e: "(let (tmp, w1) = spi_read P' sp reg w
        in if tmp AND msk = val then Some (0, w1)
           else let (now, w2) = jiffies P' w1
                in if time_after now j then Some (- ETIMEDOUT, w2) else wl P' sp reg msk val j w2) = Some y"
    obtain v w1 now w2 where r: "spi_read P' sp reg w = (v, w1)" "jiffies P' w1 = (now, w2)"
      by fastforce
    consider "snd y = w1" | "snd y = w2" | "wl P' sp reg msk val j w2 = Some y"
      using e r by (auto split: if_splits)
    moreover have "Q w1 \<and> Q w2" if "P' = P" "Q w" "io_at mem rc wc sp"
      using rd [OF that(2,3)] r that(1) Q_clock [of w1] by fastforce
    ultimately show "?Q ((((((P', sp), reg), msk), val), j), w) y"
      using IH [of P' sp reg msk val j w2 y] by cases (auto simp: case_prod_beta)
  qed
  then show ?thesis
    using assms(2,3) by simp
qed

lemma poll:
  assumes "spi_ocores_process_poll P e tmo sp w = Some (Inr (err, sp', w'))" "Q w" "io_at mem rc wc sp"
  shows "Q w' \<and> io_at mem rc wc sp'"
proof -
  obtain now w1 where j: "jiffies P w = (now, w1)"
    by fastforce
  obtain err1 w2 where p: "spi_wait_loop P sp SPI_OCORES_CTRL SPI_OCORES_CTRL_BUSY 0 (now + p_msecs P tmo) w1 = Some (err1, w2)"
    "(if err1 \<noteq> 0 then Inr (err1, sp, w2) else spi_ocores_process P e sp w2) = Inr (err, sp', w')"
    using assms(1) j by (auto simp: spi_ocores_process_poll_def spi_ocores_hw_xfer_wait_complete_def spi_ocores_wait_def
        split: option.splits if_splits)
  have "Q w1"
    using Q_clock [OF assms(2)] j by simp
  then have "Q w2"
    by (rule wait_loop [OF p(1) _ assms(3)])
  then show ?thesis
    using p(2) process [of w2 sp e err sp' w'] assms(3) by (auto split: if_splits)
qed

lemma poll_loop:
  assumes "spi_poll_loop P e sp w = Some (Inr (sp', w'))" "Q w" "io_at mem rc wc sp"
  shows "Q w'"
proof -
  define R where "R = (\<lambda>(((P' :: 'd platform, e :: endian), sp :: spi_ocores), w :: 'd spi_world) r.
    P' = P \<longrightarrow> io_at mem rc wc sp \<longrightarrow> Q w \<longrightarrow> (\<forall>sp' w'. r = (Inr (sp', w') :: c_fault + spi_ocores \<times> 'd spi_world) \<longrightarrow> Q w'))"
  have "R (((P, e), sp), w) (Inr (sp', w'))"
  proof (rule spi_poll_loop.raw_induct [OF _ assms(1)])
    fix pl and P' :: "'d platform" and e sp w and y :: "c_fault + spi_ocores \<times> 'd spi_world"
    assume IH: "\<And>P' e sp w y. pl P' e sp w = Some y \<Longrightarrow> R (((P', e), sp), w) y"
      and body: "Option.bind (spi_ocores_process_poll P' e 100 sp w) (\<lambda>r. case r of
         Inl f \<Rightarrow> Some (Inl f)
       | Inr (err, sp, w) \<Rightarrow> if err = 0 then pl P' e sp w else Some (Inr (sp, w))) = Some y"
    show "R (((P', e), sp), w) y"
      unfolding R_def
    proof (simp only: prod.case, intro impI allI)
      fix sp' w' assume o: "P' = P" "io_at mem rc wc sp" "Q w" "y = Inr (sp', w')"
      then obtain err sp1 w1 where p: "spi_ocores_process_poll P e 100 sp w = Some (Inr (err, sp1, w1))"
        "(if err = 0 then pl P e sp1 w1 else Some (Inr (sp1, w1))) = Some (Inr (sp', w'))"
        using body by (cases "spi_ocores_process_poll P e 100 sp w"; cases "the (spi_ocores_process_poll P e 100 sp w)") auto
      then show "Q w'"
        using poll [OF p(1) o(3,2)] IH [of P e sp1 w1 y] o(4) by (auto simp: R_def split: if_splits)
    qed
  qed
  then show ?thesis
    using assms(2,3) by (simp add: R_def)
qed

lemma message:
  assumes "spi_ocores_transfer_one_message P e sp w = Some (Inr (r, sp', w'))" "Q w" "io_at mem rc wc sp"
  shows "Q w'"
proof -
  obtain err sp1 w1 where s: "spi_ocores_sw_xfer_next_start P e sp w = Inr (err, sp1, w1)"
    using assms(1) by (auto simp: spi_ocores_transfer_one_message_def split: sum.splits)
  have b: "Q w1" "io_at mem rc wc sp1"
    using next_start [OF assms(2,3) s] by simp_all
  consider "w' = w1" | "spi_poll_loop P e sp1 w1 = Some (Inr (sp', w'))"
    using assms(1) s by (auto simp: spi_ocores_transfer_one_message_def ebind_eq_Inr_iff split: if_splits)
  then show ?thesis
    using b poll_loop by cases simp_all
qed

end

section \<open>The driver on the core\<close>

text \<open>Since \<open>w0\<close>, the core has made the steps of the trace.\<close>

definition on_core :: "io_acc \<Rightarrow> addr \<Rightarrow> (nat \<Rightarrow> nat \<Rightarrow> bool) \<Rightarrow> spi_dev spi_world \<Rightarrow> spi_dev spi_world \<Rightarrow> bool" where
  "on_core bus mem slave w0 w \<longleftrightarrow>
     (\<exists>es. trace w = trace w0 @ es \<and> core_run bus mem slave es (fst (dev w0)) (fst (dev w)))"

lemma on_core_refl: "on_core bus mem slave w w"
  unfolding on_core_def using run_refl by (intro exI [of _ "[]"]) (simp del: core_run.simps)

lemma on_core_ev:
  assumes "on_core bus mem slave w0 w" "trace w' = trace w @ [ev]" "core_ev bus mem ev (ticks slave n (fst (dev w))) (fst (dev w'))"
  shows "on_core bus mem slave w0 w'"
proof -
  obtain es where es: "trace w = trace w0 @ es" "core_run bus mem slave es (fst (dev w0)) (fst (dev w))"
    using assms(1) by (auto simp: on_core_def)
  then have "core_run bus mem slave (es @ [ev]) (fst (dev w0)) (fst (dev w'))"
    using run_append run_one [OF assms(3)] by blast
  then show ?thesis
    using es(1) assms(2) unfolding on_core_def by (intro exI [of _ "es @ [ev]"]) simp
qed

lemma on_core_ticks:
  assumes "on_core bus mem slave w0 w" "trace w' = trace w" "fst (dev w') = ticks slave n (fst (dev w))"
  shows "on_core bus mem slave w0 w'"
proof -
  obtain es where es: "trace w = trace w0 @ es" "core_run bus mem slave es (fst (dev w0)) (fst (dev w))"
    using assms(1) by (auto simp: on_core_def)
  moreover have "core_run bus mem slave [] (fst (dev w)) (fst (dev w'))"
    using assms(3) by auto
  ultimately have "core_run bus mem slave (es @ []) (fst (dev w0)) (fst (dev w'))"
    using run_append by blast
  then show ?thesis
    using es(1) assms(2) by (auto simp: on_core_def simp del: core_run.simps)
qed

lemma core_access:
  "dev (snd (ioread (spi_at bus mem slave pace) bus a w)) = (acked (ticks slave (pace (snd (dev w))) (fst (dev w))), Suc (snd (dev w)))"
  "fst (ioread (spi_at bus mem slave pace) bus a w) = spi_core_read (a - mem) (ticks slave (pace (snd (dev w))) (fst (dev w)))"
  "dev (iowrite (spi_at bus mem slave pace) bus v a w)
    = (spi_core_write (a - mem) v (acked (ticks slave (pace (snd (dev w))) (fst (dev w)))), Suc (snd (dev w)))"
  "fst (dev (snd (jiffies (spi_at bus mem slave pace) w))) = fst (dev w)"
  by (simp_all add: ioread_def iowrite_def jiffies_def spi_at_def on_bus_def Let_def case_prod_beta)

interpretation core_io: spi_io "spi_at bus mem slave pace" mem bus bus "on_core bus mem slave w0"
  for bus mem slave pace w0
proof
  fix w :: "spi_dev spi_world" and r v :: u32 and k
  assume w: "on_core bus mem slave w0 w"
  show "on_core bus mem slave w0 (snd (ioread (spi_at bus mem slave pace) bus (mem + ucast r) w))"
    by (rule on_core_ev [OF w trace_ioread, where n = "pace (snd (dev w))"]) (simp add: core_access)
  show "on_core bus mem slave w0 (iowrite (spi_at bus mem slave pace) bus v (mem + ucast r) w)"
    by (rule on_core_ev [OF w trace_iowrite, where n = "pace (snd (dev w))"]) (simp add: core_access)
  show "on_core bus mem slave w0 (kcall k w)"
    by (rule on_core_ev [OF w trace_kcall, where n = 0]) (simp add: dev_kcall)
  show "on_core bus mem slave w0 (snd (jiffies (spi_at bus mem slave pace) w))"
    by (rule on_core_ticks [OF w trace_jiffies, where n = 0]) (simp add: core_access)
qed

text \<open>A message that is over, on the line.\<close>

lemma line_of_end:
  assumes "msg_end sp0 (trace w0) sp (trace w)" "on_core bus (sp_mem sp0) slave w0 w" "orderly (sp_mem sp0) (trace w0) w"
    "k_left (fst (dev w0)) = 0" "ctrl_base sp0 = 0 \<or> ctrl_base sp0 = SPI_OCORES_CTRL_IE"
  shows "\<exists>frss. msg_line (spi (cur_msg sp0)) (sp_heap sp0) (transfers (cur_msg sp0)) frss (sp_heap sp)
    \<and> k_line (fst (dev w)) = k_line (fst (dev w0)) @ concat frss \<and> k_left (fst (dev w)) = 0"
proof -
  let ?cs = "sp_mem sp0 + ucast SPI_OCORES_CS"
  obtain ess v v' where m: "msg_spec (sp_mem sp0) (ctrl_base sp0) (spi (cur_msg sp0)) (sp_heap sp0) (transfers (cur_msg sp0)) ess (sp_heap sp)"
    "trace w = trace w0 @ concat ess @ [EvRead (rd_acc sp0) ?cs v, EvWrite (wr_acc sp0) ?cs v', EvCall SpiFinalize]"
    using assms(1) unfolding msg_end_def Let_def by blast
  let ?es = "[EvRead (rd_acc sp0) ?cs v, EvWrite (wr_acc sp0) ?cs v', EvCall SpiFinalize]"
  have "core_run bus (sp_mem sp0) slave (concat ess @ ?es) (fst (dev w0)) (fst (dev w))"
    using assms(2) m(2) by (auto simp: on_core_def simp del: core_run.simps)
  then obtain c where c: "core_run bus (sp_mem sp0) slave (concat ess) (fst (dev w0)) c"
    "core_run bus (sp_mem sp0) slave ?es c (fst (dev w))"
    using run_append by blast
  have "fold (bus_step (sp_mem sp0)) (concat ess @ ?es) Resting \<noteq> Broken"
    using assms(3) m(2) by (auto simp: orderly_def bus_at_def)
  then have s: "fold (bus_step (sp_mem sp0)) (concat ess) Resting = Resting"
    by (auto split: if_splits)
  obtain frss where f: "msg_line (spi (cur_msg sp0)) (sp_heap sp0) (transfers (cur_msg sp0)) frss (sp_heap sp)"
    "k_line c = k_line (fst (dev w0)) @ concat frss"
    using msg_on_core [OF m(1) assms(5) c(1) assms(4) s] by blast
  have "k_left c = 0"
    using run_rest [OF c(1), of Resting] s assms(4) by simp
  then have r: "at_rest (k_ctrl c) (k_data c) (k_line c) c"
    by (simp add: at_rest_def)
  have "core_run bus (sp_mem sp0) slave (take 2 ?es @ [EvCall SpiFinalize]) c (fst (dev w))"
    using c(2) by simp
  then obtain c1 where c1: "core_run bus (sp_mem sp0) slave (take 2 ?es) c c1"
    "core_run bus (sp_mem sp0) slave [EvCall SpiFinalize] c1 (fst (dev w))"
    using run_append by blast
  have "list_all (still_ev (sp_mem sp0)) (take 2 ?es)"
    by simp
  from still_kept(2) [OF c1(1) this r] have r1: "at_rest (k_ctrl c) (k_data c) (k_line c) c1" .
  then have "at_rest (k_ctrl c) (k_data c) (k_line c) (fst (dev w))"
    using rest_step [OF c1(2) r1] rest_ev(1) rest_end by blast
  then show ?thesis
    using f by (auto simp: at_rest_def)
qed

text \<open>In the middle of one, the core has the configuration of the transfer.\<close>

lemma ctrl_of_mid:
  assumes "msg_mid sp0 (trace w0) n sp (trace w)" "on_core bus (sp_mem sp0) slave w0 w" "orderly (sp_mem sp0) (trace w0) w"
    "k_left (fst (dev w0)) = 0" "ctrl_base sp0 = 0 \<or> ctrl_base sp0 = SPI_OCORES_CTRL_IE"
  shows "\<not> bit (k_ctrl (fst (dev w))) 8" "ctrl_base sp0 = SPI_OCORES_CTRL_IE \<Longrightarrow> bit (k_ctrl (fst (dev w))) 12"
proof -
  let ?mem = "sp_mem sp0" and ?d = "spi (cur_msg sp0)"
  obtain k j f x h ess es where m: "msg_spec ?mem (ctrl_base sp0) ?d (sp_heap sp0) (take k (transfers (cur_msg sp0))) ess h"
    "trace w = trace w0 @ concat ess @ es" "same_msg sp0 sp" "xfer_at f x h sp"
    "in_xfer ?mem (ctrl_word (ctrl_base sp0) ?d x) f x h j es sp"
    using assms(1) unfolding msg_mid_def Let_def by blast
  let ?k = "ctrl_word (ctrl_base sp0) ?d x"
  obtain bss vss where a: "xfer_accs ?mem f (tx_buf x \<noteq> Null) (rx_buf x \<noteq> Null) ?k True es bss vss" "length bss = j + 1"
    using m(5) by (auto simp: in_xfer_def accs_ok_def)
  have "core_run bus ?mem slave (concat ess @ es) (fst (dev w0)) (fst (dev w))"
    using assms(2) m(2) by (auto simp: on_core_def simp del: core_run.simps)
  then obtain c where c: "core_run bus ?mem slave (concat ess) (fst (dev w0)) c" "core_run bus ?mem slave es c (fst (dev w))"
    using run_append by blast
  let ?s = "fold (bus_step ?mem) (concat ess) Resting"
  have nb: "fold (bus_step ?mem) es ?s \<noteq> Broken"
    using assms(3) m(2) by (auto simp: orderly_def bus_at_def)
  have s: "?s = Resting"
    by (rule accs_need_rest [OF a(1) nb])
  have left: "k_left c = 0"
    using run_rest [OF c(1), of Resting] s assms(4) by simp
  have b: "unat (xfer_bits ?d x) = 8 * wbytes f"
    using m(3,4) by (auto simp: xfer_at_def xfer_ok_def same_msg_def)
  note kf = ctrl_word_fields [OF assms(5) b]
  obtain Ds where Ds: "xfer_sim slave (?k AND 0x3EFF) f (tx_buf x \<noteq> Null) (rx_buf x \<noteq> Null) bss vss (k_line c) Ds (fst (dev w))"
    using xfer_on_core [OF a(1) c(2) left _ kf(3)] nb s by auto
  then have "Ds \<noteq> []"
    using a(2) by (auto simp: xfer_sim_def line_words_def)
  then have "k_ctrl (fst (dev w)) = ?k AND 0x3EFF"
    using Ds by (simp add: xfer_sim_def in_word_def)
  then show "\<not> bit (k_ctrl (fst (dev w))) 8" "ctrl_base sp0 = SPI_OCORES_CTRL_IE \<Longrightarrow> bit (k_ctrl (fst (dev w))) 12"
    using kf(3,4) by (simp_all add: bit_simps)
qed

section \<open>Interrupts\<close>

text \<open>
  The core shifts its word to the end; if it then asks for an interrupt, the handler is called. So
  at most \<open>n\<close> times, as long as a message is in progress.
\<close>

definition word_end :: "(nat \<Rightarrow> nat \<Rightarrow> bool) \<Rightarrow> spi_dev spi_world \<Rightarrow> spi_dev spi_world" where
  "word_end slave w = w\<lparr>dev := (ticks slave (k_left (fst (dev w))) (fst (dev w)), snd (dev w))\<rparr>"

fun spi_serve :: "spi_dev platform \<Rightarrow> (nat \<Rightarrow> nat \<Rightarrow> bool) \<Rightarrow> endian \<Rightarrow> nat \<Rightarrow> spi_ocores \<Rightarrow> spi_dev spi_world \<Rightarrow>
    c_fault + spi_ocores \<times> spi_dev spi_world" where
  "spi_serve P slave e 0 sp w = Inr (sp, w)"
| "spi_serve P slave e (Suc n) sp w =
     (let w = word_end slave w
      in if k_int (fst (dev w)) then ebind (spi_ocores_irq_handler P e sp w) (\<lambda>(_, sp, w). spi_serve P slave e n sp w)
         else Inr (sp, w))"

text \<open>Going on, the driver ends with a go command, so a word is on its way.\<close>

lemma process_starts:
  assumes "spi_ocores_process P e sp w = Inr (0, sp', w')"
  shows "\<exists>w1. w' = spi_ocores_hw_xfer_start P sp' w1"
proof -
  have out: "\<exists>w1. w' = spi_ocores_hw_xfer_start P sp' w1"
    if "ebind (spi_ocores_hw_xfer_tx_push P e sq v) (\<lambda>(_, sp, w). Inr (0, sp, spi_ocores_hw_xfer_start P sp w)) = Inr (0, sp', w')" for sq v
    using that by (auto simp: ebind_eq_Inr_iff)
  have next_out: "\<exists>w1. w' = spi_ocores_hw_xfer_start P sp' w1" if "spi_ocores_sw_xfer_next_start P e sq v = Inr (0, sp', w')" for sq v
    using that out by (auto simp: spi_ocores_sw_xfer_next_start_def ebind_eq_Inr_iff split: if_splits)
  obtain b w1 where b: "spi_ocores_is_busy P sp w = (b, w1)"
    by fastforce
  then have "\<not> b"
    using assms by (auto simp: spi_ocores_process_def)
  then obtain err sq w2 where p: "spi_ocores_hw_xfer_rxtx P e sp w1 = Inr (err, sq, w2)"
    "(if err = - ENODATA then process_next_xfer P e sq w2 else Inr (err, sq, w2)) = Inr (0, sp', w')"
    using assms b by (auto simp: spi_ocores_process_def ebind_eq_Inr_iff)
  show ?thesis
  proof (cases "err = - ENODATA")
    case True
    then have "process_next_xfer P e sq w2 = Inr (0, sp', w')"
      using p(2) by simp
    then obtain sr w3 err4 sq4 w4 where "spi_ocores_sw_xfer_next_start P e sr w3 = Inr (err4, sq4, w4)"
      "(if err4 \<noteq> 0 then (let (sp, w) = spi_ocores_finalize_current_message P sq4 w4 in Inr (err4, sp, w))
        else Inr (err4, sq4, w4)) = (Inr (0, sp', w') :: c_fault + _)"
      by (auto simp: process_next_xfer_def ebind_eq_Inr_iff)
    then show ?thesis
      using next_out by (auto split: if_splits prod.splits)
  next
    case False
    then have "spi_ocores_hw_xfer_rxtx P e sp w1 = Inr (0, sp', w')"
      using p by simp
    then show ?thesis
      using out by (auto simp: spi_ocores_hw_xfer_rxtx_def ebind_eq_Inr_iff split: if_splits)
  qed
qed

lemma next_starts:
  assumes "spi_ocores_sw_xfer_next_start P e sp w = Inr (0, sp', w')"
  shows "\<exists>w1. w' = spi_ocores_hw_xfer_start P sp' w1"
  using assms by (auto simp: spi_ocores_sw_xfer_next_start_def ebind_eq_Inr_iff split: if_splits)

lemma start_shifting:
  assumes "io_at mem bus bus sp"
  shows "0 < k_left (fst (dev (spi_ocores_hw_xfer_start (spi_at bus mem slave pace) sp w)))"
proof -
  let ?P = "spi_at bus mem slave pace"
  obtain v w1 where r: "spi_read ?P sp SPI_OCORES_CTRL
      (spi_ocores_hw_xfer_cs ?P sp (ucast (chip_select (spi (cur_msg sp)))) 1 w) = (v, w1)"
    by fastforce
  have s: "spi_ocores_hw_xfer_start ?P sp w = iowrite ?P bus (v OR 0x100) (mem + 0x10) w1"
    using r assms by (simp add: spi_ocores_hw_xfer_start_def spi_ocores_hw_xfer_go_def spi_write_io io_at_def)
  have "bit (v OR 0x100) 8"
    by (simp add: bit_simps)
  then show ?thesis
    using char_len_bounds(1) by (simp add: s core_access off_mem spi_core_write_def acked_def Let_def)
qed

lemma idle_on_core:
  assumes "io_at mem bus bus sp" "k_left (fst (dev w)) = 0" "\<not> bit (k_ctrl (fst (dev w))) 8"
  shows "\<exists>w1. spi_ocores_is_busy (spi_at bus mem slave pace) sp w = (False, w1)"
proof -
  have "fst (spi_read (spi_at bus mem slave pace) sp SPI_OCORES_CTRL w) = k_ctrl (fst (dev w))"
    using assms(1,2) by (simp add: spi_read_io io_at_def core_access off_mem ticks_rest spi_core_read_def)
  moreover have "k_ctrl (fst (dev w)) AND SPI_OCORES_CTRL_BUSY = 0"
    using assms(3) go_bit [of "k_ctrl (fst (dev w))"] by simp
  ultimately show ?thesis
    by (cases "spi_read (spi_at bus mem slave pace) sp SPI_OCORES_CTRL w") (simp add: spi_ocores_is_busy_def)
qed

text \<open>What holds of a message on the core between two interrupts.\<close>

definition core_mid :: "io_acc \<Rightarrow> (nat \<Rightarrow> nat \<Rightarrow> bool) \<Rightarrow> spi_ocores \<Rightarrow> spi_dev spi_world \<Rightarrow> nat \<Rightarrow> spi_ocores \<Rightarrow> spi_dev spi_world \<Rightarrow> bool" where
  "core_mid bus slave sp0 w0 n sp w \<longleftrightarrow> msg_mid sp0 (trace w0) n sp (trace w) \<and> on_core bus (sp_mem sp0) slave w0 w
     \<and> orderly (sp_mem sp0) (trace w0) w \<and> io_at (sp_mem sp0) bus bus sp \<and> 0 < k_left (fst (dev w))"

lemma word_end_facts:
  assumes "core_mid bus slave sp0 w0 n sp w" "k_left (fst (dev w0)) = 0" "ctrl_base sp0 = SPI_OCORES_CTRL_IE"
  shows "msg_mid sp0 (trace w0) n sp (trace (word_end slave w))" "on_core bus (sp_mem sp0) slave w0 (word_end slave w)"
    "orderly (sp_mem sp0) (trace w0) (word_end slave w)" "k_int (fst (dev (word_end slave w)))"
    "k_left (fst (dev (word_end slave w))) = 0" "\<not> bit (k_ctrl (fst (dev (word_end slave w)))) 8"
proof -
  have e: "trace (word_end slave w) = trace w" "fst (dev (word_end slave w)) = ticks slave (k_left (fst (dev w))) (fst (dev w))"
    by (simp_all add: word_end_def)
  have m: "msg_mid sp0 (trace w0) n sp (trace w)" "on_core bus (sp_mem sp0) slave w0 w" "orderly (sp_mem sp0) (trace w0) w"
    "0 < k_left (fst (dev w))"
    using assms(1) by (simp_all add: core_mid_def)
  note c = ctrl_of_mid [OF m(1-3) assms(2) disjI2 [OF assms(3)]]
  show "msg_mid sp0 (trace w0) n sp (trace (word_end slave w))" "orderly (sp_mem sp0) (trace w0) (word_end slave w)"
    using m(1,3) e(1) by (simp_all add: orderly_def bus_at_def)
  show "on_core bus (sp_mem sp0) slave w0 (word_end slave w)"
    by (rule on_core_ticks [OF m(2) e])
  show "k_int (fst (dev (word_end slave w)))" "k_left (fst (dev (word_end slave w))) = 0"
    "\<not> bit (k_ctrl (fst (dev (word_end slave w)))) 8"
    unfolding e(2) using m(4) c assms(3) by (simp_all add: ticks_left ticks_int)
qed

lemma spi_serve_ends:
  assumes "msg_ok sp0" "k_left (fst (dev w0)) = 0" "ctrl_base sp0 = SPI_OCORES_CTRL_IE"
  shows "core_mid bus slave sp0 w0 n sp w \<Longrightarrow> \<exists>sp' w'. spi_serve (spi_at bus (sp_mem sp0) slave pace) slave e n sp w = Inr (sp', w')
    \<and> msg_end sp0 (trace w0) sp' (trace w') \<and> on_core bus (sp_mem sp0) slave w0 w' \<and> orderly (sp_mem sp0) (trace w0) w'"
proof (induction n arbitrary: sp w)
  case 0
  then show ?case
    using mid_pos by (fastforce simp: core_mid_def)
next
  case (Suc n)
  let ?P = "spi_at bus (sp_mem sp0) slave pace" and ?w = "word_end slave w"
  note f = word_end_facts [OF Suc.prems assms(2,3)]
  have at: "io_at (sp_mem sp0) bus bus sp" "sp_mem sp = sp_mem sp0"
    using Suc.prems by (simp_all add: core_mid_def io_at_def)
  obtain w1 where idle: "spi_ocores_is_busy ?P sp ?w = (False, w1)"
    using idle_on_core [OF at(1) f(5,6)] by blast
  have step: "on_core bus (sp_mem sp0) slave w0 w' \<and> io_at (sp_mem sp0) bus bus sp' \<and> orderly (sp_mem sp0) (trace w0) w'"
    if "spi_ocores_process ?P e sp ?w = Inr (err, sp', w')" for err sp' w'
    using core_io.process [OF f(2) at(1) that] orderly_process [OF f(3) at(2) that] by blast
  from mid_step [OF assms(1) f(1) idle, of e] show ?case
  proof (elim disjE conjE exE)
    fix sp' w' assume s: "1 < Suc n" "spi_ocores_process ?P e sp ?w = Inr (0, sp', w')" "msg_mid sp0 (trace w0) (Suc n - 1) sp' (trace w')"
    obtain w2 where "w' = spi_ocores_hw_xfer_start ?P sp' w2"
      using process_starts [OF s(2)] by blast
    then have "core_mid bus slave sp0 w0 n sp' w'"
      using step [OF s(2)] s(3) start_shifting [of "sp_mem sp0" bus sp' slave pace w2] by (simp add: core_mid_def)
    moreover have "spi_serve ?P slave e (Suc n) sp w = spi_serve ?P slave e n sp' w'"
      using f(4) s(2) by (simp add: spi_ocores_irq_handler_def)
    ultimately show ?thesis
      using Suc.IH [of sp' w'] by simp
  next
    fix sp' w' assume s: "Suc n = 1" "spi_ocores_process ?P e sp ?w = Inr (- ENODATA, sp', w')" "msg_end sp0 (trace w0) sp' (trace w')"
    have "spi_serve ?P slave e (Suc n) sp w = Inr (sp', w')"
      using f(4) s(1,2) by (simp add: spi_ocores_irq_handler_def)
    then show ?thesis
      using s(3) step [OF s(2)] by blast
  qed
qed

section \<open>Properties\<close>

text \<open>
  C9: a message driven by interrupts, on the core. For every message of transfers the driver handles
  and every device on the line, the core at rest: \<open>spi_ocores_transfer_one_message\<close> starts the first
  word; each word raises an interrupt when it is over, none is lost; and after as many interrupts as
  the message has words, it is over. On the line there are the words of its transfers in order, of the
  right size and bit order: what was sent are the bytes of the transmit buffers, what the device
  answered is in the receive buffers. The bytes are those of the buffers in memory order, whatever
  the byte order of the processor, but for received words of 128 bits, whose halves are swapped; a
  transfer with nothing to send sends each word it has received as the next one.
\<close>

theorem spi_line_interrupts:
  assumes "msg_ok sp" "cur_xfer sp = None" "sp_flags sp AND SPI_OCORES_FLAG_POLL = 0" "ctrl_base sp = SPI_OCORES_CTRL_IE"
    "rd_acc sp = bus" "wr_acc sp = bus" "k_left (fst (dev w)) = 0" "P = spi_at bus (sp_mem sp) slave pace"
  shows "\<exists>sp1 w1 sp2 w2 frss. spi_ocores_transfer_one_message P e sp w = Some (Inr (0, sp1, w1))
    \<and> spi_serve P slave e (msg_words sp) sp1 w1 = Inr (sp2, w2) \<and> msg_end sp (trace w) sp2 (trace w2)
    \<and> msg_line (spi (cur_msg sp)) (sp_heap sp) (transfers (cur_msg sp)) frss (sp_heap sp2)
    \<and> k_line (fst (dev w2)) = k_line (fst (dev w)) @ concat frss"
proof -
  obtain sp1 w1 where s: "spi_ocores_sw_xfer_next_start P e sp w = Inr (0, sp1, w1)"
    "spi_ocores_transfer_one_message P e sp w = Some (Inr (0, sp1, w1))"
    "msg_mid sp (trace w) (msg_words sp) sp1 (trace w1)" "sp_mem sp1 = sp_mem sp"
    using interrupt_starts [OF assms(1-3)] by blast
  have at: "io_at (sp_mem sp) bus bus sp"
    using assms(5,6) by (simp add: io_at_def)
  have c: "on_core bus (sp_mem sp) slave w w1 \<and> io_at (sp_mem sp) bus bus sp1"
    by (rule core_io.next_start [OF on_core_refl at s(1) [unfolded assms(8)]])
  moreover obtain w2 where "w1 = spi_ocores_hw_xfer_start P sp1 w2"
    using next_starts [OF s(1)] by blast
  ultimately have "core_mid bus slave sp w (msg_words sp) sp1 w1"
    using s(3) orderly_message [OF s(2)] start_shifting [of "sp_mem sp" bus sp1 slave pace w2] assms(8)
    by (simp add: core_mid_def)
  from spi_serve_ends [OF assms(1,7,4) this, of pace e] obtain sp2 w2 where
    e: "spi_serve P slave e (msg_words sp) sp1 w1 = Inr (sp2, w2)" "msg_end sp (trace w) sp2 (trace w2)"
      "on_core bus (sp_mem sp) slave w w2" "orderly (sp_mem sp) (trace w) w2"
    unfolding assms(8) by blast
  show ?thesis
    using s(2) e(1,2) line_of_end [OF e(2-4) assms(7) disjI2 [OF assms(4)]] by blast
qed

text \<open>
  C10: a polled message, on the core. However many bits the core shifts between two accesses, the
  polled transfer returns; either the message is over, with the same words on the line, or the driver
  gave up on a word it saw the core still shifting.
\<close>

theorem spi_line_polled:
  assumes "msg_ok sp" "cur_xfer sp = None" "sp_flags sp AND SPI_OCORES_FLAG_POLL \<noteq> 0" "ctrl_base sp = 0 \<or> ctrl_base sp = SPI_OCORES_CTRL_IE"
    "rd_acc sp = bus" "wr_acc sp = bus" "k_left (fst (dev w)) = 0" "P = spi_at bus (sp_mem sp) slave pace"
  shows "\<exists>sp' w'. spi_ocores_transfer_one_message P e sp w = Some (Inr (0, sp', w'))
    \<and> (msg_end sp (trace w) sp' (trace w') \<and> (\<exists>frss. msg_line (spi (cur_msg sp)) (sp_heap sp) (transfers (cur_msg sp)) frss (sp_heap sp')
        \<and> k_line (fst (dev w')) = k_line (fst (dev w)) @ concat frss)
      \<or> busy_last sp' (trace w') \<and> cur_xfer sp' \<noteq> None)"
proof -
  have "clock_ok P snd 1"
    unfolding assms(8) by (rule spi_at_clock)
  from polled_runs [OF assms(1-3) this, of e w] obtain sp' w' where
    r: "spi_ocores_transfer_one_message P e sp w = Some (Inr (0, sp', w'))"
      "msg_end sp (trace w) sp' (trace w') \<or> (\<exists>n. msg_mid sp (trace w) n sp' (trace w')) \<and> busy_last sp' (trace w')"
    by blast
  have at: "io_at (sp_mem sp) bus bus sp"
    using assms(5,6) by (simp add: io_at_def)
  have c: "on_core bus (sp_mem sp) slave w w'"
    by (rule core_io.message [OF r(1) [unfolded assms(8)] on_core_refl at])
  show ?thesis
    using r mid_cur line_of_end [OF _ c orderly_message [OF r(1)] assms(7,4)] by blast
qed

text \<open>A slave that answers every word with alternating bits, a core that shifts five bits between accesses.\<close>

definition demo_core :: spi_core where
  "demo_core = \<lparr>k_data = 0, k_ctrl = 0, k_div = 0, k_ss = 0, k_left = 0, k_int = False, k_line = []\<rparr>"

definition demo_slave :: "nat \<Rightarrow> nat \<Rightarrow> bool" where
  "demo_slave f i \<longleftrightarrow> odd (f + i)"

abbreviation demo_ie :: spi_ocores where
  "demo_ie \<equiv> (demo_spi 0)\<lparr>ctrl_base := SPI_OCORES_CTRL_IE\<rparr>"

lemma demo_ie_ok: "msg_ok demo_ie"
  using demo_spi_ok(1) [of 0] by (simp add: msg_ok_def)

lemma demo_buses: "rd_acc (demo_spi n) = IO32" "wr_acc (demo_spi n) = IO32" "sp_mem (demo_spi n) = 0x1000" "ctrl_base (demo_spi n) = 0"
  "rd_acc demo_ie = IO32" "wr_acc demo_ie = IO32" "cur_xfer demo_ie = None" "sp_flags demo_ie = 0"
  by (simp_all add: demo_spi_def rd_acc_def wr_acc_def)

lemma spi_line_interrupts_witness:
  "\<exists>sp1 w1 sp2 w2. spi_ocores_transfer_one_message (spi_at IO32 0x1000 demo_slave (\<lambda>_. 5)) LittleEndian demo_ie
      \<lparr>dev = (demo_core, 0), trace = []\<rparr> = Some (Inr (0, sp1, w1))
    \<and> spi_serve (spi_at IO32 0x1000 demo_slave (\<lambda>_. 5)) demo_slave LittleEndian (msg_words demo_ie) sp1 w1 = Inr (sp2, w2)"
proof -
  have h: "sp_flags demo_ie AND SPI_OCORES_FLAG_POLL = 0" "ctrl_base demo_ie = SPI_OCORES_CTRL_IE"
    "k_left (fst (dev \<lparr>dev = (demo_core, 0), trace = []\<rparr>)) = 0"
    "spi_at IO32 0x1000 demo_slave (\<lambda>_. 5) = spi_at IO32 (sp_mem demo_ie) demo_slave (\<lambda>_. 5)"
    by (simp_all add: demo_buses demo_spi_ok demo_core_def)
  show ?thesis
    using spi_line_interrupts [OF demo_ie_ok demo_buses(7) h(1,2) demo_buses(5,6) h(3,4), of LittleEndian] by blast
qed

lemma spi_line_polled_witness:
  "\<exists>sp' w'. spi_ocores_transfer_one_message (spi_at IO32 0x1000 demo_slave (\<lambda>_. 5)) BigEndian (demo_spi 1)
      \<lparr>dev = (demo_core, 0), trace = []\<rparr> = Some (Inr (0, sp', w'))"
  using spi_line_polled [of "demo_spi 1" IO32 "\<lparr>dev = (demo_core, 0), trace = []\<rparr>"
      "spi_at IO32 0x1000 demo_slave (\<lambda>_. 5)" demo_slave "\<lambda>_. 5" BigEndian]
  by (fastforce simp: demo_spi_ok demo_buses demo_core_def)

end
