(* ===== verification/Spi_Limits.thy ===== *)
theory Spi_Limits
  imports Spi_Drive
begin

text \<open>
  Single words and the limits of the SPI driver: what a word looks like after it was sent and
  received, the rate the divider gives, and what happens with the transfers that \<open>xfer_ok\<close> rules
  out.
\<close>

unbundle bit_operations_syntax

section \<open>Loopback\<close>

text \<open>On a bank of registers a receive register reads as the transmit register at its address.\<close>

lemma spi_read_bank:
  "spi_read bank sp r w = (v, w') \<Longrightarrow> v = dev w (sp_mem sp + ucast r) \<and> dev w' = dev w"
  by (auto simp: spi_read_io ioread_def acc_mask_def rd_acc_def split: spi_regfn.splits)

lemma write_all_bank:
  "dev (write_all bank sp ws w) = fold (\<lambda>(r, v) g. g(sp_mem sp + ucast r := v)) ws (dev w)"
  by (induction ws arbitrary: w) (auto simp: write_all_def spi_bank_simps)

lemma read_all_bank:
  "fst (read_all bank sp rs w) = map (\<lambda>r. dev w (tx_addr (sp_mem sp) r)) rs"
proof (induction rs arbitrary: w)
  case (Cons r rs)
  obtain v w1 where "spi_read bank sp (SPI_OCORES_RX r) w = (v, w1)"
    by fastforce
  then show ?case
    using Cons.IH [of w1] spi_read_bank [of sp "SPI_OCORES_RX r" w v w1]
    by (auto simp: tx_addr_def split: prod.splits)
qed simp

lemma stored_of_frame:
  assumes "frame mem f (wire_regs f) g = bs"
  shows "stored_bytes f (map (\<lambda>r. g (tx_addr mem r)) (wire_regs f)) = (if f = Word128 then swap_halves bs else bs)"
  using assms by (cases f) (auto simp: frame_def wire_regs_def stored_bytes_def wbytes_def swap_halves_def)

lemma load_store: "store_bytes h p bs = Inr h' \<Longrightarrow> load_bytes h' p (length bs) = Inr bs"
  by (auto simp: store_bytes_def load_bytes_def take_splice split: ptr.splits if_splits)

text \<open>
  C21: a word that is pushed and popped over a loop-back comes back unchanged for words of up to
  64 bits, on processors of either byte order. A word of 128 bits comes back with its two halves
  exchanged: \<open>spi_ocores_hw_xfer_tx_push128\<close> puts the first half of the buffer in registers 3 and
  2, \<open>spi_ocores_hw_xfer_rx_pop128\<close> stores these as the second half.
\<close>

theorem spi_word_loopback:
  assumes "load_bytes (sp_heap sp) (cur_tx_buf sp) (wbytes f) = Inr bs" "room (sp_heap sp) (cur_rx_buf sp) (wbytes f)"
  shows "\<exists>w1 h' w2. push_fn f bank e sp w = Inr (wbytes f, w1) \<and> pop_fn f bank e sp w1 = Inr (wbytes f, h', w2)
    \<and> load_bytes h' (cur_rx_buf sp) (wbytes f) = Inr (if f = Word128 then swap_halves bs else bs)"
proof -
  let ?w1 = "write_all bank sp (word_writes f bs) w" and ?bs = "if f = Word128 then swap_halves bs else bs"
  have fr: "frame (sp_mem sp) f (wire_regs f) (dev ?w1) = bs"
    by (simp add: write_all_bank word_writes_frame length_load [OF assms(1)])
  obtain w2 where r: "read_all bank sp (wire_regs f) ?w1 = (map (\<lambda>r. dev ?w1 (tx_addr (sp_mem sp) r)) (wire_regs f), w2)"
    using read_all_bank [of sp "wire_regs f" ?w1] by (metis prod.collapse)
  have l: "length ?bs = wbytes f"
    using length_load [OF assms(1)] by (simp add: swap_halves_def)
  obtain h' where h: "store_bytes (sp_heap sp) (cur_rx_buf sp) ?bs = Inr h'"
    using store_room [of "sp_heap sp" "cur_rx_buf sp" ?bs] assms(2) unfolding l by blast
  have "pop_fn f bank e sp ?w1 = Inr (wbytes f, h', w2)"
    using pop_reads [OF r] h unfolding stored_of_frame [OF fr] by blast
  then show ?thesis
    using push_writes [OF assms(1), of bank e w] load_store [OF h] unfolding l by blast
qed

section \<open>The bit clock\<close>

lemma divider_value:
  fixes hz clk :: u32
  assumes "0 < unat hz" "unat hz < 2 ^ 31" "q = unat clk div (2 * unat hz)"
  shows "hz * 2 \<noteq> 0"
    "unat (ucast (clk div (hz * 2) - 1) :: u16) = (if q = 0 then 65535 else (q - 1) mod 65536)"
proof -
  have h2: "unat (hz * 2) = 2 * unat hz"
    using assms(2) by (simp add: unat_word_ariths)
  show "hz * 2 \<noteq> 0"
    using assms(1) h2 by (metis mult_is_0 unat_0 zero_less_iff_neq_zero zero_neq_numeral)
  have q: "unat (clk div (hz * 2)) = q"
    by (simp only: unat_div assms(3) h2)
  let ?d = "ucast (clk div (hz * 2) - 1) :: u16"
  show "unat ?d = (if q = 0 then 65535 else (q - 1) mod 65536)"
  proof (cases "q = 0")
    case True
    then have "clk div (hz * 2) = 0"
      using q by (metis unat_eq_zero)
    then have "?d = - 1"
      by (intro bit_word_eqI) (simp add: bit_simps)
    then show ?thesis
      using True by (simp add: unsigned_minus_1_eq_mask mask_eq_exp_minus_1)
  next
    case False
    then have "1 \<le> clk div (hz * 2)"
      using q by (simp add: word_le_nat_alt)
    then have "unat (clk div (hz * 2) - 1) = q - 1"
      using q by (simp add: unat_sub)
    then show ?thesis
      using False by (simp add: unsigned_ucast_eq take_bit_eq_mod)
  qed
qed

text \<open>
  C32: with the divider \<open>d\<close> the bit clock is the input clock by \<open>2 * (d + 1)\<close>. Let \<open>q\<close> be the
  whole number of times twice the requested rate goes into the input clock. For \<open>q\<close> from 2 to
  65536 the bit clock is at least the requested rate and less than it would be with the next
  larger divider; for \<open>q = 1\<close> it is a quarter of the input clock, below the requested rate; for
  \<open>q = 0\<close> the subtraction wraps and the slowest clock is chosen; a larger \<open>q\<close> is cut to 16 bits.
  The requested rate is a maximum: it is met only when the division has no remainder.
\<close>

theorem spi_divider_rate:
  assumes "0 < unat hz" "unat hz < 2 ^ 31" "q = unat clk div (2 * unat hz)"
  shows "\<exists>d w'. xfer_divider clk hz w = Inr (d, w') \<and> d \<noteq> 0
    \<and> (2 \<le> q \<and> q \<le> 65536 \<longrightarrow> unat d + 1 = q
        \<and> 2 * unat hz * (unat d + 1) \<le> unat clk \<and> unat clk < 2 * unat hz * (unat d + 2))
    \<and> (q = 1 \<longrightarrow> d = 1 \<and> unat clk < 4 * unat hz)
    \<and> (q = 0 \<longrightarrow> d = 0xFFFF)
    \<and> (65536 < q \<longrightarrow> unat d = max 1 ((q - 1) mod 65536))"
proof -
  let ?d = "ucast (clk div (hz * 2) - 1) :: u16"
  note n = divider_value(1) [OF assms] and d = divider_value(2) [OF assms]
  have r: "unat clk = 2 * unat hz * q + unat clk mod (2 * unat hz)" "unat clk mod (2 * unat hz) < 2 * unat hz"
    using assms(1) by (simp_all add: assms(3))
  define D where "D = (if ?d = 0 then 1 else ?d)"
  have z: "?d = 0 \<longleftrightarrow> unat ?d = 0"
    by (simp add: unat_eq_zero)
  have D: "unat D = max 1 (unat ?d)"
    using z by (cases "?d = 0") (simp_all add: D_def)
  obtain w' where w': "xfer_divider clk hz w = Inr (D, w')"
    using n by (cases "?d = 0") (simp_all add: xfer_divider_def D_def Let_def)
  have nz: "D \<noteq> 0"
    by (simp add: D_def)
  have r1: "unat D + 1 = q \<and> 2 * unat hz * (unat D + 1) \<le> unat clk \<and> unat clk < 2 * unat hz * (unat D + 2)"
    if "2 \<le> q" "q \<le> 65536"
  proof -
    have "unat D = q - 1"
      using D d that by simp
    then have e: "unat D + 1 = q" "unat D + 2 = q + 1"
      using that by simp_all
    show ?thesis
      unfolding e using r by (simp add: distrib_left)
  qed
  have r2: "D = 1 \<and> unat clk < 4 * unat hz" if "q = 1"
    using D d that r by (simp add: word_unat_eq_iff)
  have r3: "D = 0xFFFF" if "q = 0"
    using D d that by (simp add: word_unat_eq_iff)
  have r4: "unat D = max 1 ((q - 1) mod 65536)" if "65536 < q"
    using D d that by simp
  show ?thesis
    using w' nz r1 r2 r3 r4 by (intro exI [of _ D] exI [of _ w'] conjI impI) blast+
qed

section \<open>Transfers the driver does not handle\<close>

text \<open>\<open>process_n k\<close>: \<open>spi_ocores_process\<close>, up to \<open>k\<close> times, as long as it returns 0.\<close>

fun process_n :: "'d platform \<Rightarrow> endian \<Rightarrow> nat \<Rightarrow> spi_ocores \<Rightarrow> 'd spi_world \<Rightarrow> c_fault + int \<times> spi_ocores \<times> 'd spi_world" where
  "process_n P e 0 sp w = Inr (0, sp, w)"
| "process_n P e (Suc k) sp w = ebind (process_n P e k sp w) (\<lambda>(err, sp, w).
     if err \<noteq> 0 then Inr (err, sp, w) else spi_ocores_process P e sp w)"

text \<open>A controller that is never seen busy.\<close>

definition never_busy :: "'d platform \<Rightarrow> spi_ocores \<Rightarrow> bool" where
  "never_busy P sp \<longleftrightarrow> (\<forall>d. fst (p_read P (rd_acc sp) (sp_mem sp + ucast SPI_OCORES_CTRL) d) AND SPI_OCORES_CTRL_BUSY = 0)"

lemma never_busy_idle:
  assumes "never_busy P sp"
  shows "\<exists>w1. spi_ocores_is_busy P sp w = (False, w1)"
  using assms [unfolded never_busy_def, rule_format, of "dev w"]
  by (cases "p_read P (rd_acc sp) (sp_mem sp + ucast SPI_OCORES_CTRL) (dev w)")
    (simp add: spi_ocores_is_busy_def spi_read_io ioread_def)

text \<open>One round without buffers: the count goes down by the bytes of a word, whatever it is.\<close>

lemma process_no_buffers:
  assumes "never_busy P sp" "cur_tx_buf sp = Null" "cur_rx_buf sp = Null"
    "spi_ocores_hw_xfer_bits_per_word sp = Inr nbits" "cur_len sp - ucast (nbits div 8) \<noteq> 0"
  shows "\<exists>w'. spi_ocores_process P e sp w = Inr (0, sp\<lparr>cur_len := cur_len sp - ucast (nbits div 8)\<rparr>, w')"
proof -
  obtain w1 where "spi_ocores_is_busy P sp w = (False, w1)"
    using never_busy_idle [OF assms(1)] by blast
  then show ?thesis
    using assms(2-5) by (simp add: spi_ocores_process_def spi_ocores_hw_xfer_rxtx_def spi_ocores_hw_xfer_rx_pop_def
        spi_ocores_sw_xfer_has_pending_def spi_ocores_hw_xfer_tx_push_def word_gt_0)
qed

lemma and_not_mask_zero:
  assumes "(x :: int) AND NOT (mask n) = 0"
  shows "take_bit n x = x"
proof (rule bit_eqI)
  fix k
  have "\<not> bit (x AND NOT (mask n)) k"
    using assms by simp
  then show "bit (take_bit n x) k = bit x k"
    by (auto simp: bit_simps)
qed

lemma too_wide:
  assumes "128 < unat (b :: u8)"
  shows "(uint b - 1) AND NOT 127 \<noteq> 0"
proof
  have m: "(127 :: int) = mask 7"
    by (simp add: mask_eq_exp_minus_1)
  assume "(uint b - 1) AND NOT 127 = 0"
  then have "take_bit 7 (uint b - 1) = uint b - 1"
    unfolding m by (rule and_not_mask_zero)
  then have "uint b - 1 < 128"
    using take_bit_int_less_exp [of 7 "uint b - 1"] by simp
  moreover have "uint b = int (unat b)"
    by (rule uint_nat)
  ultimately show False
    using assms by linarith
qed

text \<open>Words without buffers, from a count of 0: the count wraps and goes down from there.\<close>

lemma process_n_junk:
  assumes "never_busy P sp" "cur_tx_buf sp = Null" "cur_rx_buf sp = Null" "cur_len sp = 0"
    "\<And>l. spi_ocores_hw_xfer_bits_per_word (sp\<lparr>cur_len := l\<rparr>) = Inr b" "0 < unat b div 8" "k < 2 ^ 27"
  shows "\<exists>w2. process_n P e k sp w = Inr (0, sp\<lparr>cur_len := - of_nat (k * (unat b div 8))\<rparr>, w2)"
  using assms(7)
proof (induction k)
  case 0
  then show ?case
    using assms(4) by simp
next
  case (Suc k)
  let ?n = "unat b div 8" and ?s = "sp\<lparr>cur_len := - of_nat (k * (unat b div 8))\<rparr>"
  obtain w2 where p: "process_n P e k sp w = Inr (0, ?s, w2)"
    using Suc by auto
  have "(of_nat (unat (b div 8)) :: u32) = ucast (b div 8)"
    by simp
  then have c: "(ucast (b div 8) :: u32) = of_nat ?n"
    by (simp add: unat_div)
  have e: "cur_len ?s - ucast (b div 8) = - of_nat (Suc k * ?n)"
    unfolding c by simp
  have n: "?n \<le> 31"
    using unsigned_less [of b, where 'a = nat] by simp
  have "Suc k * ?n \<le> (2 ^ 27 - 1) * 31"
    using Suc.prems n by (intro mult_le_mono) simp_all
  then have "Suc k * ?n < 2 ^ 32" "0 < Suc k * ?n"
    using assms(6) by simp_all
  then have "(of_nat (Suc k * ?n) :: u32) \<noteq> 0"
    unfolding word_of_nat_eq_0_iff by (auto dest: nat_dvd_not_less)
  then have "cur_len ?s - ucast (b div 8) \<noteq> 0"
    unfolding e by (simp only: neg_equal_0_iff_equal not_False_eq_True)
  moreover have "never_busy P ?s"
    using assms(1) by (simp add: never_busy_def rd_acc_def)
  ultimately show ?case
    using p process_no_buffers [of P ?s b e w2] assms(2,3,5) e by auto
qed

text \<open>
  The first transfer of a message has more than 128 bits per word. \<open>spi_ocores_sw_xfer_next_start\<close>
  refuses it with \<open>EINVAL\<close>, but \<open>spi_ocores_transfer_one_message\<close> does not look at that and goes on
  to poll. The count is 0 then and wraps: \<open>spi_ocores_process\<close> finds words pending and starts the
  controller with whatever is in its registers, at least \<open>2 ^ 27 - 1\<close> times.
\<close>

theorem spi_rejected_transfer_runs:
  assumes "transfers (cur_msg sp) = x # xs" "cur_xfer sp = None" "128 < unat (xfer_bits (spi (cur_msg sp)) x)"
    "cur_tx_buf sp = Null" "cur_rx_buf sp = Null" "cur_len sp = 0" "never_busy P sp" "k < 2 ^ 27"
  shows "\<exists>sp1 sp2 w1 w2. spi_ocores_sw_xfer_next_start P e sp w = Inr (- EINVAL, sp1, w1)
    \<and> process_n P e k sp1 w1 = Inr (0, sp2, w2)
    \<and> cur_len sp2 = - of_nat (k * (unat (xfer_bits (spi (cur_msg sp)) x) div 8))"
proof -
  let ?b = "xfer_bits (spi (cur_msg sp)) x" and ?sp = "set_status (- EINVAL) (sp\<lparr>cur_xfer := Some 0\<rparr>)"
  have bits: "spi_ocores_hw_xfer_bits_per_word (?sp\<lparr>cur_len := l\<rparr>) = Inr ?b" for l
    using assms(1) by (simp add: spi_ocores_hw_xfer_bits_per_word_def the_xfer_def set_status_def xfer_bits_def)
  have "spi_ocores_hw_xfer_bits_per_word (sp\<lparr>cur_xfer := Some 0\<rparr>) = Inr ?b" "the_xfer (sp\<lparr>cur_xfer := Some 0\<rparr>) = Inr x"
    using assms(1) by (simp_all add: spi_ocores_hw_xfer_bits_per_word_def the_xfer_def xfer_bits_def)
  then have s: "spi_ocores_sw_xfer_next_start P e sp w = Inr (- EINVAL, ?sp, w)"
    using assms(1,2) too_wide [OF assms(3)]
    by (simp add: spi_ocores_sw_xfer_next_start_def spi_ocores_sw_xfer_next_init_def next_xfer_def)
  have "never_busy P ?sp" "cur_tx_buf ?sp = Null" "cur_rx_buf ?sp = Null" "cur_len ?sp = 0"
    using assms(4-7) by (simp_all add: never_busy_def rd_acc_def set_status_def)
  moreover have "0 < unat ?b div 8"
    using assms(3) by simp
  ultimately obtain w2 where "process_n P e k ?sp w = Inr (0, ?sp\<lparr>cur_len := - of_nat (k * (unat ?b div 8))\<rparr>, w2)"
    using process_n_junk [of P ?sp ?b k e w] bits assms(8) by blast
  then show ?thesis
    using s by (intro exI conjI) (assumption | simp)+
qed

lemma narrow_ok:
  assumes "0 < unat (b :: u8)" "unat b < 8"
  shows "(uint b - 1) AND NOT 127 = 0"
proof -
  have m: "(127 :: int) = mask 7"
    by (simp add: mask_eq_exp_minus_1)
  have l: "(2 :: int) ^ 7 = 128"
    by simp
  have "uint b = int (unat b)"
    by (rule uint_nat)
  then have "take_bit 7 (uint b - 1) = uint b - 1"
    using assms l by (intro take_bit_int_eq_self) linarith+
  then have "\<not> k < 7 \<Longrightarrow> \<not> bit (uint b - 1) k" for k
    by (metis bit_take_bit_iff)
  then show ?thesis
    unfolding m by (intro bit_eqI) (auto simp: bit_simps)
qed

lemma len_covers:
  assumes "unat (b :: u8) < 8" "0 < unat (len :: u32)" "unat len < 2 ^ 29"
  shows "\<not> push_bit 3 len < (ucast b :: u32)"
proof -
  have "\<not> push_bit 3 len < (ucast (8 :: u8) :: u32)"
    using assms(2,3) by (intro len_enough [of 8 Word8]) (simp_all add: wbytes_def)
  moreover have "unat (ucast b :: u32) < 8"
    using assms(1) by (simp add: unsigned_ucast_eq take_bit_nat_eq_self)
  ultimately show ?thesis
    by (simp add: word_less_nat_alt)
qed

text \<open>One round with fewer than 8 bits per word: a byte is stored, the count stays.\<close>

lemma process_sub_byte:
  assumes "never_busy P sp" "cur_tx_buf sp = Null" "cur_rx_buf sp = Ptr b i" "cur_rx_pop sp = Some Word8"
    "spi_ocores_hw_xfer_bits_per_word sp = Inr nb" "unat nb < 8" "cur_len sp \<noteq> 0"
  shows "i < length (sp_heap sp b) \<Longrightarrow> \<exists>v w'. spi_ocores_process P e sp w
      = Inr (0, sp\<lparr>sp_heap := (sp_heap sp)(b := splice i [v] (sp_heap sp b)), cur_rx_buf := Ptr b (i + 1)\<rparr>, w')"
    "i = length (sp_heap sp b) \<Longrightarrow> spi_ocores_process P e sp w = Inl (BadIndex (int i + 1))"
proof -
  obtain w1 where w1: "spi_ocores_is_busy P sp w = (False, w1)"
    using never_busy_idle [OF assms(1)] by blast
  obtain v w2 where v: "spi_read P sp 0 w1 = (v, w2)"
    by fastforce
  have "unat (nb div 8) = 0"
    using assms(6) by (simp add: unat_div)
  then have z: "nb div 8 = 0"
    by (simp add: unat_eq_zero)
  have "length (cpu_bytes e (Suc 0) (ucast (v AND 0xFF) :: u8)) = Suc 0"
    by simp
  then obtain y where y: "cpu_bytes e (Suc 0) (ucast (v AND 0xFF) :: u8) = [y]"
    by (metis length_0_conv length_Suc_conv)
  note [simp] = spi_ocores_process_def spi_ocores_hw_xfer_rxtx_def spi_ocores_hw_xfer_rx_pop_def pop_fn_def
    spi_ocores_hw_xfer_rx_pop8_def spi_ocores_rx_get_def spi_ocores_sw_xfer_has_pending_def
    spi_ocores_hw_xfer_tx_push_def store_bytes_def word_gt_0
  show "i < length (sp_heap sp b) \<Longrightarrow> \<exists>v w'. spi_ocores_process P e sp w
      = Inr (0, sp\<lparr>sp_heap := (sp_heap sp)(b := splice i [v] (sp_heap sp b)), cur_rx_buf := Ptr b (i + 1)\<rparr>, w')"
    using assms w1 v z y by simp (rule exI [of _ y], rule spi_ocores.equality, simp_all)
  show "i = length (sp_heap sp b) \<Longrightarrow> spi_ocores_process P e sp w = Inl (BadIndex (int i + 1))"
    using assms w1 v z y by simp
qed

lemma process_n_sub_byte:
  assumes "never_busy P sp" "cur_tx_buf sp = Null" "cur_rx_buf sp = Ptr b 0" "cur_rx_pop sp = Some Word8"
    "\<And>h p. spi_ocores_hw_xfer_bits_per_word (sp\<lparr>sp_heap := h, cur_rx_buf := p\<rparr>) = Inr nb" "unat nb < 8" "cur_len sp \<noteq> 0"
    "k \<le> length (sp_heap sp b)"
  shows "\<exists>h w'. length (h b) = length (sp_heap sp b) \<and> process_n P e k sp w = Inr (0, sp\<lparr>sp_heap := h, cur_rx_buf := Ptr b k\<rparr>, w')"
  using assms(8)
proof (induction k)
  case 0
  then show ?case
    using assms(3) by (intro exI [of _ "sp_heap sp"]) simp
next
  case (Suc k)
  then obtain h w' where p: "length (h b) = length (sp_heap sp b)"
      "process_n P e k sp w = Inr (0, sp\<lparr>sp_heap := h, cur_rx_buf := Ptr b k\<rparr>, w')"
    by auto
  let ?s = "sp\<lparr>sp_heap := h, cur_rx_buf := Ptr b k\<rparr>"
  have "never_busy P ?s" "k < length (sp_heap ?s b)"
    using assms(1) Suc.prems p(1) by (simp_all add: never_busy_def rd_acc_def)
  then obtain v w2 where "spi_ocores_process P e ?s w'
      = Inr (0, ?s\<lparr>sp_heap := (sp_heap ?s)(b := splice k [v] (sp_heap ?s b)), cur_rx_buf := Ptr b (k + 1)\<rparr>, w2)"
    using process_sub_byte(1) [of P ?s b k nb e w'] assms by auto
  then show ?case
    using p Suc.prems by (intro exI [of _ "h(b := splice k [v] (h b))"] exI [of _ w2]) (simp add: fun_upd_def)
qed

text \<open>
  C33: a transfer with 1 to 7 bits per word is accepted, but \<open>bits / 8\<close> is 0 then: the count of
  bytes never goes down and the transfer never ends. Every word stores a byte; the first one
  after the receive buffer is full is stored past its end.
\<close>

theorem spi_sub_byte_overrun:
  assumes "transfers (cur_msg sp) = [x]" "cur_xfer sp = None"
    "0 < unat (xfer_bits (spi (cur_msg sp)) x)" "unat (xfer_bits (spi (cur_msg sp)) x) < 8"
    "tx_buf x = Null" "rx_buf x = Ptr b 0" "length (sp_heap sp b) = unat (x_len x)"
    "0 < unat (x_len x)" "unat (x_len x) < 2 ^ 29" "xfer_hz sp x * 2 \<noteq> 0" "never_busy P sp"
  shows "\<exists>sp1 w1 r. spi_ocores_sw_xfer_next_start P e sp w = Inr (0, sp1, w1)
    \<and> process_n P e (unat (x_len x)) sp1 w1 = Inr (0, r)
    \<and> process_n P e (Suc (unat (x_len x))) sp1 w1 = Inl (BadIndex (int (unat (x_len x)) + 1))"
proof -
  let ?b = "xfer_bits (spi (cur_msg sp)) x" and ?sp = "sp\<lparr>cur_xfer := Some 0\<rparr>"
  let ?sp1 = "?sp\<lparr>cur_tx_buf := Null, cur_rx_buf := Ptr b 0, cur_len := x_len x,
      cur_tx_push := Some Word8, cur_rx_pop := Some Word8\<rparr>"
  have bits: "spi_ocores_hw_xfer_bits_per_word ?sp = Inr ?b" "the_xfer ?sp = Inr x"
    "\<And>h p. spi_ocores_hw_xfer_bits_per_word (?sp1\<lparr>sp_heap := h, cur_rx_buf := p\<rparr>) = Inr ?b"
    using assms(1) by (simp_all add: spi_ocores_hw_xfer_bits_per_word_def the_xfer_def xfer_bits_def)
  have w8: "word_fn ?b = Some Word8"
    using assms(4) by (simp add: word_fn_def word_le_nat_alt)
  obtain d w1 where d: "xfer_divider (clock_hz sp) (xfer_hz sp x) w = Inr (d, w1)"
    using divider_ok [OF assms(10)] by blast
  have hz: "xfer_hz ?sp x = xfer_hz sp x"
    by (simp add: xfer_hz_def)
  have "(uint ?b - 1) AND NOT 127 = 0"
    using assms(3,4) by (rule narrow_ok)
  moreover have "\<not> push_bit 3 (x_len x) < ucast ?b"
    using assms(3,4,8,9) by (intro len_covers) simp_all
  ultimately have i: "spi_ocores_sw_xfer_next_init P sp w
      = Inr (0, ?sp1, spi_ocores_hw_xfer_config P ?sp (xfer_ctrl ?sp ?b) d w1)"
    using assms(1,2,5,6) bits(1,2) w8 d hz
    by (simp add: spi_ocores_sw_xfer_next_init_def next_xfer_def xfer_setup_def Let_def)
  then obtain w2 where s: "spi_ocores_sw_xfer_next_start P e sp w = Inr (0, ?sp1, w2)"
    by (simp add: spi_ocores_sw_xfer_next_start_def spi_ocores_hw_xfer_tx_push_def)
  have nb: "never_busy P ?sp1" "cur_len ?sp1 \<noteq> 0"
    using assms(8,11) by (auto simp: never_busy_def rd_acc_def)
  obtain h w3 where p: "length (h b) = unat (x_len x)"
      "process_n P e (unat (x_len x)) ?sp1 w2 = Inr (0, ?sp1\<lparr>sp_heap := h, cur_rx_buf := Ptr b (unat (x_len x))\<rparr>, w3)"
    using process_n_sub_byte [OF nb(1) _ _ _ bits(3) assms(4) nb(2), of b "unat (x_len x)" e w2] assms(7) by auto
  have "never_busy P (?sp1\<lparr>sp_heap := h, cur_rx_buf := Ptr b (unat (x_len x))\<rparr>)"
    using nb(1) by (simp add: never_busy_def rd_acc_def)
  then have "spi_ocores_process P e (?sp1\<lparr>sp_heap := h, cur_rx_buf := Ptr b (unat (x_len x))\<rparr>) w3
      = Inl (BadIndex (int (unat (x_len x)) + 1))"
    using p(1) nb(2) assms(4) bits(3) by (intro process_sub_byte(2) [of P _ b "unat (x_len x)" ?b]) simp_all
  then show ?thesis
    using s p(2) by simp
qed

section \<open>Witnesses\<close>

lemma ticking_never_busy: "never_busy ticking sp"
  by (simp add: never_busy_def ticking_def)

text \<open>The message of \<open>demo_spi\<close> with other word sizes and buffers.\<close>

definition demo_bits :: "u8 \<Rightarrow> ptr \<Rightarrow> spi_ocores" where
  "demo_bits n tx = (demo_spi 1)\<lparr>cur_msg := (cur_msg (demo_spi 1))\<lparr>transfers := [\<lparr>tx_buf = tx, rx_buf = Ptr 1 0,
     x_len = 4, x_bits_per_word = n, speed_hz = 1000000, x_delay = 0, cs_change = False\<rparr>]\<rparr>\<rparr>"

definition demo_loop :: spi_ocores where
  "demo_loop = (demo_spi 0)\<lparr>cur_tx_buf := Ptr 0 0, cur_rx_buf := Ptr 1 0, sp_heap := (\<lambda>_. map of_nat [0..<16])\<rparr>"

lemma demo_loop_ok:
  "load_bytes (sp_heap demo_loop) (cur_tx_buf demo_loop) (wbytes Word128) = Inr (map of_nat [0..<16])"
  "room (sp_heap demo_loop) (cur_rx_buf demo_loop) (wbytes Word128)"
  by (simp_all add: demo_loop_def load_bytes_def room_def wbytes_def)

lemma spi_word_loopback_witness:
  "\<exists>w1 h' w2. pop_fn Word128 bank LittleEndian demo_loop w1 = Inr (wbytes Word128, h', w2)
    \<and> load_bytes h' (cur_rx_buf demo_loop) (wbytes Word128) = Inr (swap_halves (map of_nat [0..<16]))"
  using spi_word_loopback [OF demo_loop_ok, of LittleEndian "\<lparr>dev = (\<lambda>_. 0), trace = []\<rparr>"] by auto

lemma spi_divider_rate_witness:
  "\<exists>d w'. xfer_divider 100000000 20000000 \<lparr>dev = 0 :: nat, trace = []\<rparr> = Inr (d, w') \<and> unat d + 1 = 2"
  using spi_divider_rate [of 20000000 2 100000000 "\<lparr>dev = 0, trace = []\<rparr>"] by auto

lemma spi_rejected_transfer_runs_witness:
  "\<exists>sp1 w1 sp2 w2. process_n ticking LittleEndian 1000 sp1 w1 = Inr (0, sp2, w2) \<and> cur_len sp2 = - 18000"
  using spi_rejected_transfer_runs [of "demo_bits 144 Null" _ "[]" ticking 1000 LittleEndian "\<lparr>dev = 0, trace = []\<rparr>"]
  by (simp add: demo_bits_def demo_spi_def xfer_bits_def ticking_never_busy) blast

lemma spi_sub_byte_overrun_witness:
  "\<exists>sp1 w1. process_n ticking LittleEndian (Suc 4) sp1 w1 = Inl (BadIndex 5)"
  using spi_sub_byte_overrun [of "demo_bits 7 Null" _ 1 ticking LittleEndian "\<lparr>dev = 0, trace = []\<rparr>"]
  by (simp add: demo_bits_def demo_spi_def xfer_bits_def xfer_hz_def ticking_never_busy del: process_n.simps(2)) blast

end
