(* ===== verification/Spi_Probe.thy ===== *)
theory Spi_Probe
  imports Spi_Xfer
begin

text \<open>
  \<open>probe\<close> and \<open>remove\<close> of the SPI driver: the state a controller starts in, the resources taken
  and released on each exit. The kernel's answers are a parameter.
\<close>

unbundle bit_operations_syntax

section \<open>Probe and remove\<close>

record spi_ocores_platform_data =
  big_endian :: u32
  pd_clock_hz :: u32
  num_devices :: u32
  devices :: "string list"

text \<open>\<open>sv_new_device\<close> tells for which entries \<open>spi_new_device\<close> returns a device.\<close>

record spi_env =
  sv_alloc :: bool
  sv_pdata :: "spi_ocores_platform_data option"
  sv_ioremap :: "int + addr"
  sv_irq :: int
  sv_request_irq :: int
  sv_register :: int
  sv_new_device :: "nat \<Rightarrow> bool"

record spi_master =
  num_chipselect :: u32
  mode_bits :: u32

text \<open>What \<open>spi_alloc_master\<close> hands out is zeroed.\<close>

definition zero_spi :: spi_ocores where
  "zero_spi = \<lparr>sp_flags = 0, sp_mem = 0, clock_hz = 0, ctrl_base = 0, cur_xfer = None,
     cur_tx_buf = Null, cur_rx_buf = Null, cur_len = 0, cur_tx_push = None, cur_rx_pop = None,
     sp_read = Spi32, sp_write = Spi32,
     cur_msg = \<lparr>transfers = [], spi = \<lparr>chip_select = 0, mode = 0, spi_bits_per_word = 0, max_speed_hz = 0\<rparr>,
       actual_length = 0, status = 0\<rparr>,
     sp_heap = (\<lambda>_. [])\<rparr>"

definition spi_probe_config :: "spi_ocores_platform_data \<Rightarrow> spi_ocores \<times> spi_master" where
  "spi_probe_config pd =
     (let sp = zero_spi\<lparr>clock_hz := pd_clock_hz pd\<rparr>;
          master = \<lparr>num_chipselect = SPI_OCORES_CS_MAX_N, mode_bits = SPI_LSB_FIRST OR SPI_CPHA\<rparr>;
          sp = (if big_endian pd \<noteq> 0 then sp\<lparr>sp_read := Spi32be, sp_write := Spi32be\<rparr>
            else sp\<lparr>sp_read := Spi32, sp_write := Spi32\<rparr>)
      in (sp, master))"

text \<open>The loop over the devices; an entry past the array is read out of bounds.\<close>

fun spi_add_devices :: "spi_env \<Rightarrow> string list \<Rightarrow> nat \<Rightarrow> nat \<Rightarrow> 'd spi_world \<Rightarrow> c_fault + 'd spi_world" where
  "spi_add_devices E ds i 0 w = Inr w"
| "spi_add_devices E ds i (Suc n) w =
     (if \<not> i < length ds then Inl (BadIndex (int i))
      else let w = kcall (SpiNewDevice i) w;
               w = (if sv_new_device E i then w else kcall SpiDevErr w)
        in spi_add_devices E ds (i + 1) n w)"

text \<open>The exits of \<open>spi_ocores_probe\<close>, from the last one up.\<close>

definition spi_err_pdata :: "'d spi_world \<Rightarrow> 'd spi_world" where
  "spi_err_pdata w = kcall SpiMasterPut w"

definition spi_err_irq :: "'d spi_world \<Rightarrow> 'd spi_world" where
  "spi_err_irq w = spi_err_pdata (kcall SpiIounmap w)"

definition spi_err_reg :: "spi_ocores \<Rightarrow> 'd spi_world \<Rightarrow> 'd spi_world" where
  "spi_err_reg sp w = spi_err_irq (if sp_flags sp AND SPI_OCORES_FLAG_POLL = 0 then kcall SpiFreeIrq w else w)"

definition spi_probe_register :: "spi_env \<Rightarrow> spi_ocores_platform_data \<Rightarrow> spi_ocores \<Rightarrow> 'd spi_world \<Rightarrow>
    c_fault + int \<times> spi_ocores \<times> 'd spi_world" where
  "spi_probe_register E pd sp w =
     (if sv_register E \<noteq> 0 then Inr (sv_register E, sp, spi_err_reg sp w)
      else ebind (spi_add_devices E (devices pd) 0 (unat (num_devices pd)) (kcall SpiRegister w))
        (\<lambda>w. Inr (0, sp, w)))"

definition spi_probe_irq :: "spi_env \<Rightarrow> spi_ocores_platform_data \<Rightarrow> spi_ocores \<Rightarrow> 'd spi_world \<Rightarrow>
    c_fault + int \<times> spi_ocores \<times> 'd spi_world" where
  "spi_probe_irq E pd sp w =
     (let irq = sv_irq E;
          sp = (if irq = - ENXIO then sp\<lparr>sp_flags := sp_flags sp OR SPI_OCORES_FLAG_POLL\<rparr> else sp)
      in if irq \<noteq> - ENXIO \<and> irq < 0 then Inr (irq, sp, spi_err_irq w)
         else if sp_flags sp AND SPI_OCORES_FLAG_POLL = 0 then
           (let sp = sp\<lparr>ctrl_base := ctrl_base sp OR SPI_OCORES_CTRL_IE\<rparr>
            in if sv_request_irq E < 0 then Inr (sv_request_irq E, sp, spi_err_irq (kcall SpiDevErr w))
               else spi_probe_register E pd sp (kcall SpiRequestIrq w))
         else spi_probe_register E pd sp w)"

definition spi_ocores_probe :: "spi_env \<Rightarrow> 'd spi_world \<Rightarrow> c_fault + int \<times> spi_ocores \<times> 'd spi_world" where
  "spi_ocores_probe E w =
     (if \<not> sv_alloc E then Inr (- ENOMEM, zero_spi, kcall SpiDevErr w)
      else let w = kcall SpiMasterAlloc w
        in case sv_pdata E of
             None \<Rightarrow> Inr (- EINVAL, zero_spi, spi_err_pdata w)
           | Some pd \<Rightarrow>
               let (sp, master) = spi_probe_config pd
               in case sv_ioremap E of
                    Inl err \<Rightarrow> Inr (err, sp, spi_err_pdata w)
                  | Inr base \<Rightarrow> spi_probe_irq E pd (sp\<lparr>sp_mem := base\<rparr>) (kcall SpiIoremap w))"

definition spi_ocores_remove :: "spi_env \<Rightarrow> spi_ocores \<Rightarrow> 'd spi_world \<Rightarrow> int \<times> 'd spi_world" where
  "spi_ocores_remove E sp w =
     (let w = (if sv_irq E > 0 then kcall SpiFreeIrq w else w);
          w = kcall SpiUnregister w;
          w = kcall SpiIounmap w;
          w = kcall SpiMasterPut w
      in (0, w))"

text \<open>What the master offers for the devices on it: neither does anything.\<close>

definition spi_ocores_setup :: "spi_device \<Rightarrow> 'd spi_world \<Rightarrow> int \<times> 'd spi_world" where
  "spi_ocores_setup d w = (0, w)"

definition spi_ocores_cleanup :: "spi_device \<Rightarrow> 'd spi_world \<Rightarrow> 'd spi_world" where
  "spi_ocores_cleanup d w = w"

definition spi_ocores_id_table :: "string list" where
  "spi_ocores_id_table = [''ocores-spi'', ''spi-ocores'']"

section \<open>The books\<close>

text \<open>
  References to the master: \<open>spi_alloc_master\<close> takes one, \<open>spi_master_put\<close> drops one, and so does
  \<open>spi_unregister_master\<close>, as the documentation of the SPI core says.
\<close>

definition master_refs :: "spi_call event list \<Rightarrow> int" where
  "master_refs es = net SpiMasterAlloc SpiMasterPut es - int (count_list es (EvCall SpiUnregister))"

definition spi_books :: "spi_call event list \<Rightarrow> int list" where
  "spi_books es = [master_refs es, net SpiIoremap SpiIounmap es, net SpiRequestIrq SpiFreeIrq es,
     net SpiRegister SpiUnregister es]"

lemma books_simps:
  "trace (kcall k w) = trace w @ [EvCall k]"
  "net a b (es @ fs) = net a b es + net a b fs"
  "net a b [] = 0"
  "net a b (EvCall k # es) = (if k = a then 1 else 0) - (if k = b then 1 else 0) + net a b es"
  by (simp_all add: trace_kcall net_def)

lemma add_devices_books:
  "spi_add_devices E ds i n w = Inr w' \<Longrightarrow> spi_books (trace w') = spi_books (trace w)"
proof (induction n arbitrary: i w)
  case (Suc n)
  then show ?case
    using Suc.IH [of "i + 1"]
    by (auto simp: Let_def spi_books_def master_refs_def books_simps split: if_splits)
qed simp

lemma add_devices_total:
  "i + n \<le> length ds \<Longrightarrow> \<exists>w'. spi_add_devices E ds i n w = Inr w'"
  by (induction n arbitrary: i w) (simp_all add: Let_def)

lemma register_books:
  assumes "unat (num_devices pd) \<le> length (devices pd)" "sv_register E \<le> 0"
  shows "\<exists>err w'. spi_probe_register E pd sp w = Inr (err, sp, w')
    \<and> (err = 0 \<and> spi_books (trace w') = spi_books (trace (kcall SpiRegister w))
      \<or> err < 0 \<and> spi_books (trace w') = spi_books (trace (spi_err_reg sp w)))"
proof (cases "sv_register E = 0")
  case True
  obtain w' where "spi_add_devices E (devices pd) 0 (unat (num_devices pd)) (kcall SpiRegister w) = Inr w'"
    using add_devices_total [of 0 "unat (num_devices pd)" "devices pd"] assms(1) by auto
  then show ?thesis
    using True add_devices_books by (fastforce simp: spi_probe_register_def)
next
  case False
  then show ?thesis
    using assms(2) by (simp add: spi_probe_register_def)
qed

lemma poll_bit: "(x OR SPI_OCORES_FLAG_POLL) AND SPI_OCORES_FLAG_POLL \<noteq> 0"
  "(c OR SPI_OCORES_CTRL_IE) AND SPI_OCORES_CTRL_IE \<noteq> 0"
proof -
  have "bit ((x OR SPI_OCORES_FLAG_POLL) AND SPI_OCORES_FLAG_POLL) 0" "bit ((c OR SPI_OCORES_CTRL_IE) AND SPI_OCORES_CTRL_IE) 12"
    by (simp_all add: bit_simps)
  then show "(x OR SPI_OCORES_FLAG_POLL) AND SPI_OCORES_FLAG_POLL \<noteq> 0" "(c OR SPI_OCORES_CTRL_IE) AND SPI_OCORES_CTRL_IE \<noteq> 0"
    by (metis bit_0_eq bot_apply bot_bool_def)+
qed

lemmas spi_exits = spi_err_reg_def spi_err_irq_def spi_err_pdata_def spi_books_def master_refs_def books_simps

text \<open>
  C34: \<open>spi_ocores_probe\<close>, on every answer of the kernel. Either it returns 0 and holds one
  reference to the master, the mapping, the registration and, unless it polls, the interrupt, and
  the controller is idle, with the accessors of the bus's byte order and the interrupt enable bit
  set exactly when it does not poll. Or it returns an error and holds nothing.
\<close>

theorem spi_ocores_probe_balanced:
  assumes "\<And>pd. sv_pdata E = Some pd \<Longrightarrow> unat (num_devices pd) \<le> length (devices pd)"
    "\<And>err. sv_ioremap E = Inl err \<Longrightarrow> err < 0" "sv_register E \<le> 0" "trace w = []"
  shows "\<exists>err sp w'. spi_ocores_probe E w = Inr (err, sp, w')
    \<and> (err < 0 \<and> spi_books (trace w') = [0, 0, 0, 0]
      \<or> err = 0 \<and> (let poll = (sv_irq E = - ENXIO) in
          spi_books (trace w') = [1, 1, if poll then 0 else 1, 1]
          \<and> cur_xfer sp = None \<and> cur_tx_buf sp = Null \<and> cur_rx_buf sp = Null \<and> cur_len sp = 0
          \<and> (\<exists>pd. sv_pdata E = Some pd \<and> clock_hz sp = pd_clock_hz pd
              \<and> sp_read sp = (if big_endian pd \<noteq> 0 then Spi32be else Spi32) \<and> sp_write sp = sp_read sp)
          \<and> (sp_flags sp AND SPI_OCORES_FLAG_POLL \<noteq> 0 \<longleftrightarrow> poll)
          \<and> (ctrl_base sp AND SPI_OCORES_CTRL_IE \<noteq> 0 \<longleftrightarrow> \<not> poll)))"
proof (cases "sv_alloc E \<and> sv_pdata E \<noteq> None \<and> (\<exists>base. sv_ioremap E = Inr base)")
  case False
  have z: "spi_books (trace w) = [0, 0, 0, 0]"
    using assms(4) by (simp add: spi_books_def master_refs_def net_def)
  from False show ?thesis
    using assms(2,4) z by (cases "sv_pdata E"; cases "sv_ioremap E")
      (auto simp: spi_ocores_probe_def spi_exits Let_def split: prod.splits)
next
  case True
  then obtain pd base where e: "sv_alloc E" "sv_pdata E = Some pd" "sv_ioremap E = Inr base"
    by blast
  obtain sp m where c: "spi_probe_config pd = (sp, m)"
    by fastforce
  have sp: "sp_flags sp = 0" "ctrl_base sp = 0" "cur_xfer sp = None" "cur_tx_buf sp = Null" "cur_rx_buf sp = Null"
      "cur_len sp = 0" "clock_hz sp = pd_clock_hz pd" "sp_read sp = (if big_endian pd \<noteq> 0 then Spi32be else Spi32)"
      "sp_write sp = sp_read sp"
    using c by (auto simp: spi_probe_config_def zero_spi_def Let_def split: if_splits)
  let ?w = "kcall SpiIoremap (kcall SpiMasterAlloc w)"
  let ?sp = "if sv_irq E = - ENXIO then sp\<lparr>sp_mem := base, sp_flags := sp_flags sp OR SPI_OCORES_FLAG_POLL\<rparr>
      else sp\<lparr>sp_mem := base, ctrl_base := ctrl_base sp OR SPI_OCORES_CTRL_IE\<rparr>"
  let ?w2 = "if sv_irq E = - ENXIO then ?w else kcall SpiRequestIrq ?w"
  have p: "spi_ocores_probe E w = spi_probe_irq E pd (sp\<lparr>sp_mem := base\<rparr>) ?w"
    using e c by (simp add: spi_ocores_probe_def)
  have z: "spi_books (trace ?w) = [1, 1, 0, 0]"
    using assms(4) by (simp add: spi_books_def master_refs_def books_simps net_def)
  have poll: "sp_flags ?sp AND SPI_OCORES_FLAG_POLL \<noteq> 0 \<longleftrightarrow> sv_irq E = - ENXIO"
      "ctrl_base ?sp AND SPI_OCORES_CTRL_IE \<noteq> 0 \<longleftrightarrow> sv_irq E \<noteq> - ENXIO"
    using sp poll_bit by simp_all
  show ?thesis
  proof (cases "sv_irq E \<noteq> - ENXIO \<and> (sv_irq E < 0 \<or> sv_request_irq E < 0)")
    case True
    then show ?thesis
      using sp z unfolding p by (auto simp: spi_probe_irq_def spi_exits Let_def)
  next
    case False
    then have r: "spi_probe_irq E pd (sp\<lparr>sp_mem := base\<rparr>) ?w = spi_probe_register E pd ?sp ?w2"
      using sp poll_bit by (auto simp: spi_probe_irq_def Let_def)
    obtain err w' where g: "spi_probe_register E pd ?sp ?w2 = Inr (err, ?sp, w')"
      "err = 0 \<and> spi_books (trace w') = spi_books (trace (kcall SpiRegister ?w2))
        \<or> err < 0 \<and> spi_books (trace w') = spi_books (trace (spi_err_reg ?sp ?w2))"
      using register_books [OF assms(1) [OF e(2)] assms(3), of ?sp ?w2] by blast
    have b: "spi_books (trace (spi_err_reg ?sp ?w2)) = [0, 0, 0, 0]"
      "spi_books (trace (kcall SpiRegister ?w2)) = [1, 1, if sv_irq E = - ENXIO then 0 else 1, 1]"
      using z poll(1) by (auto simp: spi_exits split: if_splits)
    show ?thesis
      unfolding p r g(1) using g(2) b poll sp e(2)
      by (intro exI [of _ err] exI [of _ ?sp] exI [of _ w']) (auto simp: Let_def)
  qed
qed

text \<open>
  \<open>spi_ocores_remove\<close> after a successful probe releases the mapping, the interrupt and the
  registration, but drops the reference to the master twice: \<open>spi_unregister_master\<close> drops it, and
  \<open>spi_master_put\<close> is called as well, after the state of the driver, which is part of the master,
  was read once more.
\<close>

theorem spi_remove_drops_twice:
  assumes "spi_books (trace w) = [1, 1, if 0 < sv_irq E then 1 else 0, 1]"
  shows "\<exists>w'. spi_ocores_remove E sp w = (0, w') \<and> spi_books (trace w') = [-1, 0, 0, 0]"
  using assms by (auto simp: spi_ocores_remove_def spi_books_def master_refs_def books_simps)

section \<open>Witnesses\<close>

definition demo_spi_env :: spi_env where
  "demo_spi_env = \<lparr>sv_alloc = True, sv_pdata = Some \<lparr>big_endian = 1, pd_clock_hz = 62500000, num_devices = 1,
       devices = [''m25p80'']\<rparr>, sv_ioremap = Inr 0x2000, sv_irq = 17, sv_request_irq = 0, sv_register = 0,
     sv_new_device = (\<lambda>_. True)\<rparr>"

lemma spi_ocores_probe_balanced_witness:
  "\<exists>err sp w'. spi_ocores_probe demo_spi_env \<lparr>dev = 0 :: nat, trace = []\<rparr> = Inr (err, sp, w')
    \<and> (err < 0 \<or> sp_read sp = Spi32be)"
  using spi_ocores_probe_balanced [of demo_spi_env "\<lparr>dev = 0, trace = []\<rparr>"]
  by (auto simp: demo_spi_env_def Let_def)

lemma spi_remove_drops_twice_witness:
  "\<exists>w'. spi_ocores_remove demo_spi_env zero_spi (\<lparr>dev = 0 :: nat, trace = map EvCall [SpiMasterAlloc, SpiIoremap,
      SpiRequestIrq, SpiRegister]\<rparr>) = (0, w') \<and> master_refs (trace w') = -1"
  using spi_remove_drops_twice [of "\<lparr>dev = 0, trace = map EvCall [SpiMasterAlloc, SpiIoremap, SpiRequestIrq, SpiRegister]\<rparr>"
      demo_spi_env zero_spi]
  by (auto simp: demo_spi_env_def spi_books_def master_refs_def net_def)

end
