(* ===== verification/Vic_Regs.thy ===== *)
theory Vic_Regs
  imports Kernel_Io Wbgen
begin

text \<open>
  The HT-VIC interrupt controller driver (\<open>htvic.c\<close>, \<open>htvic.h\<close>, \<open>htvic_regs.h\<close>): registers,
  the instance, the accessors, and the operations of its \<open>irq_chip\<close>, which the kernel calls on
  one interrupt line.
\<close>

unbundle bit_operations_syntax

section \<open>Registers\<close>

definition VIC_MAX_VECTORS :: nat where [simp]: "VIC_MAX_VECTORS = 32"

definition VIC_CTL_ENABLE :: u32 where "VIC_CTL_ENABLE = WBGEN2_GEN_MASK 0 1"
definition VIC_CTL_POL :: u32 where "VIC_CTL_POL = WBGEN2_GEN_MASK 1 1"
definition VIC_CTL_EMU_EDGE :: u32 where "VIC_CTL_EMU_EDGE = WBGEN2_GEN_MASK 2 1"
definition VIC_CTL_EMU_LEN_MASK :: u32 where "VIC_CTL_EMU_LEN_MASK = WBGEN2_GEN_MASK 3 16"
definition VIC_CTL_EMU_LEN_SHIFT :: nat where "VIC_CTL_EMU_LEN_SHIFT = 3"
definition VIC_CTL_EMU_LEN_W :: "u32 \<Rightarrow> u32" where "VIC_CTL_EMU_LEN_W value = WBGEN2_GEN_WRITE value 3 16"
definition VIC_CTL_EMU_LEN_R :: "u32 \<Rightarrow> u32" where "VIC_CTL_EMU_LEN_R r = WBGEN2_GEN_READ r 3 16"

interpretation emu_len: reg_field VIC_CTL_EMU_LEN_MASK VIC_CTL_EMU_LEN_R VIC_CTL_EMU_LEN_W 16
  using wbgen_field [of 3 16]
  by (simp add: VIC_CTL_EMU_LEN_MASK_def VIC_CTL_EMU_LEN_R_def [abs_def] VIC_CTL_EMU_LEN_W_def [abs_def])

definition VIC_IVT_RAM_BYTES :: nat where [simp]: "VIC_IVT_RAM_BYTES = 0x80"
definition VIC_IVT_RAM_WORDS :: nat where [simp]: "VIC_IVT_RAM_WORDS = 0x20"
definition VIC_IVT_RAM_BASE :: addr where [simp]: "VIC_IVT_RAM_BASE = 0x80"
definition VIC_REG_CTL :: addr where [simp]: "VIC_REG_CTL = 0x00"
definition VIC_REG_RISR :: addr where [simp]: "VIC_REG_RISR = 0x04"
definition VIC_REG_IER :: addr where [simp]: "VIC_REG_IER = 0x08"
definition VIC_REG_IDR :: addr where [simp]: "VIC_REG_IDR = 0x0c"
definition VIC_REG_IMR :: addr where [simp]: "VIC_REG_IMR = 0x10"
definition VIC_REG_VAR :: addr where [simp]: "VIC_REG_VAR = 0x14"
definition VIC_REG_SWIR :: addr where [simp]: "VIC_REG_SWIR = 0x18"
definition VIC_REG_EOIR :: addr where [simp]: "VIC_REG_EOIR = 0x1c"

text \<open>The driver data of the id table: the carrier the controller sits on.\<close>

definition HTVIC_VER_SPEC :: u64 where [simp]: "HTVIC_VER_SPEC = 0"
definition HTVIC_VER_SVEC :: u64 where [simp]: "HTVIC_VER_SVEC = 1"
definition HTVIC_VER_WRSWI :: u64 where [simp]: "HTVIC_VER_WRSWI = 2"

definition htvic_id_table :: "(string \<times> u64) list" where
  "htvic_id_table = [(''htvic-spec'', HTVIC_VER_SPEC), (''htvic-svec'', HTVIC_VER_SVEC),
     (''htvic-wr-swi'', HTVIC_VER_WRSWI)]"

section \<open>The instance\<close>

text \<open>A \<open>struct dentry *\<close>: null, an error pointer, or the address of an entry.\<close>

datatype dentry = DentryNull | DentryErr int | Dentry u64

datatype vic_readfn = VicRead32 | VicRead32be
datatype vic_writefn = VicWrite32 | VicWrite32be

record memory_ops =
  mem_read :: vic_readfn
  mem_write :: vic_writefn

text \<open>
  \<open>fwnode\<close> stands for \<open>pdev->dev.fwnode\<close>, \<open>domain\<close> for the pointer of that name: whether they
  are set. \<open>data\<close>, \<open>platform_handle_irq\<close> and \<open>platform_handler_data\<close> are never used.
\<close>

record htvic_device =
  fwnode :: bool
  domain :: bool
  hwid :: "u32 list"
  kernel_va :: addr
  memop :: memory_ops
  vic_irq :: int
  dbg_dir :: dentry
  dbg_info :: dentry
  dbg_reg :: dentry
  dbg_swirq :: dentry

text \<open>
  What \<open>kzalloc\<close> returns. The function pointers are null then; \<open>htvic_probe\<close> sets them before the
  first access, so the two values given to them here are never used.
\<close>

definition zero_htvic :: htvic_device where
  "zero_htvic = \<lparr>fwnode = False, domain = False, hwid = replicate VIC_MAX_VECTORS 0, kernel_va = 0,
     memop = \<lparr>mem_read = VicRead32, mem_write = VicWrite32\<rparr>, vic_irq = 0,
     dbg_dir = DentryNull, dbg_info = DentryNull, dbg_reg = DentryNull, dbg_swirq = DentryNull\<rparr>"

text \<open>What the driver asks of the kernel; an interrupt number is Linux's, a line the controller's.\<close>

datatype vic_call = VicKzalloc | VicKfree | VicIoremap | VicFwnodeAlloc | VicFwnodeFree
  | VicDomainCreate | VicNameAlloc | VicDomainRemove | VicCreateMapping nat | VicDisposeMapping int
  | VicSetChip int | VicRequestIrq int u32 | VicFreeIrq int | VicNested int
  | VicModuleGet | VicModulePut | VicDebugfs | VicDebugfsRemove | VicErr | VicWarn

type_synonym 'd vic_world = "('d, vic_call) world"

section \<open>Accessors\<close>

definition htvic_ioread32 :: "'d platform \<Rightarrow> addr \<Rightarrow> 'd vic_world \<Rightarrow> u32 \<times> 'd vic_world" where
  "htvic_ioread32 P a w = ioread P IO32 a w"

definition htvic_ioread32be :: "'d platform \<Rightarrow> addr \<Rightarrow> 'd vic_world \<Rightarrow> u32 \<times> 'd vic_world" where
  "htvic_ioread32be P a w = ioread P IO32BE a w"

definition htvic_iowrite32 :: "'d platform \<Rightarrow> u32 \<Rightarrow> addr \<Rightarrow> 'd vic_world \<Rightarrow> 'd vic_world" where
  "htvic_iowrite32 P v a w = iowrite P IO32 v a w"

definition htvic_iowrite32be :: "'d platform \<Rightarrow> u32 \<Rightarrow> addr \<Rightarrow> 'd vic_world \<Rightarrow> 'd vic_world" where
  "htvic_iowrite32be P v a w = iowrite P IO32BE v a w"

text \<open>Through the function pointers of the instance.\<close>

definition htvic_ioread :: "'d platform \<Rightarrow> htvic_device \<Rightarrow> addr \<Rightarrow> 'd vic_world \<Rightarrow> u32 \<times> 'd vic_world" where
  "htvic_ioread P v a w = (case mem_read (memop v) of
     VicRead32 \<Rightarrow> htvic_ioread32 P a w
   | VicRead32be \<Rightarrow> htvic_ioread32be P a w)"

definition htvic_iowrite :: "'d platform \<Rightarrow> htvic_device \<Rightarrow> u32 \<Rightarrow> addr \<Rightarrow> 'd vic_world \<Rightarrow> 'd vic_world" where
  "htvic_iowrite P v x a w = (case mem_write (memop v) of
     VicWrite32 \<Rightarrow> htvic_iowrite32 P x a w
   | VicWrite32be \<Rightarrow> htvic_iowrite32be P x a w)"

section \<open>The interrupt chip\<close>

definition htvic_eoi :: "'d platform \<Rightarrow> htvic_device \<Rightarrow> 'd vic_world \<Rightarrow> 'd vic_world" where
  "htvic_eoi P v w = htvic_iowrite P v 1 (kernel_va v + VIC_REG_EOIR) w"

definition htvic_mask_disable_reg :: "'d platform \<Rightarrow> htvic_device \<Rightarrow> nat \<Rightarrow> 'd vic_world \<Rightarrow> 'd vic_world" where
  "htvic_mask_disable_reg P v hwirq w = htvic_iowrite P v (push_bit hwirq 1) (kernel_va v + VIC_REG_IDR) w"

definition htvic_unmask_enable_reg :: "'d platform \<Rightarrow> htvic_device \<Rightarrow> nat \<Rightarrow> 'd vic_world \<Rightarrow> 'd vic_world" where
  "htvic_unmask_enable_reg P v hwirq w = htvic_iowrite P v (push_bit hwirq 1) (kernel_va v + VIC_REG_IER) w"

definition htvic_irq_ack :: "'d vic_world \<Rightarrow> 'd vic_world" where
  "htvic_irq_ack w = w"

text \<open>\<open>pin\<close> is what \<open>try_module_get\<close> answers.\<close>

definition htvic_irq_startup :: "'d platform \<Rightarrow> htvic_device \<Rightarrow> bool \<Rightarrow> nat \<Rightarrow> 'd vic_world \<Rightarrow> int \<times> 'd vic_world" where
  "htvic_irq_startup P v pin hwirq w =
     (if \<not> pin then (1, kcall VicErr w)
      else (0, htvic_unmask_enable_reg P v hwirq (kcall VicModuleGet w)))"

definition htvic_irq_shutdown :: "'d platform \<Rightarrow> htvic_device \<Rightarrow> nat \<Rightarrow> 'd vic_world \<Rightarrow> 'd vic_world" where
  "htvic_irq_shutdown P v hwirq w = kcall VicModulePut (htvic_mask_disable_reg P v hwirq w)"

text \<open>\<open>IRQ_TYPE_LEVEL_MASK\<close> and \<open>IRQ_SET_MASK_OK\<close> are the kernel's.\<close>

definition IRQ_TYPE_LEVEL_MASK :: u32 where [simp]: "IRQ_TYPE_LEVEL_MASK = 0xC"
definition IRQ_SET_MASK_OK :: int where [simp]: "IRQ_SET_MASK_OK = 0"

definition htvic_irq_set_type :: "u32 \<Rightarrow> 'd vic_world \<Rightarrow> int \<times> 'd vic_world" where
  "htvic_irq_set_type flow_type w =
     (if flow_type AND IRQ_TYPE_LEVEL_MASK = 0 then (- EINVAL, kcall VicErr w)
      else (IRQ_SET_MASK_OK, w))"

end
