(* ===== verification/Vic_Irq.thy ===== *)
theory Vic_Irq
  imports Vic_Regs
begin

text \<open>
  The interrupt domain of the HT-VIC and its handler: mapping the 32 lines to Linux interrupts,
  draining the controller, and serving the lines it reports.
\<close>

unbundle bit_operations_syntax

section \<open>The kernel\<close>

text \<open>
  The answers of the kernel. \<open>vc_map\<close> is the Linux interrupt \<open>irq_create_mapping\<close> gives to a line,
  0 when it fails; \<open>vc_find\<close> is what \<open>irq_find_mapping\<close> finds; \<open>vc_irq_data\<close> tells whether an
  interrupt has chip data of this controller; \<open>vc_nested\<close> is what the handler of an interrupt
  does to the devices; \<open>None\<close> stands for a null pointer.
\<close>

record 'd vic_env =
  vc_version :: nat
  vc_irq_flags :: "u32 option"
  vc_mem :: bool
  vc_kzalloc :: bool
  vc_id_entry :: "u64 option"
  vc_ioremap :: "addr option"
  vc_fwnode :: bool
  vc_domain :: bool
  vc_map :: "nat \<Rightarrow> int"
  vc_find :: "nat \<Rightarrow> int"
  vc_irq_data :: "int \<Rightarrow> bool"
  vc_nested :: "int \<Rightarrow> 'd \<Rightarrow> 'd"
  vc_get_irq :: int
  vc_request_irq :: int
  vc_debugfs :: "string \<Rightarrow> dentry"

section \<open>Mapping\<close>

text \<open>
  \<open>htvic_irq_domain_map\<close> is the callback by which \<open>irq_create_mapping\<close> has a fresh interrupt set up.
\<close>

definition htvic_irq_domain_map :: "int \<Rightarrow> nat \<Rightarrow> 'd vic_world \<Rightarrow> int \<times> 'd vic_world" where
  "htvic_irq_domain_map virtirq hwirq w = (0, kcall (VicSetChip virtirq) w)"

definition irq_create_mapping :: "'d vic_env \<Rightarrow> nat \<Rightarrow> 'd vic_world \<Rightarrow> int \<times> 'd vic_world" where
  "irq_create_mapping E i w =
     (if vc_map E i > 0 then (vc_map E i, snd (htvic_irq_domain_map (vc_map E i) i (kcall (VicCreateMapping i) w)))
      else (vc_map E i, w))"

definition ivt_addr :: "htvic_device \<Rightarrow> nat \<Rightarrow> addr" where
  "ivt_addr v i = kernel_va v + VIC_IVT_RAM_BASE + 4 * of_nat i"

text \<open>The loop over the lines, from line \<open>i\<close>, \<open>n\<close> lines to go; whether it reached the end.\<close>

fun map_lines :: "'d platform \<Rightarrow> 'd vic_env \<Rightarrow> nat \<Rightarrow> nat \<Rightarrow> htvic_device \<Rightarrow> 'd vic_world \<Rightarrow>
    bool \<times> htvic_device \<times> 'd vic_world" where
  "map_lines P E i 0 v w = (True, v, w)"
| "map_lines P E i (Suc n) v w =
     (let (x, w) = htvic_ioread P v (ivt_addr v i) w;
          v = v\<lparr>hwid := (hwid v)[i := x]\<rparr>;
          w = htvic_iowrite P v (of_nat i) (ivt_addr v i) w;
          (irq, w) = irq_create_mapping E i w
      in if irq \<le> 0 then (False, v, w) else map_lines P E (i + 1) n v w)"

definition new_fwnodes :: "'d vic_env \<Rightarrow> bool" where
  "new_fwnodes E \<longleftrightarrow> KERNEL_VERSION 4 4 0 \<le> vc_version E"

definition free_fwnode :: "'d vic_env \<Rightarrow> htvic_device \<Rightarrow> 'd vic_world \<Rightarrow> htvic_device \<times> 'd vic_world" where
  "free_fwnode E v w = (if new_fwnodes E then (v\<lparr>fwnode := False\<rparr>, kcall VicFwnodeFree w) else (v, w))"

text \<open>
  From Linux 3.11 on the domain is given a name, a string allocated for it. The driver does not look
  whether the allocation failed, and it has no call that frees the string.
\<close>

definition new_names :: "'d vic_env \<Rightarrow> bool" where
  "new_names E \<longleftrightarrow> KERNEL_VERSION 3 11 0 \<le> vc_version E"

definition domain_name :: "'d vic_env \<Rightarrow> 'd vic_world \<Rightarrow> 'd vic_world" where
  "domain_name E w = (if new_names E then kcall VicNameAlloc w else w)"

definition htvic_domain_create :: "'d vic_env \<Rightarrow> htvic_device \<Rightarrow> 'd vic_world \<Rightarrow> int \<times> htvic_device \<times> 'd vic_world" where
  "htvic_domain_create E v w =
     (if new_fwnodes E then
        (let v = v\<lparr>fwnode := vc_fwnode E\<rparr>
         in if \<not> fwnode v then (- ENOMEM, v, kcall VicErr w)
            else let w = kcall VicFwnodeAlloc w; v = v\<lparr>domain := vc_domain E\<rparr>
              in if \<not> domain v then (- ENOMEM, v\<lparr>fwnode := False\<rparr>, kcall VicFwnodeFree w)
                 else (0, v, domain_name E (kcall VicDomainCreate w)))
      else let v = v\<lparr>domain := vc_domain E\<rparr>
        in if \<not> domain v then (- ENOMEM, v, w) else (0, v, domain_name E (kcall VicDomainCreate w)))"

definition htvic_irq_mapping :: "'d platform \<Rightarrow> 'd vic_env \<Rightarrow> htvic_device \<Rightarrow> 'd vic_world \<Rightarrow>
    int \<times> htvic_device \<times> 'd vic_world" where
  "htvic_irq_mapping P E v w =
     (let (err, v, w) = htvic_domain_create E v w
      in if err \<noteq> 0 then (err, v, w)
         else let (done, v, w) = map_lines P E 0 VIC_MAX_VECTORS v w
           in if done then (0, v, w)
              else let (v, w) = free_fwnode E v (kcall VicDomainRemove w) in (- EPERM, v, w))"

section \<open>Serving interrupts\<close>

text \<open>Both loops go on for as long as the controller reports a line, so they may not end.\<close>

partial_function (option) htvic_ack_pending :: "'d platform \<Rightarrow> htvic_device \<Rightarrow> 'd vic_world \<Rightarrow> 'd vic_world option" where
  "htvic_ack_pending P v w =
     (let (risr, w) = htvic_ioread P v (kernel_va v + VIC_REG_RISR) w
      in if risr = 0 then Some w
         else htvic_ack_pending P v (htvic_iowrite P v 1 (kernel_va v + VIC_REG_EOIR) w))"

datatype vic_irqreturn = VIC_IRQ_NONE | VIC_IRQ_HANDLED

definition handle_nested_irq :: "'d vic_env \<Rightarrow> int \<Rightarrow> 'd vic_world \<Rightarrow> 'd vic_world" where
  "handle_nested_irq E irq w = kcall (VicNested irq) (w\<lparr>dev := vc_nested E irq (dev w)\<rparr>)"

text \<open>
  One round: the lines still to serve, or the answer of the handler when the vector is not one of
  the 32. \<open>htvic_eoi\<close> reaches the instance through the chip data of the nested interrupt.
\<close>

definition handler_round :: "'d platform \<Rightarrow> 'd vic_env \<Rightarrow> htvic_device \<Rightarrow> u32 \<Rightarrow> 'd vic_world \<Rightarrow>
    c_fault + u32 option \<times> 'd vic_world" where
  "handler_round P E v risr w =
     (let (x, w) = htvic_ioread P v (kernel_va v + VIC_REG_VAR) w;
          vect = unat (x AND 0xFF)
      in if vect \<ge> VIC_MAX_VECTORS then Inr (None, kcall VicWarn w)
         else let cascade_irq = vc_find E vect;
                  risr = risr AND NOT (push_bit vect 1);
                  w = handle_nested_irq E cascade_irq w
           in if \<not> vc_irq_data E cascade_irq then Inl BadPointer
              else let w = htvic_eoi P v w;
                       (_, w) = htvic_ioread P v (kernel_va v + VIC_REG_RISR) w
                in Inr (Some risr, w))"

partial_function (option) handler_loop :: "'d platform \<Rightarrow> 'd vic_env \<Rightarrow> htvic_device \<Rightarrow> u32 \<Rightarrow> 'd vic_world \<Rightarrow>
    (c_fault + vic_irqreturn \<times> 'd vic_world) option" where
  "handler_loop P E v risr w = (case handler_round P E v risr w of
     Inl f \<Rightarrow> Some (Inl f)
   | Inr (None, w) \<Rightarrow> Some (Inr (VIC_IRQ_HANDLED, w))
   | Inr (Some risr, w) \<Rightarrow>
       if risr \<noteq> 0 then handler_loop P E v risr w else Some (Inr (VIC_IRQ_HANDLED, w)))"

definition htvic_handler :: "'d platform \<Rightarrow> 'd vic_env \<Rightarrow> htvic_device \<Rightarrow> 'd vic_world \<Rightarrow>
    (c_fault + vic_irqreturn \<times> 'd vic_world) option" where
  "htvic_handler P E v w =
     (let (risr, w) = htvic_ioread P v (kernel_va v + VIC_REG_RISR) w
      in if risr = 0 then Some (Inr (VIC_IRQ_NONE, w)) else handler_loop P E v risr w)"

end
