(* ===== verification/Vic_Debug.thy ===== *)
theory Vic_Debug
  imports Vic_Irq
begin

text \<open>
  The debugfs files of the HT-VIC: creating and removing them, what a read of \<open>info\<close> and \<open>reg\<close>
  prints, and the software interrupt a write to \<open>swirq\<close> raises.
\<close>

section \<open>The files\<close>

text \<open>A line of \<open>info\<close>, by what it is printed from: the device's name, numbers.\<close>

datatype info_line = InfoName | InfoRedirect int | InfoMapping | InfoHardware int | InfoLinux int

definition htvic_dbg_info :: "'d vic_env \<Rightarrow> info_line list" where
  "htvic_dbg_info E = [InfoName, InfoRedirect (vc_get_irq E), InfoMapping]
     @ concat (map (\<lambda>i. [InfoHardware (int i), InfoLinux (vc_find E i)]) [0..<VIC_MAX_VECTORS])"

definition VIC_REG_N :: nat where [simp]: "VIC_REG_N = 8"

text \<open>Reading \<open>n\<close> registers from \<open>a\<close> on: the lines of \<open>reg\<close>, an address and a value each.\<close>

fun dump_regs :: "'d platform \<Rightarrow> htvic_device \<Rightarrow> addr \<Rightarrow> nat \<Rightarrow> 'd vic_world \<Rightarrow> (addr \<times> u32) list \<times> 'd vic_world" where
  "dump_regs P v a 0 w = ([], w)"
| "dump_regs P v a (Suc n) w =
     (let (x, w) = htvic_ioread P v a w;
          (xs, w) = dump_regs P v (a + 4) n w
      in ((a, x) # xs, w))"

definition htvic_dbg_reg :: "'d platform \<Rightarrow> htvic_device \<Rightarrow> 'd vic_world \<Rightarrow> (addr \<times> u32) list \<times> 'd vic_world" where
  "htvic_dbg_reg P v w =
     (let (xs, w) = dump_regs P v (kernel_va v) VIC_REG_N w;
          (ys, w) = dump_regs P v (kernel_va v + VIC_IVT_RAM_BASE) VIC_MAX_VECTORS w
      in (xs @ ys, w))"

definition htvic_dbg_swirq_write :: "'d platform \<Rightarrow> htvic_device \<Rightarrow> nat \<Rightarrow> 'd vic_world \<Rightarrow> nat \<times> 'd vic_world" where
  "htvic_dbg_swirq_write P v count w = (count, htvic_iowrite P v 1 (kernel_va v + VIC_REG_SWIR) w)"

section \<open>Creating and removing them\<close>

definition is_err_or_null :: "dentry \<Rightarrow> bool" where
  "is_err_or_null d = (case d of Dentry a \<Rightarrow> False | _ \<Rightarrow> True)"

text \<open>\<open>PTR_ERR\<close>, cut to the \<open>int\<close> the function returns.\<close>

definition ptr_err :: "dentry \<Rightarrow> int" where
  "ptr_err d = (case d of DentryNull \<Rightarrow> 0 | DentryErr e \<Rightarrow> e | Dentry a \<Rightarrow> sint (ucast a :: u32))"

definition htvic_debug_init :: "'d vic_env \<Rightarrow> htvic_device \<Rightarrow> 'd vic_world \<Rightarrow> int \<times> htvic_device \<times> 'd vic_world" where
  "htvic_debug_init E v w =
     (let v = v\<lparr>dbg_dir := vc_debugfs E ''''\<rparr>
      in if is_err_or_null (dbg_dir v) then (ptr_err (dbg_dir v), v, kcall VicErr w)
         else let w = kcall VicDebugfs w; v = v\<lparr>dbg_info := vc_debugfs E ''info''\<rparr>
           in if is_err_or_null (dbg_info v) then (ptr_err (dbg_info v), v, kcall VicErr w)
              else let v = v\<lparr>dbg_reg := vc_debugfs E ''reg''\<rparr>
                in if is_err_or_null (dbg_reg v) then (ptr_err (dbg_reg v), v, kcall VicErr w)
                   else let v = v\<lparr>dbg_swirq := vc_debugfs E ''swirq''\<rparr>
                     in if is_err_or_null (dbg_swirq v) then (ptr_err (dbg_reg v), v, kcall VicErr w)
                        else (0, v, w))"

text \<open>\<open>debugfs_remove_recursive\<close> does nothing for an error pointer.\<close>

definition htvic_debug_exit :: "htvic_device \<Rightarrow> 'd vic_world \<Rightarrow> 'd vic_world" where
  "htvic_debug_exit v w = (if dbg_dir v \<noteq> DentryNull then kcall VicDebugfsRemove w else w)"

end
