(* ===== verification/Vic_Probe.thy ===== *)
theory Vic_Probe
  imports Vic_Debug
begin

text \<open>Probing and removing the HT-VIC, with every exit of the code.\<close>

unbundle bit_operations_syntax

section \<open>Probe\<close>

definition IORESOURCE_IRQ_HIGHEDGE :: u32 where [simp]: "IORESOURCE_IRQ_HIGHEDGE = 1"
definition IORESOURCE_IRQ_LOWEDGE :: u32 where [simp]: "IORESOURCE_IRQ_LOWEDGE = 2"
definition IORESOURCE_IRQ_HIGHLEVEL :: u32 where [simp]: "IORESOURCE_IRQ_HIGHLEVEL = 4"
definition IORESOURCE_IRQ_LOWLEVEL :: u32 where [simp]: "IORESOURCE_IRQ_LOWLEVEL = 8"
definition IRQF_SHARED :: u32 where [simp]: "IRQF_SHARED = 0x80"
definition IRQF_TRIGGER_HIGH :: u32 where [simp]: "IRQF_TRIGGER_HIGH = 4"

definition htvic_validation :: "'d vic_env \<Rightarrow> 'd vic_world \<Rightarrow> int \<times> 'd vic_world" where
  "htvic_validation E w = (case vc_irq_flags E of
     None \<Rightarrow> (- EINVAL, kcall VicErr w)
   | Some flags \<Rightarrow>
       if flags AND (IORESOURCE_IRQ_HIGHEDGE OR IORESOURCE_IRQ_LOWEDGE OR IORESOURCE_IRQ_HIGHLEVEL
           OR IORESOURCE_IRQ_LOWLEVEL) = 0
       then (- EINVAL, kcall VicErr w)
       else if \<not> vc_mem E then (- EINVAL, kcall VicErr w)
       else (0, w))"

text \<open>The accessors by the carrier, and the control word with the flags of the interrupt.\<close>

definition htvic_memops :: "u64 \<Rightarrow> memory_ops option" where
  "htvic_memops ver =
     (if ver = HTVIC_VER_SPEC \<or> ver = HTVIC_VER_WRSWI then Some \<lparr>mem_read = VicRead32, mem_write = VicWrite32\<rparr>
      else if ver = HTVIC_VER_SVEC then Some \<lparr>mem_read = VicRead32be, mem_write = VicWrite32be\<rparr>
      else None)"

definition htvic_config :: "u64 \<Rightarrow> (u32 \<times> u32) option" where
  "htvic_config ver =
     (let ctl = VIC_CTL_ENABLE; irq_flags = IRQF_SHARED
      in if ver = HTVIC_VER_SPEC then
           Some (ctl OR VIC_CTL_POL OR VIC_CTL_EMU_EDGE OR VIC_CTL_EMU_LEN_W 250, irq_flags OR IRQF_TRIGGER_HIGH)
         else if ver = HTVIC_VER_SVEC then Some (ctl OR VIC_CTL_POL, irq_flags OR IRQF_TRIGGER_HIGH)
         else if ver = HTVIC_VER_WRSWI then Some (ctl, irq_flags)
         else None)"

text \<open>The common exit: what probe returns, with the driver data it leaves.\<close>

definition vic_out :: "int \<Rightarrow> 'd vic_world \<Rightarrow> int \<times> htvic_device option \<times> 'd vic_world" where
  "vic_out ret w = (ret, None, kcall VicKfree w)"

definition probe_request :: "'d platform \<Rightarrow> 'd vic_env \<Rightarrow> u32 \<Rightarrow> u32 \<Rightarrow> htvic_device \<Rightarrow> 'd vic_world \<Rightarrow>
    int \<times> htvic_device option \<times> 'd vic_world" where
  "probe_request P E ctl irq_flags v w =
     (let v = v\<lparr>vic_irq := vc_get_irq E\<rparr>; ret = vc_request_irq E
      in if ret < 0 then vic_out ret (kcall VicErr w)
         else let w = kcall (VicRequestIrq (vic_irq v) irq_flags) w;
                  (_, v, w) = htvic_debug_init E v w;
                  w = htvic_iowrite P v ctl (kernel_va v + VIC_REG_CTL) w
           in (0, Some v, w))"

definition probe_setup :: "'d platform \<Rightarrow> 'd vic_env \<Rightarrow> u64 \<Rightarrow> htvic_device \<Rightarrow> 'd vic_world \<Rightarrow>
    (int \<times> htvic_device option \<times> 'd vic_world) option" where
  "probe_setup P E ver v w =
     (let w = htvic_iowrite P v 0 (kernel_va v + VIC_REG_CTL) w;
          w = htvic_iowrite P v (NOT 0) (kernel_va v + VIC_REG_IDR) w
      in case htvic_ack_pending P v w of
           None \<Rightarrow> None
         | Some w \<Rightarrow>
             let (ret, v, w) = htvic_irq_mapping P E v w
             in if ret \<noteq> 0 then Some (vic_out ret w)
                else case htvic_config ver of
                    None \<Rightarrow> Some (vic_out ret w)
                  | Some (ctl, irq_flags) \<Rightarrow> Some (probe_request P E ctl irq_flags v w))"

text \<open>
  \<open>ioremap\<close> may return a null pointer, and a device matched by an override has no id entry; the
  code tests neither.
\<close>

definition htvic_probe :: "'d platform \<Rightarrow> 'd vic_env \<Rightarrow> 'd vic_world \<Rightarrow>
    (c_fault + int \<times> htvic_device option \<times> 'd vic_world) option" where
  "htvic_probe P E w =
     (let (ret, w) = htvic_validation E w
      in if ret \<noteq> 0 then Some (Inr (ret, None, w))
         else if \<not> vc_kzalloc E then Some (Inr (- ENOMEM, None, w))
         else let w = kcall VicKzalloc w
           in case vc_id_entry E of
                None \<Rightarrow> Some (Inl BadPointer)
              | Some ver \<Rightarrow> (case htvic_memops ver of
                  None \<Rightarrow> Some (Inr (vic_out (- EINVAL) (kcall VicErr w)))
                | Some ops \<Rightarrow> (case vc_ioremap E of
                    None \<Rightarrow> Some (Inl BadPointer)
                  | Some base \<Rightarrow>
                      map_option Inr (probe_setup P E ver
                        (zero_htvic\<lparr>memop := ops, kernel_va := base\<rparr>) (kcall VicIoremap w)))))"

section \<open>Remove\<close>

fun restore_lines :: "'d platform \<Rightarrow> 'd vic_env \<Rightarrow> htvic_device \<Rightarrow> nat \<Rightarrow> nat \<Rightarrow> 'd vic_world \<Rightarrow> 'd vic_world" where
  "restore_lines P E v i 0 w = w"
| "restore_lines P E v i (Suc n) w =
     restore_lines P E v (i + 1) n
       (kcall (VicDisposeMapping (vc_find E i)) (htvic_iowrite P v (hwid v ! i) (ivt_addr v i) w))"

definition htvic_remove :: "'d platform \<Rightarrow> 'd vic_env \<Rightarrow> htvic_device option \<Rightarrow> 'd vic_world \<Rightarrow> int \<times> 'd vic_world" where
  "htvic_remove P E drvdata w = (case drvdata of
     None \<Rightarrow> (0, w)
   | Some v \<Rightarrow>
       let w = htvic_debug_exit v w;
           w = htvic_iowrite P v (NOT 0) (kernel_va v + VIC_REG_IDR) w;
           w = htvic_iowrite P v 0 (kernel_va v + VIC_REG_CTL) w;
           w = restore_lines P E v 0 VIC_MAX_VECTORS w;
           w = kcall (VicFreeIrq (vic_irq v)) w;
           w = kcall VicDomainRemove w;
           (v, w) = free_fwnode E v w;
           w = kcall VicKfree w
       in (0, w))"

end
