(* ===== verification/Vic_Hw.thy ===== *)
theory Vic_Hw
  imports Vic_Irq
begin

text \<open>
  The interrupt controller behind the registers, \<open>wb_vic.vhd\<close>, as a driver sees it: one step per
  bus access. Between two accesses the state machine of the core has come to \<open>WAIT_IRQ\<close>
  with no enabled line raised, to \<open>WAIT_ACK\<close> with the vector of the lowest one latched, or, with edge
  emulation, is still in \<open>WAIT_IDLE\<close>, where it stays for \<open>EMU_LEN + 1\<close> clock cycles after an
  acknowledgement and shows the vector that was acknowledged. The three clock cycles it takes to
  latch a vector, the retry pulse and the output line are not part of the model. The core has 32
  inputs here.
\<close>

unbundle bit_operations_syntax

section \<open>State\<close>

text \<open>
  \<open>h_idle\<close>: how many of the next accesses still find the core in \<open>WAIT_IDLE\<close>. \<open>h_emu\<close> has, for each
  of the next acknowledgements, how many accesses the driver makes during the idle time that follows it.
\<close>

record vic_hw =
  h_lines :: u32
  h_swi :: u32
  h_imr :: u32
  h_ctl :: u32
  h_waiting :: bool
  h_idle :: nat
  h_emu :: "nat list"
  h_var :: u32
  h_ivt :: "u32 list"

text \<open>\<open>vic_risr\<close> is not masked; \<open>irqs_i_reg\<close>, what the state machine looks at, is.\<close>

definition vic_risr :: "vic_hw \<Rightarrow> u32" where
  "vic_risr h = h_lines h OR h_swi h"

definition irqs_reg :: "vic_hw \<Rightarrow> u32" where
  "irqs_reg h = vic_risr h AND h_imr h"

definition vic_settle :: "vic_hw \<Rightarrow> vic_hw" where
  "vic_settle h =
     (if \<not> bit (h_ctl h) 0 then h\<lparr>h_waiting := False, h_idle := 0, h_var := 0x12345678, h_swi := 0\<rparr>
      else if h_waiting h then h
      else if 0 < h_idle h then h\<lparr>h_idle := h_idle h - 1\<rparr>
      else (case line_set (irqs_reg h) of
          [] \<Rightarrow> h\<lparr>h_var := 0\<rparr>
        | i # _ \<Rightarrow> h\<lparr>h_waiting := True, h_var := h_ivt h ! i\<rparr>))"

section \<open>Registers\<close>

definition hw_ivt_index :: "addr \<Rightarrow> nat" where
  "hw_ivt_index off = unat (off - VIC_IVT_RAM_BASE) div 4"

definition hw_read :: "addr \<Rightarrow> vic_hw \<Rightarrow> u32" where
  "hw_read off h =
     (if off = VIC_REG_CTL then h_ctl h
      else if off = VIC_REG_RISR then vic_risr h
      else if off = VIC_REG_IMR then h_imr h
      else if off = VIC_REG_VAR then h_var h
      else if 0x80 \<le> off \<and> off < 0x100 then h_ivt h ! hw_ivt_index off
      else 0)"

text \<open>At least one clock cycle passes per access, so the idle time covers \<open>EMU_LEN + 1\<close> of them at most.\<close>

definition emu_idle :: "vic_hw \<Rightarrow> nat" where
  "emu_idle h = (if \<not> bit (h_ctl h) 2 then 0
     else (case h_emu h of [] \<Rightarrow> 0 | n # ns \<Rightarrow> min n (unat (VIC_CTL_EMU_LEN_R (h_ctl h)) + 1)))"

definition eoi_done :: "vic_hw \<Rightarrow> vic_hw" where
  "eoi_done h = h\<lparr>h_waiting := False, h_swi := 0, h_idle := emu_idle h, h_emu := tl (h_emu h)\<rparr>"

definition hw_write :: "addr \<Rightarrow> u32 \<Rightarrow> vic_hw \<Rightarrow> vic_hw" where
  "hw_write off v h =
     (if off = VIC_REG_CTL then h\<lparr>h_ctl := v\<rparr>
      else if off = VIC_REG_IER then h\<lparr>h_imr := h_imr h OR v\<rparr>
      else if off = VIC_REG_IDR then h\<lparr>h_imr := h_imr h AND NOT v\<rparr>
      else if off = VIC_REG_SWIR then (if bit (h_ctl h) 0 then h\<lparr>h_swi := v\<rparr> else h)
      else if off = VIC_REG_EOIR then
        (if bit (h_ctl h) 0 \<and> h_waiting h then eoi_done h else h)
      else if 0x80 \<le> off \<and> off < 0x100 then h\<lparr>h_ivt := (h_ivt h)[hw_ivt_index off := v]\<rparr>
      else h)"

text \<open>The core at an address, on a bus of a byte order.\<close>

definition vic_at :: "io_acc \<Rightarrow> addr \<Rightarrow> vic_hw platform" where
  "vic_at bus base = \<lparr>
     p_read = (\<lambda>c a h. let h = vic_settle h in (on_bus bus c (hw_read (a - base) h), h)),
     p_write = (\<lambda>c a v h. hw_write (a - base) (on_bus bus c v) (vic_settle h)),
     p_jiffies = (\<lambda>h. (0, h)),
     p_msecs = (\<lambda>n. of_nat n)\<rparr>"

section \<open>The driver on the core\<close>

definition vic_bus :: "htvic_device \<Rightarrow> io_acc" where
  "vic_bus v = (case mem_read (memop v) of VicRead32 \<Rightarrow> IO32 | VicRead32be \<Rightarrow> IO32BE)"

definition vic_accessors :: "htvic_device \<Rightarrow> bool" where
  "vic_accessors v \<longleftrightarrow> (mem_read (memop v) = VicRead32 \<longleftrightarrow> mem_write (memop v) = VicWrite32)"

definition vic_on :: "htvic_device \<Rightarrow> vic_hw platform" where
  "vic_on v = vic_at (vic_bus v) (kernel_va v)"

definition vic_ev_read :: "htvic_device \<Rightarrow> addr \<Rightarrow> u32 \<Rightarrow> vic_call event" where
  "vic_ev_read v off x = EvRead (vic_bus v) (kernel_va v + off) x"

definition vic_ev_write :: "htvic_device \<Rightarrow> addr \<Rightarrow> u32 \<Rightarrow> vic_call event" where
  "vic_ev_write v off x = EvWrite (vic_bus v) (kernel_va v + off) x"

lemma htvic_read_on [io_simps]:
  "htvic_ioread (vic_on v) v (kernel_va v + off) w =
     (let h = vic_settle (dev w); x = hw_read off h
      in (x, w\<lparr>dev := h, trace := trace w @ [vic_ev_read v off x]\<rparr>))"
  by (simp add: htvic_ioread_def htvic_ioread32_def htvic_ioread32be_def ioread_def vic_on_def vic_at_def
      vic_bus_def on_bus_def vic_ev_read_def Let_def split: vic_readfn.splits)

lemma htvic_write_on [io_simps]:
  "vic_accessors v \<Longrightarrow> htvic_iowrite (vic_on v) v x (kernel_va v + off) w =
     w\<lparr>dev := hw_write off x (vic_settle (dev w)), trace := trace w @ [vic_ev_write v off x]\<rparr>"
  by (cases "mem_read (memop v)"; cases "mem_write (memop v)")
    (simp_all add: htvic_iowrite_def htvic_iowrite32_def htvic_iowrite32be_def iowrite_def vic_on_def vic_at_def
      vic_bus_def on_bus_def vic_ev_write_def vic_accessors_def)

lemma ivt_addr_off: "ivt_addr v i = kernel_va v + (0x80 + 4 * of_nat i)"
  by (simp add: ivt_addr_def add.assoc)

lemma ivt_offset:
  assumes "i < 32"
  shows "hw_ivt_index (0x80 + 4 * of_nat i) = i" "(0x80 :: addr) \<le> 0x80 + 4 * of_nat i"
    "(0x80 + 4 * of_nat i :: addr) < 0x100"
proof -
  have u: "unat (4 * of_nat i :: addr) = 4 * i"
    using assms by (simp add: unat_word_ariths unsigned_of_nat take_bit_nat_eq_self)
  have a: "unat (0x80 + 4 * of_nat i :: addr) = 0x80 + 4 * i"
    using assms u by (simp add: unat_word_ariths)
  show "hw_ivt_index (0x80 + 4 * of_nat i) = i"
    using u by (simp add: hw_ivt_index_def)
  show "(0x80 :: addr) \<le> 0x80 + 4 * of_nat i" "(0x80 + 4 * of_nat i :: addr) < 0x100"
    using assms a by (simp_all add: word_le_nat_alt word_less_nat_alt)
qed

lemma in_table:
  assumes "0x80 \<le> off" "off < 0x100"
  shows "hw_read off h = h_ivt h ! hw_ivt_index off" "hw_write off v h = h\<lparr>h_ivt := (h_ivt h)[hw_ivt_index off := v]\<rparr>"
proof -
  have "off \<notin> {0, 4, 8, 0xc, 0x10, 0x14, 0x18, 0x1c}"
    using assms(1) by auto
  then show "hw_read off h = h_ivt h ! hw_ivt_index off" "hw_write off v h = h\<lparr>h_ivt := (h_ivt h)[hw_ivt_index off := v]\<rparr>"
    using assms by (simp_all add: hw_read_def hw_write_def)
qed

lemma ivt_read: "i < 32 \<Longrightarrow> hw_read (0x80 + 4 * of_nat i) h = h_ivt h ! i"
  using ivt_offset [of i] in_table(1) [of "0x80 + 4 * of_nat i"] by simp

lemma ivt_write: "i < 32 \<Longrightarrow> hw_write (0x80 + 4 * of_nat i) v h = h\<lparr>h_ivt := (h_ivt h)[i := v]\<rparr>"
  using ivt_offset [of i] in_table(2) [of "0x80 + 4 * of_nat i"] by simp

lemma reg_reads [reg_simps]:
  "hw_read 0x04 h = vic_risr h" "hw_read 0x14 h = h_var h" "hw_read 0x10 h = h_imr h" "hw_read 0 h = h_ctl h"
  by (simp_all add: hw_read_def)

lemma reg_writes [reg_simps]:
  "hw_write 0 v h = h\<lparr>h_ctl := v\<rparr>"
  "hw_write 0x08 v h = h\<lparr>h_imr := h_imr h OR v\<rparr>"
  "hw_write 0x0c v h = h\<lparr>h_imr := h_imr h AND NOT v\<rparr>"
  "hw_write 0x1c v h = (if bit (h_ctl h) 0 \<and> h_waiting h then eoi_done h else h)"
  "hw_write 0x18 v h = (if bit (h_ctl h) 0 then h\<lparr>h_swi := v\<rparr> else h)"
  by (simp_all add: hw_write_def)

text \<open>What settling and acknowledging leave alone.\<close>

lemma eoi_done_fields [simp]:
  "h_lines (eoi_done h) = h_lines h" "h_imr (eoi_done h) = h_imr h" "h_ctl (eoi_done h) = h_ctl h"
  "h_ivt (eoi_done h) = h_ivt h" "h_var (eoi_done h) = h_var h" "h_swi (eoi_done h) = 0" "\<not> h_waiting (eoi_done h)"
  "h_idle (eoi_done h) = emu_idle h"
  by (simp_all add: eoi_done_def)

lemma settle_fields [simp]:
  "h_lines (vic_settle h) = h_lines h" "h_imr (vic_settle h) = h_imr h" "h_ctl (vic_settle h) = h_ctl h"
  "h_ivt (vic_settle h) = h_ivt h"
  by (simp_all add: vic_settle_def split: list.splits)

end
