(* ===== verification/Vic_Handler.thy ===== *)
theory Vic_Handler
  imports Vic_Hw
begin

text \<open>
  The interrupt handler of the HT-VIC on the core: which lines it serves and in what order, when it
  ends, and when the loop that drains the controller before it is configured ends. The loops test
  the raw status, which the mask does not filter, so a line that is raised but not enabled keeps
  them going.
\<close>

unbundle bit_operations_syntax

section \<open>Assumptions on the state\<close>

definition own_vectors :: "u32 list" where
  "own_vectors = map of_nat [0..<32]"

lemma own_vectors_nth [simp]: "i < 32 \<Longrightarrow> own_vectors ! i = of_nat i"
  by (simp add: own_vectors_def)

text \<open>
  The controller is enabled with the vectors the driver wrote, and has no software interrupt; and it is
  not in the idle time of an acknowledgement, in which it raises no interrupt.
\<close>

definition vic_cfg :: "vic_hw \<Rightarrow> bool" where
  "vic_cfg h \<longleftrightarrow> bit (h_ctl h) 0 \<and> h_ivt h = own_vectors \<and> h_swi h = 0"

definition vic_up :: "vic_hw \<Rightarrow> bool" where
  "vic_up h \<longleftrightarrow> vic_cfg h \<and> h_idle h = 0"

text \<open>What a nested handler does to the core: it lowers its own line.\<close>

definition lowers_own :: "vic_hw vic_env \<Rightarrow> bool" where
  "lowers_own E \<longleftrightarrow> (\<forall>i < 32. vc_irq_data E (vc_find E i)
     \<and> (\<forall>h. vc_nested E (vc_find E i) h = h\<lparr>h_lines := h_lines h AND NOT (push_bit i 1)\<rparr>))"


text \<open>What the driver does, its reads apart.\<close>

fun is_act :: "'k event \<Rightarrow> bool" where
  "is_act (EvRead c a v) = False"
| "is_act e = True"

definition acts :: "'k event list \<Rightarrow> 'k event list" where
  "acts es = filter is_act es"

lemma acts_simps [simp]:
  "acts [] = []" "acts (EvRead c a x # es) = acts es" "acts (EvWrite c a x # es) = EvWrite c a x # acts es"
  "acts (EvCall q # es) = EvCall q # acts es" "acts (es @ fs) = acts es @ acts fs"
  by (simp_all add: acts_def)

lemma acts_ev [simp]:
  "acts (vic_ev_read v a x # es) = acts es" "acts (vic_ev_write v a x # es) = vic_ev_write v a x # acts es"
  by (simp_all add: vic_ev_read_def vic_ev_write_def)

section \<open>One round\<close>

lemma vect_of_nat: "i < 32 \<Longrightarrow> unat ((of_nat i :: u32) AND 0xFF) = i"
proof -
  assume i: "i < 32"
  have "(of_nat i :: u32) AND 0xFF = of_nat i"
  proof -
    have "(0xFF :: u32) = mask 8"
      by (simp add: mask_eq_exp_minus_1)
    moreover have "take_bit 8 (of_nat i :: u32) = of_nat i"
      using i by (simp add: take_bit_of_nat take_bit_nat_eq_self)
    ultimately show ?thesis
      by (metis take_bit_eq_mask)
  qed
  then show ?thesis
    using i by (simp add: unsigned_of_nat take_bit_nat_eq_self)
qed

lemma vec_inj: "(of_nat i :: u32) = of_nat j \<Longrightarrow> i < 32 \<Longrightarrow> j < 32 \<Longrightarrow> i = j"
  by (metis vect_of_nat)

text \<open>What the core does before an access.\<close>

lemma settle_wait: "bit (h_ctl h) 0 \<Longrightarrow> h_waiting h \<Longrightarrow> vic_settle h = h"
  by (simp add: vic_settle_def)

lemma settle_hold: "bit (h_ctl h) 0 \<Longrightarrow> \<not> h_waiting h \<Longrightarrow> 0 < h_idle h \<Longrightarrow> vic_settle h = h\<lparr>h_idle := h_idle h - 1\<rparr>"
  by (simp add: vic_settle_def)

text \<open>All raised lines are enabled.\<close>

definition all_enabled :: "vic_hw \<Rightarrow> bool" where
  "all_enabled h \<longleftrightarrow> h_lines h AND h_imr h = h_lines h"

lemma settle_none:
  assumes "vic_cfg h" "\<not> h_waiting h" "h_idle h = 0" "all_enabled h" "h_lines h = 0"
  shows "vic_settle h = h\<lparr>h_var := 0\<rparr>"
  using assms by (simp add: vic_settle_def vic_cfg_def irqs_reg_def vic_risr_def line_set_empty [THEN iffD2])

lemma first_line:
  assumes "L \<noteq> (0 :: u32)"
  shows "bit L (hd (line_set L))" "hd (line_set L) < 32"
proof -
  obtain i ys where i: "line_set L = i # ys"
    using assms line_set_empty by (metis list.exhaust)
  then show "bit L (hd (line_set L))"
    using line_set_simps(1) [of i L] by simp
  then show "hd (line_set L) < 32"
    by (auto dest: bit_imp_le_length)
qed

lemma settle_latch:
  assumes "vic_cfg h" "\<not> h_waiting h" "h_idle h = 0" "all_enabled h" "h_lines h \<noteq> 0"
  shows "vic_settle h = h\<lparr>h_waiting := True, h_var := of_nat (hd (line_set (h_lines h)))\<rparr>"
proof -
  have L: "irqs_reg h = h_lines h"
    using assms by (simp add: irqs_reg_def vic_risr_def vic_cfg_def all_enabled_def)
  obtain i ys where i: "line_set (h_lines h) = i # ys"
    using assms(5) line_set_empty by (metis list.exhaust)
  then have "i < 32"
    using first_line [OF assms(5)] by simp
  then show ?thesis
    using assms L i by (simp add: vic_settle_def vic_cfg_def)
qed

text \<open>
  The core with lines to serve: it waits for the acknowledgement of one of them, or is idle and
  shows some vector, or is about to latch the lowest one.
\<close>

definition live :: "vic_hw \<Rightarrow> bool" where
  "live h \<longleftrightarrow> vic_cfg h \<and> all_enabled h \<and> h_lines h \<noteq> 0
     \<and> (if h_waiting h then h_idle h = 0 \<and> (\<exists>i. h_var h = of_nat i \<and> bit (h_lines h) i)
        else 0 < h_idle h \<longrightarrow> (\<exists>i < 32. h_var h = of_nat i))
     \<and> (\<not> bit (h_ctl h) 2 \<longrightarrow> h_idle h = 0)"

definition shows_vec :: "vic_hw \<Rightarrow> nat \<Rightarrow> bool" where
  "shows_vec h i \<longleftrightarrow> h_var (vic_settle h) = of_nat i"

text \<open>Just acknowledged, with lines left: the next read has the vector of the lowest one, or the same as before.\<close>

lemma settle_next:
  assumes "vic_cfg g" "all_enabled g" "h_lines g \<noteq> 0" "\<not> h_waiting g" "h_var g = of_nat i" "i < 32"
    "\<not> bit (h_ctl g) 2 \<longrightarrow> h_idle g = 0"
  shows "live (vic_settle g)"
    "shows_vec (vic_settle g) (hd (line_set (h_lines g)))
      \<or> shows_vec (vic_settle g) i \<and> bit (h_ctl g) 2 \<and> h_idle (vic_settle g) < h_idle g"
proof -
  note f = first_line [OF assms(3)]
  have c: "bit (h_ctl g) 0"
    using assms(1) by (simp add: vic_cfg_def)
  consider "h_idle g = 0" | "h_idle g = 1" | "1 < h_idle g"
    by linarith
  then have "live (vic_settle g) \<and> (shows_vec (vic_settle g) (hd (line_set (h_lines g)))
      \<or> shows_vec (vic_settle g) i \<and> bit (h_ctl g) 2 \<and> h_idle (vic_settle g) < h_idle g)"
  proof cases
    case 1
    have s: "vic_settle g = g\<lparr>h_waiting := True, h_var := of_nat (hd (line_set (h_lines g)))\<rparr>"
      by (rule settle_latch [OF assms(1,4) 1 assms(2,3)])
    have "vic_settle (vic_settle g) = vic_settle g"
      by (rule settle_wait) (use c s in simp_all)
    then show ?thesis
      using assms f 1 unfolding shows_vec_def s by (auto simp: live_def vic_cfg_def all_enabled_def)
  next
    case 2
    have s: "vic_settle g = g\<lparr>h_idle := 0\<rparr>"
      using settle_hold [OF c assms(4)] 2 by simp
    have "vic_settle (g\<lparr>h_idle := 0\<rparr>) = g\<lparr>h_idle := 0, h_waiting := True, h_var := of_nat (hd (line_set (h_lines g)))\<rparr>"
      using settle_latch [of "g\<lparr>h_idle := 0\<rparr>"] assms by (simp add: vic_cfg_def all_enabled_def)
    then show ?thesis
      using assms unfolding shows_vec_def s by (auto simp: live_def vic_cfg_def all_enabled_def)
  next
    case 3
    have s: "vic_settle g = g\<lparr>h_idle := h_idle g - 1\<rparr>"
      using settle_hold [OF c assms(4)] 3 by simp
    have "vic_settle (g\<lparr>h_idle := h_idle g - 1\<rparr>) = g\<lparr>h_idle := h_idle g - 1 - 1\<rparr>"
      using settle_hold [of "g\<lparr>h_idle := h_idle g - 1\<rparr>"] 3 c assms(4) by simp
    then show ?thesis
      using assms 3 unfolding shows_vec_def s by (auto simp: live_def vic_cfg_def all_enabled_def)
  qed
  then show "live (vic_settle g)" "shows_vec (vic_settle g) (hd (line_set (h_lines g)))
      \<or> shows_vec (vic_settle g) i \<and> bit (h_ctl g) 2 \<and> h_idle (vic_settle g) < h_idle g"
    by simp_all
qed

text \<open>The accesses of a round: the vector is read, the line lowered, the interrupt acknowledged, the status read.\<close>

definition lowered :: "nat \<Rightarrow> vic_hw \<Rightarrow> vic_hw" where
  "lowered i h = h\<lparr>h_lines := h_lines h AND NOT (push_bit i 1)\<rparr>"

definition acked :: "nat \<Rightarrow> vic_hw \<Rightarrow> vic_hw" where
  "acked i h = hw_write 0x1c 1 (vic_settle (lowered i (vic_settle h)))"

lemma lowered_fields [simp]:
  "h_imr (lowered i h) = h_imr h" "h_ctl (lowered i h) = h_ctl h" "h_ivt (lowered i h) = h_ivt h" "h_var (lowered i h) = h_var h"
  "h_swi (lowered i h) = h_swi h" "h_waiting (lowered i h) = h_waiting h" "h_idle (lowered i h) = h_idle h"
  by (simp_all add: lowered_def)

lemma lowered_enabled:
  assumes "all_enabled h"
  shows "all_enabled (lowered i h)"
proof -
  have "(h_lines h AND NOT (push_bit i 1)) AND h_imr h = (h_lines h AND h_imr h) AND NOT (push_bit i 1)"
    by (simp only: and.assoc and.commute and.left_commute)
  then show ?thesis
    using assms by (simp add: all_enabled_def lowered_def)
qed

lemma emu_idle_off: "\<not> bit (h_ctl h) 2 \<Longrightarrow> emu_idle h = 0"
  by (simp add: emu_idle_def)

text \<open>
  The core after the acknowledgement. If it waited, it is idle and still shows the vector. If it was
  idle, the acknowledgement did nothing, unless the idle time had just ended: then the
  next line had been latched, and is acknowledged unserved.
\<close>

lemma settle_keeps:
  assumes "vic_cfg h"
  shows "vic_cfg (vic_settle h)"
  using assms by (auto simp: vic_settle_def vic_cfg_def split: list.splits)

lemma live_raised:
  assumes "live h" "shows_vec h i" "i < 32" "h_idle h = 0"
  shows "bit (h_lines h) i"
proof -
  have c: "vic_cfg h" "bit (h_ctl h) 0" and e: "all_enabled h" "h_lines h \<noteq> 0"
    using assms(1) by (simp_all add: live_def vic_cfg_def)
  show ?thesis
  proof (cases "h_waiting h")
    case True
    then obtain j where j: "h_var h = of_nat j" "bit (h_lines h) j"
      using assms(1) by (auto simp: live_def)
    then have "(of_nat i :: u32) = of_nat j"
      using assms(2) settle_wait [OF c(2) True] by (simp add: shows_vec_def)
    then show ?thesis
      using j(2) vec_inj [of i j] assms(3) bit_imp_le_length [OF j(2)] by simp
  next
    case False
    then have "(of_nat (hd (line_set (h_lines h))) :: u32) = of_nat i"
      using assms(2) settle_latch [OF c(1) False assms(4) e] by (simp add: shows_vec_def)
    then show ?thesis
      using vec_inj first_line [OF e(2)] assms(3) by metis
  qed
qed

lemma acked_state:
  assumes "live h" "shows_vec h i" "i < 32"
  defines "L' \<equiv> h_lines h AND NOT (push_bit i 1)"
  shows "vic_cfg (acked i h)" "all_enabled (acked i h)" "\<not> h_waiting (acked i h)" "h_lines (acked i h) = L'"
    "\<not> bit (h_ctl (acked i h)) 2 \<longrightarrow> h_idle (acked i h) = 0" "h_ctl (acked i h) = h_ctl h"
    "L' \<noteq> 0 \<Longrightarrow> (h_var (acked i h) = of_nat i \<and> (bit (h_lines h) i \<or> h_idle (acked i h) < h_idle h))
      \<or> h_var (acked i h) = of_nat (hd (line_set L'))"
proof -
  have c: "vic_cfg h" "bit (h_ctl h) 0" and e: "all_enabled h" "h_lines h \<noteq> 0" and emu: "\<not> bit (h_ctl h) 2 \<longrightarrow> h_idle h = 0"
    using assms(1) by (simp_all add: live_def vic_cfg_def)
  have lines: "h_lines (acked i h) = L'"
    by (simp add: acked_def reg_writes L'_def) (simp add: lowered_def)
  show "h_lines (acked i h) = L'" by (rule lines)
  show ctl: "h_ctl (acked i h) = h_ctl h"
    by (simp add: acked_def reg_writes)
  have imr: "h_imr (acked i h) = h_imr h"
    by (simp add: acked_def reg_writes)
  have le: "all_enabled (lowered i h)"
    by (rule lowered_enabled [OF e(1)])
  then show "all_enabled (acked i h)"
    using lines imr by (simp add: all_enabled_def lowered_def L'_def)
  have k: "vic_cfg (vic_settle (lowered i (vic_settle h)))"
    using settle_keeps settle_keeps [OF c(1)] by (simp add: vic_cfg_def)
  then show "vic_cfg (acked i h)"
    by (simp add: acked_def reg_writes vic_cfg_def)
  have "h_waiting (vic_settle h)" if "h_waiting h \<or> h_idle h = 0"
  proof (cases "h_waiting h")
    case True
    then show ?thesis
      using settle_wait [OF c(2)] by simp
  next
    case False
    then show ?thesis
      using settle_latch [OF c(1) False _ e] that by simp
  qed
  then consider (wait) "h_waiting (vic_settle h)" | (idle) "\<not> h_waiting h" "0 < h_idle h"
    by blast
  then have "\<not> h_waiting (acked i h) \<and> (\<not> bit (h_ctl h) 2 \<longrightarrow> h_idle (acked i h) = 0)
    \<and> (L' \<noteq> 0 \<longrightarrow> (h_var (acked i h) = of_nat i \<and> (bit (h_lines h) i \<or> h_idle (acked i h) < h_idle h))
        \<or> h_var (acked i h) = of_nat (hd (line_set L')))"
  proof cases
    case wait
    have s: "vic_settle (lowered i (vic_settle h)) = lowered i (vic_settle h)"
      by (rule settle_wait) (use c wait in simp_all)
    then have a: "acked i h = eoi_done (lowered i (vic_settle h))"
      using c wait by (simp add: acked_def reg_writes)
    have "h_idle h = 0"
    proof (cases "h_waiting h")
      case True
      then show ?thesis
        using assms(1) by (simp add: live_def)
    next
      case False
      then show ?thesis
        using wait settle_hold [OF c(2) False] by (cases "h_idle h") auto
    qed
    then have "bit (h_lines h) i"
      by (rule live_raised [OF assms(1-3)])
    then show ?thesis
      using assms(2) a emu_idle_off by (simp add: shows_vec_def)
  next
    case idle
    have s: "vic_settle h = h\<lparr>h_idle := h_idle h - 1\<rparr>"
      by (rule settle_hold [OF c(2) idle])
    have v: "h_var h = of_nat i"
      using assms(2) s by (simp add: shows_vec_def)
    let ?g = "lowered i (vic_settle h)"
    have g: "bit (h_ctl ?g) 0" "\<not> h_waiting ?g" "h_idle ?g = h_idle h - 1" "vic_cfg ?g" "all_enabled ?g" "h_lines ?g = L'"
      "h_var ?g = of_nat i"
      using c idle s v lowered_enabled [of "h\<lparr>h_idle := h_idle h - 1\<rparr>" i] e(1)
      by (simp_all add: vic_cfg_def all_enabled_def lowered_def L'_def)
    have b2: "bit (h_ctl h) 2"
      using emu idle by auto
    show ?thesis
    proof (cases "0 < h_idle ?g")
      case True
      have "acked i h = ?g\<lparr>h_idle := h_idle ?g - 1\<rparr>"
        using settle_hold [OF g(1,2) True] g(1,2) by (simp add: acked_def reg_writes)
      then show ?thesis
        using g idle b2 by simp
    next
      case False
      show ?thesis
      proof (cases "L' = 0")
        case True
        have "vic_settle ?g = ?g\<lparr>h_var := 0\<rparr>"
          by (rule settle_none) (use g False True in simp_all)
        then show ?thesis
          using g True b2 by (simp add: acked_def reg_writes)
      next
        case f: False
        have "vic_settle ?g = ?g\<lparr>h_waiting := True, h_var := of_nat (hd (line_set (h_lines ?g)))\<rparr>"
          by (rule settle_latch) (use g False f in simp_all)
        then show ?thesis
          using g b2 by (simp add: acked_def reg_writes)
      qed
    qed
  qed
  then show "\<not> h_waiting (acked i h)" "\<not> bit (h_ctl (acked i h)) 2 \<longrightarrow> h_idle (acked i h) = 0"
    "L' \<noteq> 0 \<Longrightarrow> (h_var (acked i h) = of_nat i \<and> (bit (h_lines h) i \<or> h_idle (acked i h) < h_idle h))
      \<or> h_var (acked i h) = of_nat (hd (line_set L'))"
    using ctl by simp_all
qed

definition round_events :: "htvic_device \<Rightarrow> vic_hw vic_env \<Rightarrow> nat \<Rightarrow> vic_call event list" where
  "round_events v E i = [EvCall (VicNested (vc_find E i)), vic_ev_write v VIC_REG_EOIR 1]"

lemma round_serves:
  assumes "vic_accessors v" "lowers_own E" "shows_vec (dev w) i" "i < 32"
  shows "\<exists>w'. handler_round (vic_on v) E v risr w = Inr (Some (risr AND NOT (push_bit i 1)), w')
    \<and> (\<exists>es. trace w' = trace w @ es \<and> acts es = round_events v E i) \<and> dev w' = vic_settle (acked i (dev w))"
proof -
  let ?h = "vic_settle (dev w)"
  have s: "h_var ?h = of_nat i"
    using assms(3) by (simp add: shows_vec_def)
  have nest: "vc_irq_data E (vc_find E i)" "vc_nested E (vc_find E i) ?h = lowered i ?h"
    using assms(2,4) by (simp_all add: lowers_own_def lowered_def)
  let ?es = "[vic_ev_read v 0x14 (of_nat i), EvCall (VicNested (vc_find E i)), vic_ev_write v 0x1c 1,
     vic_ev_read v 4 (vic_risr (vic_settle (acked i (dev w))))]"
  let ?w = "w\<lparr>dev := vic_settle (acked i (dev w)), trace := trace w @ ?es\<rparr>"
  have "handler_round (vic_on v) E v risr w = Inr (Some (risr AND NOT (push_bit i 1)), ?w)"
    using nest assms(4) s
    by (simp add: handler_round_def io_simps assms(1) reg_reads vect_of_nat handle_nested_irq_def kcall_def
        htvic_eoi_def Let_def acked_def del: push_bit_of_1)
  moreover have "acts ?es = round_events v E i" "trace ?w = trace w @ ?es"
    by (simp_all add: round_events_def)
  ultimately show ?thesis
    by (intro exI [of _ ?w] conjI exI [of _ ?es]) simp_all
qed

text \<open>What is left after a round: nothing, or a live core that shows the lowest line, or the same vector again.\<close>

lemma round_leaves:
  assumes "live h" "shows_vec h i" "i < 32"
  defines "L' \<equiv> h_lines h AND NOT (push_bit i 1)" and "h' \<equiv> vic_settle (acked i h)"
  shows "h_lines h' = L'" "h_ctl h' = h_ctl h" "L' = 0 \<Longrightarrow> vic_cfg h' \<and> \<not> h_waiting h'"
    "L' \<noteq> 0 \<Longrightarrow> live h' \<and> (shows_vec h' (hd (line_set L'))
      \<or> shows_vec h' i \<and> bit (h_ctl h) 2 \<and> (bit (h_lines h) i \<or> h_idle h' < h_idle h))"
proof -
  note a = acked_state [OF assms(1-3), folded L'_def]
  show "h_lines h' = L'" "h_ctl h' = h_ctl h"
    using a(4,6) by (simp_all add: h'_def)
  show "L' = 0 \<Longrightarrow> vic_cfg h' \<and> \<not> h_waiting h'"
    using settle_keeps [OF a(1)] settle_none [OF a(1,3) _ a(2)] settle_hold [of "acked i h"] a(1,3,4)
    unfolding h'_def by (cases "h_idle (acked i h)") (auto simp: vic_cfg_def)
  assume n: "L' \<noteq> 0"
  show "live h' \<and> (shows_vec h' (hd (line_set L'))
      \<or> shows_vec h' i \<and> bit (h_ctl h) 2 \<and> (bit (h_lines h) i \<or> h_idle h' < h_idle h))"
  proof (cases "h_var (acked i h) = of_nat (hd (line_set L'))")
    case True
    then show ?thesis
      using settle_next [OF a(1,2) _ a(3) True _ a(5)] n a(4) first_line(2) [OF n] unfolding h'_def by auto
  next
    case False
    then have v: "h_var (acked i h) = of_nat i" "bit (h_lines h) i \<or> h_idle (acked i h) < h_idle h"
      using a(7) [OF n] by auto
    then show ?thesis
      using settle_next [OF a(1,2) _ a(3) v(1) assms(3) a(5)] n a(4,6) unfolding h'_def by auto
  qed
qed

section \<open>The loop\<close>

text \<open>
  Every line is served, the first one shown first and the others in ascending order. While the core
  is idle after an acknowledgement it shows the vector it had, and that line's handler runs
  again.
\<close>

lemma hd_first: "distinct ys \<Longrightarrow> ys \<noteq> [] \<Longrightarrow> hd ys # filter (\<lambda>k. k \<noteq> hd ys) ys = ys"
  by (cases ys) (auto simp: filter_id_conv)

lemma line_set_hd: "L \<noteq> 0 \<Longrightarrow> hd (line_set L) # filter (\<lambda>k. k \<noteq> hd (line_set L)) (line_set L) = line_set L"
  using line_set_simps(2) line_set_empty by (intro hd_first) auto

lemma line_set_absent: "\<not> bit L i \<Longrightarrow> filter (\<lambda>k. k \<noteq> i) (line_set L) = line_set L"
  using line_set_simps(1) [of _ L] by (auto simp: filter_id_conv)

lemma remdups_adj_step:
  "remdups_adj ys = i # zs \<Longrightarrow> remdups_adj (i # ys) = i # zs"
  "remdups_adj ys = j # zs \<Longrightarrow> i \<noteq> j \<Longrightarrow> remdups_adj (i # ys) = i # j # zs"
proof -
  have h: "ys \<noteq> [] \<and> hd ys = x" if "remdups_adj ys = x # zs" for x
    using that hd_remdups_adj [of ys] by (cases ys) auto
  show "remdups_adj ys = i # zs \<Longrightarrow> remdups_adj (i # ys) = i # zs"
    using h [of i] by (cases ys) auto
  show "remdups_adj ys = j # zs \<Longrightarrow> i \<noteq> j \<Longrightarrow> remdups_adj (i # ys) = i # j # zs"
    using h [of j] by (cases ys) auto
qed

definition handler_left :: "vic_hw \<Rightarrow> nat \<Rightarrow> nat \<times> nat" where
  "handler_left h i = (length (line_set (h_lines h)), if bit (h_lines h) i then 0 else h_idle h)"

lemma loop_serves:
  assumes "vic_accessors v" "lowers_own E" "live (dev w)" "shows_vec (dev w) i" "i < 32"
  shows "\<exists>w' es ys. handler_loop (vic_on v) E v (h_lines (dev w)) w = Some (Inr (VIC_IRQ_HANDLED, w'))
    \<and> trace w' = trace w @ es \<and> acts es = concat (map (round_events v E) ys)
    \<and> remdups_adj ys = i # filter (\<lambda>k. k \<noteq> i) (line_set (h_lines (dev w)))
    \<and> (\<not> bit (h_ctl (dev w)) 2 \<longrightarrow> ys = i # filter (\<lambda>k. k \<noteq> i) (line_set (h_lines (dev w))))
    \<and> vic_cfg (dev w') \<and> h_lines (dev w') = 0 \<and> \<not> h_waiting (dev w')"
  using assms(3-5)
proof (induction "handler_left (dev w) i"
    arbitrary: i w rule: wf_induct_rule [OF wf_lex_prod [OF wf_less_than wf_less_than]])
  case 1
  let ?L = "h_lines (dev w)"
  define L' where "L' = ?L AND NOT (push_bit i 1)"
  obtain w1 es1 where r: "handler_round (vic_on v) E v ?L w = Inr (Some L', w1)"
    "trace w1 = trace w @ es1" "acts es1 = round_events v E i" "dev w1 = vic_settle (acked i (dev w))"
    using round_serves [OF assms(1,2) 1(3,4), of ?L] unfolding L'_def by blast
  note l = round_leaves [OF 1(2-4), folded L'_def r(4)]
  have L': "line_set L' = filter (\<lambda>k. k \<noteq> i) (line_set ?L)"
    unfolding L'_def by (rule line_set_remove)
  show ?case
  proof (cases "L' = 0")
    case True
    then have "line_set L' = []"
      by (simp add: line_set_empty)
    then show ?thesis
      using True r L' l(1,3) by (subst handler_loop.simps) (intro exI [of _ w1] exI [of _ es1] exI [of _ "[i]"]; simp)
  next
    case False
    have loop: "handler_loop (vic_on v) E v ?L w = handler_loop (vic_on v) E v L' w1"
      using False r(1) by (subst handler_loop.simps) simp
    have len: "length (line_set L') < length (line_set ?L) \<or> \<not> bit ?L i \<and> L' = ?L"
    proof (cases "bit ?L i")
      case True
      then have "i \<in> set (line_set ?L)"
        using line_set_simps(1) by simp
      then show ?thesis
        using L' length_filter_less [of i "line_set ?L" "\<lambda>k. k \<noteq> i"] by simp
    next
      case f: False
      then have "L' = ?L"
        unfolding L'_def by (intro bit_word_eqI) (auto simp: bit_simps)
      then show ?thesis
        using f by simp
    qed
    have live: "live (dev w1)"
      using l(4) [OF False] by simp
    have low_idle: "0 < h_idle (dev w)" if "\<not> bit ?L i"
    proof (rule ccontr)
      assume "\<not> 0 < h_idle (dev w)"
      then show False
        using live_raised [OF 1(2-4)] that by simp
    qed
    have nb: "\<not> bit L' i"
      unfolding L'_def by (simp add: bit_simps)
    consider (same) "shows_vec (dev w1) i" "bit (h_ctl (dev w)) 2" "bit ?L i \<or> h_idle (dev w1) < h_idle (dev w)"
      | (low) "shows_vec (dev w1) (hd (line_set L'))"
      using l(4) [OF False] by blast
    then show ?thesis
    proof cases
      case same
      have m: "(handler_left (dev w1) i, handler_left (dev w) i) \<in> less_than <*lex*> less_than"
        using len nb same(3) l(1) by (auto simp: handler_left_def)
      obtain w' es ys where g: "handler_loop (vic_on v) E v L' w1 = Some (Inr (VIC_IRQ_HANDLED, w'))"
        "trace w' = trace w1 @ es" "acts es = concat (map (round_events v E) ys)"
        "remdups_adj ys = i # filter (\<lambda>k. k \<noteq> i) (line_set L')"
        "vic_cfg (dev w')" "h_lines (dev w') = 0" "\<not> h_waiting (dev w')"
        using 1(1) [OF m live same(1) 1(4)] unfolding l(1) by blast
      have "remdups_adj (i # ys) = i # line_set L'"
        using remdups_adj_step(1) g(4) line_set_absent [OF nb] by metis
      then show ?thesis
        using g r(2,3) same(2) unfolding loop L' by (intro exI [of _ w'] exI [of _ "es1 @ es"] exI [of _ "i # ys"]) simp
    next
      case low
      let ?j = "hd (line_set L')"
      note f = first_line [OF False]
      have ij: "i \<noteq> ?j"
        using f(1) nb by auto
      have m: "(handler_left (dev w1) ?j, handler_left (dev w) i) \<in> less_than <*lex*> less_than"
        using len low_idle f(1) l(1) by (auto simp: handler_left_def)
      obtain w' es ys where g: "handler_loop (vic_on v) E v L' w1 = Some (Inr (VIC_IRQ_HANDLED, w'))"
        "trace w' = trace w1 @ es" "acts es = concat (map (round_events v E) ys)"
        "remdups_adj ys = ?j # filter (\<lambda>k. k \<noteq> ?j) (line_set L')"
        "\<not> bit (h_ctl (dev w)) 2 \<longrightarrow> ys = ?j # filter (\<lambda>k. k \<noteq> ?j) (line_set L')"
        "vic_cfg (dev w')" "h_lines (dev w') = 0" "\<not> h_waiting (dev w')"
        using 1(1) [OF m live low f(2)] unfolding l(1,2) by blast
      have "remdups_adj (i # ys) = i # line_set L'"
        using remdups_adj_step(2) [OF g(4) ij] line_set_hd [OF False] by simp
      then show ?thesis
        using g r(2,3) line_set_hd [OF False] unfolding loop L'
        by (intro exI [of _ w'] exI [of _ "es1 @ es"] exI [of _ "i # ys"]) simp
    qed
  qed
qed

section \<open>Loops that do not end\<close>

text \<open>Nothing the drain loop does lowers a line, so it ends when it finds none raised, and only then.\<close>

lemma settle_disabled: "\<not> bit (h_ctl h) 0 \<Longrightarrow>
    vic_settle h = h\<lparr>h_waiting := False, h_idle := 0, h_var := 0x12345678, h_swi := 0\<rparr>"
  by (simp add: vic_settle_def)

lemma ack_pending_ends:
  assumes "htvic_ack_pending P v w = Some w'"
    "P = vic_on v" "vic_accessors v" "\<not> bit (h_ctl (dev w)) 0"
  shows "h_lines (dev w) = 0"
proof -
  let ?Q = "\<lambda>((P, v), w) w'. P = vic_on v \<longrightarrow> vic_accessors v \<longrightarrow> \<not> bit (h_ctl (dev w)) 0 \<longrightarrow> h_lines (dev w) = 0"
  have "?Q ((P, v), w) w'"
  proof (rule htvic_ack_pending.raw_induct [OF _ assms(1)])
    fix ack and P :: "vic_hw platform" and v w and y :: "vic_hw vic_world"
    assume IH: "\<And>P v w y. ack P v w = Some y \<Longrightarrow> ?Q ((P, v), w) y"
      and e: "(let (risr, w) = htvic_ioread P v (kernel_va v + VIC_REG_RISR) w
         in if risr = 0 then Some w else ack P v (htvic_iowrite P v 1 (kernel_va v + VIC_REG_EOIR) w)) = Some y"
    show "?Q ((P, v), w) y"
    proof (clarify, rule ccontr)
      assume a: "P = vic_on v" "vic_accessors v" "\<not> bit (h_ctl (dev w)) 0" and n: "h_lines (dev w) \<noteq> 0"
      let ?h = "vic_settle (dev w)"
      let ?w = "w\<lparr>dev := ?h, trace := trace w @ [vic_ev_read v 4 (h_lines (dev w)), vic_ev_write v 0x1c 1]\<rparr>"
      have d: "vic_risr ?h = h_lines (dev w)" "vic_settle ?h = ?h" "hw_write 0x1c 1 ?h = ?h"
        using a(3) by (simp_all add: settle_disabled vic_risr_def reg_writes)
      have "ack P v ?w = Some y"
        using e a n d by (simp add: io_simps reg_simps Let_def)
      then show False
        using IH [of P v ?w y] a n by simp
    qed
  qed
  then show ?thesis
    using assms by simp
qed

lemma ack_pending_none:
  assumes "vic_accessors v" "\<not> bit (h_ctl (dev w)) 0" "h_lines (dev w) = 0"
  shows "htvic_ack_pending (vic_on v) v w = Some (w\<lparr>dev := vic_settle (dev w), trace := trace w @ [vic_ev_read v 4 0]\<rparr>)"
  using assms by (subst htvic_ack_pending.simps) (simp add: io_simps reg_simps Let_def vic_risr_def settle_disabled)






section \<open>Enabled lines\<close>

definition enabled_lines :: "vic_hw \<Rightarrow> nat set" where
  "enabled_lines h = {i. bit (h_imr h) i}"

lemma enabled_bound: "enabled_lines h \<subseteq> {..<32}"
  by (auto simp: enabled_lines_def dest: bit_imp_le_length)

section \<open>Properties\<close>

text \<open>
  C6: \<open>htvic_handler\<close> on a controller the driver has configured, when every line that is raised is
  enabled and each nested handler lowers its own line. Without a raised line it answers
  \<open>IRQ_NONE\<close> and does nothing but read. Otherwise it ends, answers \<open>IRQ_HANDLED\<close> and has served
  every raised line, the one the controller had latched first and the others in
  ascending order; after each nested handler, and before the next, it acknowledged the interrupt.
  Without edge emulation each line is served exactly once; with it, for as long as the core is idle
  after the acknowledgement of a line, the handler of that line runs again, and no other does out of
  its turn. No line is left raised and the controller does not wait for an acknowledgement.
\<close>

theorem htvic_handler_serves:
  assumes "vic_accessors v" "lowers_own E" "vic_up (dev w)"
    "h_lines (dev w) AND h_imr (dev w) = h_lines (dev w)"
    "h_waiting (dev w) \<Longrightarrow> bit (h_lines (dev w)) i \<and> h_var (dev w) = of_nat i"
    "\<not> h_waiting (dev w) \<Longrightarrow> h_lines (dev w) \<noteq> 0 \<Longrightarrow> i = hd (line_set (h_lines (dev w)))"
  shows "if h_lines (dev w) = 0
    then \<exists>w'. htvic_handler (vic_on v) E v w = Some (Inr (VIC_IRQ_NONE, w')) \<and> acts (trace w') = acts (trace w)
    else \<exists>w' es served. htvic_handler (vic_on v) E v w = Some (Inr (VIC_IRQ_HANDLED, w')) \<and> trace w' = trace w @ es
      \<and> acts es = concat (map (\<lambda>i. [EvCall (VicNested (vc_find E i)), vic_ev_write v VIC_REG_EOIR 1]) served)
      \<and> remdups_adj served = i # filter (\<lambda>k. k \<noteq> i) (line_set (h_lines (dev w)))
      \<and> (h_ctl (dev w) AND VIC_CTL_EMU_EDGE = 0 \<longrightarrow> served = i # filter (\<lambda>k. k \<noteq> i) (line_set (h_lines (dev w))))
      \<and> h_lines (dev w') = 0 \<and> \<not> h_waiting (dev w')"
proof (cases "h_lines (dev w) = 0")
  case True
  have "\<not> h_waiting (dev w)"
    using assms(5) True by auto
  then have "vic_settle (dev w) = (dev w)\<lparr>h_var := 0\<rparr>" "vic_risr (dev w) = 0"
    using assms(3,4) True settle_none [of "dev w"] by (auto simp: vic_up_def vic_cfg_def all_enabled_def vic_risr_def)
  then show ?thesis
    using True assms(1) by (simp add: htvic_handler_def io_simps reg_simps Let_def vic_risr_def)
next
  case False
  let ?h = "vic_settle (dev w)"
  let ?w = "w\<lparr>dev := ?h, trace := trace w @ [vic_ev_read v 4 (h_lines (dev w))]\<rparr>"
  have c: "vic_cfg (dev w)" "bit (h_ctl (dev w)) 0" "h_idle (dev w) = 0" and e: "all_enabled (dev w)"
    using assms(3,4) by (simp_all add: vic_up_def vic_cfg_def all_enabled_def)
  have h: "?h = (dev w)\<lparr>h_waiting := True, h_var := of_nat i\<rparr>" "bit (h_lines (dev w)) i"
  proof -
    have "?h = (dev w)\<lparr>h_waiting := True, h_var := of_nat i\<rparr> \<and> bit (h_lines (dev w)) i"
    proof (cases "h_waiting (dev w)")
      case True
      then show ?thesis
        using settle_wait [OF c(2) True] assms(5) [OF True] by simp
    next
      case f: False
      then show ?thesis
        using settle_latch [OF c(1) f c(3) e False] assms(6) [OF f False] first_line(1) [OF False] by simp
    qed
    then show "?h = (dev w)\<lparr>h_waiting := True, h_var := of_nat i\<rparr>" "bit (h_lines (dev w)) i"
      by simp_all
  qed
  have again: "vic_settle ?h = ?h"
    by (rule settle_wait) (use c h in simp_all)
  have i: "i < 32"
    using h(2) by (auto dest: bit_imp_le_length)
  have s: "live ?h" "shows_vec ?h i"
    using c e h again False by (auto simp: live_def shows_vec_def vic_cfg_def all_enabled_def)
  have "vic_risr ?h = h_lines (dev w)"
    using c h by (simp add: vic_cfg_def vic_risr_def)
  then have 1: "htvic_handler (vic_on v) E v w = handler_loop (vic_on v) E v (h_lines (dev ?w)) ?w"
    using False assms(1) by (simp add: htvic_handler_def io_simps reg_simps Let_def)
  have b: "bit (h_ctl (dev w)) 2 \<longleftrightarrow> h_ctl (dev w) AND VIC_CTL_EMU_EDGE \<noteq> 0"
    using and_exp_eq_0_iff_not_bit [of "h_ctl (dev w)" 2] by (simp add: VIC_CTL_EMU_EDGE_def WBGEN2_GEN_MASK_def)
  obtain w' es ys where "handler_loop (vic_on v) E v (h_lines (dev ?w)) ?w = Some (Inr (VIC_IRQ_HANDLED, w'))"
    "trace w' = trace ?w @ es" "acts es = concat (map (round_events v E) ys)"
    "remdups_adj ys = i # filter (\<lambda>k. k \<noteq> i) (line_set (h_lines (dev ?w)))"
    "\<not> bit (h_ctl (dev ?w)) 2 \<longrightarrow> ys = i # filter (\<lambda>k. k \<noteq> i) (line_set (h_lines (dev ?w)))"
    "h_lines (dev w') = 0" "\<not> h_waiting (dev w')"
    using loop_serves [OF assms(1,2), of ?w i] s i by auto
  then show ?thesis
    using False 1 b by (auto simp: round_events_def [abs_def])
qed


text \<open>
  C36: \<open>htvic_ack_pending\<close>, which probe runs on the disabled controller, ends exactly when no line is
  raised. Acknowledging lowers no line, so a core that holds its line makes probe hang.
\<close>

theorem htvic_ack_pending_ends_iff:
  assumes "vic_accessors v" "\<not> bit (h_ctl (dev w)) 0"
  shows "(\<exists>w'. htvic_ack_pending (vic_on v) v w = Some w') \<longleftrightarrow> h_lines (dev w) = 0"
  using ack_pending_ends [OF _ refl assms] ack_pending_none [OF assms] by blast

section \<open>Witnesses\<close>

definition demo_vic :: htvic_device where
  "demo_vic = zero_htvic\<lparr>memop := \<lparr>mem_read = VicRead32be, mem_write = VicWrite32be\<rparr>, kernel_va := 0x3000\<rparr>"

definition demo_vic_env :: "vic_hw vic_env" where
  "demo_vic_env = \<lparr>vc_version = KERNEL_VERSION 5 10 0, vc_irq_flags = Some 4, vc_mem = True, vc_kzalloc = True,
     vc_id_entry = Some HTVIC_VER_SVEC, vc_ioremap = Some 0x3000, vc_fwnode = True, vc_domain = True,
     vc_map = (\<lambda>i. 100 + int i), vc_find = (\<lambda>i. 100 + int i), vc_irq_data = (\<lambda>q. 100 \<le> q \<and> q < 132),
     vc_nested = (\<lambda>q h. h\<lparr>h_lines := h_lines h AND NOT (push_bit (nat (q - 100)) 1)\<rparr>),
     vc_get_irq = 17, vc_request_irq = 0, vc_debugfs = (\<lambda>s. Dentry 0x5000)\<rparr>"

definition demo_hw :: "u32 \<Rightarrow> u32 \<Rightarrow> vic_hw" where
  "demo_hw L M = \<lparr>h_lines = L, h_swi = 0, h_imr = M, h_ctl = 3, h_waiting = False, h_idle = 0, h_emu = [], h_var = 0, h_ivt = own_vectors\<rparr>"

definition demo_vic_world :: "vic_hw \<Rightarrow> vic_hw vic_world" where
  "demo_vic_world h = \<lparr>dev = h, trace = []\<rparr>"

lemma demo_vic_ok: "vic_accessors demo_vic" "lowers_own demo_vic_env" "vic_up (demo_hw L M)"
  by (simp_all add: demo_vic_def vic_accessors_def lowers_own_def demo_vic_env_def vic_up_def vic_cfg_def demo_hw_def bit_numeral_rec)

lemma demo_lines: "line_set 6 = [1, 2]"
  by (simp add: line_set_def upt_rec bit_numeral_rec)

lemma htvic_handler_serves_witness:
  "\<exists>w' es. htvic_handler (vic_on demo_vic) demo_vic_env demo_vic (demo_vic_world (demo_hw 6 7))
      = Some (Inr (VIC_IRQ_HANDLED, w')) \<and> trace w' = es
    \<and> acts es = [EvCall (VicNested 101), vic_ev_write demo_vic VIC_REG_EOIR 1,
        EvCall (VicNested 102), vic_ev_write demo_vic VIC_REG_EOIR 1]"
proof -
  let ?w = "demo_vic_world (demo_hw 6 7)"
  have d: "h_lines (dev ?w) = 6" "h_imr (dev ?w) = 7" "\<not> h_waiting (dev ?w)" "trace ?w = []" "vic_up (dev ?w)"
    using demo_vic_ok(3) [of 6 7] by (simp_all add: demo_vic_world_def) (simp_all add: demo_hw_def)
  have f: "vc_find demo_vic_env i = 100 + int i" for i
    by (simp add: demo_vic_env_def)
  have c: "h_ctl (dev ?w) AND VIC_CTL_EMU_EDGE = 0"
    by (simp add: demo_vic_world_def demo_hw_def VIC_CTL_EMU_EDGE_def WBGEN2_GEN_MASK_def)
  show ?thesis
    using htvic_handler_serves [OF demo_vic_ok(1,2), of ?w 1] unfolding d f demo_lines by (auto simp: d c)
qed





lemma htvic_ack_pending_ends_iff_witness:
  "htvic_ack_pending (vic_on demo_vic) demo_vic (demo_vic_world ((demo_hw 8 0)\<lparr>h_ctl := 0\<rparr>)) = None
    \<and> (\<exists>w'. htvic_ack_pending (vic_on demo_vic) demo_vic (demo_vic_world ((demo_hw 0 0)\<lparr>h_ctl := 0\<rparr>)) = Some w')"
  using htvic_ack_pending_ends_iff [of demo_vic "demo_vic_world ((demo_hw 8 0)\<lparr>h_ctl := 0\<rparr>)"]
    htvic_ack_pending_ends_iff [of demo_vic "demo_vic_world ((demo_hw 0 0)\<lparr>h_ctl := 0\<rparr>)"] demo_vic_ok(1)
  by (simp add: demo_vic_world_def demo_hw_def)

section \<open>A line served twice\<close>

text \<open>
  The control word that probe writes on a SPEC, lines 1 and 2 raised, and two accesses in the idle time of
  the first acknowledgement: the vector is stale at the next read, so the nested interrupt of line 1 runs
  twice, and its second acknowledgement is that of line 2, which has just been latched.
\<close>

definition spec_at :: "u32 \<Rightarrow> bool \<Rightarrow> nat \<Rightarrow> nat list \<Rightarrow> u32 \<Rightarrow> vic_hw" where
  "spec_at L b n ns x = \<lparr>h_lines = L, h_swi = 0, h_imr = 7, h_ctl = 0x7D7, h_waiting = b, h_idle = n, h_emu = ns,
     h_var = x, h_ivt = own_vectors\<rparr>"

definition spec_hw :: vic_hw where
  "spec_hw = spec_at 6 False 0 [2] 0"

lemma spec_line_sets: "line_set (6 :: u32) = [1, 2]" "line_set (4 :: u32) = [2]" "line_set (0 :: u32) = []"
  by (simp_all add: line_set_def upt_rec bit_numeral_rec)

lemma spec_settle:
  "vic_settle (spec_at 6 False 0 ns x) = spec_at 6 True 0 ns 1"
  "vic_settle (spec_at 4 False 0 ns x) = spec_at 4 True 0 ns 2"
  "vic_settle (spec_at 0 False 0 ns x) = spec_at 0 False 0 ns 0"
  "vic_settle (spec_at L False 2 ns x) = spec_at L False (Suc 0) ns x"
  "vic_settle (spec_at L False (Suc 0) ns x) = spec_at L False 0 ns x"
  "vic_settle (spec_at L True n ns x) = spec_at L True n ns x"
  by (simp_all add: spec_at_def vic_settle_def irqs_reg_def vic_risr_def spec_line_sets bit_numeral_rec)

lemma spec_eoi:
  "hw_write 0x1c x (spec_at L True 0 [2] y) = spec_at L False 2 [] y"
  "hw_write 0x1c x (spec_at L True 0 [] y) = spec_at L False 0 [] y"
  "hw_write 0x1c x (spec_at L False n ns y) = spec_at L False n ns y"
proof -
  have "unat (VIC_CTL_EMU_LEN_R 0x7D7) = 250"
    by (simp add: VIC_CTL_EMU_LEN_R_def WBGEN2_GEN_READ_def)
  then show "hw_write 0x1c x (spec_at L True 0 [2] y) = spec_at L False 2 [] y"
    "hw_write 0x1c x (spec_at L True 0 [] y) = spec_at L False 0 [] y"
    "hw_write 0x1c x (spec_at L False n ns y) = spec_at L False n ns y"
    by (simp_all add: spec_at_def reg_writes eoi_done_def emu_idle_def bit_numeral_rec)
qed

lemma spec_reads: "hw_read 0x04 (spec_at L b n ns x) = L" "hw_read 0x14 (spec_at L b n ns x) = x"
  by (simp_all add: spec_at_def reg_reads vic_risr_def)

lemma spec_nested:
  "vc_nested demo_vic_env 101 (spec_at L b n ns x) = spec_at (L AND NOT 2) b n ns x"
  "vc_nested demo_vic_env 102 (spec_at L b n ns x) = spec_at (L AND NOT 4) b n ns x"
  by (simp_all add: demo_vic_env_def spec_at_def)

lemma htvic_handler_twice:
  "\<exists>w'. htvic_handler (vic_on demo_vic) demo_vic_env demo_vic (demo_vic_world spec_hw) = Some (Inr (VIC_IRQ_HANDLED, w'))
    \<and> acts (trace w') = concat (map (\<lambda>i. [EvCall (VicNested (100 + i)), vic_ev_write demo_vic VIC_REG_EOIR 1]) [1, 1, 2])"
proof -
  have f: "vc_find demo_vic_env i = 100 + int i" "vc_irq_data demo_vic_env 101" "vc_irq_data demo_vic_env 102" for i
    by (simp_all add: demo_vic_env_def)
  show ?thesis
    by (simp add: htvic_handler_def handler_loop.simps [of _ _ _ 6] handler_loop.simps [of _ _ _ 4] handler_round_def
        handle_nested_irq_def kcall_def htvic_eoi_def io_simps demo_vic_ok(1) demo_vic_world_def spec_hw_def
        spec_settle spec_eoi spec_reads spec_nested f Let_def)
qed

text \<open>A raised line 0 that is not enabled is served all the same: the vector register reads 0 when there is none.\<close>

lemma htvic_handler_masked_line0:
  assumes "vic_accessors v" "lowers_own E" "vic_up (dev w)" "h_lines (dev w) = 1" "\<not> h_waiting (dev w)" "h_imr (dev w) = 0"
  shows "\<exists>w'. htvic_handler (vic_on v) E v w = Some (Inr (VIC_IRQ_HANDLED, w'))
    \<and> acts (trace w') = acts (trace w) @ round_events v E 0 \<and> h_lines (dev w') = 0"
proof -
  let ?h = "dev w"
  let ?h1 = "?h\<lparr>h_var := 0\<rparr>"
  let ?h2 = "?h\<lparr>h_var := 0, h_lines := 0\<rparr>"
  have s: "vic_settle ?h = ?h1" "vic_settle ?h1 = ?h1" "vic_settle ?h2 = ?h2"
    using assms(3-6) by (simp_all add: vic_settle_def vic_up_def vic_cfg_def irqs_reg_def vic_risr_def line_set_empty [THEN iffD2])
  have n: "vc_irq_data E (vc_find E 0)" "vc_nested E (vc_find E 0) ?h1 = ?h2"
    using assms(2,4) by (simp_all add: lowers_own_def)
  have r: "vic_risr ?h1 = 1" "vic_risr ?h2 = 0" "hw_write 0x1c 1 ?h2 = ?h2"
    using assms(3-5) by (simp_all add: vic_risr_def vic_up_def vic_cfg_def reg_writes)
  let ?es = "[vic_ev_read v 0x04 1, vic_ev_read v 0x14 0, EvCall (VicNested (vc_find E 0)), vic_ev_write v 0x1c 1, vic_ev_read v 0x04 0]"
  have "htvic_handler (vic_on v) E v w = Some (Inr (VIC_IRQ_HANDLED, w\<lparr>dev := ?h2, trace := trace w @ ?es\<rparr>))"
    using assms(1) n s r
    by (simp add: htvic_handler_def handler_loop.simps [of _ _ _ 1] handler_round_def handle_nested_irq_def kcall_def htvic_eoi_def
        io_simps reg_reads Let_def)
  then show ?thesis
    by (simp add: round_events_def)
qed

end
