(* ===== verification/Vic_Chip.thy ===== *)
theory Vic_Chip
  imports Vic_Handler Vic_Debug
begin

text \<open>
  The tables through which the kernel reaches the HT-VIC driver: the operations of its \<open>irq_chip\<close>,
  which come in any order, and the operations of its debugfs files. Over any sequence of chip
  operations the core follows an abstract one, a set of enabled lines and a count of users; a
  software interrupt raised through debugfs is served.
\<close>

unbundle bit_operations_syntax

section \<open>The interrupt chip\<close>

text \<open>What the kernel calls of \<open>htvic_chip\<close>; \<open>IrqStartup\<close> has the answer of \<open>try_module_get\<close>.\<close>

datatype chip_op = IrqStartup bool nat | IrqShutdown nat | IrqAck nat | IrqEoi nat
  | IrqMaskAck nat | IrqMask nat | IrqUnmask nat | IrqSetType nat u32

fun htvic_chip :: "'d platform \<Rightarrow> htvic_device \<Rightarrow> chip_op \<Rightarrow> 'd vic_world \<Rightarrow> int \<times> 'd vic_world" where
  "htvic_chip P v (IrqStartup pin i) w = htvic_irq_startup P v pin i w"
| "htvic_chip P v (IrqShutdown i) w = (0, htvic_irq_shutdown P v i w)"
| "htvic_chip P v (IrqAck i) w = (0, htvic_irq_ack w)"
| "htvic_chip P v (IrqEoi i) w = (0, htvic_eoi P v w)"
| "htvic_chip P v (IrqMaskAck i) w = (0, htvic_mask_disable_reg P v i w)"
| "htvic_chip P v (IrqMask i) w = (0, htvic_mask_disable_reg P v i w)"
| "htvic_chip P v (IrqUnmask i) w = (0, htvic_unmask_enable_reg P v i w)"
| "htvic_chip P v (IrqSetType i t) w = htvic_irq_set_type t w"

fun op_line :: "chip_op \<Rightarrow> nat" where
  "op_line (IrqStartup pin i) = i"
| "op_line (IrqShutdown i) = i"
| "op_line (IrqAck i) = i"
| "op_line (IrqEoi i) = i"
| "op_line (IrqMaskAck i) = i"
| "op_line (IrqMask i) = i"
| "op_line (IrqUnmask i) = i"
| "op_line (IrqSetType i t) = i"

text \<open>The abstract chip: the lines that are enabled, and how often the module is pinned.\<close>

record chip_view =
  cv_enabled :: "nat set"
  cv_pins :: int

fun chip_step :: "chip_op \<Rightarrow> chip_view \<Rightarrow> chip_view" where
  "chip_step (IrqStartup pin i) c = (if pin then c\<lparr>cv_enabled := insert i (cv_enabled c), cv_pins := cv_pins c + 1\<rparr> else c)"
| "chip_step (IrqShutdown i) c = c\<lparr>cv_enabled := cv_enabled c - {i}, cv_pins := cv_pins c - 1\<rparr>"
| "chip_step (IrqAck i) c = c"
| "chip_step (IrqEoi i) c = c"
| "chip_step (IrqMaskAck i) c = c\<lparr>cv_enabled := cv_enabled c - {i}\<rparr>"
| "chip_step (IrqMask i) c = c\<lparr>cv_enabled := cv_enabled c - {i}\<rparr>"
| "chip_step (IrqUnmask i) c = c\<lparr>cv_enabled := insert i (cv_enabled c)\<rparr>"
| "chip_step (IrqSetType i t) c = c"

definition chip_abs :: "vic_hw vic_world \<Rightarrow> chip_view" where
  "chip_abs w = \<lparr>cv_enabled = enabled_lines (dev w), cv_pins = net VicModuleGet VicModulePut (trace w)\<rparr>"

text \<open>What no chip operation changes: the control word, the vectors, and the lines of the cores.\<close>

definition same_setup :: "vic_hw \<Rightarrow> vic_hw \<Rightarrow> bool" where
  "same_setup h g \<longleftrightarrow> h_ctl g = h_ctl h \<and> h_ivt g = h_ivt h \<and> h_lines g = h_lines h"

lemma mask_lines:
  "i < 32 \<Longrightarrow> enabled_lines (h\<lparr>h_imr := m OR push_bit i 1\<rparr>) = insert i (enabled_lines (h\<lparr>h_imr := m\<rparr>))"
  "enabled_lines (h\<lparr>h_imr := m AND NOT (push_bit i 1)\<rparr>) = enabled_lines (h\<lparr>h_imr := m\<rparr>) - {i}"
  by (auto simp: enabled_lines_def bit_simps dest: bit_imp_le_length)

lemma enabled_only_imr: "enabled_lines h = enabled_lines (g\<lparr>h_imr := h_imr h\<rparr>)"
  by (simp add: enabled_lines_def)

lemma chip_writes:
  assumes "vic_accessors v"
  shows "i < 32 \<Longrightarrow> chip_abs (htvic_unmask_enable_reg (vic_on v) v i w) = chip_step (IrqUnmask i) (chip_abs w)"
    "chip_abs (htvic_mask_disable_reg (vic_on v) v i w) = chip_step (IrqMask i) (chip_abs w)"
    "chip_abs (htvic_eoi (vic_on v) v w) = chip_abs w"
    "same_setup (dev w) (dev (htvic_unmask_enable_reg (vic_on v) v i w))"
    "same_setup (dev w) (dev (htvic_mask_disable_reg (vic_on v) v i w))"
    "same_setup (dev w) (dev (htvic_eoi (vic_on v) v w))"
proof -
  have e: "enabled_lines ((vic_settle h)\<lparr>h_imr := m\<rparr>) = enabled_lines (h\<lparr>h_imr := m\<rparr>)" for h m
    by (simp add: enabled_lines_def)
  have n: "net VicModuleGet VicModulePut (es @ [vic_ev_write v a x]) = net VicModuleGet VicModulePut es" for es a x
    by (simp add: net_def vic_ev_write_def)
  show "i < 32 \<Longrightarrow> chip_abs (htvic_unmask_enable_reg (vic_on v) v i w) = chip_step (IrqUnmask i) (chip_abs w)"
    using assms mask_lines(1) [where h = "dev w" and m = "h_imr (dev w)" and i = i]
    by (simp add: chip_abs_def htvic_unmask_enable_reg_def io_simps reg_writes e n del: push_bit_of_1)
  show "chip_abs (htvic_mask_disable_reg (vic_on v) v i w) = chip_step (IrqMask i) (chip_abs w)"
    using assms mask_lines(2) [where h = "dev w" and m = "h_imr (dev w)" and i = i]
    by (simp add: chip_abs_def htvic_mask_disable_reg_def io_simps reg_writes e n del: push_bit_of_1)
  show "chip_abs (htvic_eoi (vic_on v) v w) = chip_abs w"
    using assms by (simp add: chip_abs_def htvic_eoi_def io_simps reg_writes n) (simp add: enabled_lines_def)
  show "same_setup (dev w) (dev (htvic_unmask_enable_reg (vic_on v) v i w))"
    "same_setup (dev w) (dev (htvic_mask_disable_reg (vic_on v) v i w))"
    "same_setup (dev w) (dev (htvic_eoi (vic_on v) v w))"
    using assms by (simp_all add: same_setup_def htvic_unmask_enable_reg_def htvic_mask_disable_reg_def htvic_eoi_def
        io_simps reg_writes)
qed

lemma chip_kcall:
  "chip_abs (kcall VicModuleGet w) = (chip_abs w)\<lparr>cv_pins := cv_pins (chip_abs w) + 1\<rparr>"
  "chip_abs (kcall VicModulePut w) = (chip_abs w)\<lparr>cv_pins := cv_pins (chip_abs w) - 1\<rparr>"
  "chip_abs (kcall VicErr w) = chip_abs w"
  by (simp_all add: chip_abs_def net_kcall dev_kcall)

lemma chip_sim:
  assumes "vic_accessors v" "op_line p < 32"
  shows "chip_abs (snd (htvic_chip (vic_on v) v p w)) = chip_step p (chip_abs w)
    \<and> same_setup (dev w) (dev (snd (htvic_chip (vic_on v) v p w)))"
proof -
  have refl: "same_setup h h" for h
    by (simp add: same_setup_def)
  show ?thesis
    using assms(2) chip_writes [OF assms(1)] refl
      chip_writes(4) [OF assms(1), of "kcall VicModuleGet w"]
    by (cases p) (auto simp: htvic_irq_startup_def htvic_irq_shutdown_def htvic_irq_ack_def htvic_irq_set_type_def chip_kcall dev_kcall
        simp del: push_bit_of_1)
qed

section \<open>Debugfs\<close>

datatype dbg_file = DbgInfo | DbgReg | DbgSwirq

text \<open>
  An open file: \<open>single_open\<close> keeps the function that prints it and the instance, \<open>htvic_dbg_swirq_open\<close>
  the instance alone. The operations that are not in a file's table fail.
\<close>

datatype dbg_handle = SeqFile dbg_file htvic_device | RawFile htvic_device

definition htvic_dbg_info_open :: "htvic_device \<Rightarrow> dbg_handle" where
  "htvic_dbg_info_open v = SeqFile DbgInfo v"

definition htvic_dbg_reg_open :: "htvic_device \<Rightarrow> dbg_handle" where
  "htvic_dbg_reg_open v = SeqFile DbgReg v"

definition htvic_dbg_swirq_open :: "htvic_device \<Rightarrow> dbg_handle" where
  "htvic_dbg_swirq_open v = RawFile v"

definition dbg_open :: "dbg_file \<Rightarrow> htvic_device \<Rightarrow> dbg_handle" where
  "dbg_open f v = (case f of DbgInfo \<Rightarrow> htvic_dbg_info_open v | DbgReg \<Rightarrow> htvic_dbg_reg_open v
     | DbgSwirq \<Rightarrow> htvic_dbg_swirq_open v)"

datatype dbg_text = InfoText "info_line list" | RegText "(addr \<times> u32) list"

definition dbg_read :: "'d platform \<Rightarrow> 'd vic_env \<Rightarrow> dbg_handle \<Rightarrow> 'd vic_world \<Rightarrow> (int + dbg_text) \<times> 'd vic_world" where
  "dbg_read P E f w = (case f of
     SeqFile DbgInfo v \<Rightarrow> (Inr (InfoText (htvic_dbg_info E)), w)
   | SeqFile DbgReg v \<Rightarrow> (let (ls, w) = htvic_dbg_reg P v w in (Inr (RegText ls), w))
   | _ \<Rightarrow> (Inl (- EINVAL), w))"

definition dbg_write :: "'d platform \<Rightarrow> dbg_handle \<Rightarrow> nat \<Rightarrow> 'd vic_world \<Rightarrow> (int + nat) \<times> 'd vic_world" where
  "dbg_write P f count w = (case f of
     RawFile v \<Rightarrow> (let (n, w) = htvic_dbg_swirq_write P v count w in (Inr n, w))
   | _ \<Rightarrow> (Inl (- EINVAL), w))"

text \<open>A dump of registers of a core that is not idle: what it holds, and nothing else happens to it.\<close>

lemma settle_idle0: "h_idle h = 0 \<Longrightarrow> h_idle (vic_settle h) = 0"
  by (auto simp: vic_settle_def split: list.splits)

lemma settle_again: "h_idle h = 0 \<Longrightarrow> vic_settle (vic_settle h) = vic_settle h"
  by (auto simp: vic_settle_def irqs_reg_def vic_risr_def split: list.splits)

lemma dump_on:
  assumes "h_idle (dev w) = 0"
  shows "\<exists>w'. dump_regs (vic_on v) v (kernel_va v + off) n w
       = (map (\<lambda>i. (kernel_va v + off + 4 * of_nat i, hw_read (off + 4 * of_nat i) (vic_settle (dev w)))) [0..<n], w')
     \<and> vic_settle (dev w') = vic_settle (dev w) \<and> acts (trace w') = acts (trace w) \<and> h_idle (dev w') = 0"
  using assms
proof (induction n arbitrary: off w)
  case 0
  then show ?case
    by simp
next
  case (Suc n)
  let ?w1 = "w\<lparr>dev := vic_settle (dev w), trace := trace w @ [vic_ev_read v off (hw_read off (vic_settle (dev w)))]\<rparr>"
  have r: "htvic_ioread (vic_on v) v (kernel_va v + off) w = (hw_read off (vic_settle (dev w)), ?w1)"
    by (simp add: htvic_read_on Let_def)
  have a: "kernel_va v + off + 4 = kernel_va v + (off + 4)"
    by (simp add: add.assoc)
  obtain w' where w': "dump_regs (vic_on v) v (kernel_va v + (off + 4)) n ?w1
      = (map (\<lambda>i. (kernel_va v + (off + 4) + 4 * of_nat i, hw_read (off + 4 + 4 * of_nat i) (vic_settle (dev w)))) [0..<n], w')"
    "vic_settle (dev w') = vic_settle (dev w)" "acts (trace w') = acts (trace w)" "h_idle (dev w') = 0"
    using Suc.IH [of ?w1 "off + 4"] Suc.prems settle_idle0 by (auto simp: settle_again)
  have "(\<lambda>i. (kernel_va v + off + 4 * of_nat (Suc i), hw_read (off + 4 * of_nat (Suc i)) (vic_settle (dev w))))
      = (\<lambda>i. (kernel_va v + (off + 4) + 4 * of_nat i, hw_read (off + 4 + 4 * of_nat i) (vic_settle (dev w))))"
    by (simp only: of_nat_Suc distrib_left mult_1_right add.assoc)
  then have m: "map (\<lambda>i. (kernel_va v + off + 4 * of_nat i, hw_read (off + 4 * of_nat i) (vic_settle (dev w)))) [0..<Suc n]
      = (kernel_va v + off + 4 * of_nat 0, hw_read (off + 4 * of_nat 0) (vic_settle (dev w)))
        # map (\<lambda>i. (kernel_va v + (off + 4) + 4 * of_nat i, hw_read (off + 4 + 4 * of_nat i) (vic_settle (dev w)))) [0..<n]"
    unfolding map_upt_Suc by (simp only:)
  have d: "dump_regs (vic_on v) v (kernel_va v + off) (Suc n) w
      = ((kernel_va v + off + 4 * of_nat 0, hw_read (off + 4 * of_nat 0) (vic_settle (dev w)))
        # map (\<lambda>i. (kernel_va v + (off + 4) + 4 * of_nat i, hw_read (off + 4 + 4 * of_nat i) (vic_settle (dev w)))) [0..<n], w')"
    by (simp only: dump_regs.simps r Let_def prod.case a w'(1)) simp
  show ?case
    unfolding m d by (intro exI [of _ w'] conjI refl w'(2-4))
qed

section \<open>Properties\<close>

text \<open>
  C20: the interrupt chip. Over any sequence of calls through \<open>htvic_chip\<close>, in any order, the core and
  the module follow the abstract chip: the enabled lines are those last started or unmasked, the
  module is pinned once for each start that was not refused, less the shutdowns. No call changes the
  control word, the vectors or the lines that are raised.
\<close>

theorem htvic_chip_refines:
  fixes w :: "vic_hw vic_world"
  assumes "vic_accessors v" "\<forall>p \<in> set ops. op_line p < 32"
  defines "w' \<equiv> fold (\<lambda>p w. snd (htvic_chip (vic_on v) v p w)) ops w"
  shows "chip_abs w' = fold chip_step ops (chip_abs w)
    \<and> h_ctl (dev w') = h_ctl (dev w) \<and> h_ivt (dev w') = h_ivt (dev w) \<and> h_lines (dev w') = h_lines (dev w)"
  using assms(2) unfolding w'_def
proof (induction ops arbitrary: w)
  case (Cons p ops)
  note sim = chip_sim [OF assms(1), of p w]
  show ?case
    using Cons.IH [of "snd (htvic_chip (vic_on v) v p w)"] Cons.prems sim by (simp add: same_setup_def)
qed simp

text \<open>
  C40: a software interrupt. On a configured controller that is at rest, with line 0 enabled, a write
  to the \<open>swirq\<close> file raises line 0, whatever is written; the handler that follows serves it exactly
  once, acknowledges it and ends, and the software interrupt is gone.
\<close>

theorem htvic_swirq_served:
  assumes "vic_accessors v" "lowers_own E" "vic_up (dev w)" "h_lines (dev w) = 0" "\<not> h_waiting (dev w)" "bit (h_imr (dev w)) 0"
    "dbg_write (vic_on v) (dbg_open DbgSwirq v) count w = (r, w1)"
  shows "r = Inr count \<and> vic_risr (dev w1) = 1
    \<and> (\<exists>w2. htvic_handler (vic_on v) E v w1 = Some (Inr (VIC_IRQ_HANDLED, w2))
        \<and> acts (trace w2) = acts (trace w) @ [vic_ev_write v VIC_REG_SWIR 1, EvCall (VicNested (vc_find E 0)), vic_ev_write v VIC_REG_EOIR 1]
        \<and> vic_risr (dev w2) = 0)"
proof -
  let ?h = "dev w"
  have up: "bit (h_ctl ?h) 0" "h_ivt ?h = own_vectors" "h_swi ?h = 0" "h_idle ?h = 0"
    using assms(3) by (simp_all add: vic_up_def vic_cfg_def)
  have s0: "vic_settle ?h = ?h\<lparr>h_var := 0\<rparr>"
    using settle_none [of ?h] assms(3-5) by (simp add: vic_up_def all_enabled_def)
  let ?h1 = "?h\<lparr>h_var := 0, h_swi := 1\<rparr>"
  let ?w1 = "w\<lparr>dev := ?h1, trace := trace w @ [vic_ev_write v 0x18 1]\<rparr>"
  have w1: "r = Inr count" "w1 = ?w1"
    using assms(1,7) s0 up(1)
    by (auto simp: dbg_write_def dbg_open_def htvic_dbg_swirq_open_def htvic_dbg_swirq_write_def htvic_write_on reg_writes)
  have risr: "vic_risr ?h1 = 1"
    using assms(4) by (simp add: vic_risr_def)
  have "line_set (1 AND h_imr ?h) = [0]"
  proof -
    have "1 AND h_imr ?h = 1"
      using assms(6) by (auto intro!: bit_word_eqI simp: bit_simps)
    then show ?thesis
      by (simp add: line_set_def upt_rec [of 0] filter_empty_conv bit_1_iff)
  qed
  then have s1: "vic_settle ?h1 = ?h1\<lparr>h_waiting := True\<rparr>"
    using up assms(4,5) by (simp add: vic_settle_def irqs_reg_def vic_risr_def)
  let ?h2 = "?h1\<lparr>h_waiting := True\<rparr>"
  have risr2: "vic_risr ?h2 = 1"
    using assms(4) by (simp add: vic_risr_def)
  have s2: "vic_settle ?h2 = ?h2"
    using up(1) by (simp add: vic_settle_def)
  have nest: "vc_irq_data E (vc_find E 0)" "vc_nested E (vc_find E 0) ?h2 = ?h2"
    using assms(2,4) by (auto simp: lowers_own_def)
  let ?h3 = "eoi_done ?h2"
  have eoi: "hw_write 0x1c 1 (vic_settle ?h2) = ?h3"
    using s2 up(1) by (simp add: reg_writes)
  let ?h4 = "vic_settle ?h3"
  have "vic_cfg ?h3" "all_enabled ?h3" "h_lines ?h3 = 0" "\<not> h_waiting ?h3"
    using assms(4) up by (simp_all add: vic_cfg_def all_enabled_def)
  then have s3: "vic_risr ?h4 = 0"
    using settle_keeps [of ?h3] by (simp add: vic_cfg_def vic_risr_def)
  let ?es = "[vic_ev_read v 0x04 1, vic_ev_read v 0x14 0, EvCall (VicNested (vc_find E 0)), vic_ev_write v 0x1c 1, vic_ev_read v 0x04 0]"
  let ?w2 = "w\<lparr>dev := ?h4, trace := trace w1 @ ?es\<rparr>"
  have "htvic_handler (vic_on v) E v w1 = Some (Inr (VIC_IRQ_HANDLED, ?w2))"
    using assms(1,4) nest eoi s1 s2 s3 risr risr2 w1
    by (simp add: htvic_handler_def handler_loop.simps [of _ _ _ 1] handler_round_def handle_nested_irq_def kcall_def htvic_eoi_def
        io_simps reg_reads Let_def)
  then show ?thesis
    using w1 risr s3 by simp
qed

text \<open>
  Reading the \<open>reg\<close> file prints the eight registers and the 32 vectors as the core holds them, with
  their addresses, and does nothing to the core.
\<close>

lemma htvic_dbg_reg_dump:
  assumes "h_idle (dev w) = 0"
  shows "\<exists>w'. dbg_read (vic_on v) E (dbg_open DbgReg v) w
       = (Inr (RegText (map (\<lambda>off. (kernel_va v + off, hw_read off (vic_settle (dev w))))
            (map (\<lambda>i. 4 * of_nat i) [0..<8] @ map (\<lambda>i. 0x80 + 4 * of_nat i) [0..<32]))), w')
     \<and> vic_settle (dev w') = vic_settle (dev w) \<and> acts (trace w') = acts (trace w)"
proof -
  obtain w1 where 1: "dump_regs (vic_on v) v (kernel_va v + 0) 8 w
      = (map (\<lambda>i. (kernel_va v + 0 + 4 * of_nat i, hw_read (0 + 4 * of_nat i) (vic_settle (dev w)))) [0..<8], w1)"
    "vic_settle (dev w1) = vic_settle (dev w)" "acts (trace w1) = acts (trace w)" "h_idle (dev w1) = 0"
    using dump_on [OF assms, of v 0 8] by blast
  obtain w2 where 2: "dump_regs (vic_on v) v (kernel_va v + 0x80) 32 w1
      = (map (\<lambda>i. (kernel_va v + 0x80 + 4 * of_nat i, hw_read (0x80 + 4 * of_nat i) (vic_settle (dev w1)))) [0..<32], w2)"
    "vic_settle (dev w2) = vic_settle (dev w1)" "acts (trace w2) = acts (trace w1)"
    using dump_on [OF 1(4), of v "0x80" 32] by blast
  have "map f xs @ map g ys = map h (map a xs @ map b ys)"
    if "\<And>i. f i = h (a i)" "\<And>i. g i = h (b i)" for f g :: "nat \<Rightarrow> addr \<times> u32" and h and a b :: "nat \<Rightarrow> addr" and xs ys
    using that by simp
  then show ?thesis
    using 1 2 by (simp add: dbg_read_def dbg_open_def htvic_dbg_reg_open_def htvic_dbg_reg_def add.assoc del: upt_rec_numeral)
qed

section \<open>Witnesses\<close>

lemma htvic_chip_refines_witness:
  "enabled_lines (dev (fold (\<lambda>p w. snd (htvic_chip (vic_on demo_vic) demo_vic p w))
     [IrqStartup True 3, IrqUnmask 5, IrqStartup False 7, IrqMaskAck 3, IrqEoi 3] (demo_vic_world (demo_hw 0 0)))) = {5}"
proof -
  let ?w = "demo_vic_world (demo_hw 0 0)"
  have "chip_abs ?w = \<lparr>cv_enabled = {}, cv_pins = 0\<rparr>"
    by (simp add: chip_abs_def enabled_lines_def demo_vic_world_def demo_hw_def net_def)
  then have "chip_abs (fold (\<lambda>p w. snd (htvic_chip (vic_on demo_vic) demo_vic p w))
     [IrqStartup True 3, IrqUnmask 5, IrqStartup False 7, IrqMaskAck 3, IrqEoi 3] ?w) = \<lparr>cv_enabled = {5}, cv_pins = 1\<rparr>"
    using htvic_chip_refines [OF demo_vic_ok(1), of "[IrqStartup True 3, IrqUnmask 5, IrqStartup False 7, IrqMaskAck 3, IrqEoi 3]" ?w]
    by (simp add: insert_Diff_if)
  then show ?thesis
    by (simp add: chip_abs_def)
qed

lemma htvic_swirq_served_witness:
  "\<exists>w1 w2. dbg_write (vic_on demo_vic) (dbg_open DbgSwirq demo_vic) 2 (demo_vic_world (demo_hw 0 1)) = (Inr 2, w1)
    \<and> htvic_handler (vic_on demo_vic) demo_vic_env demo_vic w1 = Some (Inr (VIC_IRQ_HANDLED, w2)) \<and> vic_risr (dev w2) = 0"
proof -
  let ?w = "demo_vic_world (demo_hw 0 1)"
  obtain r w1 where w1: "dbg_write (vic_on demo_vic) (dbg_open DbgSwirq demo_vic) 2 ?w = (r, w1)"
    by fastforce
  have d: "vic_up (dev ?w)" "h_lines (dev ?w) = 0" "\<not> h_waiting (dev ?w)" "bit (h_imr (dev ?w)) 0"
    using demo_vic_ok(3) by (simp_all add: demo_vic_world_def) (simp_all add: demo_hw_def)
  show ?thesis
    using htvic_swirq_served [OF demo_vic_ok(1,2) d w1] w1 by auto
qed

end
