(* ===== verification/Vic_Install.thy ===== *)
theory Vic_Install
  imports Vic_Handler Vic_Probe
begin

text \<open>
  What installing and removing the HT-VIC driver leaves in the core and in the kernel: the control
  word per carrier, the vector table, the resources held on success, on failure, and after removal.
\<close>

unbundle bit_operations_syntax

section \<open>The vector table\<close>

text \<open>The table through the driver's accessors is a register file.\<close>

definition table_get :: "htvic_device \<Rightarrow> nat \<Rightarrow> vic_hw vic_world \<Rightarrow> u32" where
  "table_get v i w = fst (htvic_ioread (vic_on v) v (ivt_addr v i) w)"

definition table_set :: "htvic_device \<Rightarrow> nat \<Rightarrow> u32 \<Rightarrow> vic_hw vic_world \<Rightarrow> vic_hw vic_world" where
  "table_set v i x w = htvic_iowrite (vic_on v) v x (ivt_addr v i) w"

definition table_ok :: "htvic_device \<Rightarrow> vic_hw vic_world \<Rightarrow> bool" where
  "table_ok v w \<longleftrightarrow> vic_accessors v \<and> length (h_ivt (dev w)) = 32"

lemma read_table: "i < 32 \<Longrightarrow> htvic_ioread (vic_on v) v (ivt_addr v i) w =
    (h_ivt (dev w) ! i, w\<lparr>dev := vic_settle (dev w), trace := trace w @ [vic_ev_read v (0x80 + 4 * of_nat i) (h_ivt (dev w) ! i)]\<rparr>)"
  unfolding ivt_addr_off htvic_read_on by (simp add: ivt_read Let_def)

lemma write_table: "i < 32 \<Longrightarrow> vic_accessors v \<Longrightarrow> htvic_iowrite (vic_on v) v x (ivt_addr v i) w =
    w\<lparr>dev := (vic_settle (dev w))\<lparr>h_ivt := (h_ivt (dev w))[i := x]\<rparr>,
      trace := trace w @ [vic_ev_write v (0x80 + 4 * of_nat i) x]\<rparr>"
  unfolding ivt_addr_off by (simp only: htvic_write_on ivt_write settle_fields)

lemma length_write [simp]: "length (h_ivt (hw_write off x h)) = length (h_ivt h)"
  by (simp add: hw_write_def)

lemma table_laws:
  "i < 32 \<Longrightarrow> table_get v i w = h_ivt (dev w) ! i"
  "i < 32 \<Longrightarrow> vic_accessors v \<Longrightarrow> h_ivt (dev (table_set v i x w)) = (h_ivt (dev w))[i := x]"
  "vic_accessors v \<Longrightarrow> length (h_ivt (dev (table_set v i x w))) = length (h_ivt (dev w))"
  unfolding table_get_def table_set_def
  by (simp_all only: read_table write_table fst_conv) (simp_all add: ivt_addr_off htvic_write_on)

interpretation vic_table: reg_file "table_get v" "table_set v" "\<lambda>i. i < 32" "table_ok v" for v
  by unfold_locales (simp_all add: table_laws table_ok_def)

lemma own_device [simp]: "vic_on (v\<lparr>hwid := xs\<rparr>) = vic_on v" "vic_bus (v\<lparr>hwid := xs\<rparr>) = vic_bus v"
  "vic_accessors (v\<lparr>hwid := xs\<rparr>) = vic_accessors v" "ivt_addr (v\<lparr>hwid := xs\<rparr>) i = ivt_addr v i"
  "vic_ev_write (v\<lparr>hwid := xs\<rparr>) = vic_ev_write v" "vic_ev_read (v\<lparr>hwid := xs\<rparr>) = vic_ev_read v"
  "kernel_va (v\<lparr>hwid := xs\<rparr>) = kernel_va v"
  by (auto simp: vic_on_def vic_bus_def vic_accessors_def ivt_addr_def vic_ev_write_def vic_ev_read_def fun_eq_iff)

section \<open>Mapping and restoring\<close>

text \<open>Only what is written to the core counts here: settling is invisible in these fields.\<close>

definition same_core :: "vic_hw \<Rightarrow> vic_hw \<Rightarrow> bool" where
  "same_core h h' \<longleftrightarrow> h_ctl h' = h_ctl h \<and> h_imr h' = h_imr h \<and> h_lines h' = h_lines h"

lemma same_core_trans: "same_core h g \<Longrightarrow> same_core g f \<Longrightarrow> same_core h f"
  by (simp add: same_core_def)

definition map_acts :: "vic_hw vic_env \<Rightarrow> htvic_device \<Rightarrow> nat \<Rightarrow> vic_call event list" where
  "map_acts E v i = [vic_ev_write v (0x80 + 4 * of_nat i) (of_nat i), EvCall (VicCreateMapping i),
     EvCall (VicSetChip (vc_map E i))]"

definition restore_acts :: "vic_hw vic_env \<Rightarrow> htvic_device \<Rightarrow> nat \<Rightarrow> vic_call event list" where
  "restore_acts E v i = [vic_ev_write v (0x80 + 4 * of_nat i) (hwid v ! i), EvCall (VicDisposeMapping (vc_find E i))]"

lemma trace_acts_kcall: "acts (trace (kcall q w)) = acts (trace w) @ [EvCall q]"
  by (simp add: trace_kcall)

lemma map_one:
  assumes "vic_accessors v" "i < 32" "0 < vc_map E i"
  shows "\<exists>w'. map_lines (vic_on v) E i (Suc n) v w =
      map_lines (vic_on v) E (i + 1) n (v\<lparr>hwid := (hwid v)[i := h_ivt (dev w) ! i]\<rparr>) w'
    \<and> h_ivt (dev w') = (h_ivt (dev w))[i := of_nat i] \<and> same_core (dev w) (dev w')
    \<and> acts (trace w') = acts (trace w) @ map_acts E v i"
proof -
  let ?w1 = "w\<lparr>dev := vic_settle (dev w), trace := trace w @ [vic_ev_read v (0x80 + 4 * of_nat i) (h_ivt (dev w) ! i)]\<rparr>"
  let ?w2 = "htvic_iowrite (vic_on v) v (of_nat i) (ivt_addr v i) ?w1"
  let ?w' = "kcall (VicSetChip (vc_map E i)) (kcall (VicCreateMapping i) ?w2)"
  have dv: "htvic_iowrite P (v\<lparr>hwid := xs\<rparr>) x a w = htvic_iowrite P v x a w" for P xs x a w
    by (simp add: htvic_iowrite_def split: vic_writefn.splits)
  have w2: "dev ?w2 = (vic_settle (vic_settle (dev w)))\<lparr>h_ivt := (h_ivt (dev w))[i := of_nat i]\<rparr>"
    "trace ?w2 = trace ?w1 @ [vic_ev_write v (0x80 + 4 * of_nat i) (of_nat i)]"
    using write_table [OF assms(2,1)] by simp_all
  have "map_lines (vic_on v) E i (Suc n) v w =
      map_lines (vic_on v) E (i + 1) n (v\<lparr>hwid := (hwid v)[i := h_ivt (dev w) ! i]\<rparr>) ?w'"
    using assms read_table [of i v w] by (simp add: dv irq_create_mapping_def htvic_irq_domain_map_def)
  moreover have "h_ivt (dev ?w') = (h_ivt (dev w))[i := of_nat i]" "same_core (dev w) (dev ?w')"
    by (simp_all add: dev_kcall w2 same_core_def)
  moreover have "acts (trace ?w') = acts (trace w) @ map_acts E v i"
    by (simp add: trace_kcall w2 map_acts_def)
  ultimately show ?thesis
    by blast
qed

lemma acts_hwid [simp]: "map_acts E (v\<lparr>hwid := xs\<rparr>) = map_acts E v"
  by (simp add: map_acts_def fun_eq_iff)

lemma map_lines_spec:
  assumes "vic_accessors v" "\<forall>i < 32. 0 < vc_map E i" "i + n = 32" "length (hwid v) = 32"
    "length (h_ivt (dev w)) = 32" "take i (h_ivt (dev w)) = take i own_vectors"
  shows "\<exists>w'. map_lines (vic_on v) E i n v w = (True, v\<lparr>hwid := take i (hwid v) @ drop i (h_ivt (dev w))\<rparr>, w')
    \<and> h_ivt (dev w') = own_vectors \<and> same_core (dev w) (dev w')
    \<and> acts (trace w') = acts (trace w) @ concat (map (map_acts E v) [i..<32])"
  using assms
proof (induction n arbitrary: i v w)
  case 0
  then show ?case
    by (auto simp: same_core_def own_vectors_def)
next
  case (Suc n)
  then have i: "i < 32"
    by simp
  let ?v = "v\<lparr>hwid := (hwid v)[i := h_ivt (dev w) ! i]\<rparr>"
  obtain w1 where w1: "map_lines (vic_on v) E i (Suc n) v w = map_lines (vic_on v) E (i + 1) n ?v w1"
    "h_ivt (dev w1) = (h_ivt (dev w))[i := of_nat i]" "same_core (dev w) (dev w1)"
    "acts (trace w1) = acts (trace w) @ map_acts E v i"
    using map_one [OF Suc.prems(1) i] Suc.prems(2) i by blast
  have t: "take (i + 1) (h_ivt (dev w1)) = take (i + 1) own_vectors"
    using Suc.prems(5,6) i w1(2) by (simp add: take_Suc_conv_app_nth own_vectors_def)
  obtain w' where w': "map_lines (vic_on v) E (i + 1) n ?v w1 =
      (True, ?v\<lparr>hwid := take (i + 1) (hwid ?v) @ drop (i + 1) (h_ivt (dev w1))\<rparr>, w')"
    "h_ivt (dev w') = own_vectors" "same_core (dev w1) (dev w')"
    "acts (trace w') = acts (trace w1) @ concat (map (map_acts E v) [i + 1..<32])"
    using Suc.IH [of ?v "i + 1" w1] Suc.prems w1(2) t by auto
  have "take (i + 1) (hwid ?v) @ drop (i + 1) (h_ivt (dev w1)) = take i (hwid v) @ drop i (h_ivt (dev w))"
    using Suc.prems(4,5) i w1(2) by (simp add: take_Suc_conv_app_nth Cons_nth_drop_Suc)
  then show ?case
    using w1 w' i same_core_trans [OF w1(3) w'(3)] by (intro exI [of _ w']) (simp add: upt_conv_Cons)
qed

lemma restore_spec:
  assumes "vic_accessors v" "i + n = 32" "length (hwid v) = 32"
    "length (h_ivt (dev w)) = 32" "take i (h_ivt (dev w)) = take i (hwid v)"
  shows "h_ivt (dev (restore_lines (vic_on v) E v i n w)) = hwid v
    \<and> same_core (dev w) (dev (restore_lines (vic_on v) E v i n w))
    \<and> acts (trace (restore_lines (vic_on v) E v i n w)) = acts (trace w) @ concat (map (restore_acts E v) [i..<32])"
  using assms
proof (induction n arbitrary: i w)
  case 0
  then show ?case
    by (simp add: same_core_def)
next
  case (Suc n)
  then have i: "i < 32"
    by simp
  let ?w1 = "htvic_iowrite (vic_on v) v (hwid v ! i) (ivt_addr v i) w"
  let ?w2 = "kcall (VicDisposeMapping (vc_find E i)) ?w1"
  have w2: "h_ivt (dev ?w2) = (h_ivt (dev w))[i := hwid v ! i]" "same_core (dev w) (dev ?w2)"
    "acts (trace ?w2) = acts (trace w) @ restore_acts E v i"
    using write_table [OF i Suc.prems(1), of "hwid v ! i" w]
    by (simp_all add: dev_kcall trace_kcall restore_acts_def same_core_def)
  have "take (i + 1) (h_ivt (dev ?w2)) = take (i + 1) (hwid v)"
    using Suc.prems i w2(1) by (simp add: take_Suc_conv_app_nth)
  then have "h_ivt (dev (restore_lines (vic_on v) E v (i + 1) n ?w2)) = hwid v
    \<and> same_core (dev ?w2) (dev (restore_lines (vic_on v) E v (i + 1) n ?w2))
    \<and> acts (trace (restore_lines (vic_on v) E v (i + 1) n ?w2)) = acts (trace ?w2) @ concat (map (restore_acts E v) [i + 1..<32])"
    using Suc.IH [of "i + 1" ?w2] Suc.prems w2(1) by simp
  then show ?case
    using w2 i same_core_trans by (auto simp: upt_conv_Cons)
qed

section \<open>Probe\<close>

text \<open>The port of an instance, its accessors and its base, is all that accesses depend on.\<close>

lemma port_cong:
  assumes "memop v' = memop v" "kernel_va v' = kernel_va v"
  shows "vic_on v' = vic_on v" "vic_accessors v' = vic_accessors v" "vic_ev_write v' = vic_ev_write v"
    "htvic_iowrite P v' = htvic_iowrite P v" "htvic_ioread P v' = htvic_ioread P v" "map_acts E v' = map_acts E v"
proof -
  have "vic_bus v' = vic_bus v"
    by (simp add: vic_bus_def assms)
  moreover from this show "vic_ev_write v' = vic_ev_write v"
    by (simp add: vic_ev_write_def assms fun_eq_iff)
  ultimately show "vic_on v' = vic_on v" "map_acts E v' = map_acts E v"
    by (simp_all add: vic_on_def map_acts_def assms fun_eq_iff)
qed (simp_all add: vic_accessors_def htvic_iowrite_def htvic_ioread_def assms fun_eq_iff)

text \<open>The kernel gives the domain and its mappings.\<close>

definition domain_given :: "vic_hw vic_env \<Rightarrow> bool" where
  "domain_given E \<longleftrightarrow> (\<forall>i < 32. 0 < vc_map E i) \<and> (new_fwnodes E \<longrightarrow> vc_fwnode E) \<and> vc_domain E"

definition domain_acts :: "vic_hw vic_env \<Rightarrow> vic_call event list" where
  "domain_acts E = (if new_fwnodes E then [EvCall VicFwnodeAlloc] else []) @ [EvCall VicDomainCreate]
     @ (if new_names E then [EvCall VicNameAlloc] else [])"

lemma domain_create_spec:
  assumes "domain_given E"
  shows "\<exists>v' w'. htvic_domain_create E v w = (0, v', w') \<and> memop v' = memop v \<and> kernel_va v' = kernel_va v
    \<and> hwid v' = hwid v \<and> dev w' = dev w \<and> acts (trace w') = acts (trace w) @ domain_acts E"
  using assms by (cases "new_fwnodes E")
    (simp_all add: htvic_domain_create_def domain_name_def domain_given_def domain_acts_def Let_def kcall_def)

lemma mapping_spec:
  assumes "vic_accessors v" "domain_given E" "length (hwid v) = 32" "length (h_ivt (dev w)) = 32"
  shows "\<exists>v' w'. htvic_irq_mapping (vic_on v) E v w = (0, v', w')
    \<and> memop v' = memop v \<and> kernel_va v' = kernel_va v \<and> hwid v' = h_ivt (dev w)
    \<and> h_ivt (dev w') = own_vectors \<and> same_core (dev w) (dev w')
    \<and> acts (trace w') = acts (trace w) @ domain_acts E @ concat (map (map_acts E v) [0..<32])"
proof -
  obtain v1 w1 where d: "htvic_domain_create E v w = (0, v1, w1)" "memop v1 = memop v" "kernel_va v1 = kernel_va v"
      "hwid v1 = hwid v" "dev w1 = dev w" "acts (trace w1) = acts (trace w) @ domain_acts E"
    using domain_create_spec [OF assms(2), of v w] by blast
  note c = port_cong [OF d(2,3)]
  obtain w' where "map_lines (vic_on v1) E 0 32 v1 w1 = (True, v1\<lparr>hwid := take 0 (hwid v1) @ drop 0 (h_ivt (dev w1))\<rparr>, w')"
    "h_ivt (dev w') = own_vectors" "same_core (dev w1) (dev w')"
    "acts (trace w') = acts (trace w1) @ concat (map (map_acts E v1) [0..<32])"
    using map_lines_spec [of v1 E 0 32 w1] assms d c by (auto simp: domain_given_def)
  then show ?thesis
    using d c by (simp add: htvic_irq_mapping_def)
qed

definition quiet_acts :: "htvic_device \<Rightarrow> vic_call event list" where
  "quiet_acts v = [vic_ev_write v VIC_REG_CTL 0, vic_ev_write v VIC_REG_IDR (NOT 0)]"

lemma write_ctl:
  assumes "vic_accessors v"
  shows "htvic_iowrite (vic_on v) v x (kernel_va v) w =
    w\<lparr>dev := (vic_settle (dev w))\<lparr>h_ctl := x\<rparr>, trace := trace w @ [vic_ev_write v VIC_REG_CTL x]\<rparr>"
  using htvic_write_on [OF assms, of x 0 w] by (simp add: reg_writes)

text \<open>The controller is disabled and drained, and the domain is set up.\<close>

lemma setup_spec:
  assumes "vic_accessors v" "domain_given E" "length (hwid v) = 32" "length (h_ivt (dev w)) = 32" "h_lines (dev w) = 0"
    "htvic_config ver = Some (ctl, flags)"
  shows "\<exists>v' w'. probe_setup (vic_on v) E ver v w = Some (probe_request (vic_on v) E ctl flags v' w')
    \<and> memop v' = memop v \<and> kernel_va v' = kernel_va v \<and> hwid v' = h_ivt (dev w)
    \<and> h_ivt (dev w') = own_vectors \<and> h_ctl (dev w') = 0 \<and> h_imr (dev w') = 0 \<and> h_lines (dev w') = 0
    \<and> acts (trace w') = acts (trace w) @ quiet_acts v @ domain_acts E @ concat (map (map_acts E v) [0..<32])"
proof -
  let ?w1 = "htvic_iowrite (vic_on v) v 0 (kernel_va v) w"
  let ?w2 = "htvic_iowrite (vic_on v) v (NOT 0) (kernel_va v + VIC_REG_IDR) ?w1"
  have w1: "h_ctl (dev ?w1) = 0" "h_ivt (dev ?w1) = h_ivt (dev w)" "h_lines (dev ?w1) = h_lines (dev w)"
    "trace ?w1 = trace w @ [vic_ev_write v VIC_REG_CTL 0]"
    by (simp_all add: write_ctl [OF assms(1)])
  have w2: "h_ctl (dev ?w2) = 0" "h_ivt (dev ?w2) = h_ivt (dev w)" "h_lines (dev ?w2) = 0" "h_imr (dev ?w2) = 0"
    "acts (trace ?w2) = acts (trace w) @ quiet_acts v"
    using w1 assms(5) by (simp_all add: htvic_write_on [OF assms(1)] reg_writes quiet_acts_def)
  have "\<not> bit (h_ctl (dev ?w2)) 0"
    using w2(1) by simp
  note a = ack_pending_none [OF assms(1) this w2(3)]
  let ?w3 = "?w2\<lparr>dev := vic_settle (dev ?w2), trace := trace ?w2 @ [vic_ev_read v 4 0]\<rparr>"
  obtain v' w' where m: "htvic_irq_mapping (vic_on v) E v ?w3 = (0, v', w')"
    "memop v' = memop v" "kernel_va v' = kernel_va v" "hwid v' = h_ivt (dev ?w3)"
    "h_ivt (dev w') = own_vectors" "same_core (dev ?w3) (dev w')"
    "acts (trace w') = acts (trace ?w3) @ domain_acts E @ concat (map (map_acts E v) [0..<32])"
    using mapping_spec [OF assms(1-3), of ?w3] assms(4) w2(2) by auto
  have "h_ivt (dev ?w3) = h_ivt (dev w)" "acts (trace ?w3) = acts (trace w) @ quiet_acts v"
    using w2 by simp_all
  moreover have "h_ctl (dev w') = 0" "h_imr (dev w') = 0" "h_lines (dev w') = 0"
    using m(6) w2 by (simp_all add: same_core_def)
  moreover have "probe_setup (vic_on v) E ver v w = Some (probe_request (vic_on v) E ctl flags v' w')"
    using a m(1) assms(6) by (simp add: probe_setup_def)
  ultimately show ?thesis
    using m by auto
qed

section \<open>The whole of probe\<close>

text \<open>The platform describes the controller, on a carrier the driver knows; the kernel has the memory.\<close>

definition probe_given :: "vic_hw vic_env \<Rightarrow> u64 \<Rightarrow> addr \<Rightarrow> bool" where
  "probe_given E ver base \<longleftrightarrow> (\<exists>f. vc_irq_flags E = Some f \<and> f AND 0xF \<noteq> 0) \<and> vc_mem E \<and> vc_kzalloc E
     \<and> vc_id_entry E = Some ver \<and> ver \<in> {HTVIC_VER_SPEC, HTVIC_VER_SVEC, HTVIC_VER_WRSWI} \<and> vc_ioremap E = Some base"

definition carrier_bus :: "u64 \<Rightarrow> io_acc" where
  "carrier_bus ver = (if ver = HTVIC_VER_SVEC then IO32BE else IO32)"

definition carrier_ctl :: "u64 \<Rightarrow> u32" where
  "carrier_ctl ver = (if ver = HTVIC_VER_SPEC then 0x7D7 else if ver = HTVIC_VER_SVEC then 3 else 1)"

definition carrier_flags :: "u64 \<Rightarrow> u32" where
  "carrier_flags ver = (if ver = HTVIC_VER_WRSWI then 0x80 else 0x84)"

definition fresh_vic :: "u64 \<Rightarrow> addr \<Rightarrow> htvic_device" where
  "fresh_vic ver base = zero_htvic\<lparr>memop := the (htvic_memops ver), kernel_va := base\<rparr>"

lemma vic_ctl_bits: "VIC_CTL_ENABLE = 1" "VIC_CTL_POL = 2" "VIC_CTL_EMU_EDGE = 4" "VIC_CTL_EMU_LEN_W 250 = 0x7D0"
proof -
  have "mask 16 = (0xFFFF :: u32)"
    by (simp add: mask_eq_exp_minus_1)
  then show "VIC_CTL_EMU_LEN_W 250 = 0x7D0"
    by (simp add: VIC_CTL_EMU_LEN_W_def WBGEN2_GEN_WRITE_def push_bit_eq_mult)
qed (simp_all add: VIC_CTL_ENABLE_def VIC_CTL_POL_def VIC_CTL_EMU_EDGE_def WBGEN2_GEN_MASK_def push_bit_eq_mult)

lemma carrier_config:
  "ver \<in> {HTVIC_VER_SPEC, HTVIC_VER_SVEC, HTVIC_VER_WRSWI} \<Longrightarrow> htvic_config ver = Some (carrier_ctl ver, carrier_flags ver)"
  by (auto simp: htvic_config_def carrier_ctl_def carrier_flags_def vic_ctl_bits Let_def)

lemma fresh_port:
  assumes "ver \<in> {HTVIC_VER_SPEC, HTVIC_VER_SVEC, HTVIC_VER_WRSWI}"
  shows "vic_accessors (fresh_vic ver base)" "vic_on (fresh_vic ver base) = vic_at (carrier_bus ver) base"
    "length (hwid (fresh_vic ver base)) = 32" "kernel_va (fresh_vic ver base) = base"
    "\<exists>ops. htvic_memops ver = Some ops \<and> fresh_vic ver base = zero_htvic\<lparr>memop := ops, kernel_va := base\<rparr>"
  using assms
  by (auto simp: fresh_vic_def zero_htvic_def htvic_memops_def vic_accessors_def vic_on_def vic_bus_def carrier_bus_def)

lemma vic_probe_spec:
  assumes "probe_given E ver base" "domain_given E" "length (h_ivt (dev w)) = 32" "h_lines (dev w) = 0"
  defines "v \<equiv> fresh_vic ver base"
  shows "\<exists>v' w'. htvic_probe (vic_at (carrier_bus ver) base) E w
      = Some (Inr (probe_request (vic_on v) E (carrier_ctl ver) (carrier_flags ver) v' w'))
    \<and> memop v' = memop v \<and> kernel_va v' = base \<and> hwid v' = h_ivt (dev w)
    \<and> h_ivt (dev w') = own_vectors \<and> h_ctl (dev w') = 0 \<and> h_imr (dev w') = 0
    \<and> acts (trace w') = acts (trace w) @ [EvCall VicKzalloc, EvCall VicIoremap] @ quiet_acts v @ domain_acts E
        @ concat (map (map_acts E v) [0..<32])"
proof -
  have ver: "ver \<in> {HTVIC_VER_SPEC, HTVIC_VER_SVEC, HTVIC_VER_WRSWI}"
    using assms(1) unfolding probe_given_def by blast
  note f = fresh_port [OF ver, of base, folded v_def]
  let ?w = "kcall VicIoremap (kcall VicKzalloc w)"
  obtain ops where o: "htvic_memops ver = Some ops" "v = zero_htvic\<lparr>memop := ops, kernel_va := base\<rparr>"
    using f(5) by blast
  have "htvic_probe (vic_on v) E w = map_option Inr (probe_setup (vic_on v) E ver v ?w)"
    using assms(1) o unfolding probe_given_def
    by (auto simp: htvic_probe_def htvic_validation_def Let_def)
  moreover obtain v' w' where r: "probe_setup (vic_on v) E ver v ?w
      = Some (probe_request (vic_on v) E (carrier_ctl ver) (carrier_flags ver) v' w')"
    "memop v' = memop v" "kernel_va v' = kernel_va v" "hwid v' = h_ivt (dev ?w)"
    "h_ivt (dev w') = own_vectors" "h_ctl (dev w') = 0" "h_imr (dev w') = 0"
    "acts (trace w') = acts (trace ?w) @ quiet_acts v @ domain_acts E @ concat (map (map_acts E v) [0..<32])"
    using setup_spec [OF f(1) assms(2) f(3) _ _ carrier_config [OF ver], of ?w] assms(3,4) by (auto simp: dev_kcall)
  ultimately show ?thesis
    using f by (intro exI [of _ v'] exI [of _ w']) (simp add: dev_kcall trace_kcall)
qed

lemma debug_init_spec:
  "\<exists>err v' w' ds. htvic_debug_init E v w = (err, v', w') \<and> memop v' = memop v \<and> kernel_va v' = kernel_va v
    \<and> hwid v' = hwid v \<and> vic_irq v' = vic_irq v \<and> dbg_dir v' = vc_debugfs E '''' \<and> dev w' = dev w \<and> acts (trace w') = acts (trace w) @ ds
    \<and> set ds \<subseteq> {EvCall VicErr, EvCall VicDebugfs}"
  by (simp add: htvic_debug_init_def Let_def kcall_def)

lemma htvic_probe_ok:
  assumes "probe_given E ver base" "domain_given E" "length (h_ivt (dev w)) = 32" "h_lines (dev w) = 0"
    "0 \<le> vc_request_irq E"
  shows "\<exists>v w' ds. htvic_probe (vic_at (carrier_bus ver) base) E w = Some (Inr (0, Some v, w'))
    \<and> vic_accessors v \<and> vic_on v = vic_at (carrier_bus ver) base \<and> hwid v = h_ivt (dev w) \<and> vic_irq v = vc_get_irq E
    \<and> dbg_dir v = vc_debugfs E ''''
    \<and> h_ctl (dev w') = carrier_ctl ver \<and> h_ivt (dev w') = own_vectors \<and> h_imr (dev w') = 0
    \<and> acts (trace w') = acts (trace w) @ [EvCall VicKzalloc, EvCall VicIoremap] @ quiet_acts v @ domain_acts E
        @ concat (map (map_acts E v) [0..<32]) @ [EvCall (VicRequestIrq (vc_get_irq E) (carrier_flags ver))] @ ds
        @ [vic_ev_write v VIC_REG_CTL (carrier_ctl ver)]
    \<and> set ds \<subseteq> {EvCall VicErr, EvCall VicDebugfs}"
proof -
  have ver: "ver \<in> {HTVIC_VER_SPEC, HTVIC_VER_SVEC, HTVIC_VER_WRSWI}"
    using assms(1) unfolding probe_given_def by blast
  define v where "v = fresh_vic ver base"
  note f = fresh_port [OF ver, of base, folded v_def]
  obtain v1 w1 where p: "htvic_probe (vic_at (carrier_bus ver) base) E w
      = Some (Inr (probe_request (vic_on v) E (carrier_ctl ver) (carrier_flags ver) v1 w1))"
    "memop v1 = memop v" "kernel_va v1 = base" "hwid v1 = h_ivt (dev w)"
    "h_ivt (dev w1) = own_vectors" "h_ctl (dev w1) = 0" "h_imr (dev w1) = 0"
    "acts (trace w1) = acts (trace w) @ [EvCall VicKzalloc, EvCall VicIoremap] @ quiet_acts v @ domain_acts E
        @ concat (map (map_acts E v) [0..<32])"
    using vic_probe_spec [OF assms(1-4)] unfolding v_def by blast
  let ?v1 = "v1\<lparr>vic_irq := vc_get_irq E\<rparr>"
  let ?w2 = "kcall (VicRequestIrq (vc_get_irq E) (carrier_flags ver)) w1"
  obtain err v3 w3 ds where d: "htvic_debug_init E ?v1 ?w2 = (err, v3, w3)" "memop v3 = memop v" "kernel_va v3 = kernel_va v"
    "hwid v3 = h_ivt (dev w)" "vic_irq v3 = vc_get_irq E" "dbg_dir v3 = vc_debugfs E ''''" "dev w3 = dev w1" "acts (trace w3) = acts (trace ?w2) @ ds"
    "set ds \<subseteq> {EvCall VicErr, EvCall VicDebugfs}"
    using debug_init_spec [of E ?v1 ?w2] p(2-4) f(4) by (auto simp: dev_kcall)
  note c = port_cong [OF d(2,3)]
  have acc: "vic_accessors v3"
    using c f by simp
  define w4 where "w4 = htvic_iowrite (vic_on v3) v3 (carrier_ctl ver) (kernel_va v3) w3"
  have w4: "dev w4 = (vic_settle (dev w3))\<lparr>h_ctl := carrier_ctl ver\<rparr>"
    "trace w4 = trace w3 @ [vic_ev_write v3 VIC_REG_CTL (carrier_ctl ver)]"
    unfolding w4_def by (simp_all add: write_ctl [OF acc])
  have r: "probe_request (vic_on v) E (carrier_ctl ver) (carrier_flags ver) v1 w1 = (0, Some v3, w4)"
    using d(1) assms(5) c(1) by (simp add: probe_request_def w4_def)
  have "quiet_acts v3 = quiet_acts v"
    using c by (simp add: quiet_acts_def)
  moreover have "htvic_probe (vic_at (carrier_bus ver) base) E w = Some (Inr (0, Some v3, w4))"
    using p(1) r by simp
  ultimately show ?thesis
    using p(2-) d(2-) c acc f(2) by (intro exI [of _ v3] exI [of _ w4] exI [of _ ds]) (simp add: w4 trace_kcall)
qed

text \<open>What a successful probe acquired, counted where removing the driver does not release it.\<close>

lemma map_acts_calls: "q \<in> {VicIoremap, VicNameAlloc} \<Longrightarrow> count_list (concat (map (map_acts E v) ls)) (EvCall q) = 0"
  by (induction ls) (auto simp: map_acts_def vic_ev_write_def)

lemma probe_keeps:
  assumes "probe_given E ver base" "domain_given E" "length (h_ivt (dev w)) = 32" "h_lines (dev w) = 0"
    "0 \<le> vc_request_irq E"
  shows "\<exists>v w' es. htvic_probe (vic_at (carrier_bus ver) base) E w = Some (Inr (0, Some v, w'))
    \<and> vic_accessors v \<and> vic_on v = vic_at (carrier_bus ver) base \<and> hwid v = h_ivt (dev w) \<and> vic_irq v = vc_get_irq E
    \<and> dbg_dir v = vc_debugfs E '''' \<and> acts (trace w') = acts (trace w) @ es
    \<and> count_list es (EvCall VicIoremap) = 1 \<and> count_list es (EvCall VicNameAlloc) = (if new_names E then 1 else 0)"
proof -
  obtain v w' ds where p: "htvic_probe (vic_at (carrier_bus ver) base) E w = Some (Inr (0, Some v, w'))"
    "vic_accessors v" "vic_on v = vic_at (carrier_bus ver) base" "hwid v = h_ivt (dev w)" "vic_irq v = vc_get_irq E"
    "dbg_dir v = vc_debugfs E ''''"
    "acts (trace w') = acts (trace w) @ [EvCall VicKzalloc, EvCall VicIoremap] @ quiet_acts v @ domain_acts E
        @ concat (map (map_acts E v) [0..<32]) @ [EvCall (VicRequestIrq (vc_get_irq E) (carrier_flags ver))] @ ds
        @ [vic_ev_write v VIC_REG_CTL (carrier_ctl ver)]" "set ds \<subseteq> {EvCall VicErr, EvCall VicDebugfs}"
    using htvic_probe_ok [OF assms] by blast
  have "count_list ds (EvCall VicIoremap) = 0" "count_list ds (EvCall VicNameAlloc) = 0"
    using p(8) by (auto simp: count_list_0_iff)
  with p show ?thesis
    by (intro exI [of _ v] exI [of _ w'] exI conjI)
      (auto simp: map_acts_calls quiet_acts_def domain_acts_def vic_ev_write_def)
qed

text \<open>What remove does after the lines are restored.\<close>

lemma remove_tail:
  "\<exists>w3. htvic_remove P E (Some v) w = (0, w3)
    \<and> dev w3 = dev (restore_lines P E v 0 32 (htvic_iowrite P v 0 (kernel_va v)
        (htvic_iowrite P v (NOT 0) (kernel_va v + VIC_REG_IDR) (htvic_debug_exit v w))))
    \<and> trace w3 = trace (restore_lines P E v 0 32 (htvic_iowrite P v 0 (kernel_va v)
        (htvic_iowrite P v (NOT 0) (kernel_va v + VIC_REG_IDR) (htvic_debug_exit v w))))
        @ [EvCall (VicFreeIrq (vic_irq v)), EvCall VicDomainRemove]
        @ (if new_fwnodes E then [EvCall VicFwnodeFree] else []) @ [EvCall VicKfree]"
  by (cases "new_fwnodes E") (simp_all add: htvic_remove_def free_fwnode_def dev_kcall trace_kcall Let_def)

section \<open>Properties\<close>

text \<open>
  C15: a probe that succeeds. For each of the three carriers the instance has the accessors of its
  bus and the saved vector table; the core is enabled with the control word of the carrier (for
  the SPEC, polarity and an emulated edge of 250 cycles as well), with the vector of each line
  its own number and every line masked. What probe does, in order: it disables the core and all
  its lines, creates the domain, writes the vectors and maps the lines, requests the interrupt,
  and enables the core last.
\<close>

theorem htvic_probe_configures:
  assumes "probe_given E ver base" "domain_given E" "length (h_ivt (dev w)) = 32" "h_lines (dev w) = 0"
    "0 \<le> vc_request_irq E"
  shows "\<exists>v w' ds. htvic_probe (vic_at (carrier_bus ver) base) E w = Some (Inr (0, Some v, w'))
    \<and> vic_accessors v \<and> vic_on v = vic_at (carrier_bus ver) base \<and> hwid v = h_ivt (dev w) \<and> vic_irq v = vc_get_irq E
    \<and> h_ctl (dev w') = carrier_ctl ver \<and> h_ivt (dev w') = own_vectors \<and> h_imr (dev w') = 0
    \<and> acts (trace w') = acts (trace w) @ [EvCall VicKzalloc, EvCall VicIoremap] @ quiet_acts v @ domain_acts E
        @ concat (map (map_acts E v) [0..<32]) @ [EvCall (VicRequestIrq (vc_get_irq E) (carrier_flags ver))] @ ds
        @ [vic_ev_write v VIC_REG_CTL (carrier_ctl ver)]
    \<and> set ds \<subseteq> {EvCall VicErr, EvCall VicDebugfs}"
  using htvic_probe_ok [OF assms] by blast

text \<open>
  C37: a probe that is refused its interrupt. It returns the error and frees the instance, but it
  does not undo what it did before: the domain and the 32 mappings remain, with the freed
  instance as their data, the registers stay mapped, and the vector table of the core is lost.
\<close>

theorem htvic_probe_keeps_domain:
  assumes "probe_given E ver base" "domain_given E" "length (h_ivt (dev w)) = 32" "h_lines (dev w) = 0"
    "vc_request_irq E < 0"
  shows "\<exists>w' es. htvic_probe (vic_at (carrier_bus ver) base) E w = Some (Inr (vc_request_irq E, None, w'))
    \<and> acts (trace w') = acts (trace w) @ es
    \<and> net VicKzalloc VicKfree es = 0 \<and> net VicDomainCreate VicDomainRemove es = 1
    \<and> (\<forall>i < 32. EvCall (VicCreateMapping i) \<in> set es) \<and> (\<forall>q. EvCall (VicDisposeMapping q) \<notin> set es)
    \<and> h_ivt (dev w') = own_vectors \<and> h_ctl (dev w') = 0"
proof -
  define v where "v = fresh_vic ver base"
  obtain v1 w1 where p: "htvic_probe (vic_at (carrier_bus ver) base) E w
      = Some (Inr (probe_request (vic_on v) E (carrier_ctl ver) (carrier_flags ver) v1 w1))"
    "h_ivt (dev w1) = own_vectors" "h_ctl (dev w1) = 0"
    "acts (trace w1) = acts (trace w) @ [EvCall VicKzalloc, EvCall VicIoremap] @ quiet_acts v @ domain_acts E
        @ concat (map (map_acts E v) [0..<32])"
    using vic_probe_spec [OF assms(1-4)] unfolding v_def by blast
  let ?m = "concat (map (map_acts E v) [0..<32])"
  let ?es = "[EvCall VicKzalloc, EvCall VicIoremap] @ quiet_acts v @ domain_acts E @ ?m @ [EvCall VicErr, EvCall VicKfree]"
  have r: "probe_request (vic_on v) E (carrier_ctl ver) (carrier_flags ver) v1 w1
      = (vc_request_irq E, None, kcall VicKfree (kcall VicErr w1))"
    using assms(5) by (simp add: probe_request_def vic_out_def)
  have m: "EvCall k \<in> set ?m \<longleftrightarrow> (\<exists>i < 32. k = VicCreateMapping i \<or> k = VicSetChip (vc_map E i))" for k
    by (auto simp: map_acts_def vic_ev_write_def)
  have c: "count_list ?m (EvCall k) = 0" if "k \<in> {VicKzalloc, VicKfree, VicDomainCreate, VicDomainRemove}" for k
    using that m [of k] by (simp only: count_list_0_iff) auto
  have "net VicKzalloc VicKfree ?es = 0" "net VicDomainCreate VicDomainRemove ?es = 1"
    by (simp_all add: net_def c quiet_acts_def domain_acts_def vic_ev_write_def)
  moreover have "EvCall (VicCreateMapping i) \<in> set ?es" if "i < 32" for i
    using that m [of "VicCreateMapping i"] by auto
  moreover have "EvCall (VicDisposeMapping q) \<notin> set ?es" for q
    using m [of "VicDisposeMapping q"] by (auto simp: quiet_acts_def domain_acts_def vic_ev_write_def)
  ultimately show ?thesis
    unfolding p(1) r using p(2-) by (intro exI [of _ "kcall VicKfree (kcall VicErr w1)"] exI [of _ ?es])
      (simp add: dev_kcall trace_kcall)
qed

text \<open>
  C16: removing the driver after a successful probe, whatever happened to the core in between. The
  vector table is the one probe found, the core is disabled with all its lines masked, and remove
  does exactly this: it takes the debugfs directory away unless probe was given none, masks the
  lines, disables the core, restores the vector and drops the mapping of each line, and releases the
  interrupt, the domain with its firmware node, and the instance. What probe acquired and nothing
  releases is the mapping of the registers and, from Linux 3.11 on, the string allocated for the
  name of the domain.
\<close>

theorem htvic_remove_restores:
  assumes "probe_given E ver base" "domain_given E" "length (h_ivt (dev w)) = 32" "h_lines (dev w) = 0"
    "0 \<le> vc_request_irq E" "length (h_ivt (dev w2)) = 32"
  defines "P \<equiv> vic_at (carrier_bus ver) base"
  shows "\<exists>v w1 w3 es. htvic_probe P E w = Some (Inr (0, Some v, w1)) \<and> htvic_remove P E (Some v) w2 = (0, w3)
    \<and> h_ivt (dev w3) = h_ivt (dev w) \<and> h_ctl (dev w3) = 0 \<and> h_imr (dev w3) = 0
    \<and> acts (trace w1) = acts (trace w) @ es \<and> count_list es (EvCall VicIoremap) = 1
    \<and> count_list es (EvCall VicNameAlloc) = (if KERNEL_VERSION 3 11 0 \<le> vc_version E then 1 else 0)
    \<and> acts (trace w3) = acts (trace w2)
        @ (if vc_debugfs E '''' \<noteq> DentryNull then [EvCall VicDebugfsRemove] else [])
        @ [vic_ev_write v VIC_REG_IDR (NOT 0), vic_ev_write v VIC_REG_CTL 0]
        @ concat (map (\<lambda>i. [vic_ev_write v (0x80 + 4 * of_nat i) (h_ivt (dev w) ! i),
            EvCall (VicDisposeMapping (vc_find E i))]) [0..<32])
        @ [EvCall (VicFreeIrq (vc_get_irq E)), EvCall VicDomainRemove]
        @ (if new_fwnodes E then [EvCall VicFwnodeFree] else []) @ [EvCall VicKfree]"
proof -
  obtain v w1 es where p: "htvic_probe P E w = Some (Inr (0, Some v, w1))"
    "vic_accessors v" "vic_on v = P" "hwid v = h_ivt (dev w)" "vic_irq v = vc_get_irq E" "dbg_dir v = vc_debugfs E ''''"
    "acts (trace w1) = acts (trace w) @ es" "count_list es (EvCall VicIoremap) = 1"
    "count_list es (EvCall VicNameAlloc) = (if new_names E then 1 else 0)"
    using probe_keeps [OF assms(1-5)] unfolding P_def by blast
  let ?w0 = "htvic_debug_exit v w2"
  let ?wi = "htvic_iowrite P v (NOT 0) (kernel_va v + VIC_REG_IDR) ?w0"
  let ?wc = "htvic_iowrite P v 0 (kernel_va v) ?wi"
  let ?wr = "restore_lines P E v 0 32 ?wc"
  define ds :: "vic_call event list" where "ds = (if vc_debugfs E '''' \<noteq> DentryNull then [EvCall VicDebugfsRemove] else [])"
  have ds: "dev ?w0 = dev w2" "acts (trace ?w0) = acts (trace w2) @ ds"
    by (auto simp: htvic_debug_exit_def p(6) ds_def dev_kcall trace_kcall)
  have wi: "h_imr (dev ?wi) = 0" "h_ivt (dev ?wi) = h_ivt (dev w2)"
    "trace ?wi = trace ?w0 @ [vic_ev_write v VIC_REG_IDR (NOT 0)]"
    unfolding p(3) [symmetric] by (simp_all add: htvic_write_on [OF p(2)] reg_writes ds(1))
  have wc: "h_ctl (dev ?wc) = 0" "h_imr (dev ?wc) = 0" "length (h_ivt (dev ?wc)) = 32"
    "acts (trace ?wc) = acts (trace ?w0) @ [vic_ev_write v VIC_REG_IDR (NOT 0), vic_ev_write v VIC_REG_CTL 0]"
    using wi assms(6) unfolding p(3) [symmetric] by (simp_all add: write_ctl [OF p(2)])
  have wr: "h_ivt (dev ?wr) = hwid v" "same_core (dev ?wc) (dev ?wr)"
    "acts (trace ?wr) = acts (trace ?wc) @ concat (map (restore_acts E v) [0..<32])"
    using restore_spec [OF p(2), of 0 32 ?wc E] wc(3) p(3,4) assms(3) by simp_all
  have "restore_acts E v = (\<lambda>i. [vic_ev_write v (0x80 + 4 * of_nat i) (h_ivt (dev w) ! i),
      EvCall (VicDisposeMapping (vc_find E i))])"
    by (simp add: restore_acts_def p(4) fun_eq_iff)
  moreover obtain w3 where "htvic_remove P E (Some v) w2 = (0, w3)" "dev w3 = dev ?wr"
    "trace w3 = trace ?wr @ [EvCall (VicFreeIrq (vic_irq v)), EvCall VicDomainRemove]
        @ (if new_fwnodes E then [EvCall VicFwnodeFree] else []) @ [EvCall VicKfree]"
    using remove_tail [of P E v w2] by blast
  ultimately show ?thesis
    using p wr wc(1,2,4) ds by (intro exI [of _ v] exI [of _ w1] exI [of _ w3] exI [of _ es])
      (auto simp: same_core_def ds_def new_names_def)
qed

section \<open>Witnesses\<close>

definition cold_vic :: vic_hw where
  "cold_vic = \<lparr>h_lines = 0, h_swi = 0, h_imr = 0, h_ctl = 0, h_waiting = False, h_idle = 0, h_emu = [], h_var = 0,
     h_ivt = map (\<lambda>i. 0x1000 + of_nat i) [0..<32]\<rparr>"

lemma demo_probe:
  "probe_given demo_vic_env HTVIC_VER_SVEC 0x3000" "domain_given demo_vic_env"
  "probe_given (demo_vic_env\<lparr>vc_request_irq := -16\<rparr>) HTVIC_VER_SVEC 0x3000"
  "domain_given (demo_vic_env\<lparr>vc_request_irq := -16\<rparr>)"
  by (simp_all add: probe_given_def domain_given_def demo_vic_env_def)

lemma demo_cold: "length (h_ivt (dev (demo_vic_world cold_vic))) = 32" "h_lines (dev (demo_vic_world cold_vic)) = 0"
  "h_ivt (dev (demo_vic_world cold_vic)) ! 5 = 0x1005"
  by (simp_all add: demo_vic_world_def cold_vic_def)

lemma htvic_probe_configures_witness:
  "\<exists>v w'. htvic_probe (vic_at IO32BE 0x3000) demo_vic_env (demo_vic_world cold_vic) = Some (Inr (0, Some v, w'))
    \<and> h_ctl (dev w') = 3"
  using htvic_probe_configures [OF demo_probe(1,2) demo_cold(1,2)]
  by (auto simp: demo_vic_env_def carrier_bus_def carrier_ctl_def)

lemma htvic_probe_keeps_domain_witness:
  "\<exists>w'. htvic_probe (vic_at IO32BE 0x3000) (demo_vic_env\<lparr>vc_request_irq := -16\<rparr>) (demo_vic_world cold_vic)
     = Some (Inr (-16, None, w')) \<and> h_ivt (dev w') = own_vectors"
  using htvic_probe_keeps_domain [OF demo_probe(3,4) demo_cold(1,2)]
  by (auto simp: carrier_bus_def)

lemma htvic_remove_restores_witness:
  "\<exists>v w1 w3. htvic_probe (vic_at IO32BE 0x3000) demo_vic_env (demo_vic_world cold_vic) = Some (Inr (0, Some v, w1))
    \<and> htvic_remove (vic_at IO32BE 0x3000) demo_vic_env (Some v) (demo_vic_world (demo_hw 5 7)) = (0, w3)
    \<and> h_ivt (dev w3) ! 5 = 0x1005"
proof -
  have "length (h_ivt (dev (demo_vic_world (demo_hw 5 7)))) = 32" "0 \<le> vc_request_irq demo_vic_env"
    by (simp_all add: demo_vic_world_def demo_hw_def own_vectors_def demo_vic_env_def)
  then show ?thesis
    using htvic_remove_restores [OF demo_probe(1,2) demo_cold(1,2), of "demo_vic_world (demo_hw 5 7)"] demo_cold(3)
    unfolding carrier_bus_def by auto
qed

end
