(* ===== verification/Msi_Irq.thy ===== *)
theory Msi_Irq
  imports Kernel_Io
begin

text \<open>
  The interrupt handling of the LM32 demonstration (\<open>msidemo/irq.c\<close>, \<open>irq.h\<close>): the control
  registers of the processor, the queues of message-signalled interrupts, and the dispatcher.
\<close>

unbundle bit_operations_syntax

section \<open>State\<close>

record msi =
  msi_msg :: u32
  msi_src :: u32
  msi_sel :: u32

text \<open>
  The globals of \<open>irq.h\<close> and the registers \<open>IE\<close> and \<open>IM\<close>. An entry of the table is a null pointer or
  an interrupt service routine. The register \<open>IP\<close> is not state of the program: the interrupt unit
  changes it on its own, with the lines the devices raise. So it is a part of the device state, read
  and written through an \<open>irq_unit\<close>.
\<close>

record 'f lm32 =
  isr_ptr_table :: "'f option list"
  global_msi :: msi
  csr_ie :: u32
  csr_im :: u32

record 'd irq_unit =
  rcsr_ip :: "'d \<Rightarrow> u32"
  wcsr_ip :: "u32 \<Rightarrow> 'd \<Rightarrow> 'd"

type_synonym ('d, 'f) msi_world = "('d, 'f) world"

definition IRQ_REG_RST :: u32 where [simp]: "IRQ_REG_RST = 0"
definition IRQ_REG_STAT :: u32 where [simp]: "IRQ_REG_STAT = 4"
definition IRQ_REG_POP :: u32 where [simp]: "IRQ_REG_POP = 8"
definition IRQ_OFFS_MSG :: u32 where [simp]: "IRQ_OFFS_MSG = 0"
definition IRQ_OFFS_SRC :: u32 where [simp]: "IRQ_OFFS_SRC = 4"
definition IRQ_OFFS_SEL :: u32 where [simp]: "IRQ_OFFS_SEL = 8"

text \<open>The element at an index of an array of 32-bit words: \<open>*(base + idx)\<close>, in a 32-bit address space.\<close>

definition word_at :: "u32 \<Rightarrow> u32 \<Rightarrow> addr" where
  "word_at base idx = ucast (base + 4 * idx)"

definition load_word :: "'d platform \<Rightarrow> u32 \<Rightarrow> u32 \<Rightarrow> ('d, 'k) world \<Rightarrow> u32 \<times> ('d, 'k) world" where
  "load_word P base idx w = ioread P IO32 (word_at base idx) w"

definition store_word :: "'d platform \<Rightarrow> u32 \<Rightarrow> u32 \<Rightarrow> u32 \<Rightarrow> ('d, 'k) world \<Rightarrow> ('d, 'k) world" where
  "store_word P base idx v w = iowrite P IO32 v (word_at base idx) w"

section \<open>Operations\<close>

definition irq_pop_msi :: "'d platform \<Rightarrow> u32 \<Rightarrow> u32 \<Rightarrow> 'f lm32 \<Rightarrow> ('d, 'f) msi_world \<Rightarrow> 'f lm32 \<times> ('d, 'f) msi_world" where
  "irq_pop_msi P irq_slave irq_no s w =
     (let msg_queue = irq_slave + 4 * push_bit 2 (irq_no + 1);
          (m, w) = load_word P msg_queue (drop_bit 2 IRQ_OFFS_MSG) w;
          s = s\<lparr>global_msi := (global_msi s)\<lparr>msi_msg := m\<rparr>\<rparr>;
          (m, w) = load_word P msg_queue (drop_bit 2 IRQ_OFFS_SRC) w;
          s = s\<lparr>global_msi := (global_msi s)\<lparr>msi_src := m\<rparr>\<rparr>;
          (m, w) = load_word P msg_queue (drop_bit 2 IRQ_OFFS_SEL) w;
          s = s\<lparr>global_msi := (global_msi s)\<lparr>msi_sel := m\<rparr>\<rparr>;
          w = store_word P irq_slave (drop_bit 2 IRQ_REG_POP) (push_bit (unat irq_no) 1) w
      in (s, w))"

definition isr_table_clr :: "'f lm32 \<Rightarrow> 'f lm32" where
  "isr_table_clr s = s\<lparr>isr_ptr_table := replicate 32 None\<rparr>"

definition irq_get_mask :: "'f lm32 \<Rightarrow> u32" where
  "irq_get_mask s = csr_im s"

text \<open>
  The assembler statement of \<open>irq_set_mask\<close> declares its operand as an output, so what it writes is
  the content \<open>r\<close> of whatever register the compiler chose, and the argument is not used.
\<close>

definition irq_set_mask :: "u32 \<Rightarrow> u32 \<Rightarrow> 'f lm32 \<Rightarrow> 'f lm32" where
  "irq_set_mask r im s = s\<lparr>csr_im := r\<rparr>"

definition irq_disable :: "'f lm32 \<Rightarrow> 'f lm32" where
  "irq_disable s = s\<lparr>csr_ie := csr_ie s AND 0xFFFE\<rparr>"

definition irq_enable :: "'f lm32 \<Rightarrow> 'f lm32" where
  "irq_enable s = s\<lparr>csr_ie := csr_ie s OR 1\<rparr>"

definition irq_clear :: "'d irq_unit \<Rightarrow> u32 \<Rightarrow> ('d, 'f) msi_world \<Rightarrow> ('d, 'f) msi_world" where
  "irq_clear U msk w = (let ip = rcsr_ip U (dev w); ip = ip AND msk in w\<lparr>dev := wcsr_ip U ip (dev w)\<rparr>)"

text \<open>
  \<open>run\<close> is what the routines of the table do, faults included; the call itself is recorded.
\<close>

type_synonym ('d, 'f) isr_run = "'f \<Rightarrow> 'f lm32 \<Rightarrow> ('d, 'f) msi_world \<Rightarrow> c_fault + 'f lm32 \<times> ('d, 'f) msi_world"

definition call_isr :: "('d, 'f) isr_run \<Rightarrow> u8 \<Rightarrow> 'f lm32 \<Rightarrow> ('d, 'f) msi_world \<Rightarrow> c_fault + 'f lm32 \<times> ('d, 'f) msi_world" where
  "call_isr run irq_no s w =
     (if \<not> unat irq_no < length (isr_ptr_table s) then Inl (BadIndex (uint irq_no))
      else case isr_ptr_table s ! unat irq_no of
        None \<Rightarrow> Inr (s, w)
      | Some f \<Rightarrow> run f s (kcall f w))"

lemma shift_decreases: "(x :: u32) \<noteq> 0 \<Longrightarrow> unat (drop_bit 1 x) < unat x"
proof -
  assume "x \<noteq> 0"
  then have "0 < unat x"
    by (simp add: unat_gt_0)
  moreover have "unat (drop_bit 1 x) = unat x div 2"
    by (simp add: drop_bit_eq_div unat_div)
  ultimately show ?thesis
    by simp
qed

function process_pending :: "'d platform \<Rightarrow> 'd irq_unit \<Rightarrow> u32 \<Rightarrow> ('d, 'f) isr_run \<Rightarrow> u32 \<Rightarrow> u8 \<Rightarrow> 'f lm32 \<Rightarrow> ('d, 'f) msi_world \<Rightarrow>
    c_fault + 'f lm32 \<times> ('d, 'f) msi_world" where
  "process_pending P U irq_slave run ip irq_no s w =
     (if ip = 0 then Inr (s, w)
      else ebind
          (if ip AND 1 \<noteq> 0 then
             (let (s, w) = irq_pop_msi P irq_slave (ucast irq_no) s w;
                  w = irq_clear U (push_bit (unat irq_no) 1) w
              in call_isr run irq_no s w)
           else Inr (s, w))
        (\<lambda>(s, w). process_pending P U irq_slave run (drop_bit 1 ip) (irq_no + 1) s w))"
  by pat_completeness auto

termination
  by (relation "measure (\<lambda>(P, U, irq_slave, run, ip, irq_no, s, w). unat ip)") (use shift_decreases in auto)

declare process_pending.simps [simp del]

definition irq_process :: "'d platform \<Rightarrow> 'd irq_unit \<Rightarrow> u32 \<Rightarrow> ('d, 'f) isr_run \<Rightarrow> 'f lm32 \<Rightarrow> ('d, 'f) msi_world \<Rightarrow>
    c_fault + 'f lm32 \<times> ('d, 'f) msi_world" where
  "irq_process P U irq_slave run s w = process_pending P U irq_slave run (rcsr_ip U (dev w)) 0 s w"

section \<open>The order of service\<close>

text \<open>
  The reference, written out in accesses. Serving line \<open>i\<close> reads three words from the 16 bytes of the
  line, writes a word with its bit alone to the register that pops a message, clears that bit, if it
  is set, in \<open>IP\<close>, and calls the routine of the table, which finds the three words in \<open>global_msi\<close>.
\<close>

definition serve_line :: "'d platform \<Rightarrow> 'd irq_unit \<Rightarrow> u32 \<Rightarrow> ('d, 'f) isr_run \<Rightarrow> nat \<Rightarrow>
    c_fault + 'f lm32 \<times> ('d, 'f) msi_world \<Rightarrow> c_fault + 'f lm32 \<times> ('d, 'f) msi_world" where
  "serve_line P U q run i r = (case r of Inl e \<Rightarrow> Inl e | Inr (s, w) \<Rightarrow>
     (let page = q + 16 * (of_nat i + 1);
          (m, w) = ioread P IO32 (ucast page) w;
          (a, w) = ioread P IO32 (ucast (page + 4)) w;
          (x, w) = ioread P IO32 (ucast (page + 8)) w;
          w = iowrite P IO32 (push_bit i 1) (ucast (q + 8)) w;
          w = w\<lparr>dev := wcsr_ip U (if bit (rcsr_ip U (dev w)) i then push_bit i 1 else 0) (dev w)\<rparr>;
          s = s\<lparr>global_msi := \<lparr>msi_msg = m, msi_src = a, msi_sel = x\<rparr>\<rparr>
      in if length (isr_ptr_table s) \<le> i then Inl (BadIndex (int i))
         else case isr_ptr_table s ! i of None \<Rightarrow> Inr (s, w) | Some f \<Rightarrow> run f s (kcall f w)))"

text \<open>The code's addresses and masks are those of the reference.\<close>

lemma and_push_bit_1: "ip AND push_bit i 1 = (if bit ip i then push_bit i 1 else (0 :: u32))"
  by (rule bit_word_eqI) (auto simp: bit_simps)

lemma page_words:
  "word_at (q + 4 * push_bit 2 (n + 1)) 0 = ucast (q + 16 * (n + 1))"
  "word_at (q + 4 * push_bit 2 (n + 1)) 1 = ucast (q + 16 * (n + 1) + 4)"
  "word_at (q + 4 * push_bit 2 (n + 1)) 2 = ucast (q + 16 * (n + 1) + 8)"
  "word_at q 2 = ucast (q + 8)"
  by (simp_all add: word_at_def push_bit_eq_mult algebra_simps)

lemma small_line:
  assumes "k < 32"
  shows "unat (of_nat k :: u8) = k" "(ucast (of_nat k :: u8) :: u32) = of_nat k"
  using assms by (simp_all add: unsigned_of_nat take_bit_nat_eq_self unsigned_ucast_eq word_eq_iff_unsigned
      flip: word_unat_eq_iff)

lemma serve_step:
  assumes "i < 32"
  shows "(let (s, w) = irq_pop_msi P q (of_nat i) s w; w = irq_clear U (push_bit i 1) w
      in call_isr run (of_nat i) s w) = serve_line P U q run i (Inr (s, w))"
proof -
  let ?page = "q + 16 * (of_nat i + 1)"
  obtain m w1 where 1: "ioread P IO32 (ucast ?page) w = (m, w1)"
    by fastforce
  obtain a w2 where 2: "ioread P IO32 (ucast (?page + 4)) w1 = (a, w2)"
    by fastforce
  obtain x w3 where 3: "ioread P IO32 (ucast (?page + 8)) w2 = (x, w3)"
    by fastforce
  let ?s = "s\<lparr>global_msi := \<lparr>msi_msg = m, msi_src = a, msi_sel = x\<rparr>\<rparr>"
  let ?w4 = "iowrite P IO32 (push_bit i 1) (ucast (q + 8)) w3"
  let ?w5 = "?w4\<lparr>dev := wcsr_ip U (if bit (rcsr_ip U (dev ?w4)) i then push_bit i 1 else 0) (dev ?w4)\<rparr>"
  have n: "unat (of_nat i :: u32) = i" "unat (of_nat i :: u8) = i"
    using assms by (simp_all add: unsigned_of_nat take_bit_nat_eq_self)
  have o: "drop_bit 2 IRQ_OFFS_MSG = 0" "drop_bit 2 IRQ_OFFS_SRC = 1" "drop_bit 2 IRQ_OFFS_SEL = 2" "drop_bit 2 IRQ_REG_POP = 2"
    by simp_all
  have g: "s\<lparr>global_msi := (global_msi s)\<lparr>msi_msg := m\<rparr>\<rparr>\<lparr>global_msi := (global_msi (s\<lparr>global_msi := (global_msi s)\<lparr>msi_msg := m\<rparr>\<rparr>))\<lparr>msi_src := a\<rparr>\<rparr>
      \<lparr>global_msi := (global_msi (s\<lparr>global_msi := (global_msi s)\<lparr>msi_msg := m\<rparr>\<rparr>\<lparr>global_msi := (global_msi (s\<lparr>global_msi := (global_msi s)\<lparr>msi_msg := m\<rparr>\<rparr>))\<lparr>msi_src := a\<rparr>\<rparr>))\<lparr>msi_sel := x\<rparr>\<rparr> = ?s"
    by simp
  have pop: "irq_pop_msi P q (of_nat i) s w = (?s, ?w4)"
    unfolding irq_pop_msi_def load_word_def store_word_def Let_def o n page_words(1-3) 1 2 3 prod.case g
    unfolding page_words(4) by (rule refl)
  have clr: "irq_clear U (push_bit i 1) ?w4 = ?w5"
    unfolding irq_clear_def Let_def and_push_bit_1 by (rule refl)
  have "uint (of_nat i :: u8) = int i"
    using n(2) by (metis uint_nat)
  then have isr: "call_isr run (of_nat i) ?s ?w5 = (if length (isr_ptr_table ?s) \<le> i then Inl (BadIndex (int i))
         else case isr_ptr_table ?s ! i of None \<Rightarrow> Inr (?s, ?w5) | Some f \<Rightarrow> run f ?s (kcall f ?w5))"
    unfolding call_isr_def n by (simp add: not_less)
  show ?thesis
    unfolding serve_line_def Let_def sum.case prod.case 1 2 3 pop clr isr by (rule refl)
qed

lemma fold_serve_fault: "fold (serve_line P U q run) xs (Inl e) = Inl e"
  by (induction xs) (simp_all add: serve_line_def)

lemma pending_fold:
  assumes "k \<le> 32"
  shows "process_pending P U q run (drop_bit k ip) (of_nat k) s w
    = fold (serve_line P U q run) (filter (bit ip) [k..<32]) (Inr (s, w))"
  using assms
proof (induction "32 - k" arbitrary: k s w)
  case 0
  then have k: "k = 32"
    by simp
  then have "drop_bit k ip = 0"
    by (auto intro!: bit_word_eqI simp: bit_simps dest: bit_imp_le_length)
  then show ?case
    using k by (simp add: process_pending.simps)
next
  case (Suc n)
  then have k: "k < 32" "n = 32 - Suc k" "Suc k \<le> 32"
    by simp_all
  have b: "drop_bit k ip AND 1 \<noteq> 0 \<longleftrightarrow> bit ip k"
    by (simp add: and_one_eq bit_iff_odd_drop_bit odd_iff_mod_2_eq_one)
  have step: "drop_bit 1 (drop_bit k ip) = drop_bit (Suc k) ip" "(of_nat k :: u8) + 1 = of_nat (Suc k)"
    by (simp_all add: add.commute)
  show ?case
  proof (cases "drop_bit k ip = 0")
    case True
    have "bit ip i = bit (drop_bit k ip) (i - k)" if "k \<le> i" for i
      using that by (simp add: bit_drop_bit_eq)
    then have "\<not> bit ip i" if "k \<le> i" for i
      using True that by simp
    then have "filter (bit ip) [k..<32] = []"
      by (simp add: filter_empty_conv)
    then show ?thesis
      using True by (simp add: process_pending.simps)
  next
    case False
    note IH = Suc.hyps(1) [OF k(2,3)]
    let ?sw = "if bit ip k then serve_line P U q run k (Inr (s, w)) else Inr (s, w)"
    have "process_pending P U q run (drop_bit k ip) (of_nat k) s w
        = ebind ?sw (\<lambda>(s, w). process_pending P U q run (drop_bit (Suc k) ip) (of_nat (Suc k)) s w)"
      unfolding process_pending.simps [of P U q run "drop_bit k ip"] step b small_line [OF k(1)] if_not_P [OF False]
        serve_step [OF k(1)]
      by (rule refl)
    also have "\<dots> = ebind ?sw (\<lambda>(s, w). fold (serve_line P U q run) (filter (bit ip) [Suc k..<32]) (Inr (s, w)))"
      by (simp only: IH)
    also have "\<dots> = fold (serve_line P U q run) (filter (bit ip) [Suc k..<32]) ?sw"
      by (cases ?sw) (auto simp: fold_serve_fault)
    finally show ?thesis
      using k(1) by (simp add: upt_conv_Cons)
  qed
qed

lemma dispatch_fold:
  "irq_process P U q run s w = fold (serve_line P U q run) (line_set (rcsr_ip U (dev w))) (Inr (s, w))"
  using pending_fold [of 0 P U q run "rcsr_ip U (dev w)" s w] by (simp add: irq_process_def line_set_def)

section \<open>Properties\<close>

text \<open>
  C22: the dispatcher. \<open>irq_process\<close> is the same as serving, one after the other and from the lowest
  number up, exactly the lines that were pending when it was called. The reference is written in
  accesses, not in the functions of the dispatcher: for each line it reads the three words of the
  line's message, pops it, clears the line's pending bit and no other, and calls the routine of the
  table, if any, with the three words in \<open>global_msi\<close>.
\<close>

theorem irq_process_serves:
  "irq_process P U irq_slave run s w
    = fold (serve_line P U irq_slave run) (line_set (rcsr_ip U (dev w))) (Inr (s, w))"
  by (rule dispatch_fold)

end
