(* ===== verification/Msi_Display.thy ===== *)
theory Msi_Display
  imports Msi_Irq
begin

text \<open>
  The display of the LM32 demonstration (\<open>msidemo/display.c\<close>): a register that selects the mode, a
  character port, a character memory and a pixel memory, eight pixels of a column to a word.
\<close>

unbundle bit_operations_syntax

section \<open>Registers\<close>

definition REG_MODE :: u32 where [simp]: "REG_MODE = 0"
definition REG_RST :: u32 where [simp]: "REG_RST = 4"
definition REG_UART :: u32 where [simp]: "REG_UART = 0x10000"
definition REG_CHAR :: u32 where [simp]: "REG_CHAR = 0x20000"
definition REG_RAW :: u32 where [simp]: "REG_RAW = 0x30000"
definition MODE_RAW :: u32 where [simp]: "MODE_RAW = 3"
definition MODE_UART :: u32 where [simp]: "MODE_UART = 1"
definition MODE_CHAR :: u32 where [simp]: "MODE_CHAR = 2"
definition MODE_IDLE :: u32 where [simp]: "MODE_IDLE = 0"
definition ROW_LEN :: nat where [simp]: "ROW_LEN = 11"

text \<open>The pointer \<open>display\<close> of \<open>main.c\<close>, in bytes.\<close>

definition display :: u32 where "display = 0x02900000"

text \<open>A \<open>char\<close> as an \<open>int\<close>; whether it is signed is up to the compiler.\<close>

definition char_int :: "bool \<Rightarrow> u8 \<Rightarrow> u32" where
  "char_int sg c = (if sg then scast c else ucast c)"

section \<open>Operations\<close>

text \<open>\<open>disp_reset\<close> adds the byte offset of the register to a pointer to words.\<close>

definition disp_reset :: "'d platform \<Rightarrow> ('d, 'k) world \<Rightarrow> ('d, 'k) world" where
  "disp_reset P w = store_word P display REG_RST 1 w"

definition set_mode :: "'d platform \<Rightarrow> u32 \<Rightarrow> ('d, 'k) world \<Rightarrow> ('d, 'k) world" where
  "set_mode P m w = store_word P display (drop_bit 2 REG_MODE) m w"

definition put_uart :: "'d platform \<Rightarrow> bool \<Rightarrow> u8 \<Rightarrow> ('d, 'k) world \<Rightarrow> ('d, 'k) world" where
  "put_uart P sg c w = store_word P display (drop_bit 2 REG_UART) (char_int sg c) w"

definition disp_put_c :: "'d platform \<Rightarrow> bool \<Rightarrow> u8 \<Rightarrow> ('d, 'k) world \<Rightarrow> ('d, 'k) world" where
  "disp_put_c P sg ascii w = put_uart P sg ascii (set_mode P MODE_UART w)"

text \<open>A string is the bytes from the pointer to the end of its array.\<close>

fun put_chars :: "'d platform \<Rightarrow> bool \<Rightarrow> u8 list \<Rightarrow> ('d, 'k) world \<Rightarrow> c_fault + ('d, 'k) world" where
  "put_chars P sg [] w = Inl BadPointer"
| "put_chars P sg (c # cs) w = (if c = 0 then Inr w else put_chars P sg cs (put_uart P sg c w))"

definition disp_put_str :: "'d platform \<Rightarrow> bool \<Rightarrow> u8 list \<Rightarrow> ('d, 'k) world \<Rightarrow> c_fault + ('d, 'k) world" where
  "disp_put_str P sg s w = put_chars P sg s (set_mode P MODE_UART w)"

definition disp_loc_c :: "'d platform \<Rightarrow> bool \<Rightarrow> u8 \<Rightarrow> u8 \<Rightarrow> u8 \<Rightarrow> ('d, 'k) world \<Rightarrow> ('d, 'k) world" where
  "disp_loc_c P sg ascii row col w =
     (let w = set_mode P MODE_CHAR w;
          rowcol = push_bit 6 (0x07 AND ucast row) + push_bit 2 (0x0f AND ucast col)
      in store_word P display (drop_bit 2 (REG_CHAR + rowcol)) (char_int sg ascii) w)"

fun put_cols :: "'d platform \<Rightarrow> bool \<Rightarrow> u8 list \<Rightarrow> u8 \<Rightarrow> nat \<Rightarrow> nat \<Rightarrow> bool \<Rightarrow> ('d, 'k) world \<Rightarrow> c_fault + ('d, 'k) world" where
  "put_cols P sg s row col 0 pad w = Inr w"
| "put_cols P sg s row col (Suc n) pad w =
     (if \<not> col < length s then Inl (BadIndex (int col))
      else let pad = (if s ! col = 0 then True else pad);
               outp = (if pad then 32 else s ! col)
        in put_cols P sg s row (col + 1) n pad (disp_loc_c P sg outp row (of_nat col) w))"

definition disp_put_line :: "'d platform \<Rightarrow> bool \<Rightarrow> u8 list \<Rightarrow> u8 \<Rightarrow> ('d, 'k) world \<Rightarrow> c_fault + ('d, 'k) world" where
  "disp_put_line P sg s row w = put_cols P sg s row 0 ROW_LEN False w"

text \<open>What \<open>disp_put_raw\<close> stores: the old pixels of the word with those of \<open>pixcol\<close> set or cleared.\<close>

definition raw_value :: "bool \<Rightarrow> u8 \<Rightarrow> u8 \<Rightarrow> u8 \<Rightarrow> u32" where
  "raw_value sg pixcol color oldpixcol = (if color \<noteq> 0 then char_int sg pixcol OR char_int sg oldpixcol
     else NOT (char_int sg pixcol) AND char_int sg oldpixcol)"

definition disp_put_raw :: "'d platform \<Rightarrow> bool \<Rightarrow> u8 \<Rightarrow> u32 \<Rightarrow> u8 \<Rightarrow> ('d, 'k) world \<Rightarrow> ('d, 'k) world" where
  "disp_put_raw P sg pixcol address color w =
     (let w = set_mode P MODE_RAW w;
          (old, w) = load_word P display (drop_bit 2 REG_RAW + (address AND 0x3FFF)) w;
          w = store_word P display (drop_bit 2 REG_RAW + (address AND 0x3FFF)) (raw_value sg pixcol color (ucast old)) w
      in set_mode P MODE_IDLE w)"

definition get_pixcol_addr :: "u8 \<Rightarrow> u8 \<Rightarrow> u32" where
  "get_pixcol_addr x_in y_in =
     (let addr_base = 0x230;
          x = ucast (x_in AND 0x3F) :: u32;
          y = (if y_in < 48 then push_bit 8 (drop_bit 3 (ucast y_in)) else push_bit 8 5)
      in addr_base + y + x)"

definition get_pixcol_val :: "u8 \<Rightarrow> u32" where
  "get_pixcol_val y_in = push_bit (unat (y_in AND 0x07)) 1"

section \<open>Pixels\<close>

definition raw_word :: "u32 \<Rightarrow> addr" where
  "raw_word a = word_at display (drop_bit 2 REG_RAW + (a AND 0x3FFF))"

definition visible :: "u8 \<Rightarrow> u8 \<Rightarrow> bool" where
  "visible x y \<longleftrightarrow> x < 64 \<and> y < 48"

lemma row_bound: "n < 48 \<Longrightarrow> n div 8 \<le> (5 :: nat)"
  using div_le_mono [of n 47 8] by simp

lemma pixcol_addr:
  assumes "visible x y"
  shows "unat (get_pixcol_addr x y) = 0x230 + (unat y div 8) * 256 + unat x"
proof -
  have x: "unat x < 64" and y: "unat y < 48"
    using assms by (simp_all add: visible_def word_less_nat_alt)
  have "x AND 0x3F = x"
  proof -
    have "(0x3F :: u8) = mask 6"
      by (simp add: mask_eq_exp_minus_1)
    moreover have "take_bit 6 x = x"
      using x by (simp add: word_unat_eq_iff unsigned_take_bit_eq take_bit_nat_eq_self)
    ultimately show ?thesis
      by (metis take_bit_eq_mask)
  qed
  moreover have "unat (push_bit 8 (drop_bit 3 (ucast y :: u32))) = (unat y div 8) * 256"
  proof -
    have "unat (ucast y div 8 :: u32) = unat y div 8"
      using y by (simp add: unat_div unsigned_ucast_eq take_bit_nat_eq_self)
    then show ?thesis
      using row_bound [OF y] by (simp add: drop_bit_eq_div push_bit_eq_mult unat_word_ariths)
  qed
  moreover have "unat (ucast x :: u32) = unat x"
    using x by (simp add: unsigned_ucast_eq take_bit_nat_eq_self)
  ultimately show ?thesis
    using assms x row_bound [OF y] by (simp add: get_pixcol_addr_def visible_def unat_word_ariths)
qed

lemma pixcol_addr_bound: "visible x y \<Longrightarrow> unat (get_pixcol_addr x y) < 0x4000"
  using pixcol_addr [of x y] row_bound [of "unat y"] by (simp add: visible_def word_less_nat_alt)

lemma low_mask_14: "unat (a :: u32) < 0x4000 \<Longrightarrow> a AND 0x3FFF = a"
proof -
  assume a: "unat a < 0x4000"
  have "(0x3FFF :: u32) = mask 14"
    by (simp add: mask_eq_exp_minus_1)
  moreover have "take_bit 14 a = a"
    using a by (simp add: word_unat_eq_iff unsigned_take_bit_eq take_bit_nat_eq_self)
  ultimately show ?thesis
    by (metis take_bit_eq_mask)
qed

lemma raw_word_value:
  assumes "unat a < 0x4000"
  shows "unat (raw_word a) = 0x2930000 + 4 * unat a"
proof -
  have m: "unat (4 * a) = 4 * unat a"
    using assms by (simp add: unat_word_ariths)
  have "raw_word a = ucast (0x2930000 + 4 * a)"
    by (simp add: raw_word_def word_at_def display_def low_mask_14 [OF assms] distrib_left)
  moreover have "unat (0x2930000 + 4 * a) = 0x2930000 + 4 * unat a"
    using assms m by (simp add: unat_word_ariths)
  ultimately show ?thesis
    using assms by (simp add: unsigned_ucast_eq take_bit_nat_eq_self)
qed

text \<open>The pixel bit, and what the masking does to the bits of a word.\<close>

lemma bit_pixcol_val: "n < 8 \<Longrightarrow> bit (ucast (get_pixcol_val y) :: u8) n \<longleftrightarrow> n = unat y mod 8"
proof -
  assume n: "n < 8"
  have "(7 :: u8) = mask 3"
    by (simp add: mask_eq_exp_minus_1)
  then have "y AND 7 = take_bit 3 y"
    by (simp only: take_bit_eq_mask)
  then have "unat (y AND 7) = unat y mod 8"
    by (simp only: unsigned_take_bit_eq) (simp add: take_bit_eq_mod)
  then show ?thesis
    using n by (auto simp: get_pixcol_val_def bit_simps)
qed

lemma bit_char_int: "n < 8 \<Longrightarrow> bit (char_int sg c) n \<longleftrightarrow> bit c n"
  by (auto simp: char_int_def bit_simps)

text \<open>
  Drawing. Of the eight pixels of the word, \<open>raw_value\<close> with the bit that \<open>get_pixcol_val\<close> gives for a
  row makes the pixel of that row white or black, by the colour, and leaves the others as they were.
\<close>

lemma raw_value_bits:
  assumes "n < 8"
  shows "bit (raw_value sg (ucast (get_pixcol_val y)) color (ucast old)) n
    = (if n = unat y mod 8 then color \<noteq> 0 else bit (old :: u32) n)"
  using assms bit_pixcol_val [OF assms, of y] bit_char_int [OF assms] by (auto simp: raw_value_def bit_simps)

end
