(* ===== verification/Msi_Demo.thy ===== *)
theory Msi_Demo
  imports Msi_Display
begin

text \<open>
  The LM32 demonstration program (\<open>msidemo/main.c\<close>): printing a message-signalled interrupt, its two
  service routines, and the main loop, which moves a dot over the display.
\<close>

unbundle bit_operations_syntax

section \<open>Hexadecimal numbers\<close>

definition store_byte :: "nat \<Rightarrow> u8 \<Rightarrow> u8 list \<Rightarrow> c_fault + u8 list" where
  "store_byte i c buf = (if i < length buf then Inr (buf[i := c]) else Inl (BadIndex (int i)))"

definition hex_digit :: "u32 \<Rightarrow> nat \<Rightarrow> u8" where
  "hex_digit val i =
     (let ascii = ucast (drop_bit (4 * i) val AND 0xF) :: u8
      in if ascii > 9 then ascii - 10 + 65 else ascii + 48)"

text \<open>The loop, from digit \<open>i\<close>, \<open>n\<close> digits to go.\<close>

fun hex_loop :: "u32 \<Rightarrow> nat \<Rightarrow> nat \<Rightarrow> u8 list \<Rightarrow> c_fault + u8 list" where
  "hex_loop val i 0 buf = Inr buf"
| "hex_loop val i (Suc n) buf = ebind (store_byte (7 - i) (hex_digit val i) buf) (hex_loop val (i + 1) n)"

definition mat_sprinthex :: "u8 list \<Rightarrow> u32 \<Rightarrow> c_fault + u8 list" where
  "mat_sprinthex buf val = ebind (hex_loop val 0 8 buf) (store_byte 8 0)"

section \<open>Service routines\<close>

definition cstr :: "string \<Rightarrow> u8 list" where
  "cstr s = map of_char s @ [0]"

text \<open>A line of \<open>show_msi\<close>: the letter, the number, a line feed.\<close>

definition show_field :: "'d platform \<Rightarrow> bool \<Rightarrow> string \<Rightarrow> u32 \<Rightarrow> u8 list \<times> ('d, 'k) world \<Rightarrow> c_fault + u8 list \<times> ('d, 'k) world" where
  "show_field P sg label val = (\<lambda>(buf, w).
     ebind (mat_sprinthex buf val) (\<lambda>buf.
     ebind (disp_put_str P sg (cstr label) w) (\<lambda>w.
     ebind (disp_put_str P sg buf w) (\<lambda>w.
     Inr (buf, disp_put_c P sg 10 w)))))"

text \<open>\<open>buffer\<close> is what the stack holds when the function is entered.\<close>

definition show_msi :: "'d platform \<Rightarrow> bool \<Rightarrow> u8 list \<Rightarrow> 'f lm32 \<Rightarrow> ('d, 'k) world \<Rightarrow> c_fault + ('d, 'k) world" where
  "show_msi P sg buffer s w =
     ebind (show_field P sg ''D '' (msi_msg (global_msi s)) (buffer, w)) (\<lambda>r.
     ebind (show_field P sg ''A '' (msi_src (global_msi s)) r) (\<lambda>r.
     ebind (show_field P sg ''S '' (msi_sel (global_msi s)) r) (\<lambda>(buf, w). Inr w)))"

datatype demo_isr = Isr0 | Isr1

text \<open>\<open>isr0\<close> and \<open>isr1\<close>; the delay loop between printing and clearing the screen has no effect.\<close>

definition run_isr :: "'d platform \<Rightarrow> bool \<Rightarrow> u8 list \<Rightarrow> ('d, demo_isr) isr_run" where
  "run_isr P sg buffer f s w =
     ebind (disp_put_str P sg (cstr (case f of Isr0 \<Rightarrow> ''ISR0\<newline>'' | Isr1 \<Rightarrow> ''ISR1\<newline>'')) w) (\<lambda>w.
     ebind (show_msi P sg buffer s w) (\<lambda>w. Inr (s, disp_put_c P sg 12 w)))"

definition irq_slave :: u32 where "irq_slave = 0x02000d00"

definition irq_entry :: "'d platform \<Rightarrow> 'd irq_unit \<Rightarrow> bool \<Rightarrow> u8 list \<Rightarrow> demo_isr lm32 \<Rightarrow> ('d, demo_isr) msi_world \<Rightarrow>
    c_fault + demo_isr lm32 \<times> ('d, demo_isr) msi_world" where
  "irq_entry P U sg buffer s w =
     ebind (disp_put_str P sg (cstr ''IRQ_ENTRY\<newline>'') (disp_put_c P sg 12 w)) (\<lambda>w.
     irq_process P U irq_slave (run_isr P sg buffer) s w)"

section \<open>The main program\<close>

record ball =
  ball_x :: int
  ball_y :: int
  xinc :: int
  yinc :: int
  ball_time :: u32
  ball_color :: u8

definition mytext :: string where "mytext = ''Hallo Welt!...\<newline>\<newline>''"

definition main_setup :: "u32 \<Rightarrow> demo_isr lm32 \<Rightarrow> demo_isr lm32" where
  "main_setup r s =
     (let s = isr_table_clr s;
          s = s\<lparr>isr_ptr_table := (isr_ptr_table s)[0 := Some Isr0]\<rparr>;
          s = s\<lparr>isr_ptr_table := (isr_ptr_table s)[1 := Some Isr1]\<rparr>;
          s = irq_set_mask r 0x03 s
      in irq_enable s)"

definition main_greet :: "'d platform \<Rightarrow> bool \<Rightarrow> ('d, 'k) world \<Rightarrow> c_fault + ('d, 'k) world" where
  "main_greet P sg w = disp_put_str P sg (cstr mytext) (disp_put_c P sg 12 (disp_reset P w))"

definition main_start :: ball where
  "main_start = \<lparr>ball_x = 0, ball_y = 9, xinc = 1, yinc = -1, ball_time = 0, ball_color = 0xFF\<rparr>"

text \<open>One round of the loop: draw, bounce, move, and now and then change the colour.\<close>

definition main_draw :: "'d platform \<Rightarrow> bool \<Rightarrow> ball \<Rightarrow> ('d, 'k) world \<Rightarrow> ('d, 'k) world" where
  "main_draw P sg b w = disp_put_raw P sg (ucast (get_pixcol_val (word_of_int (ball_y b))))
     (get_pixcol_addr (word_of_int (ball_x b)) (word_of_int (ball_y b))) (ball_color b) w"

definition main_move :: "ball \<Rightarrow> ball" where
  "main_move b =
     (let b = (if ball_x b = 63 then b\<lparr>xinc := -1\<rparr> else b);
          b = (if ball_x b = 0 then b\<lparr>xinc := 1\<rparr> else b);
          b = (if ball_y b = 47 then b\<lparr>yinc := -1\<rparr> else b);
          b = (if ball_y b = 0 then b\<lparr>yinc := 1\<rparr> else b);
          b = b\<lparr>ball_x := ball_x b + xinc b, ball_y := ball_y b + yinc b\<rparr>;
          old = ball_time b;
          b = b\<lparr>ball_time := old + 1\<rparr>
      in if old > 500 then b\<lparr>ball_time := 0, ball_color := NOT (ball_color b)\<rparr> else b)"

fun main_loop :: "'d platform \<Rightarrow> bool \<Rightarrow> nat \<Rightarrow> ball \<Rightarrow> ('d, 'k) world \<Rightarrow> ball \<times> ('d, 'k) world" where
  "main_loop P sg 0 b w = (b, w)"
| "main_loop P sg (Suc n) b w = main_loop P sg n (main_move b) (main_draw P sg b w)"

section \<open>The dot\<close>

definition ball_inv :: "ball \<Rightarrow> bool" where
  "ball_inv b \<longleftrightarrow> 0 \<le> ball_x b \<and> ball_x b \<le> 63 \<and> 0 \<le> ball_y b \<and> ball_y b \<le> 47
     \<and> xinc b \<in> {-1, 1} \<and> yinc b \<in> {-1, 1} \<and> ball_time b \<le> 501 \<and> ball_color b \<in> {0, 0xFF}"

lemma ball_inv_move: "ball_inv b \<Longrightarrow> ball_inv (main_move b)"
proof -
  assume b: "ball_inv b"
  have t: "ball_time b + 1 \<le> 501" if "\<not> 500 < ball_time b"
    using that by unat_arith
  show ?thesis
    using b t by (auto simp: ball_inv_def main_move_def Let_def)
qed

fun ball_path :: "ball \<Rightarrow> nat \<Rightarrow> ball list" where
  "ball_path b 0 = []"
| "ball_path b (Suc n) = b # ball_path (main_move b) n"

lemma ball_visible:
  assumes "ball_inv b"
  shows "visible (word_of_int (ball_x b)) (word_of_int (ball_y b))"
proof -
  have "uint (word_of_int (ball_x b) :: u8) = ball_x b" "uint (word_of_int (ball_y b) :: u8) = ball_y b"
    using assms by (simp_all add: ball_inv_def unsigned_of_int take_bit_int_eq_self)
  then show ?thesis
    using assms by (simp add: visible_def ball_inv_def word_less_def)
qed

section \<open>Reading a number back\<close>

definition unhex :: "u8 \<Rightarrow> u32" where
  "unhex c = (if 65 \<le> c then ucast c - 55 else ucast c - 48)"

definition parse_hex :: "u8 list \<Rightarrow> u32" where
  "parse_hex cs = foldl (\<lambda>a c. push_bit 4 a OR unhex c) 0 cs"

lemma less_16_cases: "(k :: nat) < 16 \<longleftrightarrow> k < 8 \<or> k = 8 \<or> k = 9 \<or> k = 10 \<or> k = 11 \<or> k = 12 \<or> k = 13 \<or> k = 14 \<or> k = 15"
  by auto

lemma hex_digit_unhex: "unhex (hex_digit val i) = take_bit 4 (drop_bit (4 * i) val)" "hex_digit val i \<noteq> 0"
proof -
  define k where "k = unat (take_bit 4 (drop_bit (4 * i) val))"
  have "k < 16"
    using take_bit_nat_less_exp [of 4 "unat (drop_bit (4 * i) val)"] by (simp add: k_def unsigned_take_bit_eq)
  have "(0xF :: u32) = mask 4"
    by (simp add: mask_eq_exp_minus_1)
  then have "drop_bit (4 * i) val AND 0xF = take_bit 4 (drop_bit (4 * i) val)"
    by (simp only: take_bit_eq_mask)
  then have n: "drop_bit (4 * i) val AND 0xF = of_nat k" "take_bit 4 (drop_bit (4 * i) val) = of_nat k"
    by (simp_all add: k_def)
  show "unhex (hex_digit val i) = take_bit 4 (drop_bit (4 * i) val)" "hex_digit val i \<noteq> 0"
    unfolding hex_digit_def n using \<open>k < 16\<close>
    by (auto simp: less_16_cases less_8_cases unhex_def Let_def)
qed

lemma nibble_step: "push_bit 4 (drop_bit (4 + k) val) OR take_bit 4 (drop_bit k val) = drop_bit k (val :: u32)"
proof (rule bit_word_eqI)
  fix n
  assume "n < LENGTH(32)"
  then show "bit (push_bit 4 (drop_bit (4 + k) val) OR take_bit 4 (drop_bit k val)) n = bit (drop_bit k val) n"
    by (cases "n < 4") (auto simp: bit_simps add.commute add.left_commute)
qed

definition hex_digits :: "u32 \<Rightarrow> u8 list" where
  "hex_digits val = map (hex_digit val) [7, 6, 5, 4, 3, 2, 1, 0]"

lemma parse_hex_digits: "parse_hex (hex_digits val) = val"
proof -
  have top: "take_bit 4 (drop_bit 28 val) = drop_bit 28 val"
    by (rule bit_word_eqI) (auto simp: bit_simps dest: bit_imp_le_length)
  note step = nibble_step [of 24 val] nibble_step [of 20 val] nibble_step [of 16 val] nibble_step [of 12 val]
    nibble_step [of 8 val] nibble_step [of 4 val] nibble_step [of 0 val]
  show ?thesis
    using step by (simp add: parse_hex_def hex_digits_def hex_digit_unhex top)
qed

lemma sprinthex:
  assumes "9 \<le> length buf"
  shows "mat_sprinthex buf val = Inr (hex_digits val @ 0 # drop 9 buf)"
proof -
  let ?d = "hex_digit val"
  have ne: "buf \<noteq> []"
    using assms by auto
  have "mat_sprinthex buf val = Inr (buf[7 := ?d 0, 6 := ?d 1, 5 := ?d 2, 4 := ?d 3, 3 := ?d 4, 2 := ?d 5, 1 := ?d 6, 0 := ?d 7, 8 := 0])"
    using assms ne by (simp add: mat_sprinthex_def store_byte_def eval_nat_numeral)
  also have "buf[7 := ?d 0, 6 := ?d 1, 5 := ?d 2, 4 := ?d 3, 3 := ?d 4, 2 := ?d 5, 1 := ?d 6, 0 := ?d 7, 8 := 0]
      = hex_digits val @ 0 # drop 9 buf"
    using assms by (intro nth_equalityI) (auto simp: hex_digits_def nth_append nth_Cons' nth_list_update)
  finally show ?thesis .
qed

section \<open>Printing\<close>

text \<open>
  What printing may do: select the mode of the character port, and write to the port. Selecting any
  other mode, reading, or writing anywhere else is no part of it.
\<close>

abbreviation mode_reg :: addr where "mode_reg \<equiv> word_at display 0"
abbreviation char_reg :: addr where "char_reg \<equiv> word_at display 0x4000"

fun screen_event :: "'k event \<Rightarrow> bool" where
  "screen_event (EvRead c a v) = False"
| "screen_event (EvWrite c a v) = (a = mode_reg \<and> v = MODE_UART \<or> a = char_reg)"
| "screen_event (EvCall q) = True"

text \<open>
  A piece of code that does nothing but print \<open>cs\<close>. Of the devices it may change what is behind the
  display; \<open>view\<close> is the part of them that it leaves alone.
\<close>

definition prints :: "('d \<Rightarrow> 'v) \<Rightarrow> bool \<Rightarrow> u8 list \<Rightarrow> ('d, 'k) world \<Rightarrow> ('d, 'k) world \<Rightarrow> bool" where
  "prints view sg cs w w' \<longleftrightarrow> view (dev w') = view (dev w) \<and> (\<exists>es. trace w' = trace w @ es
     \<and> (\<forall>e \<in> set es. screen_event e) \<and> written_at char_reg es = map (char_int sg) cs)"

lemma prints_refl: "prints view sg [] w w"
  by (auto simp: prints_def)

lemma prints_trans:
  assumes "prints view sg cs w w'" "prints view sg ds w' w''"
  shows "prints view sg (cs @ ds) w w''"
proof -
  obtain es fs where "trace w' = trace w @ es" "\<forall>e \<in> set es. screen_event e" "written_at char_reg es = map (char_int sg) cs"
    "trace w'' = trace w' @ fs" "\<forall>e \<in> set fs. screen_event e" "written_at char_reg fs = map (char_int sg) ds"
    using assms unfolding prints_def by blast
  then show ?thesis
    using assms by (auto simp: prints_def intro!: exI [of _ "es @ fs"])
qed

lemma prints_kcall: "prints view sg [] w (kcall f w)"
  by (auto simp: prints_def kcall_def)

lemma port_apart: "mode_reg \<noteq> char_reg" "char_reg \<noteq> mode_reg"
  by (simp_all add: word_at_def display_def)

text \<open>A line of \<open>show_msi\<close>, a message, the output of a service routine.\<close>

definition field_text :: "string \<Rightarrow> u32 \<Rightarrow> u8 list" where
  "field_text label val = map of_char label @ hex_digits val @ [10]"

definition msi_text :: "msi \<Rightarrow> u8 list" where
  "msi_text m = field_text ''D '' (msi_msg m) @ field_text ''A '' (msi_src m) @ field_text ''S '' (msi_sel m)"

definition isr_text :: "demo_isr \<Rightarrow> msi \<Rightarrow> u8 list" where
  "isr_text f m = map of_char (case f of Isr0 \<Rightarrow> ''ISR0\<newline>'' | Isr1 \<Rightarrow> ''ISR1\<newline>'') @ msi_text m @ [12]"

section \<open>An interrupt\<close>

definition demo_table :: "demo_isr option list" where
  "demo_table = Some Isr0 # Some Isr1 # replicate 30 None"

lemma main_setup_table: "isr_ptr_table (main_setup r s) = demo_table"
  by (simp add: main_setup_def irq_enable_def irq_set_mask_def isr_table_clr_def demo_table_def eval_nat_numeral)

lemma table_entry: "k < 32 \<Longrightarrow> demo_table ! k = (if k = 0 then Some Isr0 else if k = 1 then Some Isr1 else None)"
  by (auto simp: demo_table_def nth_Cons split: nat.splits)

text \<open>The accesses by which a line is served, up to the call of its routine, and what that prints.\<close>

definition line_access :: "'d platform \<Rightarrow> 'd irq_unit \<Rightarrow> nat \<Rightarrow> ('d, 'k) world \<Rightarrow> msi \<times> ('d, 'k) world" where
  "line_access P U i w =
     (let page = irq_slave + 16 * (of_nat i + 1);
          (m, w) = ioread P IO32 (ucast page) w;
          (a, w) = ioread P IO32 (ucast (page + 4)) w;
          (x, w) = ioread P IO32 (ucast (page + 8)) w;
          w = iowrite P IO32 (push_bit i 1) (ucast (irq_slave + 8)) w
      in (\<lparr>msi_msg = m, msi_src = a, msi_sel = x\<rparr>,
          w\<lparr>dev := wcsr_ip U (if bit (rcsr_ip U (dev w)) i then push_bit i 1 else 0) (dev w)\<rparr>))"

definition line_text :: "nat \<Rightarrow> msi \<Rightarrow> u8 list" where
  "line_text k m = (if k = 0 then isr_text Isr0 m else if k = 1 then isr_text Isr1 m else [])"

lemma line_served:
  assumes "isr_ptr_table s = demo_table" "k < 32" "line_access P U k w = (m, w1)"
  shows "serve_line P U irq_slave run k (Inr (s, w)) = (case demo_table ! k of
      None \<Rightarrow> Inr (s\<lparr>global_msi := m\<rparr>, w1) | Some f \<Rightarrow> run f (s\<lparr>global_msi := m\<rparr>) (kcall f w1))"
proof -
  have "length demo_table = 32"
    by (simp add: demo_table_def)
  then show ?thesis
    using assms by (auto simp: serve_line_def line_access_def Let_def split: prod.splits)
qed

text \<open>
  The interface of the display: what its two registers are written does not reach the part of the
  devices that \<open>view\<close> shows.
\<close>

locale char_port =
  fixes P :: "'d platform" and view :: "'d \<Rightarrow> 'v"
  assumes mode_keeps: "view (p_write P IO32 mode_reg v d) = view d"
    and port_keeps: "view (p_write P IO32 char_reg v d) = view d"
begin

lemma port_mode: "prints view sg [] w (set_mode P MODE_UART w)"
  using mode_keeps port_apart by (auto simp: prints_def set_mode_def store_word_def iowrite_def)

lemma port_uart: "prints view sg [c] w (put_uart P sg c w)"
  using port_keeps port_apart by (auto simp: prints_def put_uart_def store_word_def iowrite_def)

lemma port_c: "prints view sg [c] w (disp_put_c P sg c w)"
  using prints_trans [OF port_mode port_uart] by (simp add: disp_put_c_def)

lemma port_chars: "0 \<notin> set cs \<Longrightarrow> \<exists>w'. put_chars P sg (cs @ 0 # rest) w = Inr w' \<and> prints view sg cs w w'"
proof (induction cs arbitrary: w)
  case Nil
  then show ?case
    by (simp add: prints_refl)
next
  case (Cons c cs)
  then obtain w' where w': "put_chars P sg (cs @ 0 # rest) (put_uart P sg c w) = Inr w'" "prints view sg cs (put_uart P sg c w) w'"
    by auto
  then show ?case
    using Cons.prems prints_trans [OF port_uart w'(2)] by auto
qed

lemma port_str:
  assumes "0 \<notin> set cs"
  shows "\<exists>w'. disp_put_str P sg (cs @ 0 # rest) w = Inr w' \<and> prints view sg cs w w'"
proof -
  obtain w' where w': "put_chars P sg (cs @ 0 # rest) (set_mode P MODE_UART w) = Inr w'"
    "prints view sg cs (set_mode P MODE_UART w) w'"
    using port_chars [OF assms] by blast
  show ?thesis
    using prints_trans [OF port_mode w'(2)] w'(1) by (simp add: disp_put_str_def)
qed

lemma port_cstr:
  assumes "0 \<notin> set (map of_char label :: u8 list)"
  shows "\<exists>w'. disp_put_str P sg (cstr label) w = Inr w' \<and> prints view sg (map of_char label) w w'"
  using port_str [OF assms, of sg "[]" w] by (simp add: cstr_def)

lemma port_field:
  assumes "9 \<le> length buf" "0 \<notin> set (map of_char label :: u8 list)"
  shows "\<exists>buf' w'. show_field P sg label val (buf, w) = Inr (buf', w') \<and> length buf' = length buf
    \<and> prints view sg (field_text label val) w w'"
proof -
  have nz: "0 \<notin> set (hex_digits val)"
    using hex_digit_unhex(2) [of val] by (auto simp: hex_digits_def)
  obtain w1 where w1: "disp_put_str P sg (cstr label) w = Inr w1" "prints view sg (map of_char label) w w1"
    using port_cstr [OF assms(2)] by blast
  obtain w2 where w2: "disp_put_str P sg (hex_digits val @ 0 # drop 9 buf) w1 = Inr w2" "prints view sg (hex_digits val) w1 w2"
    using port_str [OF nz] by blast
  have "prints view sg (field_text label val) w (disp_put_c P sg 10 w2)"
    using prints_trans [OF w1(2) prints_trans [OF w2(2) port_c [of sg 10 w2]]] by (simp add: field_text_def)
  then show ?thesis
    using w1(1) w2(1) assms(1) by (simp add: show_field_def sprinthex) (simp add: hex_digits_def)
qed

lemma port_msi:
  assumes "9 \<le> length buffer"
  shows "\<exists>w'. show_msi P sg buffer s w = Inr w' \<and> prints view sg (msi_text (global_msi s)) w w'"
proof -
  let ?m = "global_msi s"
  have z: "0 \<notin> set (map of_char ''D '' :: u8 list)" "0 \<notin> set (map of_char ''A '' :: u8 list)"
    "0 \<notin> set (map of_char ''S '' :: u8 list)"
    by simp_all
  obtain b1 w1 where 1: "show_field P sg ''D '' (msi_msg ?m) (buffer, w) = Inr (b1, w1)" "length b1 = length buffer"
    "prints view sg (field_text ''D '' (msi_msg ?m)) w w1"
    using port_field [OF assms z(1)] by blast
  obtain b2 w2 where 2: "show_field P sg ''A '' (msi_src ?m) (b1, w1) = Inr (b2, w2)" "length b2 = length buffer"
    "prints view sg (field_text ''A '' (msi_src ?m)) w1 w2"
    using port_field [OF _ z(2), of b1] 1(2) assms by metis
  obtain b3 w3 where 3: "show_field P sg ''S '' (msi_sel ?m) (b2, w2) = Inr (b3, w3)"
    "prints view sg (field_text ''S '' (msi_sel ?m)) w2 w3"
    using port_field [OF _ z(3), of b2] 2(2) assms by metis
  show ?thesis
    using 1(1) 2(1) 3(1) prints_trans [OF 1(3) prints_trans [OF 2(3) 3(2)]] by (simp add: show_msi_def msi_text_def)
qed

lemma port_isr:
  assumes "9 \<le> length buffer"
  shows "\<exists>w'. run_isr P sg buffer f s w = Inr (s, w') \<and> prints view sg (isr_text f (global_msi s)) w w'"
proof -
  let ?name = "case f of Isr0 \<Rightarrow> ''ISR0\<newline>'' | Isr1 \<Rightarrow> ''ISR1\<newline>''"
  have "0 \<notin> set (map of_char ?name :: u8 list)"
    by (cases f) simp_all
  then obtain w1 where 1: "disp_put_str P sg (cstr ?name) w = Inr w1" "prints view sg (map of_char ?name) w w1"
    using port_cstr by blast
  obtain w2 where 2: "show_msi P sg buffer s w1 = Inr w2" "prints view sg (msi_text (global_msi s)) w1 w2"
    using port_msi [OF assms] by blast
  have "prints view sg (isr_text f (global_msi s)) w (disp_put_c P sg 12 w2)"
    using prints_trans [OF 1(2) prints_trans [OF 2(2) port_c [of sg 12 w2]]] by (simp add: isr_text_def)
  then show ?thesis
    using 1(1) 2(1) by (simp add: run_isr_def)
qed

lemma port_serve:
  assumes "9 \<le> length buffer" "isr_ptr_table s = demo_table" "k < 32" "line_access P U k w = (m, w1)"
  shows "\<exists>w'. serve_line P U irq_slave (run_isr P sg buffer) k (Inr (s, w)) = Inr (s\<lparr>global_msi := m\<rparr>, w')
    \<and> prints view sg (line_text k m) w1 w'"
proof (cases "demo_table ! k")
  case None
  then have "line_text k m = []"
    using table_entry [OF assms(3)] by (auto simp: line_text_def split: if_splits)
  then show ?thesis
    using line_served [OF assms(2-4)] None by (simp add: prints_refl)
next
  case (Some f)
  let ?s = "s\<lparr>global_msi := m\<rparr>"
  obtain w2 where r: "run_isr P sg buffer f ?s (kcall f w1) = Inr (?s, w2)" "prints view sg (isr_text f m) (kcall f w1) w2"
    using port_isr [OF assms(1), of sg f ?s "kcall f w1"] by auto
  have "line_text k m = isr_text f m"
    using Some table_entry [OF assms(3)] by (auto simp: line_text_def split: if_splits)
  then show ?thesis
    using line_served [OF assms(2-4)] Some r prints_trans [OF prints_kcall r(2)] by auto
qed

lemma port_greeting:
  "\<exists>w'. disp_put_str P sg (cstr ''IRQ_ENTRY\<newline>'') (disp_put_c P sg 12 w) = Inr w'
    \<and> prints view sg (12 # map of_char ''IRQ_ENTRY\<newline>'') w w'"
proof -
  have "0 \<notin> set (map of_char ''IRQ_ENTRY\<newline>'' :: u8 list)"
    by simp
  then obtain w' where w': "disp_put_str P sg (cstr ''IRQ_ENTRY\<newline>'') (disp_put_c P sg 12 w) = Inr w'"
    "prints view sg (map of_char ''IRQ_ENTRY\<newline>'') (disp_put_c P sg 12 w) w'"
    using port_cstr by blast
  then show ?thesis
    using prints_trans [OF port_c w'(2)] by auto
qed

end

text \<open>On any platform the display is a character port, if nothing is asked to stay as it is.\<close>

interpretation any_port: char_port P "\<lambda>_. ()" for P
  by unfold_locales simp_all


section \<open>What interrupt code may access\<close>

text \<open>
  The words of the 32 lines, the register that pops, the mode register, for the mode of the character
  port only, and the port.
\<close>

fun entry_event :: "'k event \<Rightarrow> bool" where
  "entry_event (EvRead c a v) = (0x02000d00 \<le> a \<and> a < 0x02000f10)"
| "entry_event (EvWrite c a v) = (a = mode_reg \<and> v = MODE_UART \<or> a = char_reg \<or> a = 0x02000d08)"
| "entry_event (EvCall q) = True"

lemma screen_entry: "screen_event e \<Longrightarrow> entry_event e"
  by (cases e) auto

definition handles :: "('d, 'k) world \<Rightarrow> ('d, 'k) world \<Rightarrow> bool" where
  "handles w w' \<longleftrightarrow> (\<exists>es. trace w' = trace w @ es \<and> (\<forall>e \<in> set es. entry_event e))"

lemma handles_trans: "handles w w' \<Longrightarrow> handles w' w'' \<Longrightarrow> handles w w''"
  unfolding handles_def by (metis append_assoc set_append Un_iff)

lemma prints_handles: "prints view sg cs w w' \<Longrightarrow> handles w w'"
  unfolding prints_def handles_def using screen_entry by blast

lemma line_word_range:
  assumes "k < 32" "j < 3"
  shows "(0x02000d00 :: addr) \<le> ucast (irq_slave + 16 * (of_nat k + 1) + 4 * of_nat j)"
    "ucast (irq_slave + 16 * (of_nat k + 1) + 4 * of_nat j) < (0x02000f10 :: addr)"
proof -
  have j: "unat (of_nat j :: u32) = j"
    using assms(2) by (simp add: unsigned_of_nat take_bit_nat_eq_self)
  have "unat (of_nat k :: u32) = k"
    using assms(1) by (simp add: unsigned_of_nat take_bit_nat_eq_self)
  then have "unat (of_nat k + 1 :: u32) = k + 1"
    using assms(1) by (simp add: unat_word_ariths)
  then have "unat (16 * (of_nat k + 1 :: u32)) = 16 * (k + 1)"
    using assms(1) by (simp only: unat_word_ariths) simp
  then obtain x :: u32 where x: "16 * (of_nat k + 1) = x" "unat x = 16 * (k + 1)"
    by blast
  have "unat (irq_slave + x + 4 * of_nat j) = 0x02000d00 + 16 * (k + 1) + 4 * j"
    using assms j x(2) by (simp add: irq_slave_def unat_word_ariths)
  then have "unat (irq_slave + 16 * (of_nat k + 1) + 4 * of_nat j) = 0x02000d00 + 16 * (k + 1) + 4 * j"
    by (simp only: x(1))
  then have "unat (ucast (irq_slave + 16 * (of_nat k + 1) + 4 * of_nat j) :: addr) = 0x02000d00 + 16 * (k + 1) + 4 * j"
    using assms by (simp add: unsigned_ucast_eq take_bit_nat_eq_self)
  then show "(0x02000d00 :: addr) \<le> ucast (irq_slave + 16 * (of_nat k + 1) + 4 * of_nat j)"
    "ucast (irq_slave + 16 * (of_nat k + 1) + 4 * of_nat j) < (0x02000f10 :: addr)"
    using assms by (simp_all add: word_le_nat_alt word_less_nat_alt)
qed

lemma access_handles:
  assumes "line_access P U k w = (m, w1)" "k < 32"
  shows "handles w w1"
proof -
  have "(ucast (irq_slave + 8) :: addr) = 0x02000d08"
    by (simp add: irq_slave_def)
  then show ?thesis
    using assms(1) line_word_range [OF assms(2), of 0] line_word_range [OF assms(2), of 1] line_word_range [OF assms(2), of 2]
    by (auto simp: line_access_def handles_def ioread_def iowrite_def Let_def split: prod.splits)
qed

lemma serve_all_handles:
  assumes "9 \<le> length buffer" "isr_ptr_table s = demo_table" "\<forall>k \<in> set ks. k < 32"
  shows "\<exists>s' w'. fold (serve_line P U irq_slave (run_isr P sg buffer)) ks (Inr (s, w)) = Inr (s', w')
    \<and> handles w w' \<and> isr_ptr_table s' = demo_table \<and> csr_ie s' = csr_ie s \<and> csr_im s' = csr_im s"
  using assms(2,3)
proof (induction ks arbitrary: s w)
  case Nil
  then show ?case
    by (simp add: handles_def)
next
  case (Cons k ks)
  obtain m w1 where a: "line_access P U k w = (m, w1)"
    by fastforce
  then obtain w2 where 2: "serve_line P U irq_slave (run_isr P sg buffer) k (Inr (s, w)) = Inr (s\<lparr>global_msi := m\<rparr>, w2)"
    "prints (\<lambda>_. ()) sg (line_text k m) w1 w2"
    using any_port.port_serve [OF assms(1) Cons.prems(1) _ a] Cons.prems(2) by auto
  have "handles w w2"
    using handles_trans [OF access_handles [OF a] prints_handles [OF 2(2)]] Cons.prems(2) by simp
  then show ?case
    using Cons.IH [of "s\<lparr>global_msi := m\<rparr>" w2] Cons.prems 2(1) handles_trans by fastforce
qed

text \<open>On any platform, and whatever is pending, an interrupt is served without a fault.\<close>

lemma irq_entry_handles:
  assumes "9 \<le> length buffer" "isr_ptr_table s = demo_table"
  shows "\<exists>s' w'. irq_entry P U sg buffer s w = Inr (s', w') \<and> handles (set_mode P MODE_UART w) w'
    \<and> isr_ptr_table s' = demo_table \<and> csr_ie s' = csr_ie s \<and> csr_im s' = csr_im s"
proof -
  have "0 \<notin> set (map of_char ''IRQ_ENTRY\<newline>'' :: u8 list)"
    by simp
  then obtain w1 where 1: "disp_put_str P sg (cstr ''IRQ_ENTRY\<newline>'') (disp_put_c P sg 12 w) = Inr w1"
    "prints (\<lambda>_. ()) sg (map of_char ''IRQ_ENTRY\<newline>'') (disp_put_c P sg 12 w) w1"
    using any_port.port_cstr by blast
  have h: "handles (set_mode P MODE_UART w) w1"
    using handles_trans [OF prints_handles [OF any_port.port_uart] prints_handles [OF 1(2) [unfolded disp_put_c_def]]] .
  let ?ks = "line_set (rcsr_ip U (dev w1))"
  have ks: "\<forall>k \<in> set ?ks. k < 32"
    by (simp add: line_set_def)
  obtain s2 w2 where "fold (serve_line P U irq_slave (run_isr P sg buffer)) ?ks (Inr (s, w1)) = Inr (s2, w2)"
    "handles w1 w2" "isr_ptr_table s2 = demo_table" "csr_ie s2 = csr_ie s" "csr_im s2 = csr_im s"
    using serve_all_handles [OF assms ks] by blast
  then show ?thesis
    using 1(1) h handles_trans by (fastforce simp: irq_entry_def dispatch_fold)
qed

end
