(* ===== verification/Msi_Core.thy ===== *)
theory Msi_Core
  imports Msi_Demo
begin

text \<open>
  The hardware the demonstration runs on, from its description: the queues of message-signalled
  interrupts (\<open>wb_irq_slave.vhd\<close>) and the pending register of the processor (\<open>lm32_interrupt.v\<close>), with
  any device at all as the display. On it, what an interrupt prints and what it leaves pending.
\<close>

unbundle bit_operations_syntax

section \<open>State\<close>

text \<open>
  Each queue of messages, oldest first; what the output of an empty queue shows, which nothing fixes;
  the enable register; the depth of the queues; the writes to the pop register that are on their way;
  and \<open>IP\<close>. A store of the LM32 does not wait for the bus (\<open>stall_m\<close> of \<open>lm32_cpu.v\<close>), so whether a pop
  reaches the core before the write to \<open>IP\<close> that follows it, or only after, is not the program's
  doing: \<open>m_late\<close> says for which queues it is after. \<open>m_disp\<close> is the display.
\<close>

record 'x msi_hw =
  m_queues :: "msi list list"
  m_stale :: "nat \<Rightarrow> msi"
  m_ena :: u32
  m_depth :: nat
  m_popping :: u32
  m_late :: u32
  m_ip :: u32
  m_disp :: 'x

section \<open>The queues\<close>

text \<open>The interrupt lines \<open>irq_o\<close>, which are the status register too: the queues that hold a message.\<close>

definition msi_lines :: "'x msi_hw \<Rightarrow> u32" where
  "msi_lines h = horner_sum of_bool 2 (map (\<lambda>q. q \<noteq> []) (m_queues h))"

definition pop_queues :: "u32 \<Rightarrow> msi list list \<Rightarrow> msi list list" where
  "pop_queues v qs = map (\<lambda>i. if bit v i then tl (qs ! i) else qs ! i) [0..<length qs]"

definition clear_queues :: "u32 \<Rightarrow> msi list list \<Rightarrow> msi list list" where
  "clear_queues v qs = map (\<lambda>i. if bit v i then [] else qs ! i) [0..<length qs]"

definition queue_out :: "'x msi_hw \<Rightarrow> nat \<Rightarrow> msi" where
  "queue_out h i = (if i < length (m_queues h) \<and> m_queues h ! i \<noteq> [] then hd (m_queues h ! i) else m_stale h i)"

text \<open>
  A read of the control port, by the low eight bits of the address. Where the core answers with an
  error the data are 0. The words of queue \<open>i\<close> are at \<open>16 * (i + 1)\<close>, but the addresses below 32
  are those of the registers.
\<close>

definition core_read :: "addr \<Rightarrow> 'x msi_hw \<Rightarrow> u32" where
  "core_read a h =
     (let adr = unat (a AND 0xFC); n = length (m_queues h)
      in if adr < 32 then
           (if adr = 4 then msi_lines h else if adr = 16 then take_bit n (m_ena h) else 0)
         else if adr < 32 + 16 * n then
           (let m = queue_out h (adr div 16 - 1)
            in if adr mod 16 = 0 then msi_msg m else if adr mod 16 = 4 then msi_src m
               else if adr mod 16 = 8 then msi_sel m else 0)
         else 0)"

definition core_write :: "addr \<Rightarrow> u32 \<Rightarrow> 'x msi_hw \<Rightarrow> 'x msi_hw" where
  "core_write a v h =
     (let adr = unat (a AND 0xFC)
      in if adr = 0 then h\<lparr>m_queues := map (\<lambda>_. []) (m_queues h), m_ena := NOT 0\<rparr>
         else if adr = 8 then h\<lparr>m_queues := pop_queues (v AND NOT (m_late h)) (m_queues h), m_popping := v AND m_late h\<rparr>
         else if adr = 12 then h\<lparr>m_queues := clear_queues v (m_queues h)\<rparr>
         else if adr = 20 then h\<lparr>m_ena := m_ena h OR v\<rparr>
         else if adr = 24 then h\<lparr>m_ena := m_ena h AND NOT v\<rparr>
         else h)"

section \<open>The pending register\<close>

text \<open>
  One edge of the clock: \<open>IP\<close> takes up what the lines raise, less the bits written to it. It does so
  at every edge, so between two instructions \<open>clock\<close> happens at least once, and pops arrive.
\<close>

definition ip_next :: "u32 \<Rightarrow> u32 option \<Rightarrow> u32 \<Rightarrow> u32" where
  "ip_next raised written ip = (case written of None \<Rightarrow> ip OR raised | Some v \<Rightarrow> (ip OR raised) AND NOT v)"

definition clock :: "'x msi_hw \<Rightarrow> 'x msi_hw" where
  "clock h = h\<lparr>m_ip := ip_next (msi_lines h) None (m_ip h), m_queues := pop_queues (m_popping h) (m_queues h), m_popping := 0\<rparr>"

definition lm32_unit :: "'x msi_hw irq_unit" where
  "lm32_unit = \<lparr>rcsr_ip = (\<lambda>h. ip_next (msi_lines h) None (m_ip h)),
     wcsr_ip = (\<lambda>v h. clock (h\<lparr>m_ip := ip_next (msi_lines h) (Some v) (m_ip h)\<rparr>))\<rparr>"

section \<open>The platform\<close>

text \<open>The control port of the queues at \<open>irq_slave\<close>, and the display for everything else.\<close>

definition in_core :: "addr \<Rightarrow> bool" where
  "in_core a \<longleftrightarrow> 0x02000d00 \<le> a \<and> a < 0x02000e00"

definition msi_at :: "'x platform \<Rightarrow> 'x msi_hw platform" where
  "msi_at D = \<lparr>p_read = (\<lambda>c a h. let h = clock h in if in_core a then (core_read a h, h)
       else (let (v, x) = p_read D c a (m_disp h) in (v, h\<lparr>m_disp := x\<rparr>))),
     p_write = (\<lambda>c a v h. let h = clock h in if in_core a then core_write a v h
       else h\<lparr>m_disp := p_write D c a v (m_disp h)\<rparr>),
     p_jiffies = (\<lambda>h. let (t, x) = p_jiffies D (m_disp h) in (t, h\<lparr>m_disp := x\<rparr>)),
     p_msecs = p_msecs D\<rparr>"

text \<open>
  A message arrives: it is taken if the queue is enabled and not full (a sender of a full one waits).
  Of the byte selects there are four.
\<close>

definition msi_push :: "nat \<Rightarrow> msi \<Rightarrow> 'x msi_hw \<Rightarrow> 'x msi_hw" where
  "msi_push i m h =
     (let h = clock h
      in if i < length (m_queues h) \<and> bit (m_ena h) i \<and> length (m_queues h ! i) < m_depth h
         then h\<lparr>m_queues := (m_queues h)[i := m_queues h ! i @ [m\<lparr>msi_sel := take_bit 4 (msi_sel m)\<rparr>]]\<rparr> else h)"

section \<open>What the display leaves alone\<close>

definition core_view :: "'x msi_hw \<Rightarrow> msi list list \<times> (nat \<Rightarrow> msi) \<times> u32 \<times> nat \<times> u32 \<times> u32" where
  "core_view h = (pop_queues (m_popping h) (m_queues h), m_stale h, m_ena h, m_depth h, m_late h, rcsr_ip lm32_unit h)"

lemma bit_lines: "bit (msi_lines h) i \<longleftrightarrow> i < 32 \<and> i < length (m_queues h) \<and> m_queues h ! i \<noteq> []"
  by (auto simp: msi_lines_def bit_horner_sum_bit_iff)

lemma length_pop [simp]: "length (pop_queues v qs) = length qs"
  by (simp add: pop_queues_def)

lemma pop_0 [simp]: "pop_queues 0 qs = qs"
  by (simp add: pop_queues_def map_nth)

lemma pop_nth: "i < length qs \<Longrightarrow> pop_queues v qs ! i = (if bit v i then tl (qs ! i) else qs ! i)"
  by (simp add: pop_queues_def)

lemma lines_pop: "bit (msi_lines (h\<lparr>m_queues := pop_queues v (m_queues h)\<rparr>)) i \<Longrightarrow> bit (msi_lines h) i"
  by (auto simp: bit_lines pop_nth split: if_splits)

lemma clock_fields [simp]:
  "m_popping (clock h) = 0" "m_stale (clock h) = m_stale h" "m_ena (clock h) = m_ena h" "m_late (clock h) = m_late h"
  "m_disp (clock h) = m_disp h" "m_depth (clock h) = m_depth h"
  "m_queues (clock h) = pop_queues (m_popping h) (m_queues h)" "m_ip (clock h) = rcsr_ip lm32_unit h"
  by (simp_all add: clock_def lm32_unit_def)

lemma rcsr_clock: "rcsr_ip lm32_unit (clock h) = rcsr_ip lm32_unit h"
proof (rule bit_word_eqI)
  fix i
  have "bit (msi_lines (clock h)) i \<Longrightarrow> bit (msi_lines h) i"
    by (auto simp: bit_lines pop_nth split: if_splits)
  then show "bit (rcsr_ip lm32_unit (clock h)) i = bit (rcsr_ip lm32_unit h) i"
    by (auto simp: lm32_unit_def ip_next_def clock_def bit_simps)
qed

lemma view_clock [simp]: "core_view (clock h) = core_view h"
  by (simp add: core_view_def rcsr_clock)

lemma lines_disp [simp]: "msi_lines (h\<lparr>m_disp := x\<rparr>) = msi_lines h" "msi_lines (h\<lparr>m_ip := p\<rparr>) = msi_lines h"
  "msi_lines (h\<lparr>m_popping := p\<rparr>) = msi_lines h"
  by (simp_all add: msi_lines_def)

lemma view_disp [simp]: "core_view (h\<lparr>m_disp := x\<rparr>) = core_view h"
  by (simp add: core_view_def lm32_unit_def)

lemma port_outside: "\<not> in_core mode_reg" "\<not> in_core char_reg"
  by (simp_all add: in_core_def word_at_def display_def)

interpretation msi_port: char_port "msi_at D" core_view for D
  by unfold_locales (simp_all add: msi_at_def port_outside Let_def)

section \<open>Serving a line\<close>

text \<open>All but the display is read off the devices at rest.\<close>

abbreviation rest :: "('x msi_hw, 'k) world \<Rightarrow> 'x msi_hw" where "rest w \<equiv> clock (dev w)"

lemma viewD:
  assumes "core_view (dev w') = core_view (dev w)"
  shows "m_queues (rest w') = m_queues (rest w)" "m_stale (rest w') = m_stale (rest w)" "m_ena (rest w') = m_ena (rest w)"
    "m_late (rest w') = m_late (rest w)" "rcsr_ip lm32_unit (rest w') = rcsr_ip lm32_unit (rest w)"
    "msi_lines (rest w') = msi_lines (rest w)" "m_depth (rest w') = m_depth (rest w)"
  using assms by (auto simp: core_view_def rcsr_clock msi_lines_def)

lemma view_read: "core_view (dev w') = core_view (dev w) \<Longrightarrow> core_read a (rest w') = core_read a (rest w)"
  unfolding core_read_def queue_out_def using viewD [of w' w] by (simp only:)

lemma read_view:
  assumes "ioread (msi_at D) c a w = (v, w')"
  shows "core_view (dev w') = core_view (dev w)" "in_core a \<Longrightarrow> v = core_read a (rest w)"
proof -
  obtain u x where "p_read D c a (m_disp (dev w)) = (u, x)"
    by fastforce
  then show "core_view (dev w') = core_view (dev w)" "in_core a \<Longrightarrow> v = core_read a (rest w)"
    using assms by (auto simp: ioread_def msi_at_def Let_def split: if_splits)
qed

text \<open>What the three words of a line read: for line 0, not the queue but registers.\<close>

definition line_words :: "'x msi_hw \<Rightarrow> nat \<Rightarrow> msi" where
  "line_words h k = (if k = 0 then \<lparr>msi_msg = take_bit (length (m_queues h)) (m_ena h), msi_src = 0, msi_sel = 0\<rparr>
     else hd (m_queues h ! k))"

lemma line_reads:
  "core_read 0x02000d10 h = take_bit (length (m_queues h)) (m_ena h)" "core_read 0x02000d14 h = 0" "core_read 0x02000d18 h = 0"
  "bit (msi_lines h) 1 \<Longrightarrow> core_read 0x02000d20 h = msi_msg (hd (m_queues h ! 1))"
  "bit (msi_lines h) 1 \<Longrightarrow> core_read 0x02000d24 h = msi_src (hd (m_queues h ! 1))"
  "bit (msi_lines h) 1 \<Longrightarrow> core_read 0x02000d28 h = msi_sel (hd (m_queues h ! 1))"
  by (auto simp: core_read_def bit_lines queue_out_def Let_def)

lemma line_addresses:
  "ucast (irq_slave + 16 * (of_nat 0 + 1)) = (0x02000d10 :: addr)" "ucast (irq_slave + 16 * (of_nat 0 + 1) + 4) = (0x02000d14 :: addr)"
  "ucast (irq_slave + 16 * (of_nat 0 + 1) + 8) = (0x02000d18 :: addr)" "ucast (irq_slave + 16 * (of_nat 1 + 1)) = (0x02000d20 :: addr)"
  "ucast (irq_slave + 16 * (of_nat 1 + 1) + 4) = (0x02000d24 :: addr)" "ucast (irq_slave + 16 * (of_nat 1 + 1) + 8) = (0x02000d28 :: addr)"
  "ucast (irq_slave + 8) = (0x02000d08 :: addr)"
  by (simp_all add: irq_slave_def)

definition pop_written :: "u32 \<Rightarrow> 'x msi_hw \<Rightarrow> 'x msi_hw" where
  "pop_written v h = (clock h)\<lparr>m_queues := pop_queues (v AND NOT (m_late h)) (m_queues (clock h)), m_popping := v AND m_late h\<rparr>"

lemma pop_write: "p_write (msi_at D) IO32 0x02000d08 v h = pop_written v h"
  by (simp add: msi_at_def in_core_def core_write_def Let_def pop_written_def)

lemma wcsr: "wcsr_ip lm32_unit v h = clock (h\<lparr>m_ip := (m_ip h OR msi_lines h) AND NOT v\<rparr>)"
  by (simp add: lm32_unit_def ip_next_def)

lemma rcsr: "rcsr_ip lm32_unit h = m_ip h OR msi_lines h"
  by (simp add: lm32_unit_def ip_next_def)

lemma pop_both: "pop_queues (v AND l) (pop_queues (v AND NOT l) qs) = pop_queues v qs"
  by (rule nth_equalityI) (auto simp: pop_nth bit_simps dest: bit_imp_le_length)

text \<open>
  The pop and the write to \<open>IP\<close>: the queue of the line loses its head; the line stays pending if the
  queue holds another message, or if the pop was late.
\<close>

lemma pop_and_clear:
  fixes h :: "'x msi_hw"
  assumes "k < 32"
  defines "h1 \<equiv> pop_written (push_bit k 1) h"
  defines "h2 \<equiv> clock (wcsr_ip lm32_unit (if bit (rcsr_ip lm32_unit h1) k then push_bit k 1 else 0) h1)"
  shows "m_queues h2 = pop_queues (push_bit k 1) (m_queues (clock h))" "m_stale h2 = m_stale h" "m_ena h2 = m_ena h" "m_late h2 = m_late h"
    "bit (rcsr_ip lm32_unit h2) i \<longleftrightarrow> (if i = k then bit (msi_lines h2) k \<or> bit (m_late h) k \<and> bit (msi_lines (clock h)) k
       else bit (rcsr_ip lm32_unit (clock h)) i)"
proof -
  let ?q = "m_queues (clock h)"
  have h1: "m_queues h1 = pop_queues (push_bit k 1 AND NOT (m_late h)) ?q" "m_popping h1 = push_bit k 1 AND m_late h"
    "m_late h1 = m_late h" "m_stale h1 = m_stale h" "m_ena h1 = m_ena h" "m_ip h1 = rcsr_ip lm32_unit h"
    by (simp_all add: h1_def pop_written_def)
  show q: "m_queues h2 = pop_queues (push_bit k 1) ?q" and "m_stale h2 = m_stale h" "m_ena h2 = m_ena h" "m_late h2 = m_late h"
    unfolding h2_def wcsr by (simp_all add: h1 pop_both)
  let ?v = "if bit (rcsr_ip lm32_unit h1) k then push_bit k 1 else 0 :: u32"
  have r: "rcsr_ip lm32_unit h2 = ((m_ip h1 OR msi_lines h1) AND NOT ?v) OR msi_lines h1"
    unfolding h2_def rcsr_clock wcsr by (simp add: rcsr)
  have l: "bit (msi_lines h1) i \<longleftrightarrow> (if i = k then bit (msi_lines h2) k \<or> bit (m_late h) k \<and> bit (msi_lines (clock h)) k
      else bit (msi_lines (clock h)) i)" for i
    using assms(1) by (auto simp: bit_lines h1 q pop_nth bit_simps simp del: clock_fields split: if_splits)
  have m: "bit (m_ip h1) i \<longleftrightarrow> bit (rcsr_ip lm32_unit (clock h)) i" "bit (msi_lines (clock h)) i \<Longrightarrow> bit (m_ip h1) i" for i
    unfolding h1 rcsr_clock [symmetric, of h] by (simp_all add: rcsr bit_simps)
  have "bit ?v i \<longleftrightarrow> i = k \<and> (bit (m_ip h1) k \<or> bit (msi_lines h1) k)"
    using assms(1) by (auto simp: rcsr bit_simps)
  then show "bit (rcsr_ip lm32_unit h2) i \<longleftrightarrow> (if i = k then bit (msi_lines h2) k \<or> bit (m_late h) k \<and> bit (msi_lines (clock h)) k
       else bit (rcsr_ip lm32_unit (clock h)) i)"
    using l [of i] m [of i] unfolding r by (auto simp: bit_simps dest: bit_imp_le_length)
qed

lemma line_access_rest:
  assumes "line_access (msi_at D) lm32_unit k w = (m, w1)" "k < 32"
  shows "k < 2 \<Longrightarrow> bit (msi_lines (rest w)) k \<Longrightarrow> m = line_words (rest w) k"
    "m_queues (rest w1) = pop_queues (push_bit k 1) (m_queues (rest w))" "m_ena (rest w1) = m_ena (rest w)"
    "m_late (rest w1) = m_late (rest w)"
    "bit (rcsr_ip lm32_unit (rest w1)) i \<longleftrightarrow> (if i = k then bit (msi_lines (rest w1)) k
        \<or> bit (m_late (rest w)) k \<and> bit (msi_lines (rest w)) k else bit (rcsr_ip lm32_unit (rest w)) i)"
proof -
  let ?page = "irq_slave + 16 * (of_nat k + 1)"
  obtain a u where 1: "ioread (msi_at D) IO32 (ucast ?page) w = (a, u)"
    by fastforce
  obtain b u' where 2: "ioread (msi_at D) IO32 (ucast (?page + 4)) u = (b, u')"
    by fastforce
  obtain c u'' where 3: "ioread (msi_at D) IO32 (ucast (?page + 8)) u' = (c, u'')"
    by fastforce
  let ?h = "pop_written (push_bit k 1) (dev u'')"
  have e: "m = \<lparr>msi_msg = a, msi_src = b, msi_sel = c\<rparr>"
    "dev w1 = wcsr_ip lm32_unit (if bit (rcsr_ip lm32_unit ?h) k then push_bit k 1 else 0) ?h"
    using assms(1) unfolding line_access_def 1 2 3 Let_def prod.case line_addresses(7) by (auto simp: iowrite_def pop_write)
  have v: "core_view (dev u'') = core_view (dev w)" "core_view (dev u') = core_view (dev w)" "core_view (dev u) = core_view (dev w)"
    using read_view(1) [OF 1] read_view(1) [OF 2] read_view(1) [OF 3] by simp_all
  note vd = viewD [OF v(1)] and pc = pop_and_clear [OF assms(2), of "dev u''"]
  show "m_queues (rest w1) = pop_queues (push_bit k 1) (m_queues (rest w))" "m_ena (rest w1) = m_ena (rest w)"
    "m_late (rest w1) = m_late (rest w)"
    using pc(1,3,4) vd by (simp_all only: e(2)) simp_all
  show "bit (rcsr_ip lm32_unit (rest w1)) i \<longleftrightarrow> (if i = k then bit (msi_lines (rest w1)) k
        \<or> bit (m_late (rest w)) k \<and> bit (msi_lines (rest w)) k else bit (rcsr_ip lm32_unit (rest w)) i)"
    using pc(5) [of i] vd by (simp only: e(2)) simp
  assume k: "k < 2" "bit (msi_lines (rest w)) k"
  have "in_core 0x02000d10" "in_core 0x02000d14" "in_core 0x02000d18" "in_core 0x02000d20" "in_core 0x02000d24" "in_core 0x02000d28"
    by (simp_all add: in_core_def)
  note rd = this line_reads [of "rest w"] view_read [OF v(2)] view_read [OF v(3)]
  have "k = 0 \<or> k = 1"
    using k(1) by linarith
  then show "m = line_words (rest w) k"
  proof
    assume "k = 0"
    then show ?thesis
      using read_view(2) [OF 1] read_view(2) [OF 2] read_view(2) [OF 3] rd(1-3) rd(7-9)
      unfolding e line_words_def rd(13,14) \<open>k = 0\<close> line_addresses by simp
  next
    assume "k = 1"
    then show ?thesis
      using read_view(2) [OF 1] read_view(2) [OF 2] read_view(2) [OF 3] rd(4-6) rd(10-12) k(2)
      unfolding e line_words_def rd(13,14) \<open>k = 1\<close> line_addresses by simp
  qed
qed

section \<open>Serving all lines\<close>

text \<open>Interrupt code that prints \<open>cs\<close>.\<close>

definition says :: "bool \<Rightarrow> u8 list \<Rightarrow> ('d, 'k) world \<Rightarrow> ('d, 'k) world \<Rightarrow> bool" where
  "says sg cs w w' \<longleftrightarrow> (\<exists>es. trace w' = trace w @ es \<and> (\<forall>e \<in> set es. entry_event e)
     \<and> written_at char_reg es = map (char_int sg) cs)"

lemma says_refl: "says sg [] w w"
  by (simp add: says_def)

lemma says_trans:
  assumes "says sg cs w w'" "says sg ds w' w''"
  shows "says sg (cs @ ds) w w''"
proof -
  obtain es fs where "trace w' = trace w @ es" "\<forall>e \<in> set es. entry_event e" "written_at char_reg es = map (char_int sg) cs"
    "trace w'' = trace w' @ fs" "\<forall>e \<in> set fs. entry_event e" "written_at char_reg fs = map (char_int sg) ds"
    using assms unfolding says_def by blast
  then show ?thesis
    by (auto simp: says_def intro!: exI [of _ "es @ fs"])
qed

lemma prints_says: "prints view sg cs w w' \<Longrightarrow> says sg cs w w'"
  unfolding prints_def says_def using screen_entry by blast

lemma access_says:
  assumes "line_access P U k w = (m, w1)" "k < 32"
  shows "says sg [] w w1"
proof -
  have "(ucast (irq_slave + 8) :: addr) = 0x02000d08" "(0x02000d08 :: addr) \<noteq> char_reg"
    by (simp_all add: irq_slave_def word_at_def display_def)
  then show ?thesis
    using assms(1) line_word_range [OF assms(2), of 0] line_word_range [OF assms(2), of 1] line_word_range [OF assms(2), of 2]
    by (auto simp: line_access_def says_def ioread_def iowrite_def Let_def split: prod.splits)
qed

lemma serve_core:
  assumes "9 \<le> length buffer" "isr_ptr_table s = demo_table" "bit (msi_lines (rest w)) k"
  shows "\<exists>s' w'. serve_line (msi_at D) lm32_unit irq_slave (run_isr (msi_at D) sg buffer) k (Inr (s, w)) = Inr (s', w')
    \<and> isr_ptr_table s' = demo_table \<and> says sg (line_text k (line_words (rest w) k)) w w'
    \<and> m_queues (rest w') = pop_queues (push_bit k 1) (m_queues (rest w)) \<and> m_ena (rest w') = m_ena (rest w)
    \<and> m_late (rest w') = m_late (rest w)
    \<and> (\<forall>i. bit (rcsr_ip lm32_unit (rest w')) i \<longleftrightarrow> (if i = k then bit (msi_lines (rest w')) k
        \<or> bit (m_late (rest w)) k \<and> bit (msi_lines (rest w)) k else bit (rcsr_ip lm32_unit (rest w)) i))"
proof -
  have k: "k < 32"
    using assms(3) by (simp add: bit_lines)
  obtain m w1 where a: "line_access (msi_at D) lm32_unit k w = (m, w1)"
    by fastforce
  note r = line_access_rest [OF a k]
  obtain w2 where 2: "serve_line (msi_at D) lm32_unit irq_slave (run_isr (msi_at D) sg buffer) k (Inr (s, w)) = Inr (s\<lparr>global_msi := m\<rparr>, w2)"
    "prints core_view sg (line_text k m) w1 w2"
    using msi_port.port_serve [OF assms(1,2) k a] by blast
  have "core_view (dev w2) = core_view (dev w1)"
    using 2(2) by (simp add: prints_def)
  note v = viewD [OF this]
  have "line_text k m = line_text k (line_words (rest w) k)"
  proof (cases "k < 2")
    case False
    then show ?thesis
      by (simp add: line_text_def)
  qed (simp add: r(1) [OF _ assms(3)])
  then have "says sg (line_text k (line_words (rest w) k)) w w2"
    using says_trans [OF access_says [OF a k, of sg] prints_says [OF 2(2)]] by simp
  then show ?thesis
    using 2(1) assms(2) r(2-5) unfolding v(1,3,4,5,6) [symmetric] by (intro exI [of _ "s\<lparr>global_msi := m\<rparr>"] exI [of _ w2]) simp
qed

lemma line_kept:
  assumes "m_queues h' = pop_queues (push_bit k 1) (m_queues h)" "m_ena h' = m_ena h" "j \<noteq> k" "bit (msi_lines h) j"
  shows "line_words h' j = line_words h j" "bit (msi_lines h') j"
  using assms by (auto simp: line_words_def bit_lines pop_nth bit_simps)

lemma serve_all_core:
  assumes "9 \<le> length buffer" "isr_ptr_table s = demo_table" "distinct ks" "\<forall>k \<in> set ks. bit (msi_lines (rest w)) k"
  shows "\<exists>s' w'. fold (serve_line (msi_at D) lm32_unit irq_slave (run_isr (msi_at D) sg buffer)) ks (Inr (s, w)) = Inr (s', w')
    \<and> isr_ptr_table s' = demo_table \<and> says sg (concat (map (\<lambda>k. line_text k (line_words (rest w) k)) ks)) w w'
    \<and> length (m_queues (rest w')) = length (m_queues (rest w)) \<and> m_late (rest w') = m_late (rest w)
    \<and> (\<forall>i < length (m_queues (rest w)). m_queues (rest w') ! i
        = (if i \<in> set ks then tl (m_queues (rest w) ! i) else m_queues (rest w) ! i))
    \<and> (\<forall>i. bit (rcsr_ip lm32_unit (rest w')) i \<longleftrightarrow> (if i \<in> set ks then bit (msi_lines (rest w')) i
        \<or> bit (m_late (rest w)) i else bit (rcsr_ip lm32_unit (rest w)) i))"
  using assms(2-4)
proof (induction ks arbitrary: s w)
  case Nil
  then show ?case
    by (simp add: says_refl)
next
  case (Cons k ks)
  have k: "bit (msi_lines (rest w)) k" "k \<notin> set ks" "distinct ks"
    using Cons.prems by simp_all
  obtain s1 w1 where 1: "serve_line (msi_at D) lm32_unit irq_slave (run_isr (msi_at D) sg buffer) k (Inr (s, w)) = Inr (s1, w1)"
    "isr_ptr_table s1 = demo_table" "says sg (line_text k (line_words (rest w) k)) w w1"
    "m_queues (rest w1) = pop_queues (push_bit k 1) (m_queues (rest w))" "m_ena (rest w1) = m_ena (rest w)"
    "m_late (rest w1) = m_late (rest w)"
    "\<And>i. bit (rcsr_ip lm32_unit (rest w1)) i \<longleftrightarrow> (if i = k then bit (msi_lines (rest w1)) k
        \<or> bit (m_late (rest w)) k \<and> bit (msi_lines (rest w)) k else bit (rcsr_ip lm32_unit (rest w)) i)"
    using serve_core [OF assms(1) Cons.prems(1) k(1)] by blast
  have kept: "line_words (rest w1) j = line_words (rest w) j" "bit (msi_lines (rest w1)) j" if "j \<in> set ks" for j
    using line_kept [OF 1(4,5), of j] k(2) Cons.prems(3) that by auto
  obtain s2 w2 where 2: "fold (serve_line (msi_at D) lm32_unit irq_slave (run_isr (msi_at D) sg buffer)) ks (Inr (s1, w1)) = Inr (s2, w2)"
    "isr_ptr_table s2 = demo_table" "says sg (concat (map (\<lambda>k. line_text k (line_words (rest w1) k)) ks)) w1 w2"
    "length (m_queues (rest w2)) = length (m_queues (rest w1))" "m_late (rest w2) = m_late (rest w1)"
    "\<And>i. i < length (m_queues (rest w1)) \<Longrightarrow> m_queues (rest w2) ! i
        = (if i \<in> set ks then tl (m_queues (rest w1) ! i) else m_queues (rest w1) ! i)"
    "\<And>i. bit (rcsr_ip lm32_unit (rest w2)) i \<longleftrightarrow> (if i \<in> set ks then bit (msi_lines (rest w2)) i
        \<or> bit (m_late (rest w1)) i else bit (rcsr_ip lm32_unit (rest w1)) i)"
    using Cons.IH [OF 1(2) k(3), of w1] kept(2) by blast
  have len: "length (m_queues (rest w1)) = length (m_queues (rest w))"
    unfolding 1(4) by (rule length_pop)
  have tx: "map (\<lambda>k. line_text k (line_words (rest w1) k)) ks = map (\<lambda>k. line_text k (line_words (rest w) k)) ks"
    using kept(1) by simp
  have "says sg (concat (map (\<lambda>k. line_text k (line_words (rest w) k)) (k # ks))) w w2"
    using says_trans [OF 1(3) 2(3)] unfolding tx by simp
  moreover have "m_queues (rest w2) ! i = (if i \<in> set (k # ks) then tl (m_queues (rest w) ! i) else m_queues (rest w) ! i)"
    if "i < length (m_queues (rest w))" for i
    using 2(6) [of i] that k(1,2) unfolding len 1(4) by (auto simp: pop_nth bit_simps bit_lines simp del: clock_fields)
  moreover have "bit (msi_lines (rest w2)) k = bit (msi_lines (rest w1)) k"
    using 2(6) [of k] 2(4) k(2) by (auto simp: bit_lines simp del: clock_fields)
  then have "bit (rcsr_ip lm32_unit (rest w2)) i \<longleftrightarrow> (if i \<in> set (k # ks) then bit (msi_lines (rest w2)) i
        \<or> bit (m_late (rest w)) i else bit (rcsr_ip lm32_unit (rest w)) i)" for i
    using 1(7) [of i] 2(7) [of i] k(1,2) unfolding 1(6) by (cases "i = k") (simp_all del: clock_fields)
  ultimately show ?case
    using 1(1) 2(1,2,4,5) len unfolding 1(6) by (intro exI [of _ s2] exI [of _ w2]) (simp del: clock_fields)
qed

section \<open>An interrupt\<close>

lemma mode_writes: "\<forall>e \<in> set es. entry_event e \<Longrightarrow> set (written_at mode_reg es) \<subseteq> {MODE_UART}"
proof (induction es)
  case (Cons e es)
  have "mode_reg \<noteq> char_reg" "mode_reg \<noteq> 0x02000d08"
    by (simp_all add: word_at_def display_def)
  then show ?case
    using Cons by (cases e) auto
qed simp

lemma irq_entry_core:
  assumes "9 \<le> length buffer" "isr_ptr_table s = demo_table" "rcsr_ip lm32_unit (rest w) = msi_lines (rest w)"
  shows "\<exists>s' w' es. irq_entry (msi_at D) lm32_unit sg buffer s w = Inr (s', w') \<and> trace w' = trace w @ es
    \<and> written_at char_reg es = map (char_int sg) (12 # map of_char ''IRQ_ENTRY\<newline>''
        @ concat (map (\<lambda>k. line_text k (line_words (rest w) k)) (line_set (msi_lines (rest w)))))
    \<and> (\<forall>e \<in> set es. entry_event e)
    \<and> (length (m_queues (rest w)) \<le> 32 \<longrightarrow> m_queues (rest w') = map tl (m_queues (rest w)))
    \<and> rcsr_ip lm32_unit (rest w') = msi_lines (rest w') OR (msi_lines (rest w) AND m_late (rest w))"
proof -
  obtain w1 where 1: "disp_put_str (msi_at D) sg (cstr ''IRQ_ENTRY\<newline>'') (disp_put_c (msi_at D) sg 12 w) = Inr w1"
    "prints core_view sg (12 # map of_char ''IRQ_ENTRY\<newline>'') w w1"
    using msi_port.port_greeting by blast
  have "core_view (dev w1) = core_view (dev w)"
    using 1(2) by (simp add: prints_def)
  note v = viewD [OF this]
  let ?l = "msi_lines (rest w)"
  have ks: "distinct (line_set ?l)" "\<forall>k \<in> set (line_set ?l). bit (msi_lines (rest w1)) k" "set (line_set ?l) = {i. bit ?l i}"
    using v(6) by (auto simp: line_set_simps)
  obtain s2 w2 where 2: "fold (serve_line (msi_at D) lm32_unit irq_slave (run_isr (msi_at D) sg buffer)) (line_set ?l) (Inr (s, w1)) = Inr (s2, w2)"
    "says sg (concat (map (\<lambda>k. line_text k (line_words (rest w1) k)) (line_set ?l))) w1 w2"
    "length (m_queues (rest w2)) = length (m_queues (rest w1))"
    "\<And>i. i < length (m_queues (rest w1)) \<Longrightarrow> m_queues (rest w2) ! i
        = (if i \<in> set (line_set ?l) then tl (m_queues (rest w1) ! i) else m_queues (rest w1) ! i)"
    "\<And>i. bit (rcsr_ip lm32_unit (rest w2)) i \<longleftrightarrow> (if i \<in> set (line_set ?l) then bit (msi_lines (rest w2)) i
        \<or> bit (m_late (rest w1)) i else bit (rcsr_ip lm32_unit (rest w1)) i)"
    using serve_all_core [OF assms(1,2) ks(1,2)] by blast
  have "rcsr_ip lm32_unit (dev w1) = ?l"
    using v(5) assms(3) by (simp add: rcsr_clock)
  then have "irq_entry (msi_at D) lm32_unit sg buffer s w = Inr (s2, w2)"
    using 1(1) 2(1) by (simp add: irq_entry_def dispatch_fold)
  moreover have "line_words (rest w1) = line_words (rest w)"
    using v by (simp add: line_words_def fun_eq_iff del: clock_fields)
  then have "says sg ((12 # map of_char ''IRQ_ENTRY\<newline>'') @ concat (map (\<lambda>k. line_text k (line_words (rest w) k)) (line_set ?l))) w w2"
    using says_trans [OF prints_says [OF 1(2)] 2(2)] by simp
  then obtain es where "trace w2 = trace w @ es" "\<forall>e \<in> set es. entry_event e"
    "written_at char_reg es = map (char_int sg) ((12 # map of_char ''IRQ_ENTRY\<newline>'')
       @ concat (map (\<lambda>k. line_text k (line_words (rest w) k)) (line_set ?l)))"
    unfolding says_def by blast
  moreover have q: "m_queues (rest w2) ! i = tl (m_queues (rest w) ! i)" if "i < length (m_queues (rest w))" "i < 32" for i
    using 2(4) [of i] that unfolding v(1) ks(3) by (auto simp: bit_lines simp del: clock_fields)
  then have "m_queues (rest w2) = map tl (m_queues (rest w))" if "length (m_queues (rest w)) \<le> 32"
    using 2(3) that unfolding v(1) by (intro nth_equalityI) (simp_all del: clock_fields)
  moreover have "rcsr_ip lm32_unit (rest w2) = msi_lines (rest w2) OR (?l AND m_late (rest w))"
  proof (rule bit_word_eqI)
    fix i
    assume "i < LENGTH(32)"
    then have "bit (msi_lines (rest w2)) i \<Longrightarrow> bit ?l i"
      using q [of i] 2(3) unfolding v(1) by (cases "m_queues (rest w) ! i") (auto simp: bit_lines simp del: clock_fields)
    then show "bit (rcsr_ip lm32_unit (rest w2)) i = bit (msi_lines (rest w2) OR (?l AND m_late (rest w))) i"
      using 2(5) [of i] assms(3) unfolding v(4,5) ks(3) by (auto simp: bit_simps simp del: clock_fields)
  qed
  ultimately show ?thesis
    by (intro exI [of _ s2] exI [of _ w2] exI [of _ es]) simp
qed

section \<open>An example\<close>

definition demo_cpu :: "demo_isr lm32" where
  "demo_cpu = \<lparr>isr_ptr_table = demo_table, global_msi = \<lparr>msi_msg = 0, msi_src = 0, msi_sel = 0\<rparr>, csr_ie = 1, csr_im = 3\<rparr>"

definition no_display :: "unit platform" where
  "no_display = \<lparr>p_read = (\<lambda>c a x. (0, x)), p_write = (\<lambda>c a v x. x), p_jiffies = (\<lambda>x. (0, x)), p_msecs = (\<lambda>_. 0)\<rparr>"

text \<open>Two queues of which the second holds the messages \<open>ms\<close>; the pops of \<open>late\<close> are late.\<close>

definition demo_msi :: "msi list \<Rightarrow> u32 \<Rightarrow> unit msi_hw" where
  "demo_msi ms late = \<lparr>m_queues = [[], ms], m_stale = (\<lambda>_. \<lparr>msi_msg = 0, msi_src = 0, msi_sel = 0\<rparr>), m_ena = 3, m_depth = 8,
     m_popping = 0, m_late = late, m_ip = 0, m_disp = ()\<rparr>"

definition demo_msg :: msi where
  "demo_msg = \<lparr>msi_msg = 0xCAFE, msi_src = 0x10, msi_sel = 15\<rparr>"

lemma demo_msi_rest:
  "m_queues (clock (demo_msi ms late)) = [[], ms]" "m_late (clock (demo_msi ms late)) = late"
  "m_ena (clock (demo_msi ms late)) = 3" "rcsr_ip lm32_unit (demo_msi ms late) = msi_lines (demo_msi ms late)"
  by (simp_all add: demo_msi_def rcsr)

lemma demo_msi_lines: "msi_lines (demo_msi ms late) = (if ms = [] then 0 else 2)" "msi_lines (clock (demo_msi ms late)) = (if ms = [] then 0 else 2)"
  by (simp_all add: msi_lines_def demo_msi_def)

lemma lines_2: "line_set 2 = [1]"
  by (simp add: line_set_def upt_rec bit_numeral_rec)

text \<open>
  When the pop of the only message is late, its line is still pending after it has been served: the
  interrupt is taken again, and reads the words of an empty queue.
\<close>

lemma late_pop_stays_pending:
  "\<exists>s' w' es. irq_entry (msi_at no_display) lm32_unit False (replicate 12 0) demo_cpu \<lparr>dev = demo_msi [demo_msg] 2, trace = []\<rparr> = Inr (s', w')
    \<and> m_queues (clock (dev w')) = [[], []] \<and> bit (rcsr_ip lm32_unit (clock (dev w'))) 1"
proof -
  let ?w = "\<lparr>dev = demo_msi [demo_msg] 2, trace = []\<rparr> :: (unit msi_hw, demo_isr) world"
  have "rcsr_ip lm32_unit (rest ?w) = msi_lines (rest ?w)" "isr_ptr_table demo_cpu = demo_table"
    "length (m_queues (rest ?w)) \<le> 32"
    by (simp_all add: rcsr_clock demo_msi_rest demo_msi_lines demo_cpu_def del: clock_fields)
  then obtain s' w' where "irq_entry (msi_at no_display) lm32_unit False (replicate 12 0) demo_cpu ?w = Inr (s', w')"
    "m_queues (rest w') = map tl (m_queues (rest ?w))"
    "rcsr_ip lm32_unit (rest w') = msi_lines (rest w') OR (msi_lines (rest ?w) AND m_late (rest ?w))"
    using irq_entry_core [of "replicate 12 0" demo_cpu ?w no_display False] by fastforce
  then show ?thesis
    using demo_msi_rest [of "[demo_msg]" 2] demo_msi_lines [of "[demo_msg]" 2]
    by (intro exI [of _ s'] exI [of _ w'] conjI) (simp_all add: bit_simps bit_numeral_rec del: clock_fields)
qed

section \<open>Properties\<close>

text \<open>
  C23: an interrupt on the hardware. Let no line be pending but those whose queues hold a message.
  With the table \<open>main\<close> sets up, \<open>irq_entry\<close> does not fault. It prints a form feed, its name and
  then, for line 0 and line 1 if they are pending, the name of the routine and three lines: the
  words read for the line, each as a letter and eight digits that read back as the word. For line 1
  they are the oldest message of its queue; for line 0 they are not, but the enable register and two
  zeros (which the core answers with a bus error: an LM32 built to take those is out of the model).
  It reads only the words of the lines, selects no mode of the display but that of the character
  port, and writes nothing but that mode, the port and the register that pops. Afterwards every
  queue has lost its oldest message, and the pending lines are those whose queues hold another one
  and, where the pop reached the core only after the pending bit was cleared, the lines just served.
\<close>

theorem irq_entry_prints:
  assumes "9 \<le> length buffer" "isr_ptr_table s = isr_ptr_table (main_setup r s0)"
    "h = clock (dev w)" "rcsr_ip lm32_unit h = msi_lines h" "length (m_queues h) \<le> 32"
  shows "\<exists>s' w' es. irq_entry (msi_at D) lm32_unit sg buffer s w = Inr (s', w') \<and> trace w' = trace w @ es
    \<and> written_at (word_at display 0x4000) es = map (char_int sg) (12 # map of_char ''IRQ_ENTRY\<newline>'' @ concat (map (\<lambda>k.
        let m = (if k = 0 then \<lparr>msi_msg = take_bit (length (m_queues h)) (m_ena h), msi_src = 0, msi_sel = 0\<rparr>
                 else hd (m_queues h ! k))
        in map of_char (if k = 0 then ''ISR0\<newline>'' else ''ISR1\<newline>'')
          @ [68, 32] @ hex_digits (msi_msg m) @ [10] @ [65, 32] @ hex_digits (msi_src m) @ [10]
          @ [83, 32] @ hex_digits (msi_sel m) @ [10, 12])
        (filter (\<lambda>k. k < length (m_queues h) \<and> m_queues h ! k \<noteq> []) [0, 1])))
    \<and> (\<forall>v. length (hex_digits v) = 8 \<and> parse_hex (hex_digits v) = v)
    \<and> (\<forall>c a v. EvRead c a v \<in> set es \<longrightarrow> 0x02000d00 \<le> a \<and> a < 0x02000f10)
    \<and> (\<forall>c a v. EvWrite c a v \<in> set es \<longrightarrow> a = word_at display 0 \<and> v = MODE_UART \<or> a = word_at display 0x4000 \<or> a = 0x02000d08)
    \<and> m_queues (clock (dev w')) = map tl (m_queues h)
    \<and> rcsr_ip lm32_unit (clock (dev w')) = msi_lines (clock (dev w')) OR (msi_lines h AND m_late h)"
proof -
  let ?f = "\<lambda>k. let m = (if k = 0 then \<lparr>msi_msg = take_bit (length (m_queues h)) (m_ena h), msi_src = 0, msi_sel = 0\<rparr>
                 else hd (m_queues h ! k))
        in map of_char (if k = 0 then ''ISR0\<newline>'' else ''ISR1\<newline>'')
          @ [68, 32] @ hex_digits (msi_msg m) @ [10] @ [65, 32] @ hex_digits (msi_src m) @ [10]
          @ [83, 32] @ hex_digits (msi_sel m) @ [10, 12]"
  have lt: "line_text k (line_words h k) = (if k < 2 then ?f k else [])" for k
    by (auto simp: line_text_def line_words_def isr_text_def msi_text_def field_text_def Let_def)
  have split: "concat (map (\<lambda>k. if k < 2 then f k else []) ks) = concat (map f (filter (\<lambda>k. k < (2 :: nat)) ks))" for f :: "nat \<Rightarrow> u8 list" and ks
    by (induction ks) simp_all
  have two: "filter (\<lambda>k. k < 2) [0..<32] = [0, 1 :: nat]"
    by (simp add: upt_rec)
  have "filter (\<lambda>k. k < 2) (line_set (msi_lines h)) = filter (bit (msi_lines h)) (filter (\<lambda>k. k < 2) [0..<32])"
    by (simp add: line_set_def conj_commute)
  then have lines: "filter (\<lambda>k. k < 2) (line_set (msi_lines h)) = filter (\<lambda>k. k < length (m_queues h) \<and> m_queues h ! k \<noteq> []) [0, 1]"
    unfolding two by (simp add: bit_lines)
  have tx: "concat (map (\<lambda>k. line_text k (line_words h k)) (line_set (msi_lines h)))
      = concat (map ?f (filter (\<lambda>k. k < length (m_queues h) \<and> m_queues h ! k \<noteq> []) [0, 1]))"
    unfolding lt split lines by (rule refl)
  obtain s' w' es where e: "irq_entry (msi_at D) lm32_unit sg buffer s w = Inr (s', w')" "trace w' = trace w @ es"
    "written_at char_reg es = map (char_int sg) (12 # map of_char ''IRQ_ENTRY\<newline>''
        @ concat (map (\<lambda>k. line_text k (line_words h k)) (line_set (msi_lines h))))"
    "\<forall>e \<in> set es. entry_event e" "m_queues (rest w') = map tl (m_queues h)"
    "rcsr_ip lm32_unit (rest w') = msi_lines (rest w') OR (msi_lines h AND m_late h)"
    using irq_entry_core [OF assms(1), of s w D sg] assms(2-5) main_setup_table [of r s0] by auto
  have "entry_event e" if "e \<in> set es" for e
    using e(4) that by blast
  from this [of "EvRead _ _ _"] this [of "EvWrite _ _ _"] show ?thesis
    using parse_hex_digits e(1,2,5,6) e(3) [unfolded tx]
    by (intro exI [of _ s'] exI [of _ w'] exI [of _ es] conjI) (simp_all add: hex_digits_def)
qed

section \<open>Witnesses\<close>

lemma irq_entry_prints_witness:
  "\<exists>s' w' es. irq_entry (msi_at no_display) lm32_unit False (replicate 12 0) demo_cpu
      \<lparr>dev = demo_msi [demo_msg, demo_msg] 0, trace = []\<rparr> = Inr (s', w') \<and> trace w' = es
    \<and> written_at (word_at display 0x4000) es = map ucast (12 # map of_char ''IRQ_ENTRY\<newline>'' @ map of_char ''ISR1\<newline>''
        @ [68, 32] @ hex_digits 0xCAFE @ [10] @ [65, 32] @ hex_digits 0x10 @ [10] @ [83, 32] @ hex_digits 15 @ [10, 12])
    \<and> m_queues (clock (dev w')) = [[], [demo_msg]] \<and> rcsr_ip lm32_unit (clock (dev w')) = msi_lines (clock (dev w'))"
proof -
  let ?w = "\<lparr>dev = demo_msi [demo_msg, demo_msg] 0, trace = []\<rparr> :: (unit msi_hw, demo_isr) world"
  let ?h = "clock (demo_msi [demo_msg, demo_msg] 0)"
  have h: "rcsr_ip lm32_unit ?h = msi_lines ?h" "length (m_queues ?h) \<le> 32" "?h = clock (dev ?w)" "m_late ?h = 0"
    "m_queues ?h = [[], [demo_msg, demo_msg]]"
    by (simp_all add: rcsr_clock demo_msi_rest demo_msi_lines del: clock_fields)
  have t: "isr_ptr_table demo_cpu = isr_ptr_table (main_setup 0 demo_cpu)"
    by (simp add: main_setup_table) (simp add: demo_cpu_def)
  have c: "map (char_int False) cs = map ucast cs" for cs
    by (simp add: char_int_def)
  show ?thesis
    using irq_entry_prints [OF _ t h(3,1,2), of "replicate 12 0" no_display False] unfolding h(4,5) c
    by (fastforce simp: demo_msg_def)
qed

lemma irq_process_serves_witness:
  "irq_process (msi_at no_display) lm32_unit irq_slave (run_isr (msi_at no_display) False (replicate 12 0)) demo_cpu
      \<lparr>dev = demo_msi [demo_msg] 0, trace = []\<rparr>
    = serve_line (msi_at no_display) lm32_unit irq_slave (run_isr (msi_at no_display) False (replicate 12 0)) 1
        (Inr (demo_cpu, \<lparr>dev = demo_msi [demo_msg] 0, trace = []\<rparr>))"
  by (simp add: irq_process_serves demo_msi_rest demo_msi_lines lines_2)

end
