(* ===== verification/Msi_Preempt.thy ===== *)
theory Msi_Preempt
  imports Msi_Core
begin

text \<open>
  The demonstration as it runs: the main loop, one access to the display at a time, with messages
  arriving and interrupts taken between any two of them. Nothing is assumed of the display: what is
  shown is which accesses to its pixels are made, in which order, and what they write. The pixels
  are the main loop's alone; the mode register, which both sides set, is not.
\<close>

unbundle bit_operations_syntax

section \<open>Steps\<close>

text \<open>
  Where the loop is in \<open>disp_put_raw\<close>: before the access that selects the mode, that loads the word,
  that stores it (with the pixels it has loaded), that deselects the mode; or past it.
\<close>

datatype main_pc = AtMode | AtLoad | AtStore u8 | AtIdle | AtMove

record 'd demo =
  m_cpu :: "demo_isr lm32"
  m_world :: "('d, demo_isr) msi_world"
  m_ball :: ball
  m_pc :: main_pc

definition ball_pixcol :: "ball \<Rightarrow> u8" where
  "ball_pixcol b = ucast (get_pixcol_val (word_of_int (ball_y b)))"

definition ball_word :: "ball \<Rightarrow> u32" where
  "ball_word b = get_pixcol_addr (word_of_int (ball_x b)) (word_of_int (ball_y b))"

definition raw_index :: "ball \<Rightarrow> u32" where
  "raw_index b = drop_bit 2 REG_RAW + (ball_word b AND 0x3FFF)"

text \<open>
  Between two steps the devices may change in any way, by messages that arrive or otherwise. An
  interrupt is taken when a pending line is enabled (\<open>lm32_interrupt.v\<close>); no further one is taken
  while it is served, and returning from it restores the enable bit.
\<close>

inductive dstep :: "'d platform \<Rightarrow> 'd irq_unit \<Rightarrow> bool \<Rightarrow> u8 list \<Rightarrow> 'd demo \<Rightarrow> 'd demo \<Rightarrow> bool" for P U sg buffer where
  at_mode: "m_pc s = AtMode \<Longrightarrow> dstep P U sg buffer s (s\<lparr>m_world := set_mode P MODE_RAW (m_world s), m_pc := AtLoad\<rparr>)"
| at_load: "m_pc s = AtLoad \<Longrightarrow> load_word P display (raw_index (m_ball s)) (m_world s) = (old, w)
    \<Longrightarrow> dstep P U sg buffer s (s\<lparr>m_world := w, m_pc := AtStore (ucast old)\<rparr>)"
| at_store: "m_pc s = AtStore oldpixcol
    \<Longrightarrow> dstep P U sg buffer s (s\<lparr>m_world := store_word P display (raw_index (m_ball s))
          (raw_value sg (ball_pixcol (m_ball s)) (ball_color (m_ball s)) oldpixcol) (m_world s), m_pc := AtIdle\<rparr>)"
| at_idle: "m_pc s = AtIdle \<Longrightarrow> dstep P U sg buffer s (s\<lparr>m_world := set_mode P MODE_IDLE (m_world s), m_pc := AtMove\<rparr>)"
| at_move: "m_pc s = AtMove \<Longrightarrow> dstep P U sg buffer s (s\<lparr>m_ball := main_move (m_ball s), m_pc := AtMode\<rparr>)"
| arrive: "dstep P U sg buffer s (s\<lparr>m_world := (m_world s)\<lparr>dev := d\<rparr>\<rparr>)"
| interrupt: "csr_ie (m_cpu s) AND 1 \<noteq> 0 \<Longrightarrow> rcsr_ip U (dev (m_world s)) AND csr_im (m_cpu s) \<noteq> 0
    \<Longrightarrow> irq_entry P U sg buffer (m_cpu s) (m_world s) = Inr (c, w)
    \<Longrightarrow> dstep P U sg buffer s (s\<lparr>m_cpu := c, m_world := w\<rparr>)"

text \<open>Without interrupts the steps are the round of \<open>main_loop\<close>.\<close>

lemma round_steps:
  assumes "m_pc s = AtMode"
  shows "(dstep P U sg buffer)\<^sup>*\<^sup>* s (s\<lparr>m_world := main_draw P sg (m_ball s) (m_world s), m_ball := main_move (m_ball s)\<rparr>)"
proof -
  let ?w1 = "set_mode P MODE_RAW (m_world s)"
  obtain old w2 where l: "load_word P display (raw_index (m_ball s)) ?w1 = (old, w2)"
    by fastforce
  let ?w3 = "store_word P display (raw_index (m_ball s)) (raw_value sg (ball_pixcol (m_ball s)) (ball_color (m_ball s)) (ucast old)) w2"
  let ?s1 = "s\<lparr>m_world := ?w1, m_pc := AtLoad\<rparr>"
  let ?s2 = "?s1\<lparr>m_world := w2, m_pc := AtStore (ucast old)\<rparr>"
  let ?s3 = "?s2\<lparr>m_world := ?w3, m_pc := AtIdle\<rparr>"
  let ?s4 = "?s3\<lparr>m_world := set_mode P MODE_IDLE ?w3, m_pc := AtMove\<rparr>"
  let ?s5 = "?s4\<lparr>m_ball := main_move (m_ball s), m_pc := AtMode\<rparr>"
  have "dstep P U sg buffer s ?s1" "dstep P U sg buffer ?s1 ?s2" "dstep P U sg buffer ?s2 ?s3"
    "dstep P U sg buffer ?s3 ?s4" "dstep P U sg buffer ?s4 ?s5"
    using at_mode [OF assms] at_load [of ?s1 P old w2] at_store [of ?s2 "ucast old"] at_idle [of ?s3] at_move [of ?s4] l
    by simp_all
  then have "(dstep P U sg buffer)\<^sup>*\<^sup>* s ?s5"
    by (meson converse_rtranclp_into_rtranclp rtranclp.rtrancl_refl)
  moreover have "set_mode P MODE_IDLE ?w3 = main_draw P sg (m_ball s) (m_world s)"
    using l by (simp add: main_draw_def disp_put_raw_def ball_word_def ball_pixcol_def raw_index_def)
  then have "?s5 = s\<lparr>m_world := main_draw P sg (m_ball s) (m_world s), m_ball := main_move (m_ball s)\<rparr>"
    using assms by simp
  ultimately show ?thesis
    by metis
qed

lemma loop_steps:
  assumes "m_pc s = AtMode" "main_loop P sg n (m_ball s) (m_world s) = (b, w)"
  shows "(dstep P U sg buffer)\<^sup>*\<^sup>* s (s\<lparr>m_world := w, m_ball := b\<rparr>)"
  using assms
proof (induction n arbitrary: s)
  case 0
  then have "s\<lparr>m_world := w, m_ball := b\<rparr> = s"
    by auto
  then show ?case
    by simp
next
  case (Suc n)
  let ?t = "s\<lparr>m_world := main_draw P sg (m_ball s) (m_world s), m_ball := main_move (m_ball s)\<rparr>"
  have "(dstep P U sg buffer)\<^sup>*\<^sup>* ?t (?t\<lparr>m_world := w, m_ball := b\<rparr>)"
    using Suc.prems by (intro Suc.IH) simp_all
  then show ?case
    using rtranclp_trans [OF round_steps [OF Suc.prems(1), of P U sg buffer]] by simp
qed

section \<open>Dots\<close>

text \<open>
  The word of a dot, eight rows of a column to a word, and what drawing makes of the word: the pixel
  of the dot takes its colour, the other seven stay as they were read.
\<close>

definition dot_word :: "ball \<Rightarrow> addr" where
  "dot_word b = word_of_int (0x02930000 + 4 * (0x230 + 256 * (ball_y b div 8) + ball_x b))"

definition drawn_as :: "ball \<Rightarrow> u32 \<Rightarrow> u32 \<Rightarrow> bool" where
  "drawn_as b old new \<longleftrightarrow> (\<forall>m < 8. bit new m \<longleftrightarrow> (if int m = ball_y b mod 8 then ball_color b \<noteq> 0 else bit old m))"

fun pixel_event :: "'k event \<Rightarrow> bool" where
  "pixel_event (EvRead c a v) = (0x02930000 \<le> a \<and> a < 0x02940000)"
| "pixel_event (EvWrite c a v) = (0x02930000 \<le> a \<and> a < 0x02940000)"
| "pixel_event (EvCall q) = False"

definition dot_acts :: "ball \<Rightarrow> u32 \<times> u32 \<Rightarrow> 'k event list" where
  "dot_acts b r = [EvRead IO32 (dot_word b) (fst r), EvWrite IO32 (dot_word b) (snd r)]"

lemma dot_coords:
  assumes "ball_inv b"
  defines "x \<equiv> word_of_int (ball_x b) :: u8" and "y \<equiv> word_of_int (ball_y b) :: u8"
  shows "visible x y" "int (unat x) = ball_x b" "int (unat y) = ball_y b"
proof -
  have "uint x = ball_x b" "uint y = ball_y b"
    using assms(1) by (simp_all add: x_def y_def ball_inv_def unsigned_of_int take_bit_int_eq_self)
  then show "int (unat x) = ball_x b" "int (unat y) = ball_y b"
    by simp_all
  show "visible x y"
    unfolding x_def y_def by (rule ball_visible [OF assms(1)])
qed

lemma dot_word_index:
  assumes "ball_inv b"
  shows "word_at display (raw_index b) = dot_word b" "0x02930000 \<le> dot_word b" "dot_word b < 0x02940000"
proof -
  let ?x = "word_of_int (ball_x b) :: u8" and ?y = "word_of_int (ball_y b) :: u8"
  note c = dot_coords [OF assms]
  let ?k = "0x02930000 + 4 * (0x230 + 256 * (ball_y b div 8) + ball_x b)"
  have u: "unat (word_at display (raw_index b)) = 0x2930000 + 4 * (0x230 + (unat ?y div 8) * 256 + unat ?x)"
    using raw_word_value [OF pixcol_addr_bound [OF c(1)]] pixcol_addr [OF c(1)]
    by (simp add: raw_index_def ball_word_def raw_word_def)
  then have "int (unat (word_at display (raw_index b))) = ?k"
    using c(2,3) by (simp add: zdiv_int)
  then have "uint (word_at display (raw_index b)) = ?k"
    by simp
  then show w: "word_at display (raw_index b) = dot_word b"
    by (metis dot_word_def word_of_int_uint)
  have "ball_y b div 8 \<le> 5" "0 \<le> ball_y b div 8" "ball_x b \<le> 63" "0 \<le> ball_x b"
    using assms zdiv_mono1 [of "ball_y b" 47 8] by (simp_all add: ball_inv_def pos_imp_zdiv_nonneg_iff)
  moreover have "0x2930000 \<le> 0x02930000 + 4 * (0x230 + 256 * d + x) \<and> 0x02930000 + 4 * (0x230 + 256 * d + x) < 0x2940000"
    if "d \<le> 5" "0 \<le> d" "x \<le> 63" "0 \<le> x" for d x :: int
    using that by simp
  ultimately have "0x2930000 \<le> ?k \<and> ?k < 0x2940000"
    by blast
  then show "0x02930000 \<le> dot_word b" "dot_word b < 0x02940000"
    using \<open>uint (word_at display (raw_index b)) = ?k\<close> unfolding w by (simp_all add: word_le_def word_less_def)
qed

lemma dot_drawn:
  assumes "ball_inv b"
  shows "drawn_as b old (raw_value sg (ball_pixcol b) (ball_color b) (ucast old))"
proof -
  let ?y = "word_of_int (ball_y b) :: u8"
  have "ball_y b mod 8 = int (unat ?y mod 8)"
    using dot_coords(3) [OF assms] by (simp only: zmod_int of_nat_numeral)
  then have "int m = ball_y b mod 8 \<longleftrightarrow> m = unat ?y mod 8" for m
    by (simp only: of_nat_eq_iff)
  then show ?thesis
    using raw_value_bits [of _ sg ?y "ball_color b" old] by (simp add: drawn_as_def ball_pixcol_def)
qed

text \<open>Interrupt code leaves the pixels alone.\<close>

lemma entry_no_pixel: "entry_event e \<Longrightarrow> \<not> pixel_event e"
  by (cases e) (auto simp: word_at_def display_def word_le_nat_alt word_less_nat_alt)

lemma handles_no_pixel: "handles w w' \<Longrightarrow> \<exists>es. trace w' = trace w @ es \<and> filter pixel_event es = []"
  unfolding handles_def using entry_no_pixel by (metis filter_False)

lemma mode_no_pixel: "\<exists>es. trace (set_mode P m w) = trace w @ es \<and> filter pixel_event es = []"
  by (simp add: set_mode_def store_word_def trace_iowrite) (simp add: word_at_def display_def)

section \<open>The invariant\<close>

definition ball_at :: "nat \<Rightarrow> ball" where
  "ball_at n = (main_move ^^ n) main_start"

lemma ball_path_snoc: "ball_path b (Suc n) = ball_path b n @ [(main_move ^^ n) b]"
  by (induction n arbitrary: b) (simp_all add: funpow_swap1)

lemma ball_path_length [simp]: "length (ball_path b n) = n"
  by (induction n arbitrary: b) simp_all

lemma ball_path_nth: "j < n \<Longrightarrow> ball_path b n ! j = (main_move ^^ j) b"
  by (induction n arbitrary: b j) (auto simp: nth_Cons funpow_swap1 split: nat.splits)

lemma ball_inv_at: "ball_inv (ball_at n)"
proof (induction n)
  case 0
  show ?case
    by (simp add: ball_at_def ball_inv_def main_start_def)
next
  case (Suc n)
  then show ?case
    using ball_inv_move by (simp add: ball_at_def)
qed

text \<open>
  How many of the dots from the current one on are drawn; the accesses to the pixels that a number
  of dots make, and the access that has been made for the current one.
\<close>

definition drawn :: "main_pc \<Rightarrow> nat" where
  "drawn p = (case p of AtIdle \<Rightarrow> 1 | AtMove \<Rightarrow> 1 | _ \<Rightarrow> 0)"

definition dots_drawn :: "nat \<Rightarrow> (u32 \<times> u32) list \<Rightarrow> 'k event list \<Rightarrow> bool" where
  "dots_drawn k rs es \<longleftrightarrow> length rs = k \<and> es = concat (map2 dot_acts (ball_path main_start k) rs)
     \<and> (\<forall>j < k. drawn_as (ball_path main_start k ! j) (fst (rs ! j)) (snd (rs ! j)))"

definition half_drawn :: "ball \<Rightarrow> main_pc \<Rightarrow> 'k event list \<Rightarrow> bool" where
  "half_drawn b p es \<longleftrightarrow> (case p of AtStore c \<Rightarrow> (\<exists>old. c = ucast old \<and> es = [EvRead IO32 (dot_word b) old]) | _ \<Rightarrow> es = [])"

definition demo_inv :: "demo_isr event list \<Rightarrow> nat \<Rightarrow> 'd demo \<Rightarrow> bool" where
  "demo_inv tr n s \<longleftrightarrow> isr_ptr_table (m_cpu s) = demo_table \<and> m_ball s = ball_at n
     \<and> (\<exists>es rs done part. trace (m_world s) = tr @ es \<and> filter pixel_event es = done @ part
          \<and> dots_drawn (n + drawn (m_pc s)) rs done \<and> half_drawn (m_ball s) (m_pc s) part)"

lemma demo_invI:
  assumes "trace (m_world s) = tr @ es" "filter pixel_event es = ds @ part" "dots_drawn (n + drawn (m_pc s)) rs ds"
    "half_drawn (m_ball s) (m_pc s) part" "isr_ptr_table (m_cpu s) = demo_table" "m_ball s = ball_at n"
  shows "demo_inv tr n s"
  unfolding demo_inv_def using assms by blast

lemma dots_drawn_Suc:
  assumes "dots_drawn k rs es" "drawn_as (ball_at k) (fst r) (snd r)"
  shows "dots_drawn (Suc k) (rs @ [r]) (es @ dot_acts (ball_at k) r)"
proof -
  have "\<forall>j < Suc k. drawn_as (ball_path main_start (Suc k) ! j) (fst ((rs @ [r]) ! j)) (snd ((rs @ [r]) ! j))"
    using assms by (auto simp: dots_drawn_def ball_path_snoc ball_at_def nth_append less_Suc_eq simp del: ball_path.simps)
  then show ?thesis
    using assms(1) by (simp add: dots_drawn_def ball_path_snoc ball_at_def del: ball_path.simps)
qed

text \<open>Whatever leaves the pixels alone keeps the invariant.\<close>

lemma demo_inv_frame:
  assumes "demo_inv tr n s" "isr_ptr_table (m_cpu t) = demo_table" "m_ball t = m_ball s"
    "drawn (m_pc t) = drawn (m_pc s)" "\<And>es :: demo_isr event list. half_drawn (m_ball s) (m_pc s) es \<Longrightarrow> half_drawn (m_ball s) (m_pc t) es"
    "\<exists>es. trace (m_world t) = trace (m_world s) @ es \<and> filter pixel_event es = []"
  shows "demo_inv tr n t"
proof -
  obtain es rs ds part where i: "trace (m_world s) = tr @ es" "filter pixel_event es = ds @ part"
    "dots_drawn (n + drawn (m_pc s)) rs ds" "half_drawn (m_ball s) (m_pc s) part" "m_ball s = ball_at n"
    using assms(1) unfolding demo_inv_def by blast
  obtain fs where "trace (m_world t) = trace (m_world s) @ fs" "filter pixel_event fs = []"
    using assms(6) by blast
  then show ?thesis
    using i assms(2-5) by (intro demo_invI [of t tr "es @ fs" ds part n rs]) simp_all
qed

lemma demo_inv_step:
  assumes "dstep P U sg buffer s t" "demo_inv tr n s" "9 \<le> length buffer"
  shows "\<exists>n'. demo_inv tr n' t"
  using assms(1)
proof cases
  case at_mode
  then have "demo_inv tr n t"
    using assms(2) mode_no_pixel by (intro demo_inv_frame [OF assms(2)]) (simp_all add: demo_inv_def drawn_def half_drawn_def)
  then show ?thesis ..
next
  case (at_load old w)
  note d = dot_word_index [OF ball_inv_at [of n]]
  obtain es rs ds part where i: "trace (m_world s) = tr @ es" "filter pixel_event es = ds @ part" "dots_drawn n rs ds"
    "part = []" "m_ball s = ball_at n" "isr_ptr_table (m_cpu s) = demo_table"
    using assms(2) at_load(2) unfolding demo_inv_def by (auto simp: drawn_def half_drawn_def)
  have "trace w = tr @ es @ [EvRead IO32 (dot_word (ball_at n)) old]"
    using at_load(3) d(1) i(1,5) by (auto simp: load_word_def ioread_def split: prod.splits)
  moreover have "filter pixel_event (es @ [EvRead IO32 (dot_word (ball_at n)) old]) = ds @ [EvRead IO32 (dot_word (ball_at n)) old]"
    using i(2,4) d(2,3) by simp
  ultimately have "demo_inv tr n t"
    using at_load(1) i(3,5,6) by (intro demo_invI) (auto simp: drawn_def half_drawn_def)
  then show ?thesis ..
next
  case (at_store c)
  note d = dot_word_index [OF ball_inv_at [of n]]
  obtain es rs ds old where i: "trace (m_world s) = tr @ es" "filter pixel_event es = ds @ [EvRead IO32 (dot_word (ball_at n)) old]"
    "dots_drawn n rs ds" "c = ucast old" "m_ball s = ball_at n" "isr_ptr_table (m_cpu s) = demo_table"
    using assms(2) at_store(2) unfolding demo_inv_def by (auto simp: drawn_def half_drawn_def)
  let ?v = "raw_value sg (ball_pixcol (ball_at n)) (ball_color (ball_at n)) (ucast old)"
  have "trace (m_world t) = tr @ es @ [EvWrite IO32 (dot_word (ball_at n)) ?v]"
    using at_store(1) d(1) i(1,4,5) by (simp add: store_word_def trace_iowrite)
  moreover have "filter pixel_event (es @ [EvWrite IO32 (dot_word (ball_at n)) ?v]) = (ds @ dot_acts (ball_at n) (old, ?v)) @ []"
    (is "?es = _")
    using i(2) d(2,3) by (simp add: dot_acts_def)
  moreover have "dots_drawn (n + drawn (m_pc t)) (rs @ [(old, ?v)]) (ds @ dot_acts (ball_at n) (old, ?v))"
    using dots_drawn_Suc [OF i(3), of "(old, ?v)"] dot_drawn [OF ball_inv_at] at_store(1) by (simp add: drawn_def)
  moreover have "half_drawn (m_ball t) (m_pc t) []"
    using at_store(1) by (simp add: half_drawn_def)
  ultimately have "demo_inv tr n t"
    by (rule demo_invI) (use at_store(1) i(5,6) in simp_all)
  then show ?thesis ..
next
  case at_idle
  then have "demo_inv tr n t"
    using assms(2) mode_no_pixel by (intro demo_inv_frame [OF assms(2)]) (simp_all add: demo_inv_def drawn_def half_drawn_def)
  then show ?thesis ..
next
  case at_move
  then have "demo_inv tr (Suc n) t"
    using assms(2) by (simp add: demo_inv_def drawn_def half_drawn_def ball_at_def)
  then show ?thesis ..
next
  case (arrive d)
  then have "demo_inv tr n t"
    using assms(2) by (intro demo_inv_frame [OF assms(2)]) (simp_all add: demo_inv_def)
  then show ?thesis ..
next
  case (interrupt c w)
  obtain s' w' where e: "irq_entry P U sg buffer (m_cpu s) (m_world s) = Inr (s', w')" "isr_ptr_table s' = demo_table"
    "handles (set_mode P MODE_UART (m_world s)) w'"
    using irq_entry_handles [OF assms(3)] assms(2) by (metis demo_inv_def)
  obtain es fs where "trace w' = trace (set_mode P MODE_UART (m_world s)) @ es" "filter pixel_event es = []"
    "trace (set_mode P MODE_UART (m_world s)) = trace (m_world s) @ fs" "filter pixel_event fs = []"
    using handles_no_pixel [OF e(3)] mode_no_pixel by metis
  then have "demo_inv tr n t"
    using interrupt e by (intro demo_inv_frame [OF assms(2)]) (auto intro!: exI [of _ "fs @ es"])
  then show ?thesis ..
qed

lemma demo_inv_reach:
  assumes "(dstep P U sg buffer)\<^sup>*\<^sup>* s t" "demo_inv tr n s" "9 \<le> length buffer"
  shows "\<exists>n'. demo_inv tr n' t"
  using assms(1) by (induction rule: rtranclp_induct) (use assms(2,3) demo_inv_step in blast)+

text \<open>The state in which \<open>main\<close> enters its loop, whatever the devices and the pending lines are.\<close>

definition loop_entry :: "'d demo \<Rightarrow> bool" where
  "loop_entry s \<longleftrightarrow> isr_ptr_table (m_cpu s) = demo_table \<and> m_ball s = main_start \<and> m_pc s = AtMode"

lemma demo_inv_entry: "loop_entry s \<Longrightarrow> demo_inv (trace (m_world s)) 0 s"
  by (auto simp: loop_entry_def demo_inv_def ball_at_def drawn_def dots_drawn_def half_drawn_def)

section \<open>A lost mode\<close>

definition demo_state :: "unit msi_hw demo" where
  "demo_state = \<lparr>m_cpu = demo_cpu, m_world = \<lparr>dev = demo_msi [] 0, trace = []\<rparr>, m_ball = main_start, m_pc = AtMode\<rparr>"

lemma demo_state_entry: "loop_entry demo_state"
  by (simp add: loop_entry_def demo_state_def demo_cpu_def)

lemma push_pending:
  assumes "i < 32" "i < length (m_queues (clock h))" "bit (m_ena h) i" "length (m_queues (clock h) ! i) < m_depth h"
  shows "bit (rcsr_ip lm32_unit (msi_push i m h)) i"
  using assms by (simp add: msi_push_def rcsr bit_simps bit_lines Let_def del: clock_fields(7))

text \<open>
  The display's mode is state that both sides change. When a message arrives between the accesses of
  \<open>disp_put_raw\<close>, the interrupt leaves the mode of the character port, and the loop goes on to store
  its pixels.
\<close>

lemma demo_mode_lost:
  "\<exists>s old. (dstep (msi_at no_display) lm32_unit False (replicate 12 0))\<^sup>*\<^sup>* demo_state s \<and> m_pc s = AtStore old
    \<and> last (written_at mode_reg (trace (m_world s))) = MODE_UART"
proof -
  let ?P = "msi_at no_display"
  let ?step = "dstep ?P lm32_unit False (replicate 12 0)"
  let ?s1 = "demo_state\<lparr>m_world := set_mode ?P MODE_RAW (m_world demo_state), m_pc := AtLoad\<rparr>"
  obtain old w2 where l: "load_word ?P display (raw_index (m_ball ?s1)) (m_world ?s1) = (old, w2)"
    by fastforce
  let ?s2 = "?s1\<lparr>m_world := w2, m_pc := AtStore (ucast old)\<rparr>"
  let ?d = "msi_push 1 demo_msg (dev w2)"
  let ?s3 = "?s2\<lparr>m_world := (m_world ?s2)\<lparr>dev := ?d\<rparr>\<rparr>"
  have "core_view (dev w2) = core_view (dev (m_world demo_state))"
    using read_view(1) [OF l [unfolded load_word_def]] msi_port.mode_keeps
    by (simp add: set_mode_def store_word_def iowrite_def)
  note v = viewD [OF this]
  have d: "dev (m_world demo_state) = demo_msi [] 0" "m_ena (demo_msi [] 0) = 3" "m_depth (demo_msi [] 0) = 8"
    by (simp_all add: demo_state_def demo_msi_def)
  have "m_queues (clock (dev w2)) = [[], []]" "m_ena (dev w2) = 3" "m_depth (dev w2) = 8"
    using v(1,3,7) demo_msi_rest(1) [of "[]" 0] unfolding d by (simp_all add: d(2,3))
  then have p: "bit (rcsr_ip lm32_unit ?d) 1"
    by (intro push_pending) (simp_all add: bit_numeral_rec del: clock_fields)
  have cpu: "isr_ptr_table (m_cpu ?s3) = demo_table" "csr_ie (m_cpu ?s3) AND 1 \<noteq> 0" "csr_im (m_cpu ?s3) = 3"
    by (simp_all add: demo_state_def demo_cpu_def)
  have "bit (rcsr_ip lm32_unit ?d AND 3) 1"
    using p by (simp add: bit_and_iff bit_numeral_rec)
  then have pending: "rcsr_ip lm32_unit (dev (m_world ?s3)) AND csr_im (m_cpu ?s3) \<noteq> 0"
    unfolding cpu(3) by auto
  obtain c w4 where i: "irq_entry ?P lm32_unit False (replicate 12 0) (m_cpu ?s3) (m_world ?s3) = Inr (c, w4)"
    "handles (set_mode ?P MODE_UART (m_world ?s3)) w4"
    using irq_entry_handles [of "replicate 12 0" "m_cpu ?s3" ?P lm32_unit False "m_world ?s3"] cpu(1) by auto
  obtain es where es: "trace w4 = trace (set_mode ?P MODE_UART (m_world ?s3)) @ es" "\<forall>e \<in> set es. entry_event e"
    using i(2) unfolding handles_def by blast
  have "set (written_at mode_reg (EvWrite IO32 mode_reg MODE_UART # es)) \<subseteq> {MODE_UART}"
    by (rule mode_writes) (use es(2) in simp)
  then have "last (written_at mode_reg (EvWrite IO32 mode_reg MODE_UART # es)) = MODE_UART"
    using last_in_set [of "written_at mode_reg (EvWrite IO32 mode_reg MODE_UART # es)"] by auto
  moreover have "trace w4 = trace (m_world ?s3) @ EvWrite IO32 mode_reg MODE_UART # es"
    unfolding es(1) by (simp add: set_mode_def store_word_def trace_iowrite)
  ultimately have m: "last (written_at mode_reg (trace w4)) = MODE_UART"
    by simp
  let ?s4 = "?s3\<lparr>m_cpu := c, m_world := w4\<rparr>"
  have "?step demo_state ?s1"
    by (rule at_mode) (simp add: demo_state_def)
  moreover have "?step ?s1 ?s2"
    using l by (intro at_load) simp_all
  moreover have "?step ?s2 ?s3"
    using arrive [of ?P lm32_unit False "replicate 12 0" ?s2 ?d] by simp
  moreover have "?step ?s3 ?s4"
    by (rule interrupt [OF cpu(2) pending i(1)])
  ultimately have "?step\<^sup>*\<^sup>* demo_state ?s4"
    by (meson rtranclp.rtrancl_into_rtrancl rtranclp.rtrancl_refl)
  then show ?thesis
    using m by (intro exI [of _ ?s4] exI [of _ "ucast old"]) simp
qed

section \<open>Properties\<close>

text \<open>
  C13: the dot under interrupts. On any platform, and in every interleaving of the main loop with
  changes of the devices and interrupts that are taken, between any two accesses to the display: the
  dot is where the loop alone has it after some number of rounds, within the 64 by 48 pixels. The
  accesses to the pixel memory are those of the loop and no others: for each of these dots, in
  order, the word of the dot is read and then written, the pixel of the dot with the colour of the
  dot and the other seven of the word as they were read. The dot at hand is all drawn, not drawn, or
  has its word read. And an interrupt that is due can be served, without a fault.
\<close>

theorem demo_interleaved:
  assumes "loop_entry s0" "9 \<le> length buffer" "(dstep P U sg buffer)\<^sup>*\<^sup>* s0 s"
  shows "\<exists>n es rs part. m_ball s = (main_move ^^ n) main_start
    \<and> 0 \<le> ball_x (m_ball s) \<and> ball_x (m_ball s) < 64 \<and> 0 \<le> ball_y (m_ball s) \<and> ball_y (m_ball s) < 48
    \<and> trace (m_world s) = trace (m_world s0) @ es
    \<and> length rs = n + (if m_pc s = AtIdle \<or> m_pc s = AtMove then 1 else 0)
    \<and> filter pixel_event es = concat (map2 (\<lambda>b (old, new). [EvRead IO32 (dot_word b) old, EvWrite IO32 (dot_word b) new])
        (ball_path main_start (length rs)) rs) @ part
    \<and> ((\<exists>old. m_pc s = AtStore (ucast old) \<and> part = [EvRead IO32 (dot_word (m_ball s)) old])
       \<or> (\<forall>c. m_pc s \<noteq> AtStore c) \<and> part = [])
    \<and> (\<forall>j < length rs. drawn_as ((main_move ^^ j) main_start) (fst (rs ! j)) (snd (rs ! j)))
    \<and> (\<exists>c w. irq_entry P U sg buffer (m_cpu s) (m_world s) = Inr (c, w))"
proof -
  obtain n where "demo_inv (trace (m_world s0)) n s"
    using demo_inv_reach [OF assms(3) demo_inv_entry assms(2)] assms(1) by blast
  then obtain es rs ds part where n: "isr_ptr_table (m_cpu s) = demo_table" "m_ball s = ball_at n"
    "trace (m_world s) = trace (m_world s0) @ es" "filter pixel_event es = ds @ part"
    "dots_drawn (n + drawn (m_pc s)) rs ds" "half_drawn (m_ball s) (m_pc s) part"
    unfolding demo_inv_def by blast
  have k: "drawn (m_pc s) = (if m_pc s = AtIdle \<or> m_pc s = AtMove then 1 else 0)"
    by (simp add: drawn_def split: main_pc.splits)
  have "(dot_acts :: ball \<Rightarrow> u32 \<times> u32 \<Rightarrow> demo_isr event list) = (\<lambda>b (old, new). [EvRead IO32 (dot_word b) old, EvWrite IO32 (dot_word b) new])"
    by (auto simp: dot_acts_def fun_eq_iff)
  then have d: "length rs = n + drawn (m_pc s)"
    "ds = concat (map2 (\<lambda>b (old, new). [EvRead IO32 (dot_word b) old, EvWrite IO32 (dot_word b) new]) (ball_path main_start (length rs)) rs)"
    "\<forall>j < length rs. drawn_as ((main_move ^^ j) main_start) (fst (rs ! j)) (snd (rs ! j))"
    using n(5) by (simp_all add: dots_drawn_def ball_path_nth)
  have part: "(\<exists>old. m_pc s = AtStore (ucast old) \<and> part = [EvRead IO32 (dot_word (m_ball s)) old])
       \<or> (\<forall>c. m_pc s \<noteq> AtStore c) \<and> part = []"
    using n(6) by (auto simp: half_drawn_def split: main_pc.splits)
  obtain c w where "irq_entry P U sg buffer (m_cpu s) (m_world s) = Inr (c, w)"
    using irq_entry_handles [OF assms(2) n(1)] by blast
  then show ?thesis
    using n(2-4) d part k ball_inv_at [of n]
    by (intro exI [of _ n] exI [of _ es] exI [of _ rs] exI [of _ part]) (simp add: ball_at_def ball_inv_def)
qed

section \<open>Witnesses\<close>

lemma demo_interleaved_witness:
  "\<exists>s n rs. (dstep (msi_at no_display) lm32_unit False (replicate 12 0))\<^sup>*\<^sup>* demo_state s \<and> m_pc s = AtMode \<and> 0 < n
    \<and> m_ball s = (main_move ^^ n) main_start \<and> length rs = n \<and> drawn_as main_start (fst (rs ! 0)) (snd (rs ! 0))"
proof -
  let ?P = "msi_at no_display"
  let ?s = "demo_state\<lparr>m_world := main_draw ?P False (m_ball demo_state) (m_world demo_state), m_ball := main_move (m_ball demo_state)\<rparr>"
  have r: "(dstep ?P lm32_unit False (replicate 12 0))\<^sup>*\<^sup>* demo_state ?s"
    using round_steps [of demo_state] by (simp add: demo_state_def)
  have pc: "m_pc ?s = AtMode" "m_ball ?s = main_move main_start"
    by (simp_all add: demo_state_def)
  obtain n rs where n: "m_ball ?s = (main_move ^^ n) main_start" "length rs = n"
    "\<forall>j < length rs. drawn_as ((main_move ^^ j) main_start) (fst (rs ! j)) (snd (rs ! j))"
    using demo_interleaved [OF demo_state_entry _ r] pc(1) by auto
  moreover have "0 < n"
    using n(1) pc(2) by (cases n) (simp_all add: main_start_def main_move_def Let_def)
  ultimately show ?thesis
    using r pc(1) by (intro exI [of _ ?s] exI [of _ n] exI [of _ rs]) force
qed

end
