(* ===== verification/Testsys.thy ===== *)
theory Testsys
  imports Msi_Irq Wbgen
begin

text \<open>
  The software of the LM32 test system (\<open>lm32_testsys/sw\<close>): the serial port, the pins, the interrupt
  switch, the main program, and the tool that turns a binary into the writes that load it.
\<close>

unbundle bit_operations_syntax

section \<open>Serial port\<close>

text \<open>The registers are fields of a structure at a fixed address.\<close>

definition CPU_CLOCK :: u64 where [simp]: "CPU_CLOCK = 1000000"
definition UART_BAUDRATE :: u64 where [simp]: "UART_BAUDRATE = 10000"
definition BASE_UART :: addr where [simp]: "BASE_UART = 0x20000000"
definition UART_SR :: addr where [simp]: "UART_SR = BASE_UART + 0x0"
definition UART_BCR :: addr where [simp]: "UART_BCR = BASE_UART + 0x4"
definition UART_TDR :: addr where [simp]: "UART_TDR = BASE_UART + 0x8"
definition UART_RDR :: addr where [simp]: "UART_RDR = BASE_UART + 0xc"
definition SR_TX_BUSY :: u32 where "SR_TX_BUSY = WBGEN2_GEN_MASK 0 1"
definition SR_RX_RDY :: u32 where "SR_RX_RDY = WBGEN2_GEN_MASK 1 1"

lemma sr_flags [simp]: "SR_TX_BUSY = 1" "SR_RX_RDY = 2"
  by (simp_all add: SR_TX_BUSY_def SR_RX_RDY_def WBGEN2_GEN_MASK_def)

definition CALC_BAUD :: "u64 \<Rightarrow> u64" where
  "CALC_BAUD baudrate = (push_bit (16 - 7) (baudrate * 8) + drop_bit 8 CPU_CLOCK) div drop_bit 7 CPU_CLOCK"

definition uart_init :: "'d platform \<Rightarrow> ('d, 'k) world \<Rightarrow> ('d, 'k) world" where
  "uart_init P w = iowrite P IO32 (ucast (CALC_BAUD UART_BAUDRATE)) UART_BCR w"

partial_function (option) wait_tx :: "'d platform \<Rightarrow> ('d, 'k) world \<Rightarrow> ('d, 'k) world option" where
  "wait_tx P w = (let (sr, w) = ioread P IO32 UART_SR w in if sr AND SR_TX_BUSY \<noteq> 0 then wait_tx P w else Some w)"

partial_function (option) uart_write_byte :: "'d platform \<Rightarrow> u8 \<Rightarrow> ('d, 'k) world \<Rightarrow> ('d, 'k) world option" where
  "uart_write_byte P x w = Option.bind (wait_tx P w) (\<lambda>w.
     let w = iowrite P IO32 (ucast x) UART_TDR w
     in if x = 10 then uart_write_byte P 13 w else Some w)"

definition uart_poll :: "'d platform \<Rightarrow> ('d, 'k) world \<Rightarrow> u32 \<times> ('d, 'k) world" where
  "uart_poll P w = (let (sr, w) = ioread P IO32 UART_SR w in (sr AND SR_RX_RDY, w))"

definition uart_read_byte :: "'d platform \<Rightarrow> ('d, 'k) world \<Rightarrow> u32 \<times> ('d, 'k) world" where
  "uart_read_byte P w = (let (x, w) = ioread P IO32 UART_RDR w in (x AND 0xff, w))"

fun write_bytes :: "'d platform \<Rightarrow> u8 list \<Rightarrow> ('d, 'k) world \<Rightarrow> ('d, 'k) world option" where
  "write_bytes P [] w = Some w"
| "write_bytes P (x # xs) w = Option.bind (uart_write_byte P x w) (write_bytes P xs)"

text \<open>The main program: eight times the letter U.\<close>

definition testsys_main :: "'d platform \<Rightarrow> ('d, 'k) world \<Rightarrow> ('d, 'k) world option" where
  "testsys_main P w = write_bytes P [85, 85, 85, 85, 85, 85, 85, 85] (uart_init P w)"

section \<open>Pins\<close>

definition BASE_GPIO :: addr where [simp]: "BASE_GPIO = 0x20000000"
definition GPIO_CODR :: addr where [simp]: "GPIO_CODR = BASE_GPIO + 0x0"
definition GPIO_SODR :: addr where [simp]: "GPIO_SODR = BASE_GPIO + 0x4"
definition GPIO_DDR :: addr where [simp]: "GPIO_DDR = BASE_GPIO + 0x8"
definition GPIO_PSR :: addr where [simp]: "GPIO_PSR = BASE_GPIO + 0xc"

definition gpio_out :: "'d platform \<Rightarrow> nat \<Rightarrow> int \<Rightarrow> ('d, 'k) world \<Rightarrow> ('d, 'k) world" where
  "gpio_out P pin val w =
     (if val \<noteq> 0 then iowrite P IO32 (push_bit pin 1) GPIO_SODR w
      else iowrite P IO32 (push_bit pin 1) GPIO_CODR w)"

definition gpio_dir :: "'d platform \<Rightarrow> nat \<Rightarrow> int \<Rightarrow> ('d, 'k) world \<Rightarrow> ('d, 'k) world" where
  "gpio_dir P pin val w =
     (let (x, w) = ioread P IO32 GPIO_DDR w
      in if val \<noteq> 0 then iowrite P IO32 (x OR push_bit pin 1) GPIO_DDR w
         else iowrite P IO32 (x AND NOT (push_bit pin 1)) GPIO_DDR w)"

definition gpio_in :: "'d platform \<Rightarrow> nat \<Rightarrow> ('d, 'k) world \<Rightarrow> int \<times> ('d, 'k) world" where
  "gpio_in P pin w = (let (x, w) = ioread P IO32 GPIO_PSR w in (if x AND push_bit pin 1 \<noteq> 0 then 1 else 0, w))"

section \<open>Interrupt switch\<close>

definition disable_irq :: "'f lm32 \<Rightarrow> 'f lm32" where
  "disable_irq s =
     (let s = s\<lparr>csr_ie := csr_ie s AND NOT 1\<rparr>
      in s\<lparr>csr_im := csr_im s AND NOT 1\<rparr>)"

definition enable_irq :: "'f lm32 \<Rightarrow> 'f lm32" where
  "enable_irq s =
     (let ie = csr_ie s AND NOT 1;
          s = s\<lparr>csr_ie := ie\<rparr>;
          s = s\<lparr>csr_im := csr_im s OR 1\<rparr>
      in s\<lparr>csr_ie := ie OR 1\<rparr>)"

section \<open>The image tool\<close>

text \<open>
  \<open>genraminit\<close> prints one line per word, an address and four bytes. \<open>fread\<close> leaves the bytes it did
  not read as they were and sets the end-of-file mark when it comes up short, not before. \<open>x\<close> is
  the buffer, whatever it holds at first.
\<close>

function image_words :: "u8 list \<Rightarrow> bool \<Rightarrow> u8 list \<Rightarrow> nat \<Rightarrow> (nat \<times> u8 list) list" where
  "image_words rest eof x i =
     (if eof then []
      else let got = take 4 rest; x = got @ drop (length got) x
        in (i, x) # image_words (drop 4 rest) (length got < 4) x (i + 1))"
  by pat_completeness auto

termination
  by (relation "measure (\<lambda>(rest, eof, x, i). length rest + (if eof then 0 else 1))") auto

declare image_words.simps [simp del]

definition genram_main :: "u8 list option \<Rightarrow> int \<Rightarrow> u8 list \<Rightarrow> int \<Rightarrow> int \<times> (nat \<times> u8 list) list" where
  "genram_main file argc x n =
     (if argc < 3 then (-1, [])
      else case file of None \<Rightarrow> (-1, [])
      | Some bytes \<Rightarrow>
          let ls = image_words bytes False x 0
          in (0, ls @ map (\<lambda>i. (i, [0, 0, 0, 0])) [length ls..<nat n]))"

section \<open>Sending\<close>

text \<open>The port takes a byte only when it was last seen not busy: \<open>polite ready es\<close>.\<close>

fun polite :: "bool \<Rightarrow> 'k event list \<Rightarrow> bool" where
  "polite ready [] = True"
| "polite ready (EvRead c a v # es) = polite (if a = UART_SR then v AND SR_TX_BUSY = 0 else ready) es"
| "polite ready (EvWrite c a v # es) = (if a = UART_TDR then ready \<and> polite False es else polite ready es)"
| "polite ready (EvCall k # es) = polite ready es"

text \<open>A port that is busy gets done: \<open>m\<close> falls with every look at it.\<close>

definition drains :: "('d \<Rightarrow> nat) \<Rightarrow> 'd platform \<Rightarrow> bool" where
  "drains m P \<longleftrightarrow> (\<forall>d. fst (p_read P IO32 UART_SR d) AND SR_TX_BUSY \<noteq> 0 \<longrightarrow> m (snd (p_read P IO32 UART_SR d)) < m d)"

lemma wait_tx_returns:
  assumes "drains m P"
  shows "\<exists>w' es. wait_tx P w = Some w' \<and> trace w' = trace w @ es \<and> written_at UART_TDR es = [] \<and> written_at UART_BCR es = []
    \<and> (\<forall>r fs. polite r (es @ fs) = polite True fs)"
proof (induction "m (dev w)" arbitrary: w rule: less_induct)
  case less
  obtain v w1 where r: "ioread P IO32 UART_SR w = (v, w1)"
    by fastforce
  then have t: "trace w1 = trace w @ [EvRead IO32 UART_SR v]" "v = fst (p_read P IO32 UART_SR (dev w))"
    "dev w1 = snd (p_read P IO32 UART_SR (dev w))"
    by (auto simp: ioread_def split: prod.splits)
  show ?case
  proof (cases "v AND SR_TX_BUSY = 0")
    case True
    then have "wait_tx P w = Some w1"
      using r by (subst wait_tx.simps) simp
    then show ?thesis
      using True t(1) by (intro exI [of _ w1] exI [of _ "[EvRead IO32 UART_SR v]"]) simp
  next
    case False
    then have "m (dev w1) < m (dev w)"
      using assms t(2,3) unfolding drains_def by simp
    then obtain w' es where IH: "wait_tx P w1 = Some w'" "trace w' = trace w1 @ es" "written_at UART_TDR es = []"
      "written_at UART_BCR es = []" "\<forall>r fs. polite r (es @ fs) = polite True fs"
      using less.hyps by blast
    have "wait_tx P w = wait_tx P w1"
      using r False by (subst wait_tx.simps) simp
    then show ?thesis
      using IH t(1) by (intro exI [of _ w'] exI [of _ "EvRead IO32 UART_SR v # es"]) simp
  qed
qed

definition on_the_line :: "u8 \<Rightarrow> u32 list" where
  "on_the_line x = (if x = 10 then [10, 13] else [ucast x])"

lemma send_one:
  assumes "drains m P"
  shows "\<exists>w' es. Option.bind (wait_tx P w) (\<lambda>w. Some (iowrite P IO32 v UART_TDR w)) = Some w' \<and> trace w' = trace w @ es
    \<and> written_at UART_TDR es = [v] \<and> written_at UART_BCR es = [] \<and> (\<forall>r fs. polite r (es @ fs) = polite False fs)"
proof -
  obtain w' es where w: "wait_tx P w = Some w'" "trace w' = trace w @ es" "written_at UART_TDR es = []"
      "written_at UART_BCR es = []" "\<forall>r fs. polite r (es @ fs) = polite True fs"
    using wait_tx_returns [OF assms, of w] by blast
  then show ?thesis
    by (intro exI [of _ "iowrite P IO32 v UART_TDR w'"] exI [of _ "es @ [EvWrite IO32 UART_TDR v]"])
      (simp add: trace_iowrite)
qed

lemma write_byte_returns:
  assumes "drains m P"
  shows "\<exists>w' es. uart_write_byte P x w = Some w' \<and> trace w' = trace w @ es
    \<and> written_at UART_TDR es = on_the_line x \<and> written_at UART_BCR es = [] \<and> (\<forall>r fs. polite r (es @ fs) = polite False fs)"
proof -
  obtain w1 es where w1: "Option.bind (wait_tx P w) (\<lambda>w. Some (iowrite P IO32 (ucast x) UART_TDR w)) = Some w1"
    "trace w1 = trace w @ es" "written_at UART_TDR es = [ucast x]" "written_at UART_BCR es = []"
    "\<forall>r fs. polite r (es @ fs) = polite False fs"
    using send_one [OF assms, of w "ucast x"] by blast
  have s: "uart_write_byte P x w = (if x = 10 then uart_write_byte P 13 w1 else Some w1)"
    using w1(1) by (subst uart_write_byte.simps) (auto simp: bind_eq_Some_conv)
  show ?thesis
  proof (cases "x = 10")
    case True
    obtain w2 fs where w2: "Option.bind (wait_tx P w1) (\<lambda>w. Some (iowrite P IO32 13 UART_TDR w)) = Some w2"
      "trace w2 = trace w1 @ fs" "written_at UART_TDR fs = [13]" "written_at UART_BCR fs = []"
      "\<forall>r gs. polite r (fs @ gs) = polite False gs"
      using send_one [OF assms, of w1 13] by blast
    have "uart_write_byte P 13 w1 = Some w2"
      using w2(1) by (subst uart_write_byte.simps) (auto simp: bind_eq_Some_conv)
    then show ?thesis
      using s w1 w2 True by (intro exI [of _ w2] exI [of _ "es @ fs"]) (simp add: on_the_line_def)
  next
    case False
    then show ?thesis
      using s w1 by (intro exI [of _ w1] exI [of _ es]) (simp add: on_the_line_def)
  qed
qed

lemma write_bytes_returns:
  assumes "drains m P"
  shows "\<exists>w' es. write_bytes P xs w = Some w' \<and> trace w' = trace w @ es
    \<and> written_at UART_TDR es = concat (map on_the_line xs) \<and> written_at UART_BCR es = [] \<and> polite False es"
proof (induction xs arbitrary: w)
  case Nil
  then show ?case
    by (auto intro: exI [of _ "[]"])
next
  case (Cons x xs)
  obtain w1 es where w1: "uart_write_byte P x w = Some w1" "trace w1 = trace w @ es"
    "written_at UART_TDR es = on_the_line x" "written_at UART_BCR es = []" "\<forall>r fs. polite r (es @ fs) = polite False fs"
    using write_byte_returns [OF assms, of x w] by blast
  obtain w2 fs where w2: "write_bytes P xs w1 = Some w2" "trace w2 = trace w1 @ fs"
    "written_at UART_TDR fs = concat (map on_the_line xs)" "written_at UART_BCR fs = []" "polite False fs"
    using Cons.IH [of w1] by blast
  then show ?case
    using w1 by (intro exI [of _ w2] exI [of _ "es @ fs"]) simp
qed

section \<open>Lines of the image\<close>

definition image_word :: "u8 list \<Rightarrow> u8 list \<Rightarrow> nat \<Rightarrow> u8 list" where
  "image_word rest x k =
     (if k < length rest div 4 then take 4 (drop (4 * k) rest)
      else drop (4 * k) rest @ drop (length rest mod 4) (if k = 0 then x else take 4 (drop (4 * (k - 1)) rest)))"

lemma image_words_short:
  "length rest < 4 \<Longrightarrow> image_words rest False x i = [(i, rest @ drop (length rest) x)]"
  by (subst image_words.simps) (simp add: image_words.simps)

lemma image_words_long:
  "4 \<le> length rest \<Longrightarrow> length x = 4 \<Longrightarrow> image_words rest False x i = (i, take 4 rest) # image_words (drop 4 rest) False (take 4 rest) (i + 1)"
  by (subst image_words.simps) (simp add: Let_def)

lemma image_words_spec:
  assumes "length x = 4"
  shows "image_words rest False x i = map (\<lambda>k. (i + k, image_word rest x k)) [0..<length rest div 4 + 1]"
  using assms
proof (induction "length rest" arbitrary: rest x i rule: less_induct)
  case less
  show ?case
  proof (cases "length rest < 4")
    case True
    then show ?thesis
      by (simp add: image_words_short image_word_def)
  next
    case False
    then have l: "4 \<le> length rest" "length (drop 4 rest) < length rest" "length (take 4 rest) = 4"
      by simp_all
    have d: "length rest div 4 = Suc ((length rest - 4) div 4)" "(length rest - 4) mod 4 = length rest mod 4"
      using l(1) by (simp_all add: le_div_geq le_mod_geq)
    have w: "image_word (drop 4 rest) (take 4 rest) k = image_word rest x (Suc k)" for k
      using d by (cases k) (simp_all add: image_word_def add.commute)
    have z: "image_word rest x 0 = take 4 rest"
      using d by (simp add: image_word_def)
    have "image_words rest False x i = (i, take 4 rest) # map (\<lambda>k. (i + 1 + k, image_word rest x (Suc k)))
        [0..<(length rest - 4) div 4 + 1]"
      using less.hyps [OF l(2,3)] image_words_long [OF l(1) less.prems] w by simp
    also have "\<dots> = map (\<lambda>k. (i + k, image_word rest x k)) (0 # map Suc [0..<(length rest - 4) div 4 + 1])"
      by (simp add: z)
    also have "0 # map Suc [0..<(length rest - 4) div 4 + 1] = [0..<length rest div 4 + 1]"
      unfolding d map_Suc_upt by (simp add: upt_conv_Cons)
    finally show ?thesis .
  qed
qed

section \<open>Properties\<close>

text \<open>
  The serial output. When a busy port gets done in the end, any sequence of bytes is sent: the
  calls return, the transmit register gets the bytes in order, with a carriage return after each
  line feed, and no byte is written unless the port was last seen not busy.
\<close>

theorem uart_bytes_sent:
  assumes "drains m P"
  shows "\<exists>w' es. write_bytes P xs w = Some w' \<and> trace w' = trace w @ es
    \<and> written_at UART_TDR es = concat (map (\<lambda>x. if x = 10 then [10, 13] else [ucast x]) xs) \<and> polite False es"
  using write_bytes_returns [OF assms, of xs w] unfolding on_the_line_def by blast

text \<open>
  C38: the image. \<open>genraminit\<close> prints the words of the file at consecutive addresses and fills up to
  \<open>n\<close> words with zeros. After the last whole word it always prints one more line: the bytes left
  over, completed by the old content of the buffer. When the file is a number of whole words that
  line repeats the last of them, and a file of \<open>n\<close> words becomes \<open>n + 1\<close> lines.
\<close>

theorem genram_lines:
  fixes bytes :: "u8 list"
  assumes "3 \<le> argc" "length x = 4"
  defines "q \<equiv> length bytes div 4"
  shows "genram_main (Some bytes) argc x n = (0, map (\<lambda>k. (k,
      if k < q then take 4 (drop (4 * k) bytes)
      else if k = q then drop (4 * q) bytes @ drop (length bytes mod 4) (if q = 0 then x else take 4 (drop (4 * (q - 1)) bytes))
      else [0, 0, 0, 0])) [0..<max (q + 1) (nat n)])"
proof -
  have "[0..<max (q + 1) (nat n)] = [0..<q + 1] @ [q + 1..<nat n]"
    using upt_add_eq_append [of 0 "q + 1" "nat n - (q + 1)"] by (cases "nat n \<le> q + 1") (simp_all add: max_def del: upt_Suc)
  then show ?thesis
    using assms(1) image_words_spec [OF assms(2), of bytes 0]
    by (auto simp: genram_main_def image_word_def q_def less_Suc_eq simp del: upt_Suc)
qed

section \<open>Witnesses\<close>

definition slow_port :: "nat platform" where
  "slow_port = \<lparr>p_read = (\<lambda>c a d. if d = 0 then (0, 3) else (1, d - 1)), p_write = (\<lambda>c a v d. d),
     p_jiffies = (\<lambda>d. (0, d)), p_msecs = of_nat\<rparr>"

lemma slow_port_drains: "drains id slow_port"
  by (simp add: drains_def slow_port_def)

lemma uart_bytes_sent_witness:
  "\<exists>w'. write_bytes slow_port [72, 10] \<lparr>dev = 2, trace = [] :: nat event list\<rparr> = Some w'
    \<and> written_at UART_TDR (trace w') = [72, 10, 13]"
  using uart_bytes_sent [OF slow_port_drains, of "[72, 10]" "\<lparr>dev = 2, trace = []\<rparr>"] by auto

lemma genram_lines_witness:
  "snd (genram_main (Some [1, 2, 3, 4]) 3 [0, 0, 0, 0] 1) = [(0, [1, 2, 3, 4]), (1, [1, 2, 3, 4])]"
  using genram_lines [of 3 "[0, 0, 0, 0]" "[1, 2, 3, 4]" 1] by simp

end
