(* ===== verification/Spec2Isabelle.thy ===== *)
theory Spec2Isabelle
  imports Base Kernel_Io Clock Buffers Fifo Wbgen
    I2c_Regs I2c_Process I2c_Script I2c_Xfer I2c_Transfer I2c_Core I2c_Init I2c_Concurrency I2c_Probe I2c_Compat
    Uart_Channel Uart_Tty Uart_Hw Uart_Life Uart_Race Uart_Probe
    Spi_Regs Spi_Xfer Spi_Data Spi_Order Spi_Transfer Spi_Message Spi_Drive Spi_Core Spi_Line Spi_Hw Spi_Limits Spi_Probe
    Vic_Regs Vic_Irq Vic_Debug Vic_Probe Vic_Hw Vic_Handler Vic_Chip Vic_Install
    Msi_Irq Msi_Display Msi_Demo Msi_Core Msi_Preempt
    Testsys
begin

text \<open>
  The C software of the OHWR general-cores collection, with the theorems that make it correct.

  The repository is a library of gateware cores for the Wishbone bus. Its C code is what runs
  against them: four Linux drivers (\<open>src/software\<close>: the I2C master, the SPI master, the UART and the
  HT-VIC interrupt controller) and two bare-metal programs for the LM32 soft processor (the
  message-signalled-interrupt demonstration \<open>src/modules/wishbone/wb_irq/msidemo\<close> and the test system
  \<open>src/testbench/wishbone/lm32_testsys/sw\<close>). The parts share no C code, but they share a shape: each
  owns a few registers, moves data between them and memory, and is driven by interrupts, by
  polling, or both. The prelude has that shape once.

  \<^bold>\<open>The machine.\<close> \<open>Base\<close> has the C integer types as words of their width, \<open>int\<close> for the int of C where it
  cannot overflow, the error numbers, and the faults \<open>c_fault\<close> of a C statement (a null or bad pointer,
  an index out of range, a division by zero): every operation that can fault returns
  \<open>c_fault + 'a\<close>. \<open>Kernel_Io\<close> has the kernel's register accessors. The device behind the registers is
  not C code, so a \<open>platform\<close> is a parameter of every operation: what a read returns, what a write
  does, how far the clock is. A \<open>world\<close> is the device together with the trace of all reads, writes and
  calls into the kernel so far; the operations pass it along, and the theorems about order speak
  of the trace. \<open>Buffers\<close> has blocks of bytes with pointers into them and the byte order of the
  processor, \<open>Clock\<close> the tick counter that wraps around.

  \<^bold>\<open>Interfaces.\<close> \<open>reg_file\<close> (\<open>Kernel_Io\<close>): a register reads back the last value written to it; shown for the
  access families of the I2C driver over a bank of registers (\<open>oc\<close>), for those of the SPI driver
  (\<open>spi_bank\<close>) and for the vector table of the HT-VIC (\<open>vic_table\<close>), and used for what a configuration
  sequence leaves behind. \<open>poll_loop\<close> (\<open>Clock\<close>): a loop that reads a register until it shows a value or
  a deadline has passed; shown for the waits of the I2C driver (\<open>i2c_poll\<close>) and of the SPI driver
  (\<open>spi_poll\<close>), which gives their termination. \<open>spi_io\<close> (\<open>Spi_Hw\<close>): what every access preserves, each
  function of the SPI driver preserves; shown for the core on the bus (\<open>core_io\<close>). \<open>char_port\<close> (\<open>Msi_Demo\<close>):
  the part of the devices that printing leaves alone; shown for any platform (\<open>any_port\<close>) and for the
  interrupt hardware of the LM32 (\<open>msi_port\<close>). \<open>fifo\<close> (\<open>Fifo\<close>): a bounded buffer whose content is a
  list; shown for the transmit ring of the UART (\<open>chan\<close>), on which the order of its bytes rests.
  \<open>reg_field\<close> and \<open>two_fields\<close> (\<open>Wbgen\<close>): a range of bits of a register, and two that do not overlap; shown
  for the field macros of the generated headers (\<open>rdr_data\<close>, \<open>rdr_count\<close>, \<open>emu_len\<close>, \<open>rdr\<close>).

  \<^bold>\<open>I2C master\<close> (\<open>i2c-ocores.c\<close>). \<open>I2c_Regs\<close>: \<open>struct ocores_i2c\<close> and the six families of accessors.
  \<open>I2c_Process\<close>: \<open>ocores_process\<close>, the state machine. \<open>I2c_Script\<close>: what a list of messages has to put on
  the bus, as a function of the messages alone. \<open>I2c_Xfer\<close>: the waits, the polling loop, the
  interrupt handler and the transfer functions. \<open>I2c_Transfer\<close>: each step of the state machine is the
  next command of the script, hence what a transfer does for any behaviour of the device; it
  ends, and its return value is true. \<open>I2c_Core\<close> has the core, \<open>i2c_master_top.vhd\<close>, and shows that it
  keeps the law of the interrupt flag by which polling ends. \<open>I2c_Concurrency\<close>: the handler against the
  waiting thread, as a step relation with every interleaving, in which the thread, which looks at
  the state without the lock, may do so between the final state and the last STOP; the invariant is
  by rule induction. \<open>I2c_Init\<close>: the prescaler and the enable sequence. \<open>I2c_Probe\<close>: multiplexer, configuration, \<open>probe\<close>, \<open>remove\<close>,
  \<open>suspend\<close>, \<open>resume\<close>. \<open>I2c_Compat\<close>: what the file brings along for kernels that lack a service (the
  multiplexer core, the managed interrupt), and where it differs from the service it replaces.

  \<^bold>\<open>UART\<close> (\<open>wb_uart.c\<close>). \<open>Uart_Channel\<close>: registers and the ring. \<open>Uart_Tty\<close>: the handler and the tty
  operations. \<open>Uart_Race\<close>: a writer against the handler, as a step relation; \<open>wbu_tty_write\<close> updates the
  control register after it has released the lock. What it assumes of that register is shown of the
  core. \<open>Uart_Hw\<close> has the core, \<open>wb_simple_uart.vhd\<close> with its
  FIFOs, one step per bus access with anything happening on the line in between, and shows that the
  bytes on the line are those of the terminal, in both directions, and that the interrupts of the
  core empty the ring. \<open>Uart_Life\<close> has the tables through which the kernel calls all of this, over any
  number of sessions, and what becomes of bytes left over by one. \<open>Uart_Probe\<close>: \<open>probe\<close> and \<open>remove\<close>.

  \<^bold>\<open>SPI master\<close> (\<open>spi-ocores.c\<close>). \<open>Spi_Regs\<close>: registers and the push and pop routines of every word size.
  \<open>Spi_Xfer\<close>: the word loop of a transfer, the interrupt handler and the polling loop. \<open>Spi_Data\<close> reads off a
  trace what the controller shifted out and in, and shows it for each routine; \<open>Spi_Order\<close> shows that no
  register is written, and no word read, while the controller shifts. \<open>Spi_Transfer\<close> has the
  invariant of a transfer in progress, \<open>Spi_Message\<close> the passage of a message's transfers, and
  \<open>Spi_Drive\<close> the two ways to drive it. \<open>Spi_Core\<close> has the core, \<open>spi_top.v\<close> with its shift register, one
  step per bus access with any number of bits shifted in between. \<open>Spi_Line\<close> turns the accesses of a
  transfer into the words on the line, and \<open>Spi_Hw\<close> shows that a message puts its bytes there, stores
  what comes back, and is brought to its end by the interrupts of the core alone. \<open>Spi_Limits\<close> has
  what happens outside of \<open>xfer_ok\<close>, \<open>Spi_Probe\<close> the exits of \<open>probe\<close>.

  \<^bold>\<open>HT-VIC\<close> (\<open>htvic.c\<close>, \<open>htvic.h\<close>, \<open>htvic_regs.h\<close>). \<open>Vic_Regs\<close>: registers and the interrupt chip.
  \<open>Vic_Irq\<close>: the domain, the draining of the controller, the handler. \<open>Vic_Debug\<close>: the debugfs files.
  \<open>Vic_Probe\<close>: \<open>probe\<close> and \<open>remove\<close>. \<open>Vic_Chip\<close>: the tables through which the kernel calls all of
  these, with a refinement of the interrupt chip to a set of enabled lines and a count of users.
  Because what these loops do depends on the controller, \<open>Vic_Hw\<close> has the
  core of \<open>wb_vic.vhd\<close>, one step per bus access, with the time it stays idle after an acknowledgement
  when it emulates edges, as the device of the theorems: \<open>Vic_Handler\<close> shows which lines are served,
  in which order, and when the loops end, \<open>Vic_Install\<close> what \<open>probe\<close> and \<open>remove\<close> leave in the core and in
  the kernel.

  \<^bold>\<open>LM32 programs.\<close> \<open>Msi_Irq\<close>: the dispatcher of \<open>irq.c\<close> and the control registers of the processor,
  against serving a line written out in accesses. \<open>Msi_Display\<close>: \<open>display.c\<close>. \<open>Msi_Demo\<close>: \<open>main.c\<close>, with
  its two interrupt routines, and what they may access. \<open>Msi_Core\<close>: the queues of \<open>wb_irq_slave.vhd\<close> and
  the pending register of \<open>lm32_interrupt.v\<close>, which latches a line for as long as it is raised, and
  what an interrupt prints and leaves pending on them. \<open>Msi_Preempt\<close>: the main loop as a step
  relation, one access to the display at a time, with interrupts taken between any two of them; the
  display is not in the repository, so it is any platform, and the theorem is about the accesses.
  \<open>Testsys\<close>: the serial port, pins and interrupts of the test system and \<open>genraminit.c\<close>, which turns a
  file into memory words.

  \<^bold>\<open>Loops, bounds and fuel.\<close> A loop over a device may never end, so it is a \<open>partial_function\<close> into
  \<open>option\<close>: \<open>wait_loop\<close>, \<open>ocores_process_polling\<close>, \<open>spi_wait_loop\<close>, \<open>spi_poll_loop\<close>,
  \<open>htvic_ack_pending\<close>, \<open>handler_loop\<close>, \<open>wait_tx\<close>; \<open>None\<close> is a run that does not return, and both that it
  returns and that it does not are theorems. The termination of the waits assumes \<open>clock_ok\<close>: the
  clock moves with every read of it, and no single access takes a quarter of the range of the
  counter. No operation takes fuel; \<open>process_n\<close> and the rounds of \<open>main_loop\<close> count interrupts
  and rounds of an endless loop, and the theorems hold for every count.

  \<^bold>\<open>What is assumed.\<close> The results of kernel services are fields of an environment record
  (\<open>i2c_env\<close>, \<open>spi_env\<close>, \<open>wbu_env\<close>, \<open>vic_env\<close>, \<open>tty_core\<close>), unconstrained but for the hypotheses a theorem states. The
  register header of the UART, which the build generates, is the parameter \<open>wbu_hw\<close>; \<open>Uart_Hw\<close> takes
  the layout from \<open>simple_uart_wb.wb\<close>. A function
  under a lock is one step; where code between two lock sections matters, or what another thread can
  see of it without the lock, it is split (\<open>Uart_Race\<close>, \<open>I2c_Concurrency\<close>). The bus errors that
  \<open>wb_irq_slave.vhd\<close> answers some reads with are no exceptions of the LM32 here.

  \<^bold>\<open>Not modelled.\<close> The gateware itself, in VHDL and Verilog, beyond the views of
  \<open>wb_vic.vhd\<close>, \<open>wb_simple_uart.vhd\<close>, \<open>spi_top.v\<close>, \<open>i2c_master_top.vhd\<close> and \<open>wb_irq_slave.vhd\<close> above: clocks, dividers and pins, and the reset. Text:
  the log messages, the contents of the debugfs files, the \<open>printf\<close> format of \<open>genraminit.c\<close>. The delay
  loops of the LM32 programs, which have no effect. Prototypes, include lines, module tables, and
  register structures that only name offsets.
\<close>

end
